(* ===== verification/Go_Prelude.thy ===== *)
theory Go_Prelude
  imports Main "HOL-Library.Word" "HOL-Library.Sublist"
begin

unbundle bit_operations_syntax

text \<open>
  The vocabulary every component of the development shares: Go's machine integers as words,
  Go's byte order helpers (package \<^verbatim>\<open>encoding/binary\<close>), lemmas on lists that several
  components need, and the lemma collections the component proofs use.

  Conventions. A Go \<^verbatim>\<open>string\<close> of the command line tool is a \<open>string\<close> (a list of \<open>char\<close>,
  and a \<open>char\<close> is one byte, as in Go); a \<^verbatim>\<open>[]byte\<close> of the ssh packages is a \<open>byte list\<close>.
  A Go \<^verbatim>\<open>int\<close> that counts is an \<open>int\<close> or a \<open>nat\<close>; a \<^verbatim>\<open>uint32\<close> is a \<open>u32\<close>. A pair
  \<^verbatim>\<open>(value, error)\<close> is a sum with the error on the left.
\<close>

named_theorems go_strings \<open>equations of the Go string library\<close>
named_theorems wire_simps \<open>equations of the ssh wire format\<close>
named_theorems inv_intros \<open>introduction rules of the component invariants\<close>

type_synonym byte = "8 word"
type_synonym u32 = "32 word"
type_synonym u64 = "64 word"
type_synonym rune = int

section \<open>Lists\<close>

lemma take_drop_update_split:
  "i < length xs \<Longrightarrow> xs[i := v] = take i xs @ v # drop (Suc i) xs"
  by (rule upd_conv_take_nth_drop)

lemma concat_map_singleton_filter:
  "concat (map (\<lambda>x. if P x then [x] else []) xs) = filter P xs"
  by (induction xs) auto

lemma drop_nth_Cons: "i < length xs \<Longrightarrow> drop i xs = xs ! i # drop (Suc i) xs"
  by (simp add: Cons_nth_drop_Suc)

lemma dropWhile_ConsD: "dropWhile P xs = y # ys \<Longrightarrow> \<not> P y"
  by (induction xs) (auto split: if_splits)

lemma in_takeWhileD: "y \<in> set (takeWhile P xs) \<Longrightarrow> P y"
  by (induction xs) (auto split: if_splits)

section \<open>Integers\<close>

text \<open>Go's division and remainder, which round towards zero.\<close>

definition go_quot :: "int \<Rightarrow> int \<Rightarrow> int" where
  "go_quot a b = sgn a * sgn b * (\<bar>a\<bar> div \<bar>b\<bar>)"

definition go_rem :: "int \<Rightarrow> int \<Rightarrow> int" where
  "go_rem a b = a - go_quot a b * b"

lemma go_quot_pos: "0 \<le> a \<Longrightarrow> 0 < b \<Longrightarrow> go_quot a b = a div b"
  by (cases "a = 0") (simp_all add: go_quot_def)

lemma go_rem_pos: "0 \<le> a \<Longrightarrow> 0 < b \<Longrightarrow> go_rem a b = a mod b"
  by (simp add: go_rem_def go_quot_pos minus_div_mult_eq_mod)

section \<open>Big-endian integers\<close>

definition putUint32 :: "u32 \<Rightarrow> byte list" where
  "putUint32 n = [ucast (drop_bit 24 n), ucast (drop_bit 16 n), ucast (drop_bit 8 n), ucast n]"

fun getUint32 :: "byte list \<Rightarrow> u32" where
  "getUint32 (a # b # c # d # _) =
     push_bit 24 (ucast a) OR push_bit 16 (ucast b) OR push_bit 8 (ucast c) OR ucast d"
| "getUint32 _ = 0"

definition putUint64 :: "u64 \<Rightarrow> byte list" where
  "putUint64 n =
     [ucast (drop_bit 56 n), ucast (drop_bit 48 n), ucast (drop_bit 40 n), ucast (drop_bit 32 n),
      ucast (drop_bit 24 n), ucast (drop_bit 16 n), ucast (drop_bit 8 n), ucast n]"

fun getUint64 :: "byte list \<Rightarrow> u64" where
  "getUint64 (a # b # c # d # e # f # g # h # _) =
     push_bit 56 (ucast a) OR push_bit 48 (ucast b) OR push_bit 40 (ucast c) OR
     push_bit 32 (ucast d) OR push_bit 24 (ucast e) OR push_bit 16 (ucast f) OR
     push_bit 8 (ucast g) OR ucast h"
| "getUint64 _ = 0"

lemma length_putUint32 [simp]: "length (putUint32 n) = 4"
  by (simp add: putUint32_def)

lemma length_putUint64 [simp]: "length (putUint64 n) = 8"
  by (simp add: putUint64_def)

lemma getUint32_putUint32 [simp, wire_simps]: "getUint32 (putUint32 n @ xs) = n"
proof (rule bit_word_eqI)
  fix i :: nat
  assume "i < LENGTH(32)"
  then consider "i < 8" | "8 \<le> i" "i < 16" | "16 \<le> i" "i < 24" | "24 \<le> i" "i < 32"
    by (simp, linarith)
  then show "bit (getUint32 (putUint32 n @ xs)) i = bit n i"
    by cases (simp_all add: putUint32_def bit_simps less_diff_conv2)
qed

lemma getUint64_putUint64 [simp, wire_simps]: "getUint64 (putUint64 n @ xs) = n"
proof (rule bit_word_eqI)
  fix i :: nat
  assume "i < LENGTH(64)"
  then consider "i < 8" | "8 \<le> i" "i < 16" | "16 \<le> i" "i < 24" | "24 \<le> i" "i < 32"
    | "32 \<le> i" "i < 40" | "40 \<le> i" "i < 48" | "48 \<le> i" "i < 56" | "56 \<le> i" "i < 64"
    by (simp, linarith)
  then show "bit (getUint64 (putUint64 n @ xs)) i = bit n i"
    by cases (simp_all add: putUint64_def bit_simps less_diff_conv2)
qed

end
