(* ===== verification/Go_Strings.thy ===== *)
theory Go_Strings
  imports Go_Prelude
begin

text \<open>
  The functions of Go's \<^verbatim>\<open>strings\<close>, \<^verbatim>\<open>bytes\<close> and \<^verbatim>\<open>strconv\<close> packages the program calls, on
  byte strings. Every separator the program passes to \<^verbatim>\<open>Split\<close> and \<^verbatim>\<open>SplitN\<close> is one byte long,
  and every pattern it passes to \<^verbatim>\<open>Replace\<close> and \<^verbatim>\<open>Contains\<close> is non-empty, so the functions are
  given for these. White space (\<^verbatim>\<open>TrimSpace\<close>, \<^verbatim>\<open>Fields\<close>) is Unicode's, recognised by the UTF-8
  encodings of the white space code points.
\<close>

section \<open>Splitting and joining\<close>

fun go_split :: "'a \<Rightarrow> 'a list \<Rightarrow> 'a list list" where
  "go_split s [] = [[]]"
| "go_split s (x # xs) =
     (if x = s then [] # go_split s xs
      else (case go_split s xs of [] \<Rightarrow> [[x]] | p # ps \<Rightarrow> (x # p) # ps))"

fun go_splitN :: "'a \<Rightarrow> nat \<Rightarrow> 'a list \<Rightarrow> 'a list list" where
  "go_splitN s 0 xs = []"
| "go_splitN s (Suc 0) xs = [xs]"
| "go_splitN s (Suc (Suc n)) xs =
     (case dropWhile (\<lambda>x. x \<noteq> s) xs of
        [] \<Rightarrow> [xs]
      | _ # rest \<Rightarrow> takeWhile (\<lambda>x. x \<noteq> s) xs # go_splitN s (Suc n) rest)"

fun go_join :: "'a list \<Rightarrow> 'a list list \<Rightarrow> 'a list" where
  "go_join sep [] = []"
| "go_join sep [x] = x"
| "go_join sep (x # xs) = x @ sep @ go_join sep xs"

lemma go_split_not_Nil [simp]: "go_split s xs \<noteq> []"
  by (induction xs) (auto split: list.splits)

lemma go_split_no_sep: "p \<in> set (go_split s xs) \<Longrightarrow> s \<notin> set p"
  by (induction xs arbitrary: p) (fastforce split: list.splits if_splits)+

lemma go_join_Cons: "xs \<noteq> [] \<Longrightarrow> go_join sep (x # xs) = x @ sep @ go_join sep xs"
  by (cases xs) auto

lemma go_join_Cons_Cons: "go_join sep ((x # p) # ps) = x # go_join sep (p # ps)"
  by (cases ps) auto

lemma go_join_split [go_strings]: "go_join [s] (go_split s xs) = xs"
proof (induction xs)
  case (Cons x xs)
  obtain p ps where "go_split s xs = p # ps"
    by (cases "go_split s xs") auto
  with Cons show ?case
    by (auto simp: go_join_Cons_Cons)
qed simp

lemma concat_go_split [go_strings]: "concat (go_split s xs) = filter (\<lambda>x. x \<noteq> s) xs"
  by (induction xs) (auto split: list.splits)

lemma go_split_append_no_sep:
  assumes "s \<notin> set p"
  shows "go_split s (p @ xs) =
    (case go_split s xs of [] \<Rightarrow> [p] | q # qs \<Rightarrow> (p @ q) # qs)"
  using assms
  by (induction p) (auto split: list.splits)

lemma go_split_single [simp]: "s \<notin> set p \<Longrightarrow> go_split s p = [p]"
  using go_split_append_no_sep [of s p "[]"] by simp

lemma go_split_append_sep [simp]:
  "s \<notin> set p \<Longrightarrow> go_split s (p @ s # xs) = p # go_split s xs"
  by (simp add: go_split_append_no_sep)

lemma go_split_join [go_strings]:
  assumes "ps \<noteq> []" and "\<forall>p \<in> set ps. s \<notin> set p"
  shows "go_split s (go_join [s] ps) = ps"
  using assms
proof (induction ps)
  case (Cons p ps)
  then show ?case by (cases ps) auto
qed simp

lemma go_split_sep_append: "go_split s (xs @ s # ys) = go_split s xs @ go_split s ys"
proof (induction xs)
  case (Cons x xs)
  then show ?case by (cases "go_split s xs") auto
qed simp

lemma length_go_split: "length (go_split s xs) = Suc (count_list xs s)"
  by (induction xs) (auto split: list.splits)

lemma go_splitN_length: "length (go_splitN s n xs) \<le> n"
  by (induction s n xs rule: go_splitN.induct) (auto split: list.splits)

lemma go_splitN_two:
  "s \<notin> set p \<Longrightarrow> go_splitN s 2 (p @ s # xs) = [p, xs]"
  by (simp add: numeral_2_eq_2 takeWhile_append2 dropWhile_append2)
     (simp add: takeWhile_append dropWhile_append)

section \<open>Searching and replacing\<close>

fun strings_Contains :: "'a list \<Rightarrow> 'a list \<Rightarrow> bool" where
  "strings_Contains [] sub = (sub = [])"
| "strings_Contains (c # s) sub = (prefix sub (c # s) \<or> strings_Contains s sub)"

text \<open>\<^verbatim>\<open>strings.Replace(s, old, new, n)\<close> for a non-empty \<open>old\<close>; a negative \<open>n\<close> replaces all.\<close>

function strings_Replace :: "string \<Rightarrow> string \<Rightarrow> string \<Rightarrow> int \<Rightarrow> string" where
  "strings_Replace s old new n =
     (if n = 0 \<or> old = [] then s
      else if prefix old s then new @ strings_Replace (drop (length old) s) old new (n - 1)
      else (case s of [] \<Rightarrow> [] | c # s' \<Rightarrow> c # strings_Replace s' old new n))"
  by pat_completeness auto
termination
  by (relation "measure (\<lambda>(s, old, new, n). length s)") (auto simp: prefix_def)

declare strings_Replace.simps [simp del]

lemma strings_Contains_iff: "strings_Contains s sub \<longleftrightarrow> (\<exists>a b. s = a @ sub @ b)"
proof (induction s)
  case (Cons c s)
  then show ?case
    by (auto simp: prefix_def Cons_eq_append_conv)
qed auto

text \<open>Replacing one byte by another everywhere is a map.\<close>

lemma strings_Replace_char:
  "n < 0 \<Longrightarrow> strings_Replace s [a] [b] n = map (\<lambda>c. if c = a then b else c) s"
proof (induction s arbitrary: n)
  case Nil
  then show ?case by (subst strings_Replace.simps) simp
next
  case (Cons c s)
  then have "strings_Replace s [a] [b] m = map (\<lambda>c. if c = a then b else c) s" if "m < 0" for m
    using that by blast
  with Cons.prems show ?case by (subst strings_Replace.simps) auto
qed

lemma strings_Replace_first:
  assumes "old \<noteq> []" and "s = a @ old @ b"
    and "\<forall>a' b'. s = a' @ old @ b' \<longrightarrow> length a \<le> length a'"
  shows "strings_Replace s old new 1 = a @ new @ b"
  using assms
proof (induction a arbitrary: s)
  case Nil
  then show ?case
    by (subst strings_Replace.simps) (simp add: strings_Replace.simps [of _ _ _ 0])
next
  case (Cons c a)
  let ?s' = "a @ old @ b"
  have first: "\<forall>a' b'. ?s' = a' @ old @ b' \<longrightarrow> length a \<le> length a'"
    using Cons.prems(3) unfolding Cons.prems(2)
    by (metis Suc_le_mono append_Cons length_Cons)
  have "\<not> prefix old s"
    using Cons.prems(3) by (metis append_Nil length_0_conv le_zero_eq list.distinct(1) prefixE)
  then have "strings_Replace s old new 1 = c # strings_Replace ?s' old new 1"
    using Cons.prems(1,2) by (subst strings_Replace.simps) simp
  also have "strings_Replace ?s' old new 1 = a @ new @ b"
    using Cons.prems(1) first by (intro Cons.IH) auto
  finally show ?case by simp
qed

lemma strings_Replace_absent:
  "\<not> strings_Contains s old \<Longrightarrow> strings_Replace s old new n = s"
proof (induction s)
  case Nil
  then show ?case by (subst strings_Replace.simps) simp
next
  case (Cons c s)
  then show ?case by (subst strings_Replace.simps) simp
qed

section \<open>White space\<close>

text \<open>The UTF-8 encodings of the code points \<^verbatim>\<open>unicode.IsSpace\<close> accepts.\<close>

definition space_encodings :: "string list" where
  "space_encodings =
     [[CHR 0x09], [CHR 0x0A], [CHR 0x0B], [CHR 0x0C], [CHR 0x0D], [CHR 0x20],
      [CHR 0xC2, CHR 0x85], [CHR 0xC2, CHR 0xA0], [CHR 0xE1, CHR 0x9A, CHR 0x80],
      [CHR 0xE2, CHR 0x80, CHR 0x80], [CHR 0xE2, CHR 0x80, CHR 0x81],
      [CHR 0xE2, CHR 0x80, CHR 0x82], [CHR 0xE2, CHR 0x80, CHR 0x83],
      [CHR 0xE2, CHR 0x80, CHR 0x84], [CHR 0xE2, CHR 0x80, CHR 0x85],
      [CHR 0xE2, CHR 0x80, CHR 0x86], [CHR 0xE2, CHR 0x80, CHR 0x87],
      [CHR 0xE2, CHR 0x80, CHR 0x88], [CHR 0xE2, CHR 0x80, CHR 0x89],
      [CHR 0xE2, CHR 0x80, CHR 0x8A], [CHR 0xE2, CHR 0x80, CHR 0xA8],
      [CHR 0xE2, CHR 0x80, CHR 0xA9], [CHR 0xE2, CHR 0x80, CHR 0xAF],
      [CHR 0xE2, CHR 0x81, CHR 0x9F], [CHR 0xE3, CHR 0x80, CHR 0x80]]"

definition space_prefix :: "string \<Rightarrow> nat" where
  "space_prefix s = (case filter (\<lambda>e. prefix e s) space_encodings of [] \<Rightarrow> 0 | e # _ \<Rightarrow> length e)"

definition space_suffix :: "string \<Rightarrow> nat" where
  "space_suffix s = (case filter (\<lambda>e. suffix e s) space_encodings of [] \<Rightarrow> 0 | e # _ \<Rightarrow> length e)"

function trim_left :: "string \<Rightarrow> string" where
  "trim_left s = (if space_prefix s = 0 \<or> s = [] then s else trim_left (drop (space_prefix s) s))"
  by pat_completeness auto
termination
  by (relation "measure length") auto

function trim_right :: "string \<Rightarrow> string" where
  "trim_right s =
     (if space_suffix s = 0 \<or> s = [] then s
      else trim_right (take (length s - space_suffix s) s))"
  by pat_completeness auto
termination
  by (relation "measure length") auto

declare trim_left.simps [simp del] trim_right.simps [simp del]

definition strings_TrimSpace :: "string \<Rightarrow> string" where
  "strings_TrimSpace s = trim_right (trim_left s)"

text \<open>\<^verbatim>\<open>strings.Fields\<close>: the maximal runs of bytes that belong to no white space code point.\<close>

function fields_aux :: "string \<Rightarrow> string \<Rightarrow> string list" where
  "fields_aux acc s =
     (case s of
        [] \<Rightarrow> (if acc = [] then [] else [rev acc])
      | c # s' \<Rightarrow>
          (if space_prefix s = 0 then fields_aux (c # acc) s'
           else (if acc = [] then [] else [rev acc]) @ fields_aux [] (drop (space_prefix s) s)))"
  by pat_completeness auto
termination
  by (relation "measure (\<lambda>(acc, s). length s)") auto

declare fields_aux.simps [simp del]

definition strings_Fields :: "string \<Rightarrow> string list" where
  "strings_Fields s = fields_aux [] s"

lemma trim_left_suffix: "suffix (trim_left s) s"
proof (induction s rule: trim_left.induct)
  case (1 s)
  show ?case
  proof (cases "space_prefix s = 0 \<or> s = []")
    case True
    then show ?thesis by (subst trim_left.simps) simp
  next
    case False
    then show ?thesis
      using "1.IH" by (subst trim_left.simps) (auto intro: suffix_order.trans suffix_drop)
  qed
qed

lemma trim_right_prefix: "prefix (trim_right s) s"
proof (induction s rule: trim_right.induct)
  case (1 s)
  show ?case
  proof (cases "space_suffix s = 0 \<or> s = []")
    case True
    then show ?thesis by (subst trim_right.simps) simp
  next
    case False
    then show ?thesis
      using "1.IH" by (subst trim_right.simps) (auto intro: prefix_order.trans take_is_prefix)
  qed
qed

lemma set_TrimSpace: "set (strings_TrimSpace s) \<subseteq> set s"
  unfolding strings_TrimSpace_def
  by (meson order_trans set_mono_prefix set_mono_suffix trim_left_suffix trim_right_prefix)

lemma TrimSpace_idem:
  "space_prefix s = 0 \<Longrightarrow> space_suffix s = 0 \<Longrightarrow> strings_TrimSpace s = s"
  by (simp add: strings_TrimSpace_def trim_left.simps [of s] trim_right.simps [of s])

lemma space_suffix_trim_right: "trim_right s = [] \<or> space_suffix (trim_right s) = 0"
proof (induction s rule: trim_right.induct)
  case (1 s)
  show ?case
  proof (cases "space_suffix s = 0 \<or> s = []")
    case True
    then have "trim_right s = s" by (subst trim_right.simps) simp
    with True show ?thesis by auto
  next
    case False
    then have "trim_right s = trim_right (take (length s - space_suffix s) s)"
      by (subst trim_right.simps) simp
    with "1.IH" [OF False] show ?thesis by simp
  qed
qed

section \<open>Decimal printing\<close>

definition digit_char :: "nat \<Rightarrow> char" where
  "digit_char n = ''0123456789'' ! n"

fun show_nat :: "nat \<Rightarrow> string" where
  "show_nat n = (if n < 10 then [digit_char n] else show_nat (n div 10) @ [digit_char (n mod 10)])"

declare show_nat.simps [simp del]

definition go_itoa :: "int \<Rightarrow> string" where
  "go_itoa i = (if i < 0 then CHR ''-'' # show_nat (nat (- i)) else show_nat (nat i))"

lemma digit_char_range: "n < 10 \<Longrightarrow> digit_char n \<in> set ''0123456789''"
  unfolding digit_char_def by (rule nth_mem) simp

lemma set_show_nat: "set (show_nat n) \<subseteq> set ''0123456789''"
proof (induction n rule: show_nat.induct)
  case (1 n)
  show ?case
  proof (cases "n < 10")
    case True
    then have "show_nat n = [digit_char n]" by (subst show_nat.simps) simp
    with digit_char_range [OF True] show ?thesis by (simp only: list.set insert_subset) blast
  next
    case False
    then have "set (show_nat (n div 10)) \<subseteq> set ''0123456789''" using 1 by blast
    moreover have "digit_char (n mod 10) \<in> set ''0123456789''"
      by (rule digit_char_range) simp
    moreover have "show_nat n = show_nat (n div 10) @ [digit_char (n mod 10)]"
      using False by (subst show_nat.simps) simp
    ultimately show ?thesis by (simp only: set_append list.set Un_subset_iff insert_subset) blast
  qed
qed

lemma set_go_itoa: "set (go_itoa i) \<subseteq> set ''-0123456789''"
proof -
  have "set (show_nat n) \<subseteq> set ''-0123456789''" for n
    by (rule order_trans [OF set_show_nat]) auto
  then show ?thesis
    unfolding go_itoa_def by (cases "i < 0") (simp_all only: if_True if_False, auto)
qed

end
