(* ===== verification/Host_Config.thy ===== *)
theory Host_Config
  imports Go_Strings
begin

text \<open>
  The option parsers of \<^verbatim>\<open>src/hlp.go\<close>: \<^verbatim>\<open>parseHostsFromString\<close>, which turns a host file, a
  \<^verbatim>\<open>-h\<close> argument or standard input into the list of hosts, and \<^verbatim>\<open>parseData\<close>, which turns the
  \<^verbatim>\<open>-d name=value\<close> options into the dictionary of the command template. Each is compared with
  a reference definition: the tokenizer \<open>tokens\<close> and the association list of the
  well-formed options, of which the last one wins.
\<close>

section \<open>Hosts\<close>

definition parseHostsFromString :: "string \<Rightarrow> string list" where
  "parseHostsFromString text0 =
     (let text1 = strings_Replace text0 [CHR 0x0A] '' '' (-1);
          text2 = strings_Replace text1 [CHR 0x09] '' '' (-1);
          text3 = strings_Replace text2 '','' '' '' (-1);
          raw = go_split (CHR '' '') text3
      in filter (\<lambda>h. h \<noteq> '' '' \<and> h \<noteq> []) raw)"

definition host_sep :: "char \<Rightarrow> bool" where
  "host_sep c \<longleftrightarrow> c = CHR 0x0A \<or> c = CHR 0x09 \<or> c = CHR '','' \<or> c = CHR '' ''"

text \<open>The reference tokenizer: the maximal runs of elements that do not satisfy \<open>P\<close>.\<close>

function tokens :: "('a \<Rightarrow> bool) \<Rightarrow> 'a list \<Rightarrow> 'a list list" where
  "tokens P [] = []"
| "tokens P (x # xs) =
     (if P x then tokens P xs
      else (x # takeWhile (\<lambda>y. \<not> P y) xs) # tokens P (dropWhile (\<lambda>y. \<not> P y) xs))"
  by pat_completeness auto
termination
  by (relation "measure (\<lambda>(P, xs). length xs)") (auto simp: less_Suc_eq_le length_dropWhile_le)

lemma list_all_takeWhile: "list_all P (takeWhile P xs)"
  by (induction xs) auto

lemma tokens_nonempty: "list_all (\<lambda>t. t \<noteq> [] \<and> list_all (\<lambda>x. \<not> P x) t) (tokens P xs)"
  by (induction P xs rule: tokens.induct) (auto simp: list_all_takeWhile)

lemma tokens_all_dropWhile: "\<forall>x \<in> set xs. \<not> P x \<Longrightarrow> tokens P (dropWhile (\<lambda>y. \<not> P y) xs) = []"
  by (induction xs) auto

lemma tokens_skip: "\<forall>x \<in> set ys. P x \<Longrightarrow> tokens P (ys @ xs) = tokens P xs"
  by (induction ys) auto

lemma tokens_run:
  assumes "t \<noteq> []" and "\<forall>x \<in> set t. \<not> P x" and "xs = [] \<or> P (hd xs)"
  shows "tokens P (t @ xs) = t # tokens P xs"
  using assms
  by (cases t; cases xs) (auto simp: takeWhile_append2 dropWhile_append2 takeWhile_eq_all_conv tokens_all_dropWhile)

text \<open>Splitting at one separator and dropping the empty parts is tokenizing.\<close>

lemma filter_go_split_tokens:
  "filter (\<lambda>h. h \<noteq> []) (go_split s xs) = tokens (\<lambda>x. x = s) xs"
proof (induction "\<lambda>x. x = s" xs rule: tokens.induct)
  case (2 x xs)
  show ?case
  proof (cases "x = s")
    case True
    with 2 show ?thesis by simp
  next
    case False
    let ?t = "takeWhile (\<lambda>y. y \<noteq> s) xs" and ?r = "dropWhile (\<lambda>y. y \<noteq> s) xs"
    have ns: "s \<notin> set (x # ?t)" using False by (auto dest: in_takeWhileD)
    have eq: "x # xs = (x # ?t) @ ?r" by simp
    show ?thesis
    proof (cases ?r)
      case Nil
      then have "go_split s (x # xs) = [x # ?t]"
        using ns eq by (metis append_Nil2 go_split_single)
      then show ?thesis using False Nil by (simp del: go_split.simps dropWhile_eq_Nil_conv)
    next
      case (Cons y r)
      then have "y = s" by (auto dest: dropWhile_ConsD)
      then have "go_split s (x # xs) = (x # ?t) # go_split s r"
        using ns eq Cons by (metis go_split_append_sep)
      moreover have "filter (\<lambda>h. h \<noteq> []) (go_split s ?r) = filter (\<lambda>h. h \<noteq> []) (go_split s r)"
        using Cons \<open>y = s\<close> by simp
      ultimately show ?thesis using False 2 Cons by simp
    qed
  qed
qed simp

lemma tokens_map:
  assumes "\<And>x. P (f x) \<longleftrightarrow> Q x" and "\<And>x. \<not> Q x \<Longrightarrow> f x = x"
  shows "tokens P (map f xs) = tokens Q xs"
  using assms
proof (induction Q xs rule: tokens.induct)
  case (2 Q x xs)
  have "takeWhile (\<lambda>y. \<not> P y) (map f ys) = takeWhile (\<lambda>y. \<not> Q y) ys" for ys
    using "2.prems" by (induction ys) auto
  moreover have "dropWhile (\<lambda>y. \<not> P y) (map f ys) = map f (dropWhile (\<lambda>y. \<not> Q y) ys)" for ys
    using "2.prems" by (induction ys) auto
  ultimately show ?case using 2 by auto
qed simp

lemma parseHosts_eq_tokens: "parseHostsFromString text0 = tokens host_sep text0"
proof -
  let ?f = "\<lambda>c. if c = CHR 0x0A \<or> c = CHR 0x09 \<or> c = CHR '','' then CHR '' '' else c"
  have "strings_Replace (strings_Replace (strings_Replace text0 [CHR 0x0A] '' '' (-1))
          [CHR 0x09] '' '' (-1)) '','' '' '' (-1) = map ?f text0"
    by (simp add: strings_Replace_char)
  then have "parseHostsFromString text0
      = filter (\<lambda>h. h \<noteq> '' '' \<and> h \<noteq> []) (go_split (CHR '' '') (map ?f text0))"
    by (simp add: parseHostsFromString_def)
  also have "\<dots> = filter (\<lambda>h. h \<noteq> []) (go_split (CHR '' '') (map ?f text0))"
    by (rule filter_cong [OF refl]) (auto dest: go_split_no_sep)
  also have "\<dots> = tokens (\<lambda>x. x = CHR '' '') (map ?f text0)"
    by (rule filter_go_split_tokens)
  also have "\<dots> = tokens host_sep text0"
    by (rule tokens_map) (auto simp: host_sep_def)
  finally show ?thesis .
qed

lemma tokens_join:
  assumes "\<forall>h \<in> set hs. h \<noteq> [] \<and> (\<forall>c \<in> set h. \<not> P c)"
    and "sep \<noteq> []" and "\<forall>c \<in> set sep. P c" and "\<forall>c \<in> set post. P c"
  shows "tokens P (go_join sep hs @ post) = hs"
  using assms(1)
proof (induction hs)
  case Nil
  then show ?case using tokens_skip [of post P "[]"] assms(4) by simp
next
  case (Cons h hs)
  have h: "h \<noteq> []" "\<forall>c \<in> set h. \<not> P c" using Cons.prems by auto
  have IH: "tokens P (go_join sep hs @ post) = hs" using Cons by simp
  show ?case
  proof (cases "hs = []")
    case True
    have "post = [] \<or> P (hd post)" using assms(4) by (cases post) auto
    then have "tokens P (h @ post) = h # tokens P post" by (rule tokens_run [OF h])
    with True IH show ?thesis by simp
  next
    case False
    have "P (hd (sep @ go_join sep hs @ post))" using assms(2,3) by (cases sep) auto
    then have "tokens P (h @ sep @ go_join sep hs @ post) = h # tokens P (sep @ go_join sep hs @ post)"
      using h by (intro tokens_run) auto
    also have "\<dots> = h # hs" using IH assms(3) by (simp add: tokens_skip)
    finally show ?thesis using False by (simp add: go_join_Cons)
  qed
qed

text \<open>
  C36. The hosts parsed from a text are exactly the maximal runs of characters that are not a
  newline, a tab, a comma or a space, in the order of the text: no host is empty, none
  contains a separator, and no character of a host name is lost.
\<close>

theorem parseHosts_tokens:
  "parseHostsFromString text0 = tokens host_sep text0
   \<and> list_all (\<lambda>h. h \<noteq> [] \<and> list_all (\<lambda>c. \<not> host_sep c) h) (parseHostsFromString text0)
   \<and> concat (parseHostsFromString text0) = filter (\<lambda>c. \<not> host_sep c) text0"
proof -
  have "concat (tokens P xs) = filter (\<lambda>c. \<not> P c) xs" for P and xs :: string
  proof (induction P xs rule: tokens.induct)
    case (2 P x xs)
    have "filter (\<lambda>c. \<not> P c) xs
        = takeWhile (\<lambda>y. \<not> P y) xs @ filter (\<lambda>c. \<not> P c) (dropWhile (\<lambda>y. \<not> P y) xs)"
      by (induction xs) auto
    with 2 show ?case by auto
  qed simp
  then show ?thesis
    by (simp add: parseHosts_eq_tokens tokens_nonempty)
qed

text \<open>
  Round trip: host names written with any separators between them (a non-empty sequence
  of newlines, tabs, commas and spaces), before them and after them are parsed back as they
  were, so one host per line, a comma separated list and their mixtures all denote the same
  hosts.
\<close>

theorem parseHosts_roundtrip:
  assumes "\<forall>h \<in> set hs. h \<noteq> [] \<and> (\<forall>c \<in> set h. \<not> host_sep c)"
    and "sep \<noteq> []" and "\<forall>c \<in> set sep. host_sep c"
    and "\<forall>c \<in> set pre. host_sep c" and "\<forall>c \<in> set post. host_sep c"
  shows "parseHostsFromString (pre @ go_join sep hs @ post) = hs"
  using assms by (simp add: parseHosts_eq_tokens tokens_skip tokens_join)

theorem parseHosts_roundtrip_witness:
  "parseHostsFromString ('' '' @ go_join '', '' [''host1'', ''10.0.0.2''] @ [CHR 0x0A])
     = [''host1'', ''10.0.0.2'']"
  by (rule parseHosts_roundtrip) (simp_all add: host_sep_def)

section \<open>Template data\<close>

definition parseData_step :: "(string \<rightharpoonup> string) \<Rightarrow> string \<Rightarrow> (string \<rightharpoonup> string)" where
  "parseData_step kv data0 =
     (let data = strings_TrimSpace data0
      in if data = [] \<or> \<not> strings_Contains data ''='' then kv
         else let arr = go_splitN (CHR ''='') 2 data in kv(arr ! 0 \<mapsto> arr ! 1))"

definition parseData :: "string list \<Rightarrow> (string \<rightharpoonup> string)" where
  "parseData datas = foldl parseData_step Map.empty datas"

text \<open>The pair a \<^verbatim>\<open>-d\<close> argument stands for, if it has the form \<^verbatim>\<open>name=value\<close>.\<close>

definition data_pair :: "string \<Rightarrow> (string \<times> string) option" where
  "data_pair d =
     (let t = strings_TrimSpace d
      in if CHR ''='' \<in> set t
         then Some (takeWhile (\<lambda>c. c \<noteq> CHR ''='') t, tl (dropWhile (\<lambda>c. c \<noteq> CHR ''='') t))
         else None)"

definition data_pairs :: "string list \<Rightarrow> (string \<times> string) list" where
  "data_pairs ds = List.map_filter data_pair ds"

lemma contains_char: "strings_Contains s [c] \<longleftrightarrow> c \<in> set s"
  by (auto simp: strings_Contains_iff in_set_conv_decomp)

lemma parseData_step_pair:
  "parseData_step kv d = (case data_pair d of None \<Rightarrow> kv | Some (k, v) \<Rightarrow> kv(k \<mapsto> v))"
proof (cases "CHR ''='' \<in> set (strings_TrimSpace d)")
  case True
  let ?t = "strings_TrimSpace d"
  let ?k = "takeWhile (\<lambda>c. c \<noteq> CHR ''='') ?t" and ?r = "dropWhile (\<lambda>c. c \<noteq> CHR ''='') ?t"
  have "?r \<noteq> []" using True by (simp add: dropWhile_eq_Nil_conv)
  then obtain v where r: "?r = CHR ''='' # v"
    by (cases ?r) (auto dest: dropWhile_ConsD)
  have nk: "CHR ''='' \<notin> set ?k" by (auto dest: in_takeWhileD)
  have "?t = ?k @ CHR ''='' # v" using r by (metis takeWhile_dropWhile_id)
  with go_splitN_two [OF nk, of v] have "go_splitN (CHR ''='') 2 ?t = [?k, v]" by simp
  with True r show ?thesis
    by (auto simp: parseData_step_def data_pair_def contains_char Let_def)
next
  case False
  then show ?thesis
    by (simp add: parseData_step_def data_pair_def contains_char Let_def)
qed

text \<open>
  The template dictionary built from the \<^verbatim>\<open>-d\<close> options holds exactly the options that
  contain an equals sign once white space around them is cut: the name is what stands before
  the first equals sign, the value all that follows it, and of several options with one name
  the last one wins.
\<close>

theorem parseData_last_wins: "parseData ds = map_of (rev (data_pairs ds))"
proof (induction ds rule: rev_induct)
  case Nil
  then show ?case by (simp add: parseData_def data_pairs_def List.map_filter_def)
next
  case (snoc d ds)
  have "data_pairs (ds @ [d]) = data_pairs ds @ (case data_pair d of None \<Rightarrow> [] | Some p \<Rightarrow> [p])"
    by (simp add: data_pairs_def List.map_filter_def split: option.splits)
  moreover have "parseData (ds @ [d]) = parseData_step (parseData ds) d"
    by (simp add: parseData_def)
  ultimately show ?case
    using snoc by (auto simp: parseData_step_pair split: option.splits)
qed

end
