(* ===== verification/Batch_Task.thy ===== *)
theory Batch_Task
  imports Go_Strings
begin

text \<open>
  One task on one host, \<^verbatim>\<open>src/batch/ssh.go\<close>. A task's run is the list of the effects it has, in
  order: connections it dials and closes, what it writes to its two writers, the command it
  runs, and the \<^verbatim>\<open>Done\<close> on its wait group. What the network and the remote host answer is the
  argument \<open>world\<close>; deferred calls come last, in the reverse of their order.
\<close>

section \<open>Tasks\<close>

record Task =
  User :: string
  Password :: string
  Port :: string
  Keyfile :: string
  Cmd :: string
  Host :: string
  Timeout :: int

definition NewTask :: "string \<Rightarrow> string \<Rightarrow> string \<Rightarrow> string \<Rightarrow> string \<Rightarrow> string \<Rightarrow> Task" where
  "NewTask host user password keyfile cmd port =
     \<lparr>User = user, Password = password, Port = (if port = [] then ''22'' else port), Keyfile = keyfile,
      Cmd = cmd, Host = host, Timeout = 5\<rparr>"

text \<open>\<^verbatim>\<open>ssh.Password\<close> and \<^verbatim>\<open>ssh.PublicKeys\<close> (the signer a key file was parsed to).\<close>

datatype AuthMethod = AuthPassword string | AuthPublicKeys string

record ClientConfig =
  cfg_User :: string
  cfg_Auth :: "AuthMethod list"

record world =
  readKey :: "string \<Rightarrow> string option"
  dial :: "nat \<Rightarrow> string \<Rightarrow> ClientConfig \<Rightarrow> string option"
  newSession :: "string \<Rightarrow> string option"
  runCmd :: "string \<Rightarrow> string \<Rightarrow> string list"

datatype effect =
  EvDial string ClientConfig
| EvErrout string
| EvRun string
| EvOutput string
| EvSessionClose
| EvConnClose
| EvDone

text \<open>\<^verbatim>\<open>fmt.Fprintln\<close> of strings: separated by blanks, a newline at the end.\<close>

definition Fprintln :: "string list \<Rightarrow> string" where
  "Fprintln xs = go_join '' '' xs @ [CHR 0x0A]"

definition auths :: "world \<Rightarrow> Task \<Rightarrow> AuthMethod list" where
  "auths w t =
     AuthPassword (Password t) #
     (if Keyfile t \<noteq> []
      then (case readKey w (Keyfile t) of None \<Rightarrow> [] | Some key \<Rightarrow> [AuthPublicKeys key])
      else [])"

definition retry_error :: string where
  "retry_error = ''unable to authenticate, attempted methods [none publickey]''"

definition address :: "Task \<Rightarrow> string" where
  "address t = Host t @ '':'' @ Port t"

definition connect_failed :: "string \<Rightarrow> effect list" where
  "connect_failed err = [EvErrout (Fprintln [''unable to connect: '', err])]"

text \<open>What happens on a connection: the rest of \<^verbatim>\<open>Work\<close> after the dialing, up to its deferred calls.\<close>

definition on_conn :: "world \<Rightarrow> Task \<Rightarrow> effect list" where
  "on_conn w t =
     (case newSession w (address t) of
        Some err \<Rightarrow> [EvErrout (Fprintln [''Failed to create session: '' @ err])]
      | None \<Rightarrow> EvRun (Cmd t) # map EvOutput (runCmd w (address t) (Cmd t)) @ [EvSessionClose]) @ [EvConnClose]"

definition first_config :: "world \<Rightarrow> Task \<Rightarrow> ClientConfig" where
  "first_config w t = \<lparr>cfg_User = User t, cfg_Auth = auths w t\<rparr>"

definition retry_config :: "Task \<Rightarrow> ClientConfig" where
  "retry_config t = \<lparr>cfg_User = User t, cfg_Auth = [AuthPassword (Password t)]\<rparr>"

definition Work :: "world \<Rightarrow> Task \<Rightarrow> effect list" where
  "Work w t =
     EvDial (address t) (first_config w t) #
     (case dial w 0 (address t) (first_config w t) of
        None \<Rightarrow> on_conn w t
      | Some err \<Rightarrow>
          if Password t \<noteq> [] \<and> strings_Contains err retry_error then
            EvDial (address t) (retry_config t) #
            (case dial w 1 (address t) (retry_config t) of
               None \<Rightarrow> on_conn w t
             | Some err' \<Rightarrow> connect_failed err')
          else connect_failed err) @ [EvDone]"

section \<open>Interactive sessions\<close>

datatype login_effect =
  LogDial string ClientConfig | LogErrout string | LogPty string int int "(string \<times> nat) list" | LogShell
| LogStdin string | LogSignal string | LogStdout string | LogSessionClose | LogConnClose

datatype login_input = InLine string | InInterrupt

record login_world =
  lw_world :: world
  requestPty :: "string option"
  startShell :: "string option"
  user_input :: "login_input list"

definition login_modes :: "(string \<times> nat) list" where
  "login_modes = [(''ECHO'', 0), (''TTY_OP_ISPEED'', 14400), (''TTY_OP_OSPEED'', 14400)]"

text \<open>
  The two goroutines of a running shell: lines of standard input go to the remote shell, an
  interrupt goes there as a signal. \<open>user_input\<close> has them in the order they happen; the loop
  ends at the end of the input.
\<close>

fun login_loop :: "login_input list \<Rightarrow> login_effect list" where
  "login_loop [] = []"
| "login_loop (InLine l # ins) = LogStdin (l @ [CHR 0x0A]) # login_loop ins"
| "login_loop (InInterrupt # ins) = LogSignal ''INT'' # LogStdout [CHR 0x0A] # login_loop ins"

definition Login :: "login_world \<Rightarrow> Task \<Rightarrow> login_effect list" where
  "Login lw t =
     (let w = lw_world lw
      in LogDial (address t) (first_config w t) #
         (case dial w 0 (address t) (first_config w t) of
            Some err \<Rightarrow> [LogErrout (Fprintln [''unable to connect: '', err])]
          | None \<Rightarrow>
              (case newSession w (address t) of
                 Some err \<Rightarrow> [LogErrout (Fprintln [''Failed to create session: '' @ err])]
               | None \<Rightarrow>
                   LogPty ''xterm'' 80 200 login_modes #
                   (case requestPty lw of
                      Some err \<Rightarrow> [LogErrout (Fprintln [''request for pseudo terminal failed: '', err])]
                    | None \<Rightarrow>
                        LogShell #
                        (case startShell lw of
                           Some err \<Rightarrow> [LogErrout (Fprintln [''failed to start shell: '', err])]
                         | None \<Rightarrow> login_loop (user_input lw))) @ [LogSessionClose]) @ [LogConnClose]))"

text \<open>The command line of \<^verbatim>\<open>SysLogin\<close>, and what it does with the error of running it.\<close>

definition SysLogin_args :: "Task \<Rightarrow> string list" where
  "SysLogin_args t =
     strings_Fields (''ssh '' @ User t @ ''@'' @ Host t @ (if Keyfile t \<noteq> [] then '' -i '' @ Keyfile t else []))"

definition SysLogin :: "(string list \<Rightarrow> string option) \<Rightarrow> Task \<Rightarrow> string list \<times> effect list" where
  "SysLogin exec t =
     (SysLogin_args t,
      (case exec (SysLogin_args t) of None \<Rightarrow> [] | Some err \<Rightarrow> [EvErrout (Fprintln [err])]) @ [EvDone])"

section \<open>What a run of a task is made of\<close>

definition is_run :: "effect \<Rightarrow> bool" where
  "is_run e = (case e of EvRun _ \<Rightarrow> True | _ \<Rightarrow> False)"

text \<open>What goes to the task's two writers, write by write.\<close>

fun outputs :: "effect list \<Rightarrow> string list" where
  "outputs [] = []"
| "outputs (e # es) = (case e of EvOutput s \<Rightarrow> s # outputs es | _ \<Rightarrow> outputs es)"

fun errouts :: "effect list \<Rightarrow> string list" where
  "errouts [] = []"
| "errouts (e # es) = (case e of EvErrout s \<Rightarrow> s # errouts es | _ \<Rightarrow> errouts es)"

fun dials :: "effect list \<Rightarrow> (string \<times> ClientConfig) list" where
  "dials [] = []"
| "dials (e # es) = (case e of EvDial a c \<Rightarrow> (a, c) # dials es | _ \<Rightarrow> dials es)"

lemma outputs_append [simp]: "outputs (xs @ ys) = outputs xs @ outputs ys"
  by (induction xs) (auto split: effect.splits)

lemma errouts_append [simp]: "errouts (xs @ ys) = errouts xs @ errouts ys"
  by (induction xs) (auto split: effect.splits)

lemma dials_append [simp]: "dials (xs @ ys) = dials xs @ dials ys"
  by (induction xs) (auto split: effect.splits)

lemma outputs_map [simp]:
  "outputs (map EvOutput xs) = xs" "errouts (map EvOutput xs) = []" "dials (map EvOutput xs) = []"
  "filter is_run (map EvOutput xs) = []"
  by (induction xs) (auto simp: is_run_def)

lemma on_conn_kinds:
  "dials (on_conn w t) = []" "EvDone \<notin> set (on_conn w t)" "EvConnClose \<in> set (on_conn w t)"
  "on_conn w t \<noteq> []" "last (on_conn w t) = EvConnClose"
  "length (filter is_run (on_conn w t)) + length (errouts (on_conn w t)) = 1"
  by (auto simp: on_conn_def is_run_def split: option.splits)

lemma connect_failed_kinds:
  "dials (connect_failed e) = []" "EvDone \<notin> set (connect_failed e)" "EvConnClose \<notin> set (connect_failed e)"
  "connect_failed e \<noteq> []" "filter is_run (connect_failed e) = []" "length (errouts (connect_failed e)) = 1"
  by (auto simp: connect_failed_def is_run_def)


end
