(* ===== verification/Command_Format.thy ===== *)
theory Command_Format
  imports Go_Strings
begin

text \<open>
  How a command is dressed up for the remote shell, \<^verbatim>\<open>src/util/helper.go\<close>: \<^verbatim>\<open>format_cmd\<close>, which ships a
  script in a here-document, and \<^verbatim>\<open>BuildinCmd.Get\<close>, the built-in command that installs a public
  key. The two readings of the clock are arguments: \<open>millis\<close> makes the delimiter of the
  here-document, \<open>nanos\<close> the name of the remote script file.
\<close>

section \<open>Definitions\<close>

abbreviation newline :: char where
  "newline \<equiv> CHR 0x0A"

definition AuthCmdFile :: string where
  "AuthCmdFile = ''@auth.cmd''"

definition eofStr :: "int \<Rightarrow> string" where
  "eofStr millis = ''E'' @ go_itoa millis @ ''OF''"

definition script_file :: "int \<Rightarrow> string" where
  "script_file nanos = ''/tmp/sesh-'' @ go_itoa nanos"

text \<open>\<^verbatim>\<open>Buffer.ReadString\<close>: up to and including the first newline, or everything.\<close>

definition ReadString :: "char \<Rightarrow> string \<Rightarrow> string" where
  "ReadString d s =
     (case dropWhile (\<lambda>c. c \<noteq> d) s of
        [] \<Rightarrow> s | x # _ \<Rightarrow> takeWhile (\<lambda>c. c \<noteq> d) s @ [x])"

definition TrimRight_char :: "string \<Rightarrow> char \<Rightarrow> string" where
  "TrimRight_char s d = rev (dropWhile (\<lambda>c. c = d) (rev s))"

definition exec_args :: "string \<Rightarrow> string \<Rightarrow> string" where
  "exec_args tmp args =
     (if strings_Contains args ''{}'' then strings_Replace args ''{}'' tmp 1
      else tmp @ '' '' @ args)"

definition format_cmd :: "int \<Rightarrow> int \<Rightarrow> string \<Rightarrow> string \<Rightarrow> string" where
  "format_cmd millis nanos cmd args =
     (let eof = eofStr millis
      in if args \<noteq> [] then
           (let tmp = script_file nanos; args' = exec_args tmp args
            in ''(cat > '' @ tmp @ ''  <<'' @ [CHR 0x5C] @ eof @ [newline] @ cmd @ [newline] @ eof @ [newline]
                 @ '') && chmod +x '' @ tmp @ '' && ('' @ args' @ '') ; rm -f '' @ tmp)
         else if prefix ''#!'' cmd then
           (let exe = TrimRight_char (drop 2 (ReadString newline cmd)) newline
            in ''(cat <<'' @ [CHR 0x5C] @ eof @ [newline] @ cmd @ [newline] @ eof @ [newline] @ '') |'' @ exe)
         else cmd)"

text \<open>
  \<^verbatim>\<open>Get\<close> on what reading the key file gave; the error is returned unchanged.
\<close>

definition key_name :: "string \<Rightarrow> string" where
  "key_name key =
     (let arr = go_splitN (CHR '' '') 3 key in if 3 \<le> length arr then arr ! 2 else key)"

definition auth_cmd :: "string \<Rightarrow> string \<Rightarrow> string" where
  "auth_cmd name key =
     [newline] @ ''[ ! -e ~/.ssh ] && mkdir -p ~/.ssh && chmod 700 ~/.ssh'' @ [newline]
     @ ''[ ! -e ~/.ssh/authorized_keys ] && touch ~/.ssh/authorized_keys && chmod 600 ~/.ssh/authorized_keys'' @ [newline]
     @ ''grep '' @ [CHR 0x27] @ name @ [CHR 0x27] @ '' ~/.ssh/authorized_keys >/dev/null || echo '' @ [CHR 0x27] @ key @ [CHR 0x27]
     @ '' >> ~/.ssh/authorized_keys'' @ [newline]
     @ ''echo '' @ [CHR 0x27] @ ''add public key to ~/.ssh/authorized_keys OK'' @ [CHR 0x27] @ [newline]"

definition BuildinCmd_Get :: "string + string \<Rightarrow> string + string" where
  "BuildinCmd_Get file =
     (case file of
        Inl err \<Rightarrow> Inl err
      | Inr d \<Rightarrow> (let key = strings_TrimSpace d in Inr (auth_cmd (key_name key) key)))"

section \<open>The here-document\<close>

abbreviation lines_of :: "string \<Rightarrow> string list" where
  "lines_of \<equiv> go_split newline"

lemma newline_not_itoa [simp]: "newline \<notin> set (go_itoa i)"
  using set_go_itoa [of i] by auto

lemma newline_not_eofStr [simp]: "newline \<notin> set (eofStr i)"
  by (simp add: eofStr_def)

lemma newline_not_script_file [simp]: "newline \<notin> set (script_file i)"
  by (simp add: script_file_def)

lemma ReadString_first_line:
  "TrimRight_char (drop 2 (ReadString newline (''#!'' @ s))) newline = hd (lines_of s)"
proof -
  have first: "hd (lines_of s) = takeWhile (\<lambda>c. c \<noteq> newline) s"
  proof (induction s)
    case (Cons c s)
    then show ?case by (cases "lines_of s") auto
  qed simp
  have trim: "TrimRight_char (takeWhile (\<lambda>c. c \<noteq> newline) s @ r) newline = takeWhile (\<lambda>c. c \<noteq> newline) s"
    if "r = [] \<or> r = [newline]" for r
  proof -
    have nn: "newline \<notin> set (rev (takeWhile (\<lambda>c. c \<noteq> newline) s))" by (auto dest: set_takeWhileD)
    then have "dropWhile (\<lambda>c. c = newline) (rev (takeWhile (\<lambda>c. c \<noteq> newline) s)) = rev (takeWhile (\<lambda>c. c \<noteq> newline) s)"
      by (cases "rev (takeWhile (\<lambda>c. c \<noteq> newline) s)") (auto simp del: set_rev rev_is_Nil_conv)
    then show ?thesis using that by (auto simp: TrimRight_char_def)
  qed
  show ?thesis
  proof (cases "dropWhile (\<lambda>c. c \<noteq> newline) s")
    case Nil
    then have tw: "takeWhile (\<lambda>c. c \<noteq> newline) s = s" by (metis append_Nil2 takeWhile_dropWhile_id)
    have "TrimRight_char s newline = s" using trim [of "[]"] unfolding tw by simp
    then show ?thesis unfolding first tw by (simp add: ReadString_def Nil)
  next
    case (Cons x r)
    then have "x = newline" by (auto dest: dropWhile_ConsD)
    then show ?thesis using trim [of "[newline]"] Cons by (simp add: ReadString_def first)
  qed
qed

lemma heredoc_lines:
  assumes "newline \<notin> set h" and "newline \<notin> set e"
  shows "lines_of (h @ newline # cmd @ newline # e @ newline # t) = h # lines_of cmd @ e # lines_of t"
  using assms by (simp add: go_split_sep_append)

lemma format_cmd_lines_exec:
  assumes "args \<noteq> []"
  shows "lines_of (format_cmd millis nanos cmd args) =
     (''(cat > '' @ script_file nanos @ ''  <<'' @ [CHR 0x5C] @ eofStr millis) # lines_of cmd
     @ eofStr millis # lines_of ('') && chmod +x '' @ script_file nanos @ '' && (''
          @ exec_args (script_file nanos) args @ '') ; rm -f '' @ script_file nanos)"
  using assms
  by (subst heredoc_lines [symmetric]) (simp_all add: format_cmd_def Let_def)

lemma format_cmd_lines_shebang:
  "lines_of (format_cmd millis nanos (''#!'' @ s) []) =
     (''(cat <<'' @ [CHR 0x5C] @ eofStr millis) # lines_of (''#!'' @ s)
     @ [eofStr millis, '') |'' @ hd (lines_of s)]"
proof -
  have "newline \<notin> set (hd (lines_of s))" by (rule go_split_no_sep [OF hd_in_set]) simp
  then have t: "lines_of ('') |'' @ hd (lines_of s)) = ['') |'' @ hd (lines_of s)]"
    by (intro go_split_single) simp
  show ?thesis
    using ReadString_first_line [of s]
    by (subst t [symmetric], subst heredoc_lines [symmetric]) (simp_all add: format_cmd_def Let_def)
qed

text \<open>
  C35. A script reaches the remote host unaltered. The shell reads a here-document up to the first
  line that equals its delimiter, so what matters is the lines of the text \<^verbatim>\<open>format_cmd\<close> builds:
  after the line that names the delimiter come exactly the lines of the script, then the
  delimiter, provided the script has no such line itself. This holds for a script run with
  \<^verbatim>\<open>--exec\<close> and for one that starts with \<^verbatim>\<open>#!\<close>, whose interpreter is the rest of that line.
\<close>

theorem format_cmd_heredoc:
  assumes "eofStr millis \<notin> set (lines_of cmd)" and "args \<noteq> [] \<or> prefix ''#!'' cmd"
  shows "takeWhile (\<lambda>l. l \<noteq> eofStr millis) (tl (lines_of (format_cmd millis nanos cmd args))) = lines_of cmd
    \<and> suffix ([CHR 0x5C] @ eofStr millis) (hd (lines_of (format_cmd millis nanos cmd args)))
    \<and> (args = [] \<longrightarrow> last (lines_of (format_cmd millis nanos cmd args)) = '') |'' @ drop 2 (hd (lines_of cmd)))"
proof -
  have tw: "takeWhile (\<lambda>l. l \<noteq> eofStr millis) (lines_of cmd @ eofStr millis # r) = lines_of cmd" for r
    using assms(1) by (subst takeWhile_append2) auto
  show ?thesis
  proof (cases "args = []")
    case True
    then obtain s where s: "cmd = ''#!'' @ s" using assms(2) by (auto simp: prefix_def)
    obtain l ls where l: "lines_of s = l # ls" by (cases "lines_of s") auto
    show ?thesis
      using tw [of "['') |'' @ hd (lines_of s)]"] True format_cmd_lines_shebang [of millis nanos s] l
      by (auto simp: s suffix_def)
  next
    case False
    show ?thesis
      using tw format_cmd_lines_exec [OF False, of millis nanos cmd] False
      by (simp add: suffix_def)
  qed
qed

theorem format_cmd_heredoc_witness:
  "takeWhile (\<lambda>l. l \<noteq> eofStr 7) (tl (lines_of (format_cmd 7 42 ''echo $1'' ''sh {} hi''))) = [''echo $1'']"
  using format_cmd_heredoc [of 7 "''echo $1''" "''sh {} hi''" 42] by (simp add: eofStr_def)

text \<open>
  Installing a key is idempotent text-wise: the name the built-in command greps for always
  occurs in the line it appends, and when the key has no single quote, neither has the name, so
  both stay inside their quotes.
\<close>

theorem auth_key_found_again:
  "strings_Contains key (key_name key) \<and> set (key_name key) \<subseteq> set key"
proof -
  have "\<exists>p. key = p @ key_name key"
  proof (cases "3 \<le> length (go_splitN (CHR '' '') 3 key)")
    case True
    then obtain r where r: "dropWhile (\<lambda>x. x \<noteq> CHR '' '') key = CHR '' '' # r"
      by (auto simp: numeral_3_eq_3 split: list.splits if_splits dest: dropWhile_ConsD)
    with True obtain r' where r': "dropWhile (\<lambda>x. x \<noteq> CHR '' '') r = CHR '' '' # r'"
      by (auto simp: numeral_3_eq_3 split: list.splits dest: dropWhile_ConsD)
    have "key_name key = r'" using True r r' by (simp add: key_name_def Let_def numeral_3_eq_3)
    moreover have "key = (takeWhile (\<lambda>x. x \<noteq> CHR '' '') key @ CHR '' '' # takeWhile (\<lambda>x. x \<noteq> CHR '' '') r @ '' '') @ r'"
      using r r' takeWhile_dropWhile_id [of "\<lambda>x. x \<noteq> CHR '' ''" key] takeWhile_dropWhile_id [of "\<lambda>x. x \<noteq> CHR '' ''" r]
      by simp
    ultimately show ?thesis by metis
  next
    case False
    then show ?thesis by (simp add: key_name_def Let_def)
  qed
  then obtain p where p: "key = p @ key_name key" by blast
  have "set (key_name key) \<subseteq> set key" by (subst (2) p) simp
  moreover have "strings_Contains key (key_name key)"
    unfolding strings_Contains_iff using p by (metis append_Nil2)
  ultimately show ?thesis by blast
qed

end
