(* ===== verification/Task_Runner.thy ===== *)
theory Task_Runner
  imports Batch_Task Command_Format
begin

text \<open>
  Running a command on many hosts, \<^verbatim>\<open>src/util/util.go\<close>: one after the other (\<^verbatim>\<open>SerialRun\<close>), at once
  (\<^verbatim>\<open>ParallelRun\<close>), copying a file (\<^verbatim>\<open>ScpRun\<close>) and the helpers they share. A run is the list of
  what it prints and executes. The tasks of a parallel run are goroutines that write to
  temporary files; a schedule, any list of task numbers, says which one goes on next, and the
  files are kept with the offsets of the open handles, as the operating system keeps them.
\<close>

section \<open>Definitions\<close>

record TaskArgs =
  ta_User :: string
  ta_Password :: string
  ta_Keyfile :: string
  ta_Port :: string
  ta_Cmd :: string
  ta_CmdArgs :: string
  ta_Timeout :: int
  ta_Parallel :: bool
  ta_Source :: string
  ta_Destdir :: string

text \<open>\<open>OutPrinter\<close> and \<open>ErrPrinter\<close> are the fields \<^verbatim>\<open>Output\<close> and \<^verbatim>\<open>ErrOutput\<close> of \<^verbatim>\<open>TaskArgs\<close>.\<close>

datatype dest = OutPrinter | ErrPrinter | OsStderr

datatype run_event =
  RPrint dest string
| RExec "string list"
| RTask effect
| RMkdir string
| RRemove string

definition escape :: string where
  "escape = [CHR 0x1B]"

definition report :: "string \<Rightarrow> string \<Rightarrow> bool \<Rightarrow> string" where
  "report pre host color =
     (if color
      then escape @ ''[33m'' @ pre @ ''========== '' @ host @ '' =========='' @ escape @ ''[0m'' @ [newline]
      else pre @ ''========== '' @ host @ '' =========='' @ [newline])"

definition unknown_hosts :: "string \<Rightarrow> string list \<Rightarrow> string list" where
  "unknown_hosts content hosts = filter (\<lambda>h. \<not> strings_Contains content h) hosts"

definition keyscan_cmd :: "string \<Rightarrow> string list \<Rightarrow> string" where
  "keyscan_cmd home hosts =
     (let filename = home @ ''/.ssh/known_hosts''; dirname = home @ ''/.ssh''
      in [newline] @ ''[ ! -e '' @ dirname @ '' ] && mkdir -p '' @ dirname @ '' && chmod 700 '' @ dirname @ [newline]
         @ ''[ ! -e '' @ filename @ '' ] && touch '' @ filename @ '' && chmod 644 '' @ filename @ [newline]
         @ ''ssh-keyscan '' @ go_join '' '' hosts @ '' >> '' @ filename @ [newline])"

definition BuildKnownHosts :: "string \<Rightarrow> string \<Rightarrow> string list \<Rightarrow> run_event list" where
  "BuildKnownHosts home content hosts =
     (let not_exists = unknown_hosts content hosts
      in if not_exists = [] then []
         else [RExec [''/bin/sh'', ''-c'', keyscan_cmd home not_exists]])"

text \<open>Everything outside a run that it depends on.\<close>

record run_world =
  net :: world
  home :: string
  known_hosts :: string
  clock_millis :: int
  clock_nanos :: int
  dir_nanos :: int
  mkdir_error :: "string option"
  creatable :: "string \<Rightarrow> bool"
  stdout_tty :: bool
  dircat_error :: "string option"

text \<open>\<^verbatim>\<open>raw_host_arr[start:end]\<close>, out of range is a panic.\<close>

definition go_slice :: "'a list \<Rightarrow> int \<Rightarrow> int \<Rightarrow> 'a list option" where
  "go_slice xs i j =
     (if 0 \<le> i \<and> i \<le> j \<and> j \<le> int (length xs) then Some (take (nat (j - i)) (drop (nat i) xs)) else None)"

definition make_task :: "run_world \<Rightarrow> TaskArgs \<Rightarrow> string \<Rightarrow> Task" where
  "make_task w config h =
     (NewTask h (ta_User config) (ta_Password config) (ta_Keyfile config)
        (format_cmd (clock_millis w) (clock_nanos w) (ta_Cmd config) (ta_CmdArgs config)) (ta_Port config))
     \<lparr>Timeout := ta_Timeout config\<rparr>"

definition task_effects :: "run_world \<Rightarrow> TaskArgs \<Rightarrow> string \<Rightarrow> effect list" where
  "task_effects w config h = Work (net w) (make_task w config h)"

definition print_effect :: "effect \<Rightarrow> run_event" where
  "print_effect e =
     (case e of EvOutput s \<Rightarrow> RPrint OutPrinter s | EvErrout s \<Rightarrow> RPrint ErrPrinter s | _ \<Rightarrow> RTask e)"

fun serial_loop :: "run_world \<Rightarrow> TaskArgs \<Rightarrow> int \<Rightarrow> int \<Rightarrow> string list \<Rightarrow> run_event list" where
  "serial_loop w config n_hosts index [] = []"
| "serial_loop w config n_hosts index (h # hs) =
     RPrint ErrPrinter (report (go_itoa (index + 1) @ ''/'' @ go_itoa n_hosts @ '' '') h True)
     # map print_effect (task_effects w config h) @ serial_loop w config n_hosts (index + 1) hs"

definition SerialRun :: "run_world \<Rightarrow> TaskArgs \<Rightarrow> string list \<Rightarrow> int \<Rightarrow> int \<Rightarrow> run_event list option" where
  "SerialRun w config raw start stop =
     map_option (\<lambda>hosts. BuildKnownHosts (home w) (known_hosts w) hosts
                          @ serial_loop w config (int (length raw)) start hosts)
       (go_slice raw start stop)"

subsection \<open>Parallel runs\<close>

definition out_file :: "string \<Rightarrow> string \<Rightarrow> string" where
  "out_file dir h = dir @ ''/'' @ h"

definition err_file :: "string \<Rightarrow> string \<Rightarrow> string" where
  "err_file dir h = dir @ ''/'' @ h @ ''.err''"

text \<open>Writing at an offset: a gap is filled with zero bytes, what is there is overwritten.\<close>

definition file_write :: "string \<Rightarrow> nat \<Rightarrow> string \<Rightarrow> string" where
  "file_write content off d =
     take off (content @ replicate (off - length content) (CHR 0x00)) @ d @ drop (off + length d) content"

record pstate =
  files :: "string \<rightharpoonup> string"
  outOff :: "nat list"
  errOff :: "nat list"
  todo :: "effect list list"

definition create :: "(string \<Rightarrow> bool) \<Rightarrow> string \<Rightarrow> (string \<rightharpoonup> string) \<Rightarrow> (string \<rightharpoonup> string)" where
  "create ok p fs = (if ok p then fs(p \<mapsto> []) else fs)"

definition write_at :: "(string \<Rightarrow> bool) \<Rightarrow> string \<Rightarrow> nat \<Rightarrow> string \<Rightarrow> (string \<rightharpoonup> string) \<Rightarrow> (string \<rightharpoonup> string)" where
  "write_at ok p off d fs =
     (if ok p then fs(p \<mapsto> file_write (case fs p of None \<Rightarrow> [] | Some c \<Rightarrow> c) off d) else fs)"

definition pinit :: "run_world \<Rightarrow> TaskArgs \<Rightarrow> string \<Rightarrow> string list \<Rightarrow> pstate" where
  "pinit w config dir hosts =
     \<lparr>files = fold (\<lambda>h fs. create (creatable w) (err_file dir h) (create (creatable w) (out_file dir h) fs))
                hosts Map.empty,
      outOff = replicate (length hosts) 0, errOff = replicate (length hosts) 0,
      todo = map (task_effects w config) hosts\<rparr>"

text \<open>One effect of task number \<open>i\<close>.\<close>

definition pstep :: "(string \<Rightarrow> bool) \<Rightarrow> string \<Rightarrow> string list \<Rightarrow> nat \<Rightarrow> pstate \<Rightarrow> pstate" where
  "pstep ok dir hosts i s =
     (if i < length hosts \<and> todo s ! i \<noteq> [] then
        (let s1 = s\<lparr>todo := (todo s)[i := tl (todo s ! i)]\<rparr>
         in case hd (todo s ! i) of
              EvOutput d \<Rightarrow>
                s1\<lparr>files := write_at ok (out_file dir (hosts ! i)) (outOff s ! i) d (files s),
                   outOff := (outOff s)[i := outOff s ! i + length d]\<rparr>
            | EvErrout d \<Rightarrow>
                s1\<lparr>files := write_at ok (err_file dir (hosts ! i)) (errOff s ! i) d (files s),
                   errOff := (errOff s)[i := errOff s ! i + length d]\<rparr>
            | _ \<Rightarrow> s1)
      else s)"

definition pfinished :: "pstate \<Rightarrow> bool" where
  "pfinished s \<longleftrightarrow> list_all (\<lambda>es. es = []) (todo s)"

definition copy_file :: "dest \<Rightarrow> string option \<Rightarrow> run_event list" where
  "copy_file d content = (case content of None \<Rightarrow> [] | Some c \<Rightarrow> [RPrint d c])"

fun merge :: "string \<Rightarrow> string list \<Rightarrow> (string \<rightharpoonup> string) \<Rightarrow> run_event list \<times> (string \<rightharpoonup> string)" where
  "merge dir [] fs = ([], fs)"
| "merge dir (h # hs) fs =
     (case merge dir hs (fs(err_file dir h := None, out_file dir h := None)) of
        (es, fs') \<Rightarrow>
          (RPrint OsStderr (report [] h True)
           # copy_file ErrPrinter (fs (err_file dir h)) @ copy_file OutPrinter (fs (out_file dir h)) @ es, fs'))"

datatype run_result =
  Finished "run_event list"
| RunError string
| RunPanic string
| StillRunning

definition task_dir :: "run_world \<Rightarrow> string \<Rightarrow> string" where
  "task_dir w tmpdir = tmpdir @ ''/.task.'' @ go_itoa (dir_nanos w)"

text \<open>
  \<^verbatim>\<open>ParallelRun\<close> under a schedule of its tasks. \<^verbatim>\<open>wg.Wait\<close> lets it go on when every task has called
  \<^verbatim>\<open>Done\<close>, its last effect; a schedule that leaves something to do leaves it waiting.
\<close>

definition ParallelRun ::
  "run_world \<Rightarrow> nat list \<Rightarrow> TaskArgs \<Rightarrow> string list \<Rightarrow> int \<Rightarrow> int \<Rightarrow> string \<Rightarrow> run_result" where
  "ParallelRun w schedule config raw start stop tmpdir =
     (case go_slice raw start stop of
        None \<Rightarrow> RunPanic ''slice bounds out of range''
      | Some hosts \<Rightarrow>
          (let dir = task_dir w tmpdir
           in case mkdir_error w of
                Some err \<Rightarrow> RunError err
              | None \<Rightarrow>
                  if stdout_tty w \<and> dircat_error w \<noteq> None then RunPanic ''nil pointer dereference''
                  else
                    (let s = fold (pstep (creatable w) dir hosts) schedule (pinit w config dir hosts)
                     in if \<not> pfinished s then StillRunning
                        else Finished (RMkdir dir # BuildKnownHosts (home w) (known_hosts w) hosts
                               @ fst (merge dir hosts (files s)) @ [RRemove dir]))))"

subsection \<open>Copying and logging in\<close>

definition Interact :: "(string list \<Rightarrow> string option) \<Rightarrow> TaskArgs \<Rightarrow> string \<Rightarrow> run_event list" where
  "Interact exec config host =
     (let task = NewTask host (ta_User config) (ta_Password config) (ta_Keyfile config) (ta_Cmd config) (ta_Port config)
      in case SysLogin exec task of (args, es) \<Rightarrow> RExec args # map print_effect es)"

definition dest_dir :: "string \<Rightarrow> string" where
  "dest_dir d = (if suffix ''/'' d then d else d @ ''/'')"

definition rsync_cmd :: "TaskArgs \<Rightarrow> string \<Rightarrow> string" where
  "rsync_cmd config host =
     (let remote_shell = (if ta_Port config \<noteq> [] \<and> ta_Port config \<noteq> ''22''
                          then '' -e '' @ [CHR 0x27] @ ''ssh -p '' @ ta_Port config @ [CHR 0x27] @ '' '' else [])
      in ''rsync -azh '' @ remote_shell @ '' '' @ ta_Source config @ '' '' @ ta_User config @ ''@'' @ host @ '':''
         @ dest_dir (ta_Destdir config))"

text \<open>\<open>rsync\<close> gives the output and the error of a command line.\<close>

definition scp_task :: "(string \<Rightarrow> string \<times> string option) \<Rightarrow> TaskArgs \<Rightarrow> string \<Rightarrow> run_event list" where
  "scp_task rsync config host =
     [RPrint OsStderr (''Start sync to  '' @ host @ ''......'' @ [newline]),
      RExec [''/bin/bash'', ''-c'', rsync_cmd config host],
      RPrint OsStderr
        (case rsync (rsync_cmd config host) of
           (res, Some err) \<Rightarrow> ''Sync '' @ ta_Source config @ '' to '' @ host @ '':'' @ dest_dir (ta_Destdir config)
             @ '' fail:'' @ err @ [newline] @ res @ [newline]
         | (res, None) \<Rightarrow> ''Sync '' @ ta_Source config @ '' to '' @ host @ '':'' @ dest_dir (ta_Destdir config)
             @ '' OK'' @ [newline])]"

text \<open>
  \<^verbatim>\<open>ScpRun\<close>: in parallel the tasks' events are interleaved by the schedule, otherwise one task
  follows the other. \<open>None\<close> is the wait for tasks that are not done; an error is never returned.
\<close>

fun interleave :: "nat list \<Rightarrow> 'a list list \<Rightarrow> 'a list \<times> 'a list list" where
  "interleave [] ess = ([], ess)"
| "interleave (i # is) ess =
     (if i < length ess \<and> ess ! i \<noteq> []
      then (case interleave is (ess[i := tl (ess ! i)]) of (es, rest) \<Rightarrow> (hd (ess ! i) # es, rest))
      else interleave is ess)"

definition ScpRun ::
  "run_world \<Rightarrow> (string \<Rightarrow> string \<times> string option) \<Rightarrow> nat list \<Rightarrow> TaskArgs \<Rightarrow> string list
     \<Rightarrow> (run_event list \<times> string option) option" where
  "ScpRun w rsync schedule config hosts =
     (let known = BuildKnownHosts (home w) (known_hosts w) hosts; ess = map (scp_task rsync config) hosts
      in if ta_Parallel config then
           (case interleave schedule ess of
              (es, rest) \<Rightarrow> if list_all (\<lambda>r. r = []) rest then Some (known @ es, None) else None)
         else Some (known @ concat ess, None))"

section \<open>The temporary files\<close>

text \<open>No two tasks share a temporary file.\<close>

definition clean_names :: "string list \<Rightarrow> bool" where
  "clean_names hosts \<longleftrightarrow> distinct hosts \<and> list_all (\<lambda>h. h @ ''.err'' \<notin> set hosts) hosts"

lemma file_names [simp]:
  "out_file dir h = out_file dir h' \<longleftrightarrow> h = h'" "err_file dir h = err_file dir h' \<longleftrightarrow> h = h'"
  "out_file dir h = err_file dir h' \<longleftrightarrow> h = h' @ ''.err''" "err_file dir h' = out_file dir h \<longleftrightarrow> h = h' @ ''.err''"
  by (auto simp: out_file_def err_file_def)

lemma file_write_end [simp]: "file_write c (length c) d = c @ d"
  by (simp add: file_write_def)

definition written_ok :: "(string \<rightharpoonup> string) \<Rightarrow> string \<Rightarrow> nat \<Rightarrow> string list \<Rightarrow> string list \<Rightarrow> bool" where
  "written_ok fs p off rest whole \<longleftrightarrow> (\<exists>c. fs p = Some c \<and> off = length c \<and> c @ concat rest = concat whole)"

lemma written_ok_write:
  "written_ok fs p off (d # rest) whole \<Longrightarrow> ok p \<Longrightarrow>
     written_ok (write_at ok p off d fs) p (off + length d) rest whole"
  by (auto simp: written_ok_def write_at_def)

lemma written_ok_other:
  "q \<noteq> p \<Longrightarrow> written_ok (write_at ok q off' d fs) p off rest whole = written_ok fs p off rest whole"
  by (simp add: written_ok_def write_at_def)

definition pinv :: "(string \<Rightarrow> effect list) \<Rightarrow> string \<Rightarrow> string list \<Rightarrow> pstate \<Rightarrow> bool" where
  "pinv eff dir hosts s \<longleftrightarrow>
     length (todo s) = length hosts \<and> length (outOff s) = length hosts \<and> length (errOff s) = length hosts
     \<and> (\<forall>i < length hosts.
          written_ok (files s) (out_file dir (hosts ! i)) (outOff s ! i) (outputs (todo s ! i)) (outputs (eff (hosts ! i)))
        \<and> written_ok (files s) (err_file dir (hosts ! i)) (errOff s ! i) (errouts (todo s ! i)) (errouts (eff (hosts ! i))))"

lemma clean_names_nth:
  assumes "clean_names hosts" "i < length hosts" "j < length hosts"
  shows "hosts ! i = hosts ! j \<longleftrightarrow> i = j" and "hosts ! i \<noteq> hosts ! j @ ''.err''"
  using assms by (auto simp: clean_names_def nth_eq_iff_index_eq list_all_iff) (metis nth_mem)

lemma pinv_pinit:
  assumes "list_all (\<lambda>h. creatable w (out_file dir h) \<and> creatable w (err_file dir h)) hosts"
  shows "pinv (task_effects w config) dir hosts (pinit w config dir hosts)"
proof -
  let ?f = "\<lambda>h fs. create (creatable w) (err_file dir h) (create (creatable w) (out_file dir h) fs)"
  have keep: "fold ?f hs fs p = Some []" if "fs p = Some []" for hs fs p
    using that by (induction hs arbitrary: fs) (auto simp: create_def)
  have "fold ?f hs fs (out_file dir h) = Some [] \<and> fold ?f hs fs (err_file dir h) = Some []"
    if "h \<in> set hs" "list_all (\<lambda>h. creatable w (out_file dir h) \<and> creatable w (err_file dir h)) hs" for hs fs h
    using that
  proof (induction hs arbitrary: fs)
    case (Cons a hs)
    have "?f a fs (out_file dir a) = Some []" "?f a fs (err_file dir a) = Some []"
      using Cons.prems(2) by (auto simp: create_def)
    then show ?case
      using Cons.IH [of "?f a fs"] Cons.prems keep by (cases "h = a") auto
  qed simp
  then show ?thesis
    using assms by (auto simp: pinv_def pinit_def written_ok_def)
qed

lemma pinv_pstep:
  assumes "clean_names hosts" and "pinv eff dir hosts s"
    and "list_all (\<lambda>h. ok (out_file dir h) \<and> ok (err_file dir h)) hosts"
  shows "pinv eff dir hosts (pstep ok dir hosts i s)"
proof (cases "i < length hosts \<and> todo s ! i \<noteq> []")
  case True
  then obtain e es where t: "todo s ! i = e # es" by (cases "todo s ! i") auto
  note n = clean_names_nth [OF assms(1)]
  have ok: "ok (out_file dir (hosts ! i))" "ok (err_file dir (hosts ! i))"
    using assms(3) True by (auto simp: list_all_iff)
  have inv: "written_ok (files s) (out_file dir (hosts ! j)) (outOff s ! j) (outputs (todo s ! j)) (outputs (eff (hosts ! j)))"
    "written_ok (files s) (err_file dir (hosts ! j)) (errOff s ! j) (errouts (todo s ! j)) (errouts (eff (hosts ! j)))"
    if "j < length hosts" for j using assms(2) that by (auto simp: pinv_def)
  note len = assms(2)[unfolded pinv_def]
  show ?thesis
  proof (cases e)
    case (EvOutput d)
    have "written_ok (write_at ok (out_file dir (hosts ! i)) (outOff s ! i) d (files s)) (out_file dir (hosts ! i))
        (outOff s ! i + length d) (outputs es) (outputs (eff (hosts ! i)))"
      using inv(1) [of i] True t EvOutput ok by (intro written_ok_write) auto
    then show ?thesis
      using True t EvOutput inv len n
      by (auto simp: pinv_def pstep_def nth_list_update written_ok_other)
  next
    case (EvErrout d)
    have "written_ok (write_at ok (err_file dir (hosts ! i)) (errOff s ! i) d (files s)) (err_file dir (hosts ! i))
        (errOff s ! i + length d) (errouts es) (errouts (eff (hosts ! i)))"
      using inv(2) [of i] True t EvErrout ok by (intro written_ok_write) auto
    then show ?thesis
      using True t EvErrout inv len n
      by (auto simp: pinv_def pstep_def nth_list_update written_ok_other)
  qed (use True t inv len in \<open>auto simp: pinv_def pstep_def nth_list_update\<close>)
qed (use assms(2) in \<open>auto simp: pstep_def\<close>)

lemma pinv_fold:
  assumes "clean_names hosts" "pinv eff dir hosts s"
    and "list_all (\<lambda>h. ok (out_file dir h) \<and> ok (err_file dir h)) hosts"
  shows "pinv eff dir hosts (fold (pstep ok dir hosts) schedule s)"
  using assms(2) by (induction schedule arbitrary: s) (auto intro: pinv_pstep [OF assms(1) _ assms(3)])

text \<open>Every turn of a task takes one effect off what it has to do.\<close>

lemma pstep_todo:
  assumes "length (todo s) = length hosts"
  shows "todo (pstep ok dir hosts i s) = (if i < length hosts then (todo s)[i := tl (todo s ! i)] else todo s)"
  using assms list_update_id [of "todo s" i]
  by (cases "todo s ! i") (auto simp: pstep_def Let_def split: effect.splits)

lemma fold_pstep_todo:
  assumes "length (todo s) = length hosts" and "j < length hosts"
  shows "length (todo (fold (pstep ok dir hosts) schedule s) ! j) = length (todo s ! j) - count_list schedule j"
  using assms
proof (induction schedule arbitrary: s)
  case (Cons i schedule)
  then show ?case by (simp add: pstep_todo nth_list_update)
qed simp

lemma fold_pstep_length:
  "length (todo s) = length hosts \<Longrightarrow> length (todo (fold (pstep ok dir hosts) schedule s)) = length hosts"
  by (induction schedule arbitrary: s) (simp_all add: pstep_todo)

lemma pfinished_schedule:
  assumes "\<forall>i < length hosts. length (task_effects w config (hosts ! i)) \<le> count_list schedule i"
  shows "pfinished (fold (pstep ok dir hosts) schedule (pinit w config dir hosts))"
proof -
  have l: "length (todo (pinit w config dir hosts)) = length hosts" by (simp add: pinit_def)
  have "length (todo (fold (pstep ok dir hosts) schedule (pinit w config dir hosts)) ! i) = 0" if "i < length hosts" for i
    using fold_pstep_todo [OF l that] assms that by (simp add: pinit_def)
  then show ?thesis
    using fold_pstep_length [OF l] by (simp add: pfinished_def list_all_length)
qed

definition host_block :: "(string \<Rightarrow> effect list) \<Rightarrow> string \<Rightarrow> run_event list" where
  "host_block eff h =
     [RPrint OsStderr (report [] h True), RPrint ErrPrinter (concat (errouts (eff h))),
      RPrint OutPrinter (concat (outputs (eff h)))]"

lemma merge_blocks:
  assumes "clean_names hosts"
    and "\<And>h. h \<in> set hosts \<Longrightarrow> fs (out_file dir h) = Some (concat (outputs (eff h)))
        \<and> fs (err_file dir h) = Some (concat (errouts (eff h)))"
  shows "fst (merge dir hosts fs) = concat (map (host_block eff) hosts)"
  using assms
proof (induction hosts arbitrary: fs)
  case (Cons h hs)
  have c: "clean_names hs" using Cons.prems(1) by (auto simp: clean_names_def list_all_iff)
  have "fst (merge dir hs (fs(err_file dir h := None, out_file dir h := None))) = concat (map (host_block eff) hs)"
    using Cons.prems by (intro Cons.IH [OF c]) (auto simp: clean_names_def list_all_iff)
  then show ?case
    using Cons.prems(2) [of h] by (auto simp: host_block_def [of eff h] copy_file_def split: prod.splits)
qed simp

lemma pinv_finished_files:
  assumes "pinv eff dir hosts s" "pfinished s" "h \<in> set hosts"
  shows "files s (out_file dir h) = Some (concat (outputs (eff h)))
    \<and> files s (err_file dir h) = Some (concat (errouts (eff h)))"
proof -
  obtain i where i: "i < length hosts" "hosts ! i = h" using assms(3) by (auto simp: in_set_conv_nth)
  have "todo s ! i = []" using assms(1,2) i by (auto simp: pfinished_def pinv_def list_all_length)
  then show ?thesis using assms(1) i by (auto simp: pinv_def written_ok_def)
qed

section \<open>Properties\<close>

definition run_ready :: "run_world \<Rightarrow> string \<Rightarrow> string list \<Rightarrow> bool" where
  "run_ready w dir hosts \<longleftrightarrow> mkdir_error w = None \<and> (stdout_tty w \<longrightarrow> dircat_error w = None)
     \<and> list_all (\<lambda>h. creatable w (out_file dir h) \<and> creatable w (err_file dir h)) hosts"

lemma ParallelRun_eq:
  assumes "go_slice raw start stop = Some hosts" and "clean_names hosts"
    and "run_ready w (task_dir w tmpdir) hosts"
    and "\<forall>i < length hosts. length (task_effects w config (hosts ! i)) \<le> count_list schedule i"
  shows "ParallelRun w schedule config raw start stop tmpdir =
    Finished (RMkdir (task_dir w tmpdir) # BuildKnownHosts (home w) (known_hosts w) hosts
      @ concat (map (host_block (task_effects w config)) hosts) @ [RRemove (task_dir w tmpdir)])"
proof -
  let ?dir = "task_dir w tmpdir"
  let ?s = "fold (pstep (creatable w) ?dir hosts) schedule (pinit w config ?dir hosts)"
  have ok: "list_all (\<lambda>h. creatable w (out_file ?dir h) \<and> creatable w (err_file ?dir h)) hosts"
    using assms(3) by (simp add: run_ready_def)
  have inv: "pinv (task_effects w config) ?dir hosts ?s"
    by (rule pinv_fold [OF assms(2) pinv_pinit [OF ok] ok])
  have fin: "pfinished ?s" by (rule pfinished_schedule [OF assms(4)])
  have "fst (merge ?dir hosts (files ?s)) = concat (map (host_block (task_effects w config)) hosts)"
    by (rule merge_blocks [OF assms(2) pinv_finished_files [OF inv fin]])
  then show ?thesis
    using assms(1,3) fin by (auto simp: ParallelRun_def run_ready_def Let_def)
qed


definition demo_world :: run_world where
  "demo_world =
     \<lparr>net = \<lparr>readKey = \<lambda>_. None, dial = \<lambda>_ _ _. None, newSession = \<lambda>_. None,
              runCmd = \<lambda>a c. [a, '' runs '', c]\<rparr>,
      home = ''/h'', known_hosts = ''a b'', clock_millis = 1, clock_nanos = 2, dir_nanos = 3,
      mkdir_error = None, creatable = \<lambda>_. True, stdout_tty = False, dircat_error = None\<rparr>"

definition demo_args :: TaskArgs where
  "demo_args = \<lparr>ta_User = ''u'', ta_Password = ''p'', ta_Keyfile = [], ta_Port = [], ta_Cmd = ''ls'',
     ta_CmdArgs = [], ta_Timeout = 5, ta_Parallel = False, ta_Source = [], ta_Destdir = []\<rparr>"

definition demo_schedule :: "nat list" where
  "demo_schedule = concat (replicate 12 [1, 0])"

lemma demo_run_facts:
  "go_slice [''a'', ''b''] 0 2 = Some [''a'', ''b'']" "clean_names [''a'', ''b'']"
  "run_ready demo_world (task_dir demo_world ''.'') [''a'', ''b'']"
  "\<forall>i < length [''a'', ''b'']. length (task_effects demo_world demo_args ([''a'', ''b''] ! i)) \<le> count_list demo_schedule i"
  by code_simp+


text \<open>What an event list puts on the output printer.\<close>

fun printed :: "dest \<Rightarrow> run_event list \<Rightarrow> string" where
  "printed d [] = []"
| "printed d (e # es) = (case e of RPrint d' s \<Rightarrow> (if d' = d then s else []) | _ \<Rightarrow> []) @ printed d es"

lemma printed_append [simp]: "printed d (xs @ ys) = printed d xs @ printed d ys"
  by (induction xs) auto

lemma printed_known_hosts [simp]: "printed d (BuildKnownHosts hm content hosts) = []"
  by (simp add: BuildKnownHosts_def Let_def)

lemma printed_effects:
  "printed OutPrinter (map print_effect es) = concat (outputs es)"
  by (induction es) (auto simp: print_effect_def split: effect.splits)

lemma printed_serial_loop:
  "printed OutPrinter (serial_loop w config n index hosts) = concat (map (\<lambda>h. concat (outputs (task_effects w config h))) hosts)"
  by (induction hosts arbitrary: index) (simp_all add: printed_effects)

lemma printed_blocks:
  "printed OutPrinter (concat (map (host_block eff) hosts)) = concat (map (\<lambda>h. concat (outputs (eff h))) hosts)"
  by (induction hosts) (simp_all add: host_block_def)



text \<open>A host named twice: both tasks write to one file, and it is gone when the second is printed.\<close>

lemma duplicate_hosts_lose_output:
  "\<exists>es es'. SerialRun demo_world demo_args [''a'', ''a''] 0 2 = Some es
    \<and> ParallelRun demo_world demo_schedule demo_args [''a'', ''a''] 0 2 ''.'' = Finished es'
    \<and> printed OutPrinter es = ''a:22 runs lsa:22 runs ls'' \<and> printed OutPrinter es' = ''a:22 runs ls''"
proof -
  have "case SerialRun demo_world demo_args [''a'', ''a''] 0 2 of
      Some es \<Rightarrow> printed OutPrinter es = ''a:22 runs lsa:22 runs ls'' | None \<Rightarrow> False" by code_simp
  moreover have "case ParallelRun demo_world demo_schedule demo_args [''a'', ''a''] 0 2 ''.'' of
      Finished es \<Rightarrow> printed OutPrinter es = ''a:22 runs ls'' | _ \<Rightarrow> False" by code_simp
  ultimately show ?thesis by (auto split: option.splits run_result.splits)
qed

end
