(* ===== verification/Go_Utf8.thy ===== *)
theory Go_Utf8
  imports Go_Strings
begin

text \<open>
  Conversions between byte strings and runes: \<^verbatim>\<open>[]rune(s)\<close>, \<^verbatim>\<open>string(runes)\<close> and what
  \<^verbatim>\<open>range s\<close> does. An invalid encoding decodes to the replacement rune, one byte at a time; a
  rune that is no code point is encoded as the replacement rune.
\<close>

section \<open>Definitions\<close>

definition byte_val :: "char \<Rightarrow> int" where
  "byte_val c = int (of_char c)"

definition RuneError :: rune where
  "RuneError = 65533"

definition valid_rune :: "rune \<Rightarrow> bool" where
  "valid_rune r \<longleftrightarrow> 0 \<le> r \<and> r < 55296 \<or> 57344 \<le> r \<and> r \<le> 1114111"

definition continuation :: "int \<Rightarrow> int \<Rightarrow> int \<Rightarrow> bool" where
  "continuation lo hi b \<longleftrightarrow> lo \<le> b \<and> b \<le> hi"

text \<open>The first rune of a non-empty list of byte values, and the bytes it takes.\<close>

definition decode_rune :: "int list \<Rightarrow> rune \<times> nat" where
  "decode_rune bs =
     (let b0 = bs ! 0; b1 = bs ! 1; b2 = bs ! 2; b3 = bs ! 3; n = length bs;
          lo = (if b0 = 224 then 160 else if b0 = 240 then 144 else 128);
          hi = (if b0 = 237 then 159 else if b0 = 244 then 143 else 191)
      in if b0 < 128 then (b0, 1)
         else if b0 < 194 \<or> 244 < b0 then (RuneError, 1)
         else if n < 2 \<or> \<not> continuation lo hi b1 then (RuneError, 1)
         else if b0 < 224 then ((b0 - 192) * 64 + (b1 - 128), 2)
         else if n < 3 \<or> \<not> continuation 128 191 b2 then (RuneError, 1)
         else if b0 < 240 then ((b0 - 224) * 4096 + (b1 - 128) * 64 + (b2 - 128), 3)
         else if n < 4 \<or> \<not> continuation 128 191 b3 then (RuneError, 1)
         else ((b0 - 240) * 262144 + (b1 - 128) * 4096 + (b2 - 128) * 64 + (b3 - 128), 4))"

lemma decode_rune_width: "0 < snd (decode_rune bs)"
  by (simp add: decode_rune_def Let_def)

function decode_bytes :: "int list \<Rightarrow> rune list" where
  "decode_bytes bs = (if bs = [] then [] else
     fst (decode_rune bs) # decode_bytes (drop (snd (decode_rune bs)) bs))"
  by pat_completeness auto
termination
  by (relation "measure length") (auto simp: decode_rune_width)

declare decode_bytes.simps [simp del]

definition encode_rune :: "rune \<Rightarrow> int list" where
  "encode_rune r0 =
     (let r = (if valid_rune r0 then r0 else RuneError)
      in if r < 128 then [r]
         else if r < 2048 then [192 + r div 64, 128 + r mod 64]
         else if r < 65536 then [224 + r div 4096, 128 + r div 64 mod 64, 128 + r mod 64]
         else [240 + r div 262144, 128 + r div 4096 mod 64, 128 + r div 64 mod 64, 128 + r mod 64])"

definition to_runes :: "string \<Rightarrow> rune list" where
  "to_runes s = decode_bytes (map byte_val s)"

definition of_runes :: "rune list \<Rightarrow> string" where
  "of_runes rs = map (\<lambda>b. char_of (nat b)) (concat (map encode_rune rs))"

definition rune_of :: "char \<Rightarrow> rune" where
  "rune_of c = byte_val c"

section \<open>Round trips\<close>

lemma six_bits: "(r::int) = 64 * (r div 64) + r mod 64" "0 \<le> r mod 64" "r mod 64 < 64"
  by auto

lemma div_64_64: "(r::int) div 4096 = r div 64 div 64"
  using zdiv_zmult2_eq [of 64 r 64] by simp

lemma div_64_64_64: "(r::int) div 262144 = r div 4096 div 64"
  using zdiv_zmult2_eq [of 64 r 4096] by simp

lemma decode_three:
  assumes "0 \<le> x" "x < 16" "0 \<le> y" "y < 64" "0 \<le> z" "z < 64" "x = 0 \<Longrightarrow> 32 \<le> y" "x = 13 \<Longrightarrow> y < 32"
  shows "decode_rune ([224 + x, 128 + y, 128 + z] @ rest) = (x * 4096 + y * 64 + z, 3)"
  using assms by (auto simp: decode_rune_def Let_def continuation_def)

lemma decode_four:
  assumes "0 \<le> x" "x \<le> 4" "0 \<le> y" "y < 64" "0 \<le> z" "z < 64" "0 \<le> u" "u < 64"
    and "x = 0 \<Longrightarrow> 16 \<le> y" "x = 4 \<Longrightarrow> y < 16"
  shows "decode_rune ([240 + x, 128 + y, 128 + z, 128 + u] @ rest) = (x * 262144 + y * 4096 + z * 64 + u, 4)"
  using assms by (auto simp: decode_rune_def Let_def continuation_def)

lemma decode_encode_rune:
  assumes "valid_rune r"
  shows "decode_rune (encode_rune r @ rest) = (r, length (encode_rune r))"
proof -
  have r: "0 \<le> r" "r \<le> 1114111" "r < 55296 \<or> 57344 \<le> r" using assms by (auto simp: valid_rune_def)
  consider "r < 128" | "128 \<le> r" "r < 2048" | "2048 \<le> r" "r < 65536" | "65536 \<le> r" by linarith
  then show ?thesis
  proof cases
    case 1
    then show ?thesis using assms by (simp add: encode_rune_def decode_rune_def)
  next
    case 2
    then show ?thesis
      using assms by (auto simp: encode_rune_def decode_rune_def Let_def continuation_def)
  next
    case 3
    note parts = six_bits [of r] six_bits [of "r div 64"] div_64_64 [of r]
    have e: "r = r div 4096 * 4096 + r div 64 mod 64 * 64 + r mod 64" using parts by linarith
    have d: "0 \<le> r div 4096" "r div 4096 < 16" using 3 by auto
    have lo: "32 \<le> r div 64 mod 64" if "r div 4096 = 0" using 3 e parts that by linarith
    have hi: "r div 64 mod 64 < 32" if "r div 4096 = 13" using 3 e r parts that by linarith
    have "encode_rune r = [224 + r div 4096, 128 + r div 64 mod 64, 128 + r mod 64]"
      using assms 3 by (simp add: encode_rune_def)
    then show ?thesis
      using decode_three [OF d parts(5,6) parts(2,3) lo hi, of rest] by (simp only: e [symmetric]) simp
  next
    case 4
    note parts = six_bits [of r] six_bits [of "r div 64"] six_bits [of "r div 4096"] div_64_64 [of r] div_64_64 [of "r div 64"]
    have e: "r = r div 262144 * 262144 + r div 4096 mod 64 * 4096 + r div 64 mod 64 * 64 + r mod 64"
      using parts div_64_64_64 [of r] by linarith
    have d: "0 \<le> r div 262144" "r div 262144 \<le> 4" using 4 r by auto
    have lo: "16 \<le> r div 4096 mod 64" if "r div 262144 = 0" using 4 e parts that by linarith
    have hi: "r div 4096 mod 64 < 16" if "r div 262144 = 4" using 4 e r parts that by linarith
    have "encode_rune r = [240 + r div 262144, 128 + r div 4096 mod 64, 128 + r div 64 mod 64, 128 + r mod 64]"
      using assms 4 by (simp add: encode_rune_def)
    then show ?thesis
      using decode_four [OF d parts(8,9) parts(5,6) parts(2,3) lo hi, of rest]
      by (simp only: e [symmetric]) simp
  qed
qed

lemma encode_rune_not_Nil [simp]: "encode_rune r \<noteq> []"
  by (simp add: encode_rune_def Let_def)

lemma encode_rune_bytes: "b \<in> set (encode_rune r) \<Longrightarrow> 0 \<le> b \<and> b < 256"
proof -
  let ?r = "if valid_rune r then r else RuneError"
  have "0 \<le> ?r \<and> ?r \<le> 1114111" by (simp add: valid_rune_def RuneError_def)
  moreover assume "b \<in> set (encode_rune r)"
  moreover have "x div 262144 \<le> 4" if "x \<le> 1114111" for x :: int using that by auto
  ultimately show ?thesis
    by (auto simp: encode_rune_def Let_def simp del: if_split_asm split: if_splits)
qed

lemma byte_val_char [simp]: "0 \<le> b \<Longrightarrow> b < 256 \<Longrightarrow> byte_val (char_of (nat b)) = b"
  by (simp add: byte_val_def)

lemma map_byte_val_of_runes: "map byte_val (of_runes rs) = concat (map encode_rune rs)"
proof -
  have "byte_val (char_of (nat b)) = b" if "b \<in> set (concat (map encode_rune rs))" for b
    using that encode_rune_bytes by fastforce
  then show ?thesis unfolding of_runes_def map_map by (intro map_idI) simp
qed

lemma decode_encode_runes:
  "list_all valid_rune rs \<Longrightarrow> decode_bytes (concat (map encode_rune rs)) = rs"
proof (induction rs)
  case (Cons r rs)
  then show ?case
    by (subst decode_bytes.simps) (simp add: decode_encode_rune)
qed (simp add: decode_bytes.simps)

lemma to_runes_of_runes: "list_all valid_rune rs \<Longrightarrow> to_runes (of_runes rs) = rs"
  by (simp add: to_runes_def map_byte_val_of_runes decode_encode_runes)

lemma decode_ascii: "list_all (\<lambda>b. 0 \<le> b \<and> b < 128) bs \<Longrightarrow> decode_bytes bs = bs"
proof (induction bs)
  case (Cons b bs)
  then show ?case by (subst decode_bytes.simps) (simp add: decode_rune_def)
qed (simp add: decode_bytes.simps)

lemma byte_val_range: "0 \<le> byte_val c \<and> byte_val c < 256"
  by (simp add: byte_val_def)

lemma to_runes_ascii:
  "list_all (\<lambda>c. byte_val c < 128) s \<Longrightarrow> to_runes s = map byte_val s"
  unfolding to_runes_def by (rule decode_ascii) (auto simp: list_all_iff byte_val_range)

lemma of_runes_ascii:
  "list_all (\<lambda>c. byte_val c < 128) s \<Longrightarrow> of_runes (map byte_val s) = s"
proof (induction s)
  case (Cons c s)
  then have "encode_rune (byte_val c) = [byte_val c]"
    using byte_val_range [of c] by (auto simp: encode_rune_def valid_rune_def)
  with Cons show ?case by (simp add: of_runes_def byte_val_def)
qed (simp add: of_runes_def)

end
