(* ===== verification/Cowsay.thy ===== *)
theory Cowsay
  imports Go_Utf8
begin

text \<open>
  The speech bubble of \<^verbatim>\<open>src/cowsay/cowsay.go\<close> and \<^verbatim>\<open>GirlSay\<close> of \<^verbatim>\<open>src/util/util.go\<close>, which prints a
  greeting in it before a parallel run. Strings are byte strings, as in Go; the wrapping works on
  runes.
\<close>

section \<open>Definitions\<close>

fun longest_from :: "string \<Rightarrow> string list \<Rightarrow> string" where
  "longest_from best [] = best"
| "longest_from best (l # ls) = longest_from (if length l > length best then l else best) ls"

definition LongestLine :: "string list \<Rightarrow> string" where
  "LongestLine lines = longest_from [] lines"

text \<open>The format \<^verbatim>\<open>%-*s\<close>: padded with blanks on the right, the width counting runes.\<close>

definition pad_right :: "nat \<Rightarrow> string \<Rightarrow> string" where
  "pad_right n s = s @ replicate (n - length (to_runes s)) (CHR '' '')"

definition backslash :: string where
  "backslash = [CHR 0x5C]"

fun box_lines :: "nat \<Rightarrow> nat \<Rightarrow> nat \<Rightarrow> string list \<Rightarrow> string list" where
  "box_lines width n i [] = []"
| "box_lines width n i (l # ls) =
     (if i = 0 then ''/ '' @ pad_right width l @ '' '' @ backslash
      else if i = n - 1 then backslash @ '' '' @ pad_right width l @ '' /''
      else ''| '' @ pad_right width l @ '' |'') # box_lines width n (Suc i) ls"

definition BoxedStrings :: "string list \<Rightarrow> string list" where
  "BoxedStrings lines0 =
     (let lines = (if lines0 = [] then [[]] else lines0);
          width = length (LongestLine lines)
      in ('' '' @ replicate (width + 2) (CHR ''_'')) #
         (if length lines = 1 then [''< '' @ lines ! 0 @ '' >''] else box_lines width (length lines) 0 lines)
         @ ['' '' @ replicate (width + 2) (CHR ''-'')])"

text \<open>\<^verbatim>\<open>ReplaceAllString\<close> of \<^verbatim>\<open>\s+\<close> by a blank.\<close>

definition re_space :: "char \<Rightarrow> bool" where
  "re_space c \<longleftrightarrow> c \<in> {CHR 0x09, CHR 0x0A, CHR 0x0C, CHR 0x0D, CHR '' ''}"

fun collapse :: "bool \<Rightarrow> string \<Rightarrow> string" where
  "collapse in_space [] = []"
| "collapse in_space (c # s) =
     (if re_space c then (if in_space then collapse True s else CHR '' '' # collapse True s)
      else c # collapse False s)"

definition spaces :: "rune list \<Rightarrow> nat list" where
  "spaces rs = filter (\<lambda>i. rs ! i = 32) [0..<length rs]"

text \<open>The positions of the line breaks: \<open>prev\<close> is \<^verbatim>\<open>prevBreakPos\<close>, \<open>before\<close> the space before this one.\<close>

fun breaks :: "int \<Rightarrow> nat option \<Rightarrow> nat list \<Rightarrow> nat list" where
  "breaks prev before [] = []"
| "breaks prev before (v # vs) =
     (if int v - prev > 40
      then (case before of None \<Rightarrow> [] | Some b \<Rightarrow> [b]) @ breaks (int v) (Some v) vs
      else breaks prev (Some v) vs)"

definition wrap :: "rune list \<Rightarrow> rune list" where
  "wrap rs = fold (\<lambda>v rs. rs[v := 10]) (breaks (-1) None (spaces rs)) rs"

definition text_parts :: "string \<Rightarrow> string list" where
  "text_parts s = go_split (CHR 0x0A) (of_runes (wrap (to_runes (collapse False s))))"

text \<open>The picture; in it \<open>^\<close> stands for a backslash and \<open>~\<close> for a quote.\<close>

definition cowFooter :: string where
  "cowFooter =
     map (\<lambda>c. if c = CHR ''^'' then CHR 0x5C else if c = CHR ''~'' then CHR 0x27 else c)
       (go_join [CHR 0x0A]
         [[],
          ''    ^        ____'',
          ''     ^      &&&&&&^^'',
          ''       ^    / ^&&&(/'',
          ''        ^   ),> &&|^'',
          ''            ^_  &&| )'',
          ''            _ ) &.~/'',
          ''           /  )__|/'',
          ''          /./| _)_)'',
          ''         ( | ^.--|'',
          ''          ^|  ) !|'',
          ''          /| /.__|_______'',
          ''         (_// .^_/______ )'',
          ''  _________(            )|______________'',
          ''____________~..____.-~/ ||____________'',
          ''_|___|___|___|___|___(  ||__|___|___|_'',
          ''  _|___|___|___|___|_ ^ |||___|___|_'',
          ''    _|___|___|___|___| )||__|___|_'',
          ''                      / ||'',
          ''                       ^|'',
          []])"

definition Format :: "string \<Rightarrow> string" where
  "Format s = go_join [CHR 0x0A] (BoxedStrings (text_parts s)) @ cowFooter"

text \<open>\<^verbatim>\<open>fmt.Sprint(content)\<close> of the slice of the arguments, all strings: blanks between, brackets around.\<close>

definition GirlSay :: "string list \<Rightarrow> string" where
  "GirlSay content = Format (''['' @ go_join '' '' content @ '']'')"

section \<open>Wrapping\<close>

definition ascii_text :: "string \<Rightarrow> bool" where
  "ascii_text s = list_all (\<lambda>c. byte_val c < 128) s"

lemma breaks_spaces:
  "v \<in> set (breaks prev before vs) \<Longrightarrow> v \<in> set vs \<or> before = Some v"
  by (induction prev before vs rule: breaks.induct) (auto split: if_splits option.splits)

lemma wrap_breaks: "v \<in> set (breaks (-1) None (spaces rs)) \<Longrightarrow> v < length rs \<and> rs ! v = 32"
  using breaks_spaces [of v "-1" None "spaces rs"] by (auto simp: spaces_def)

lemma fold_update_map:
  assumes "\<And>v. v \<in> set vs \<Longrightarrow> v < length xs \<and> (xs ! v = b \<or> xs ! v = a)"
  shows "map (\<lambda>x. if x = a then b else x) (fold (\<lambda>v xs. xs[v := a]) vs xs) = map (\<lambda>x. if x = a then b else x) xs"
  using assms
proof (induction vs arbitrary: xs)
  case (Cons v vs)
  let ?g = "\<lambda>x. if x = a then b else x"
  have "w < length (xs[v := a]) \<and> (xs[v := a] ! w = b \<or> xs[v := a] ! w = a)" if "w \<in> set vs" for w
    using Cons.prems [of w] that by (cases "w = v") auto
  then have "map ?g (fold (\<lambda>v xs. xs[v := a]) vs (xs[v := a])) = map ?g (xs[v := a])"
    by (rule Cons.IH)
  also have "\<dots> = map ?g xs"
    using Cons.prems [of v] by (auto simp: map_update list_update_same_conv)
  finally show ?case by simp
qed simp

lemma fold_update_map_comm:
  "map f (fold (\<lambda>v xs. xs[v := a]) vs xs) = fold (\<lambda>v xs. xs[v := f a]) vs (map f xs)"
  by (induction vs arbitrary: xs) (simp_all add: map_update)

lemma collapse_chars: "c \<in> set (collapse b s) \<Longrightarrow> c = CHR '' '' \<or> c \<in> set s \<and> \<not> re_space c"
  by (induction b s rule: collapse.induct) (auto split: if_splits)

lemma go_split_map_join:
  "go_join [b] (go_split a xs) = map (\<lambda>x. if x = a then b else x) xs"
proof (induction xs)
  case (Cons x xs)
  then show ?case
    by (cases "go_split a xs") (auto simp: go_join_Cons go_join_Cons_Cons)
qed simp

lemma byte_val_inj: "byte_val a = byte_val b \<longleftrightarrow> a = b"
  by (simp add: byte_val_def of_char_eq_iff)

text \<open>
  The speech bubble shows the whole text: joined with blanks, its lines are the text with
  every run of white space made one blank, for any ASCII text; wrapping only turns blanks into line
  breaks.
\<close>

theorem text_parts_lossless:
  assumes "ascii_text s"
  shows "go_join '' '' (text_parts s) = collapse False s"
proof -
  let ?t = "collapse False s" and ?nl = "CHR 0x0A"
  let ?vs = "breaks (-1) None (spaces (map byte_val ?t))"
  let ?u = "fold (\<lambda>v xs. xs[v := ?nl]) ?vs ?t"
  have chars: "byte_val c < 128" "c \<noteq> ?nl" if "c \<in> set ?t" for c
    using collapse_chars [OF that] assms
    by (auto simp: ascii_text_def list_all_iff byte_val_def re_space_def)
  have bv: "byte_val ?nl = 10" "byte_val (CHR '' '') = 32" by (simp_all add: byte_val_def)
  have sp: "v < length ?t \<and> ?t ! v = CHR '' ''" if "v \<in> set ?vs" for v
    using wrap_breaks [OF that] byte_val_inj [of "?t ! v" "CHR '' ''"] bv by auto
  have u: "map (\<lambda>c. if c = ?nl then CHR '' '' else c) ?u = ?t"
    using fold_update_map [of ?vs ?t "CHR '' ''" ?nl] sp chars(2) by (auto intro!: map_idI)
  have "byte_val c < 128" if "c \<in> set ?u" for c
  proof (cases "c = ?nl")
    case False
    then have "c \<in> set (map (\<lambda>c. if c = ?nl then CHR '' '' else c) ?u)" using that by (auto simp: image_iff)
    then show ?thesis unfolding u by (rule chars(1))
  qed (simp add: bv)
  then have "of_runes (map byte_val ?u) = ?u" by (intro of_runes_ascii) (simp add: list_all_iff)
  moreover have "wrap (map byte_val ?t) = map byte_val ?u"
    by (simp add: wrap_def fold_update_map_comm bv)
  moreover have "to_runes ?t = map byte_val ?t"
    by (rule to_runes_ascii) (simp add: list_all_iff chars(1))
  ultimately have "text_parts s = go_split ?nl ?u" by (simp add: text_parts_def)
  then show ?thesis using u by (simp add: go_split_map_join)
qed

theorem text_parts_lossless_witness:
  "go_join '' '' (text_parts ''[  Please wait me for a moment, Baby!  ]'') = ''[ Please wait me for a moment, Baby! ]''"
proof -
  have "ascii_text ''[  Please wait me for a moment, Baby!  ]''" by code_simp
  moreover have "collapse False ''[  Please wait me for a moment, Baby!  ]'' = ''[ Please wait me for a moment, Baby! ]''"
    by code_simp
  ultimately show ?thesis using text_parts_lossless by metis
qed

section \<open>The box\<close>

lemma longest_from_max:
  "length best \<le> length (longest_from best ls) \<and> (\<forall>l \<in> set ls. length l \<le> length (longest_from best ls))"
  by (induction best ls rule: longest_from.induct) (auto split: if_splits)

lemma longest_from_mem: "longest_from best ls = best \<or> longest_from best ls \<in> set ls"
  by (induction best ls rule: longest_from.induct) (auto split: if_splits)

lemma pad_right_length:
  "ascii_text l \<Longrightarrow> length l \<le> n \<Longrightarrow> length (pad_right n l) = n"
  by (simp add: pad_right_def ascii_text_def to_runes_ascii)

lemma box_lines_width:
  assumes "list_all (\<lambda>l. ascii_text l \<and> length l \<le> n) ls"
  shows "list_all (\<lambda>l. length l = n + 4) (box_lines n m i ls)"
  using assms by (induction n m i ls rule: box_lines.induct) (auto simp: pad_right_length backslash_def)

lemma box_lines_length [simp]: "length (box_lines n m i ls) = length ls"
  by (induction n m i ls rule: box_lines.induct) auto

lemma BoxedStrings_shape:
  assumes "lines \<noteq> []" and "list_all ascii_text lines"
  defines "n \<equiv> length (LongestLine lines)"
  shows "\<exists>body. BoxedStrings lines = ('' '' @ replicate (n + 2) (CHR ''_'')) # body @ ['' '' @ replicate (n + 2) (CHR ''-'')]
    \<and> length body = length lines \<and> list_all (\<lambda>l. length l = n + 4) body"
proof (cases "length lines = 1")
  case True
  then obtain l where l: "lines = [l]" by (auto simp: length_Suc_conv)
  then have "n = length l" by (simp add: n_def LongestLine_def)
  then show ?thesis using l by (auto simp: BoxedStrings_def Let_def n_def)
next
  case False
  have "list_all (\<lambda>l. ascii_text l \<and> length l \<le> n) lines"
    using assms(2) longest_from_max [of "[]" lines] by (auto simp: list_all_iff n_def LongestLine_def)
  from box_lines_width [OF this, of "length lines" 0] False assms(1) show ?thesis
    by (auto simp: BoxedStrings_def Let_def n_def)
qed

text \<open>
  The bubble is a box: for ASCII lines there is one row per line between the rule on top and the one
  at the bottom, all rows are equally wide, four more than the longest line, and the two
  rules span exactly the inside of the box.
\<close>

theorem BoxedStrings_rectangular:
  assumes "lines \<noteq> []" and "list_all ascii_text lines"
  shows "\<exists>body. BoxedStrings lines = ('' '' @ replicate (length (LongestLine lines) + 2) (CHR ''_'')) # body
        @ ['' '' @ replicate (length (LongestLine lines) + 2) (CHR ''-'')]
    \<and> length body = length lines \<and> list_all (\<lambda>l. length l = length (LongestLine lines) + 4) body
    \<and> LongestLine lines \<in> insert [] (set lines)
    \<and> list_all (\<lambda>l. length l \<le> length (LongestLine lines)) lines"
  using BoxedStrings_shape [OF assms] longest_from_max [of "[]" lines] longest_from_mem [of "[]" lines]
  by (auto simp: LongestLine_def list_all_iff)

theorem BoxedStrings_rectangular_witness:
  "\<exists>body. BoxedStrings [''ab'', ''c''] = ('' '' @ replicate 4 (CHR ''_'')) # body @ ['' '' @ replicate 4 (CHR ''-'')]
    \<and> list_all (\<lambda>l. length l = 6) body"
proof -
  have "length (LongestLine [''ab'', ''c'']) = 2" by code_simp
  moreover have "list_all ascii_text [''ab'', ''c'']" by code_simp
  ultimately show ?thesis using BoxedStrings_rectangular [of "[''ab'', ''c'']"] by auto
qed

end
