(* ===== verification/Sesh_Main.thy ===== *)
theory Sesh_Main
  imports Host_Config Task_Runner Cowsay
begin

text \<open>
  The program itself: \<^verbatim>\<open>main\<close> of \<^verbatim>\<open>src/main.go\<close>, \<^verbatim>\<open>printDebugInfo\<close> of \<^verbatim>\<open>src/hlp.go\<close> and the template
  functions of \<^verbatim>\<open>src/templ/templ.go\<close>. The parsed options are an argument (the option parser is a
  library), so are the files, the environment, standard input and the template engine, in
  the record \<open>main_world\<close>. A run of \<^verbatim>\<open>main\<close> is the list of what it prints and of the runners it
  calls, with how it ended.
\<close>

section \<open>Options and surroundings\<close>

record SeshFlags =
  opt_Hostfile :: string
  opt_Hostlist :: string
  opt_User :: string
  opt_Password :: string
  opt_Port :: string
  opt_Keyfile :: string
  opt_Cmdfile :: string
  opt_Tmpdir :: string
  opt_Data :: "string list"
  opt_Arguments :: string
  opt_Parallel :: bool
  opt_ParallelDegree :: int
  opt_Timeout :: int
  opt_Pause :: bool
  opt_Debug :: bool
  opt_Cmd :: "string list"
  opt_Src :: string
  opt_Destdir :: string

record main_world =
  runners :: run_world
  readFile :: "string \<Rightarrow> string + string"
  file_exists :: "string \<Rightarrow> bool"
  stdin_text :: string
  stdin_tty :: bool
  getenv :: "string \<Rightarrow> string"
  render :: "string \<Rightarrow> (string \<rightharpoonup> string) \<Rightarrow> string"
  sys_exec :: "string list \<Rightarrow> string option"
  rsync_result :: "string \<Rightarrow> string \<times> string option"
  schedule :: "int \<Rightarrow> nat list"

datatype main_event =
  MErr string
| MOut string
| MSerial int int "run_event list"
| MParallel int int run_result
| MInteract "run_event list"
| MScp "run_event list"
| MReadKey

datatype main_result =
  Exit "main_event list"
| Crash "main_event list" string
| Waits "main_event list"

definition red :: "string \<Rightarrow> string" where
  "red s = escape @ ''[31m'' @ s @ escape @ ''[0m''"

definition green :: "string \<Rightarrow> string" where
  "green s = escape @ ''[32m'' @ s @ escape @ ''[0m''"

definition yellow :: "string \<Rightarrow> string" where
  "yellow s = escape @ ''[33m'' @ s @ escape @ ''[0m''"

section \<open>Templates\<close>

definition ParseFromString :: "main_world \<Rightarrow> string \<Rightarrow> (string \<rightharpoonup> string) \<Rightarrow> string + string" where
  "ParseFromString w cmd data = Inr (render w cmd data)"

definition ParseFromFiles :: "main_world \<Rightarrow> string \<Rightarrow> (string \<rightharpoonup> string) \<Rightarrow> string + string" where
  "ParseFromFiles w fn data =
     (case readFile w fn of Inl err \<Rightarrow> Inl err | Inr buf \<Rightarrow> ParseFromString w buf data)"

section \<open>Debug output\<close>

definition show_bool :: "bool \<Rightarrow> string" where
  "show_bool b = (if b then ''true'' else ''false'')"

definition show_strings :: "string list \<Rightarrow> string" where
  "show_strings xs = ''['' @ go_join '' '' xs @ '']''"

definition printDebugInfo :: "SeshFlags \<Rightarrow> string list \<Rightarrow> string \<Rightarrow> main_event list" where
  "printDebugInfo opts hosts cmd =
     [MOut (yellow ''Configurations:'' @ [newline]),
      MOut (green ''User:'' @ '' '' @ opt_User opts @ [newline]),
      MOut (green ''Keyfile:'' @ '' '' @ opt_Keyfile opts @ [newline]),
      MOut (green ''Password:'' @ '' '' @ opt_Password opts @ [newline]),
      MOut (green ''Hosts:'' @ '' '' @ show_strings hosts @ [newline]),
      MOut (green ''Comands:'' @ [newline] @ cmd @ [newline])]
     @ (if opt_Parallel opts
        then [MOut (green ''Parallel:'' @ show_bool (opt_Parallel opts) @ '', degree: ''
                    @ go_itoa (opt_ParallelDegree opts) @ [newline]),
              MOut (green ''tmp direcotry:'' @ '' '' @ opt_Tmpdir opts @ [newline])]
        else [])
     @ [MOut (green ''Pause for check:'' @ '' '' @ show_bool (opt_Pause opts) @ [newline])]"

section \<open>From the options to a task\<close>

text \<open>The hosts and what is printed on the way; \<open>Inl\<close> when the host file cannot be read.\<close>

definition get_hosts :: "main_world \<Rightarrow> SeshFlags \<Rightarrow> main_event list + main_event list \<times> string list" where
  "get_hosts w opts =
     (if opt_Hostfile opts \<noteq> [] then
        (case readFile w (opt_Hostfile opts) of
           Inl err \<Rightarrow> Inl [MErr (red ''Failed to read host from file!'' @ [newline])]
         | Inr buf \<Rightarrow> Inr ([], parseHostsFromString buf))
      else if opt_Hostlist opts \<noteq> [] then Inr ([], parseHostsFromString (opt_Hostlist opts))
      else Inr (if stdin_tty w
                then [MErr (yellow ''Please input hosts, seperated by LINE SEPERATOR, press Ctrl+D to finish input:''
                            @ [newline])]
                else [], parseHostsFromString (stdin_text w)))"

text \<open>User and key file; \<open>Inl\<close> when the default key does not exist and there is no password.\<close>

definition get_user :: "main_world \<Rightarrow> SeshFlags \<Rightarrow> SeshFlags" where
  "get_user w opts = (if opt_User opts = [] then opts\<lparr>opt_User := getenv w ''USER''\<rparr> else opts)"

definition get_keyfile :: "main_world \<Rightarrow> SeshFlags \<Rightarrow> main_event list + SeshFlags" where
  "get_keyfile w opts =
     (if opt_Keyfile opts \<noteq> [] then Inr opts
      else
        (let o1 = opts\<lparr>opt_Keyfile := getenv w ''HOME'' @ ''/.ssh/id_rsa''\<rparr>
         in if file_exists w (opt_Keyfile o1) then Inr o1
            else if opt_Password o1 = []
            then Inl [MErr (red (''Key file '' @ opt_Keyfile o1 @ '' not found!'') @ [newline])]
            else Inr (o1\<lparr>opt_Keyfile := []\<rparr>)))"

definition auth_command :: "main_world \<Rightarrow> SeshFlags \<Rightarrow> SeshFlags" where
  "auth_command w opts =
     (if opt_Cmdfile opts = AuthCmdFile then
        (let pubkey = (if opt_Keyfile opts \<noteq> [] then opt_Keyfile opts @ ''.pub''
                       else getenv w ''HOME'' @ ''/.ssh/id_rsa.pub'')
         in case BuildinCmd_Get (readFile w pubkey) of
              Inl err \<Rightarrow> opts
            | Inr c \<Rightarrow> opts\<lparr>opt_Cmd := [c], opt_Cmdfile := []\<rparr>)
      else opts)"

definition join_commands :: "string list \<Rightarrow> string" where
  "join_commands cs = concat (map (\<lambda>v. v @ '' '') cs)"

definition get_command :: "main_world \<Rightarrow> SeshFlags \<Rightarrow> main_event list + string" where
  "get_command w opts =
     (if opt_Cmdfile opts \<noteq> [] then
        if \<not> file_exists w (opt_Cmdfile opts)
        then Inl [MErr (red (''Command file '' @ opt_Cmdfile opts @ '' not found!'') @ [newline])]
        else (case ParseFromFiles w (opt_Cmdfile opts) (parseData (opt_Data opts)) of
                Inl err \<Rightarrow> Inl [MErr (red ''Parse command file failed!'' @ [newline] @ err @ [newline])]
              | Inr cmd \<Rightarrow> Inr cmd)
      else (case ParseFromString w (join_commands (opt_Cmd opts)) (parseData (opt_Data opts)) of
              Inl err \<Rightarrow> Inl [MErr (red ''Parse command failed!'' @ [newline] @ err @ [newline])]
            | Inr cmd \<Rightarrow> Inr cmd))"

definition run_config :: "SeshFlags \<Rightarrow> string \<Rightarrow> TaskArgs" where
  "run_config opts cmd =
     \<lparr>ta_User = opt_User opts, ta_Password = opt_Password opts, ta_Keyfile = opt_Keyfile opts, ta_Port = opt_Port opts,
      ta_Cmd = cmd, ta_CmdArgs = opt_Arguments opts, ta_Timeout = opt_Timeout opts, ta_Parallel = False,
      ta_Source = [], ta_Destdir = []\<rparr>"

definition scp_config :: "SeshFlags \<Rightarrow> TaskArgs" where
  "scp_config opts =
     \<lparr>ta_User = opt_User opts, ta_Password = opt_Password opts, ta_Keyfile = opt_Keyfile opts, ta_Port = opt_Port opts,
      ta_Cmd = [], ta_CmdArgs = [], ta_Timeout = opt_Timeout opts, ta_Parallel = opt_Parallel opts,
      ta_Source = opt_Src opts, ta_Destdir = opt_Destdir opts\<rparr>"

definition finished :: main_event where
  "finished = MErr (green ''Finished!'' @ [newline])"

text \<open>
  Everything up to the run: \<open>Inl\<close> is an early end of the program, \<open>Inr\<close> the prints so
  far, the options as filled in, the hosts and the command.
\<close>

definition prepare ::
  "main_world \<Rightarrow> SeshFlags \<Rightarrow> main_result + main_event list \<times> SeshFlags \<times> string list \<times> string" where
  "prepare w o0 =
     (let o1 = (if opt_Timeout o0 < 1 then o0\<lparr>opt_Timeout := 5\<rparr> else o0)
      in case get_hosts w o1 of
           Inl es \<Rightarrow> Inl (Exit es)
         | Inr (es, hosts) \<Rightarrow>
             (case get_keyfile w (get_user w o1) of
                Inl es' \<Rightarrow> Inl (Exit (es @ es'))
              | Inr o2 \<Rightarrow>
                  if opt_Src o2 \<noteq> [] \<and> opt_Destdir o2 \<noteq> [] then
                    (case ScpRun (runners w) (rsync_result w) (schedule w 0) (scp_config o2) hosts of
                       None \<Rightarrow> Inl (Waits es)
                     | Some (rs, Some err) \<Rightarrow>
                         Inl (Exit (es @ [MScp rs, MErr (red (''Copy faild! '' @ err) @ [newline])]))
                     | Some (rs, None) \<Rightarrow> Inl (Exit (es @ [MScp rs, finished])))
                  else if opt_Cmd o2 = [] \<and> opt_Cmdfile o2 = []
                  then Inl (Exit (es @ [MErr (red ''Plese specify command you want execute.'' @ [newline])]))
                  else
                    (let o3 = auth_command w o2
                     in case get_command w o3 of
                          Inl es' \<Rightarrow> Inl (Exit (es @ es'))
                        | Inr cmd \<Rightarrow>
                            if \<not> file_exists w (opt_Tmpdir o3) \<and> opt_Parallel o3
                            then Inl (Exit (es @ [MErr (red (''Temporary directory '' @ opt_Tmpdir o3 @ '' is not exist!'')
                                                        @ [newline])]))
                            else if opt_Debug o3 then Inl (Exit (es @ printDebugInfo o3 hosts cmd))
                            else Inr (es, o3, hosts, cmd))))"

section \<open>The run\<close>

text \<open>The batches of a parallel run: the rounds of the loop, as slices of the host list.\<close>

function batches :: "int \<Rightarrow> int \<Rightarrow> int \<Rightarrow> (int \<times> int) list" where
  "batches degree off stop =
     (let to = (if off + degree > stop then stop else off + degree)
      in if off \<ge> to then [] else (off, to) # batches degree (off + degree) stop)"
  by pat_completeness auto
termination
  by (relation "measure (\<lambda>(degree, off, stop). nat (stop - off))") (auto split: if_splits)

declare batches.simps [simp del]

definition parallel_degree :: "int \<Rightarrow> int \<Rightarrow> int \<Rightarrow> int" where
  "parallel_degree degree off stop =
     (if degree < 1 \<or> degree > stop - off then stop - off else degree)"

fun parallel_loop ::
  "main_world \<Rightarrow> TaskArgs \<Rightarrow> string list \<Rightarrow> string \<Rightarrow> (int \<times> int) list \<Rightarrow> main_event list \<Rightarrow> main_result" where
  "parallel_loop w config hosts tmpdir [] es = Exit (es @ [finished])"
| "parallel_loop w config hosts tmpdir ((a, b) # bs) es =
     (let r = ParallelRun (runners w) (schedule w a) config hosts a b tmpdir; es' = es @ [MParallel a b r]
      in case r of
           RunPanic s \<Rightarrow> Crash es' s
         | StillRunning \<Rightarrow> Waits es'
         | _ \<Rightarrow> parallel_loop w config hosts tmpdir bs es')"

definition run_rest ::
  "main_world \<Rightarrow> TaskArgs \<Rightarrow> SeshFlags \<Rightarrow> string list \<Rightarrow> int \<Rightarrow> main_event list \<Rightarrow> main_result" where
  "run_rest w config opts hosts off es =
     (if opt_Parallel opts then
        parallel_loop w config hosts (opt_Tmpdir opts)
          (batches (parallel_degree (opt_ParallelDegree opts) off (int (length hosts))) off (int (length hosts)))
          (es @ [MErr (GirlSay [''  Please wait me for a moment, Baby!  ''] @ [newline])])
      else
        (case SerialRun (runners w) config hosts off (int (length hosts)) of
           None \<Rightarrow> Crash es ''slice bounds out of range''
         | Some rs \<Rightarrow> Exit (es @ [MSerial off (int (length hosts)) rs, finished])))"

definition pause_prompt :: "string \<Rightarrow> string" where
  "pause_prompt h =
     ''The task on '' @ yellow h @ '' has done.'' @ [newline] @ ''Press any key to auto login '' @ yellow h
     @ '' to have a check...''"

definition sesh_main :: "main_world \<Rightarrow> SeshFlags \<Rightarrow> main_result" where
  "sesh_main w o0 =
     (case prepare w o0 of
        Inl r \<Rightarrow> r
      | Inr (es, opts, hosts, cmd) \<Rightarrow>
          (let config = run_config opts cmd
           in if opt_Pause opts then
                (case SerialRun (runners w) config hosts 0 1 of
                   None \<Rightarrow> Crash es ''slice bounds out of range''
                 | Some rs \<Rightarrow>
                     run_rest w config opts hosts 1
                       (es @ [MSerial 0 1 rs, MErr (pause_prompt (hosts ! 0)), MReadKey,
                              MInteract (Interact (sys_exec w) config (hosts ! 0)),
                              MErr ([newline] @ green ''Check completed! Press any key to acomplish the left tasks.''),
                              MReadKey]))
              else run_rest w config opts hosts 0 es))"

section \<open>Batches\<close>

lemma batches_slices:
  assumes "0 \<le> off" and "0 < degree"
  shows "concat (map (\<lambda>(a, b). take (nat (b - a)) (drop (nat a) xs)) (batches degree off (int (length xs))))
    = drop (nat off) xs"
  using assms
proof (induction degree off "int (length xs)" rule: batches.induct)
  case (1 degree off)
  let ?n = "int (length xs)"
  define to where "to = (if off + degree > ?n then ?n else off + degree)"
  show ?case
  proof (cases "off \<ge> to")
    case True
    then have "length xs \<le> nat off" using 1 by (auto simp: to_def split: if_splits)
    with True show ?thesis by (subst batches.simps) (simp add: to_def)
  next
    case False
    then have IH: "concat (map (\<lambda>(a, b). take (nat (b - a)) (drop (nat a) xs)) (batches degree (off + degree) ?n))
        = drop (nat (off + degree)) xs"
      using 1 by (auto simp: to_def)
    have "take (nat (to - off)) (drop (nat off) xs) @ drop (nat (off + degree)) xs = drop (nat off) xs"
    proof (cases "off + degree > ?n")
      case True
      then show ?thesis using False by (simp add: to_def)
    next
      case in_range: False
      have "drop (nat (off + degree)) xs = drop (nat degree) (drop (nat off) xs)"
        using 1 by (simp add: nat_add_distrib add.commute)
      then show ?thesis
        using in_range 1 append_take_drop_id [of "nat degree" "drop (nat off) xs"] by (simp add: to_def)
    qed
    with False IH show ?thesis by (subst batches.simps) (simp add: to_def)
  qed
qed

lemma batches_shape:
  assumes "0 \<le> off" and "0 < degree"
  shows "list_all (\<lambda>(a, b). 0 \<le> a \<and> a < b \<and> b \<le> stop \<and> b - a \<le> degree) (batches degree off stop)
    \<and> list_all (\<lambda>(a, b). b - a = degree) (butlast (batches degree off stop))"
  using assms
proof (induction degree off stop rule: batches.induct)
  case (1 degree off stop)
  define to where "to = (if off + degree > stop then stop else off + degree)"
  show ?case
  proof (cases "off \<ge> to")
    case True
    then show ?thesis by (subst (1 2) batches.simps) (simp add: to_def)
  next
    case False
    then have b: "batches degree off stop = (off, to) # batches degree (off + degree) stop"
      by (subst batches.simps) (simp add: to_def)
    have IH: "list_all (\<lambda>(a, b). 0 \<le> a \<and> a < b \<and> b \<le> stop \<and> b - a \<le> degree) (batches degree (off + degree) stop)"
      "list_all (\<lambda>(a, b). b - a = degree) (butlast (batches degree (off + degree) stop))"
      using 1 False by (auto simp: to_def)
    have "to - off = degree" if "batches degree (off + degree) stop \<noteq> []"
      using that False by (subst (asm) batches.simps) (auto simp: to_def Let_def split: if_splits)
    then show ?thesis using IH False 1 unfolding b by (auto simp: to_def)
  qed
qed

lemma parallel_degree_pos: "off < stop \<Longrightarrow> 0 < parallel_degree degree off stop"
  by (simp add: parallel_degree_def)

text \<open>
  The batches of a parallel run are a partition of the hosts that are left: taken in order they
  give every such host once, none is empty or longer than the parallel degree, only the
  last one may be shorter, and all are proper slices of the host list. A degree below one or
  above the number of hosts means all at once.
\<close>

theorem batches_partition:
  fixes degree :: int
  assumes "0 \<le> off" and "off < int (length hosts)"
  defines "d \<equiv> parallel_degree degree off (int (length hosts))"
  shows "concat (map (\<lambda>(a, b). the (go_slice hosts a b)) (batches d off (int (length hosts)))) = drop (nat off) hosts
    \<and> list_all (\<lambda>(a, b). go_slice hosts a b \<noteq> None \<and> a < b \<and> b - a \<le> d) (batches d off (int (length hosts)))
    \<and> list_all (\<lambda>(a, b). b - a = d) (butlast (batches d off (int (length hosts))))
    \<and> d = (if 1 \<le> degree \<and> degree \<le> int (length hosts) - off then degree else int (length hosts) - off)"
proof -
  let ?bs = "batches d off (int (length hosts))"
  have d: "0 < d" using parallel_degree_pos [OF assms(2)] by (simp add: d_def)
  note s = batches_shape [OF assms(1) d, of "int (length hosts)"]
  have in_range: "the (go_slice hosts a b) = take (nat (b - a)) (drop (nat a) hosts) \<and> go_slice hosts a b \<noteq> None"
    if "(a, b) \<in> set ?bs" for a b
    using s that by (auto simp: list_all_iff go_slice_def)
  then have "map (\<lambda>(a, b). the (go_slice hosts a b)) ?bs = map (\<lambda>(a, b). take (nat (b - a)) (drop (nat a) hosts)) ?bs"
    by auto
  then have "concat (map (\<lambda>(a, b). the (go_slice hosts a b)) ?bs) = drop (nat off) hosts"
    using batches_slices [OF assms(1) d, of hosts] by (simp only:)
  moreover have "list_all (\<lambda>(a, b). go_slice hosts a b \<noteq> None \<and> a < b \<and> b - a \<le> d) ?bs"
    using s in_range by (auto simp: list_all_iff)
  moreover have "d = (if 1 \<le> degree \<and> degree \<le> int (length hosts) - off then degree else int (length hosts) - off)"
    by (simp add: d_def parallel_degree_def)
  ultimately show ?thesis using s by blast
qed

theorem batches_partition_witness:
  "concat (map (\<lambda>(a, b). the (go_slice [''a'', ''b'', ''c''] a b)) (batches 2 0 3)) = [''a'', ''b'', ''c'']
   \<and> batches 2 0 3 = [(0, 2), (2, 3)]"
proof -
  have "batches 2 0 3 = [(0, 2), (2, 3)]" by code_simp
  then show ?thesis
    using batches_partition [of 0 "[''a'', ''b'', ''c'']" 2] by (simp add: parallel_degree_def)
qed

section \<open>The whole program\<close>

text \<open>The hosts the runners were called for, in order.\<close>

fun served :: "string list \<Rightarrow> main_event list \<Rightarrow> string list" where
  "served hosts [] = []"
| "served hosts (e # es) =
     (case e of
        MSerial a b _ \<Rightarrow> take (nat (b - a)) (drop (nat a) hosts)
      | MParallel a b _ \<Rightarrow> take (nat (b - a)) (drop (nat a) hosts)
      | _ \<Rightarrow> []) @ served hosts es"

lemma served_append [simp]: "served hosts (xs @ ys) = served hosts xs @ served hosts ys"
  by (induction xs) auto

lemma parallel_loop_cases:
  "case parallel_loop w config hosts tmpdir bs es of
     Exit evs \<Rightarrow> served hosts evs = served hosts es @ concat (map (\<lambda>(a, b). take (nat (b - a)) (drop (nat a) hosts)) bs)
       \<and> last evs = finished
   | Crash evs s \<Rightarrow> \<exists>a b. last evs = MParallel a b (RunPanic s)
   | Waits evs \<Rightarrow> \<exists>a b. last evs = MParallel a b StillRunning"
proof (induction w config hosts tmpdir bs es rule: parallel_loop.induct)
  case (2 w config hosts tmpdir a b bs es)
  let ?r = "ParallelRun (runners w) (schedule w a) config hosts a b tmpdir"
  show ?case
    using "2.IH" [OF refl refl, of "[]"] "2.IH" [OF refl refl]
    by (cases ?r) (auto simp: Let_def split: main_result.splits)
qed (simp add: finished_def)

lemma served_nil:
  "list_all (\<lambda>e. case e of MErr _ \<Rightarrow> True | MOut _ \<Rightarrow> True | _ \<Rightarrow> False) es \<Longrightarrow> served hosts es = []"
  by (induction es) (auto split: main_event.splits)

definition only_prints :: "main_event list \<Rightarrow> bool" where
  "only_prints es = list_all (\<lambda>e. case e of MErr _ \<Rightarrow> True | MOut _ \<Rightarrow> True | _ \<Rightarrow> False) es"

lemma only_prints_append [simp]: "only_prints (xs @ ys) \<longleftrightarrow> only_prints xs \<and> only_prints ys"
  by (simp add: only_prints_def)

lemma only_prints_hosts:
  "get_hosts w opts = Inl es \<Longrightarrow> only_prints es" "get_hosts w opts = Inr (es, hosts) \<Longrightarrow> only_prints es"
  by (auto simp: get_hosts_def only_prints_def split: if_splits sum.splits)

lemma only_prints_others:
  "get_keyfile w opts = Inl es \<Longrightarrow> only_prints es" "get_command w opts = Inl es \<Longrightarrow> only_prints es"
  "only_prints (printDebugInfo opts hosts cmd)"
  by (auto simp: get_keyfile_def get_command_def printDebugInfo_def only_prints_def Let_def
      split: if_splits sum.splits)

lemma keyfile_keeps:
  "get_keyfile w opts = Inr o2 \<Longrightarrow> opt_Debug o2 = opt_Debug opts \<and> opt_Src o2 = opt_Src opts \<and> opt_Destdir o2 = opt_Destdir opts"
  by (auto simp: get_keyfile_def Let_def split: if_splits)

lemma user_keeps [simp]:
  "opt_Debug (get_user w opts) = opt_Debug opts" "opt_Src (get_user w opts) = opt_Src opts"
  "opt_Destdir (get_user w opts) = opt_Destdir opts"
  by (simp_all add: get_user_def)

lemma auth_keeps [simp]: "opt_Debug (auth_command w opts) = opt_Debug opts"
  by (auto simp: auth_command_def Let_def split: sum.splits)

lemma prepare_Inr:
  assumes "prepare w o0 = Inr (es, opts, hosts, cmd)"
  shows "only_prints es \<and> \<not> opt_Debug o0"
  using assms
  by (auto simp: prepare_def Let_def split: sum.splits prod.splits if_splits option.splits
      dest!: keyfile_keeps dest: only_prints_hosts)

lemma prepare_no_scp:
  assumes "prepare w o0 = Inl r" and "opt_Src o0 = [] \<or> opt_Destdir o0 = []"
  shows "\<exists>es. r = Exit es \<and> only_prints es"
  using assms
  by (auto simp: prepare_def Let_def split: sum.splits prod.splits if_splits
      dest!: keyfile_keeps dest: only_prints_hosts only_prints_others(1,2) intro: only_prints_others(3)
      simp: only_prints_def [of "[_]"] only_prints_def [of "[]"])

lemma run_rest_cases:
  assumes "0 \<le> off" and "off \<le> int (length hosts)"
  shows "case run_rest w config opts hosts off es of
     Exit evs \<Rightarrow> served hosts evs = served hosts es @ drop (nat off) hosts \<and> last evs = finished
   | Crash evs s \<Rightarrow> opt_Parallel opts \<and> (\<exists>a b. last evs = MParallel a b (RunPanic s))
   | Waits evs \<Rightarrow> opt_Parallel opts \<and> (\<exists>a b. last evs = MParallel a b StillRunning)"
proof (cases "opt_Parallel opts")
  case True
  let ?d = "parallel_degree (opt_ParallelDegree opts) off (int (length hosts))"
  have slices: "concat (map (\<lambda>(a, b). take (nat (b - a)) (drop (nat a) hosts)) (batches ?d off (int (length hosts))))
      = drop (nat off) hosts"
  proof (cases "off < int (length hosts)")
    case True
    then show ?thesis by (rule batches_slices [OF assms(1) parallel_degree_pos])
  next
    case False
    then show ?thesis using assms by (subst batches.simps) auto
  qed
  show ?thesis
    using True slices parallel_loop_cases [where w = w and config = config and hosts = hosts
        and tmpdir = "opt_Tmpdir opts" and bs = "batches ?d off (int (length hosts))"
        and es = "es @ [MErr (GirlSay [''  Please wait me for a moment, Baby!  ''] @ [newline])]"]
    by (auto simp: run_rest_def split: main_result.splits)
next
  case False
  then show ?thesis
    using assms by (auto simp: run_rest_def SerialRun_def go_slice_def finished_def)
qed


definition demo_main :: main_world where
  "demo_main =
     \<lparr>runners = demo_world, readFile = \<lambda>_. Inl ''no such file'', file_exists = \<lambda>_. True, stdin_text = [],
      stdin_tty = False, getenv = \<lambda>v. if v = ''HOME'' then ''/h'' else ''me'',
      render = \<lambda>s _. s, sys_exec = \<lambda>_. None, rsync_result = \<lambda>_. ([], None), schedule = \<lambda>_. demo_schedule\<rparr>"

definition demo_flags :: SeshFlags where
  "demo_flags =
     \<lparr>opt_Hostfile = [], opt_Hostlist = ''a,b'', opt_User = [], opt_Password = [], opt_Port = [], opt_Keyfile = [],
      opt_Cmdfile = [], opt_Tmpdir = ''.'', opt_Data = [], opt_Arguments = [], opt_Parallel = True,
      opt_ParallelDegree = 1, opt_Timeout = 0, opt_Pause = True, opt_Debug = False, opt_Cmd = [''ls''],
      opt_Src = [], opt_Destdir = []\<rparr>"


text \<open>
  \<^verbatim>\<open>--debug\<close> performs no task: unless files are to be sent, the program ends with nothing but
  lines printed. The same holds for every early end: an unreadable host file, a missing key, a
  missing command or command file, or a missing temporary directory.
\<close>

theorem debug_performs_nothing:
  assumes "opt_Src o0 = [] \<or> opt_Destdir o0 = []"
    and "opt_Debug o0 \<or> (\<exists>r. prepare w o0 = Inl r)"
  shows "\<exists>es. sesh_main w o0 = Exit es \<and> only_prints es"
proof -
  obtain r where r: "prepare w o0 = Inl r"
    using assms(2) prepare_Inr [of w o0] by (cases "prepare w o0") (auto)
  from prepare_no_scp [OF r assms(1)] obtain es where "r = Exit es" "only_prints es" by blast
  then show ?thesis using r by (simp add: sesh_main_def)
qed

theorem debug_performs_nothing_witness:
  "\<exists>es. sesh_main demo_main (demo_flags\<lparr>opt_Debug := True\<rparr>) = Exit es \<and> only_prints es"
  using debug_performs_nothing [of "demo_flags\<lparr>opt_Debug := True\<rparr>" demo_main] by (simp add: demo_flags_def)

text \<open>With \<^verbatim>\<open>--check\<close> and no host the program panics, and \<^verbatim>\<open>send\<close> copies files even with \<^verbatim>\<open>--debug\<close>.\<close>

lemma check_without_hosts_panics:
  "prepare w o0 = Inr (es, opts, [], cmd) \<Longrightarrow> opt_Pause opts \<Longrightarrow>
     sesh_main w o0 = Crash es ''slice bounds out of range''"
  by (simp add: sesh_main_def SerialRun_def go_slice_def)

lemma debug_send_copies:
  "\<exists>rs. sesh_main demo_main (demo_flags\<lparr>opt_Debug := True, opt_Parallel := False, opt_Src := ''f'', opt_Destdir := ''/d''\<rparr>)
     = Exit [MScp rs, finished]"
  by (simp add: sesh_main_def prepare_def get_hosts_def get_user_def get_keyfile_def ScpRun_def scp_config_def
      demo_flags_def demo_main_def Let_def)

end
