(* ===== verification/Ssh_Wire.thy ===== *)
theory Ssh_Wire
  imports Go_Strings
begin

unbundle bit_operations_syntax

text \<open>
  The ssh wire format of \<^verbatim>\<open>src/golang.org/x/crypto/ssh/messages.go\<close> and the \<^verbatim>\<open>append*\<close> helpers
  of \<^verbatim>\<open>common.go\<close>. Go walks over a struct with \<^verbatim>\<open>reflect\<close>; here a struct type is a list of field
  kinds together with the \<^verbatim>\<open>sshtype\<close> tag of its first field, and a struct value is a list of
  field values. \<^verbatim>\<open>Marshal\<close> and \<^verbatim>\<open>Unmarshal\<close> are translated kind by kind. A Go run time panic is
  \<open>None\<close>. The theory proves that \<^verbatim>\<open>intLength\<close> is exactly the space \<^verbatim>\<open>marshalInt\<close> fills, so
  that \<^verbatim>\<open>Marshal\<close> never panics, and that \<^verbatim>\<open>Unmarshal\<close> inverts \<^verbatim>\<open>Marshal\<close>.
\<close>

section \<open>Integers as byte strings (math/big)\<close>

text \<open>\<^verbatim>\<open>big.Int.Bytes\<close>: the big-endian bytes of the absolute value, none for zero.\<close>

function bigBytes :: "nat \<Rightarrow> byte list" where
  "bigBytes n = (if n = 0 then [] else bigBytes (n div 256) @ [of_nat (n mod 256)])"
  by pat_completeness auto
termination
  by (relation "measure id") auto

declare bigBytes.simps [simp del]

text \<open>\<^verbatim>\<open>big.Int.SetBytes\<close>.\<close>

definition bigSetBytes :: "byte list \<Rightarrow> nat" where
  "bigSetBytes bs = foldl (\<lambda>a b. 256 * a + unat b) 0 bs"

text \<open>\<^verbatim>\<open>big.Int.BitLen\<close>.\<close>

function bigBitLen :: "nat \<Rightarrow> nat" where
  "bigBitLen n = (if n = 0 then 0 else Suc (bigBitLen (n div 2)))"
  by pat_completeness auto
termination
  by (relation "measure id") auto

declare bigBitLen.simps [simp del]

lemma bigBytes_0 [simp]: "bigBytes 0 = []"
  by (subst bigBytes.simps) simp

lemma bigBytes_pos: "0 < n \<Longrightarrow> bigBytes n = bigBytes (n div 256) @ [of_nat (n mod 256)]"
  by (subst bigBytes.simps) simp

lemma bigBitLen_0 [simp]: "bigBitLen 0 = 0"
  by (subst bigBitLen.simps) simp

lemma bigBitLen_pos: "0 < n \<Longrightarrow> bigBitLen n = Suc (bigBitLen (n div 2))"
  by (subst bigBitLen.simps) simp

lemma bigSetBytes_Nil [simp]: "bigSetBytes [] = 0"
  by (simp add: bigSetBytes_def)

lemma bigSetBytes_snoc [simp]: "bigSetBytes (bs @ [b]) = 256 * bigSetBytes bs + unat b"
  by (simp add: bigSetBytes_def)

lemma bigSetBytes_Cons_0 [simp]: "bigSetBytes (0 # bs) = bigSetBytes bs"
  by (simp add: bigSetBytes_def)

lemma bigSetBytes_bigBytes [simp]: "bigSetBytes (bigBytes n) = n"
proof (induction n rule: less_induct)
  case (less n)
  show ?case
  proof (cases "n = 0")
    case False
    then have "bigBytes n = bigBytes (n div 256) @ [of_nat (n mod 256)]"
      by (simp add: bigBytes_pos)
    moreover have "unat (of_nat (n mod 256) :: byte) = n mod 256"
      by (simp add: unat_of_nat)
    ultimately show ?thesis using less [of "n div 256"] False by simp
  qed simp
qed

lemma bigBitLen_div256: "256 \<le> n \<Longrightarrow> bigBitLen n = 8 + bigBitLen (n div 256)"
proof -
  assume n: "256 \<le> n"
  have step: "bigBitLen m = Suc (bigBitLen (m div 2))" if "1 \<le> m" for m
    using that by (simp add: bigBitLen_pos)
  have "bigBitLen n = Suc (bigBitLen (n div 2))" using n by (simp add: step)
  also have "bigBitLen (n div 2) = Suc (bigBitLen (n div 2 div 2))" using n by (intro step) simp
  also have "bigBitLen (n div 2 div 2) = Suc (bigBitLen (n div 2 div 2 div 2))"
    using n by (intro step) simp
  also have "bigBitLen (n div 2 div 2 div 2) = Suc (bigBitLen (n div 2 div 2 div 2 div 2))"
    using n by (intro step) simp
  also have "bigBitLen (n div 2 div 2 div 2 div 2) = Suc (bigBitLen (n div 2 div 2 div 2 div 2 div 2))"
    using n by (intro step) simp
  also have "bigBitLen (n div 2 div 2 div 2 div 2 div 2)
      = Suc (bigBitLen (n div 2 div 2 div 2 div 2 div 2 div 2))"
    using n by (intro step) simp
  also have "bigBitLen (n div 2 div 2 div 2 div 2 div 2 div 2)
      = Suc (bigBitLen (n div 2 div 2 div 2 div 2 div 2 div 2 div 2))"
    using n by (intro step) simp
  also have "bigBitLen (n div 2 div 2 div 2 div 2 div 2 div 2 div 2)
      = Suc (bigBitLen (n div 2 div 2 div 2 div 2 div 2 div 2 div 2 div 2))"
    using n by (intro step) simp
  finally show ?thesis by (simp add: div_mult2_eq [symmetric])
qed

lemma bigBitLen_bounds: "0 < n \<Longrightarrow> 2 ^ (bigBitLen n - 1) \<le> n \<and> n < 2 ^ bigBitLen n \<and> 0 < bigBitLen n"
proof (induction n rule: bigBitLen.induct)
  case (1 n)
  show ?case
  proof (cases "n div 2 = 0")
    case True
    then have "n = 1" using "1.prems" by auto
    then show ?thesis by (simp add: bigBitLen_pos)
  next
    case False
    then have IH: "2 ^ (bigBitLen (n div 2) - 1) \<le> n div 2" "n div 2 < 2 ^ bigBitLen (n div 2)"
      "0 < bigBitLen (n div 2)" using 1 by auto
    then have "(2::nat) ^ bigBitLen (n div 2) = 2 * 2 ^ (bigBitLen (n div 2) - 1)"
      by (metis Suc_diff_1 power_Suc)
    then have "2 ^ bigBitLen (n div 2) \<le> n" using IH(1) by linarith
    moreover have "n < 2 * 2 ^ bigBitLen (n div 2)" using IH(2) by linarith
    ultimately show ?thesis using "1.prems" by (simp add: bigBitLen_pos)
  qed
qed

lemma bigBitLen_eqI: "2 ^ k \<le> n \<Longrightarrow> n < 2 ^ Suc k \<Longrightarrow> bigBitLen n = Suc k"
proof -
  assume a: "2 ^ k \<le> n" "n < 2 ^ Suc k"
  then have "0 < n" by (metis gr0I le_zero_eq power_eq_0_iff zero_neq_numeral)
  note b = bigBitLen_bounds [OF this]
  have "k < bigBitLen n"
    using a(1) b by (meson le_less_trans one_less_numeral_iff power_less_imp_less_exp semiring_norm(76))
  moreover have "bigBitLen n - 1 < Suc k"
    using a(2) b by (meson le_less_trans one_less_numeral_iff power_less_imp_less_exp semiring_norm(76))
  ultimately show ?thesis by simp
qed

text \<open>The number of bytes and the top bit of the first one, from the bit length.\<close>

lemma bigBytes_length_msb:
  "0 < n \<Longrightarrow> length (bigBytes n) = (bigBitLen n + 7) div 8
     \<and> bigBytes n \<noteq> [] \<and> (128 \<le> unat (hd (bigBytes n)) \<longleftrightarrow> bigBitLen n mod 8 = 0)"
proof (induction n rule: less_induct)
  case (less n)
  show ?case
  proof (cases "n < 256")
    case True
    then have bs: "bigBytes n = [of_nat n]" using less.prems by (simp add: bigBytes_pos)
    have u: "unat (of_nat n :: byte) = n" using True by (simp add: unat_of_nat)
    consider "n < 128" | "128 \<le> n" by linarith
    then show ?thesis
    proof cases
      case 1
      have "0 < bigBitLen n" and "2 ^ (bigBitLen n - 1) \<le> n"
        using bigBitLen_bounds [OF less.prems] by auto
      then have "(2::nat) ^ (bigBitLen n - 1) < 2 ^ 7" using 1 by simp
      then have "bigBitLen n - 1 < 7"
        by (rule power_less_imp_less_exp [rotated]) simp
      then show ?thesis using bs u 1 \<open>0 < bigBitLen n\<close> by simp
    next
      case 2
      then have "bigBitLen n = 8" using True bigBitLen_eqI [of 7 n] by simp
      then show ?thesis using bs u 2 by simp
    qed
  next
    case False
    let ?m = "n div 256"
    have "0 < ?m" "?m < n" using False by auto
    note IH = less.IH [OF this(2,1)]
    have "bigBytes n = bigBytes ?m @ [of_nat (n mod 256)]" using less.prems by (rule bigBytes_pos)
    moreover have "bigBitLen n = 8 + bigBitLen ?m" using False by (intro bigBitLen_div256) simp
    ultimately show ?thesis using IH by simp
  qed
qed

section \<open>Appending and parsing primitive values\<close>

definition appendU16 :: "byte list \<Rightarrow> 16 word \<Rightarrow> byte list" where
  "appendU16 buf n = buf @ [ucast (drop_bit 8 n), ucast n]"

definition appendU32 :: "byte list \<Rightarrow> u32 \<Rightarrow> byte list" where
  "appendU32 buf n =
     buf @ [ucast (drop_bit 24 n), ucast (drop_bit 16 n), ucast (drop_bit 8 n), ucast n]"

definition appendU64 :: "byte list \<Rightarrow> u64 \<Rightarrow> byte list" where
  "appendU64 buf n =
     buf @ [ucast (drop_bit 56 n), ucast (drop_bit 48 n), ucast (drop_bit 40 n),
            ucast (drop_bit 32 n), ucast (drop_bit 24 n), ucast (drop_bit 16 n),
            ucast (drop_bit 8 n), ucast n]"

definition appendInt :: "byte list \<Rightarrow> int \<Rightarrow> byte list" where
  "appendInt buf n = appendU32 buf (word_of_int n)"

definition appendString :: "byte list \<Rightarrow> byte list \<Rightarrow> byte list" where
  "appendString buf s = appendU32 buf (word_of_nat (length s)) @ s"

definition appendBool :: "byte list \<Rightarrow> bool \<Rightarrow> byte list" where
  "appendBool buf b = (if b then buf @ [1] else buf @ [0])"

definition parseUint32 :: "byte list \<Rightarrow> (u32 \<times> byte list) option" where
  "parseUint32 in0 = (if length in0 < 4 then None else Some (getUint32 in0, drop 4 in0))"

definition parseUint64 :: "byte list \<Rightarrow> (u64 \<times> byte list) option" where
  "parseUint64 in0 = (if length in0 < 8 then None else Some (getUint64 in0, drop 8 in0))"

definition parseString :: "byte list \<Rightarrow> (byte list \<times> byte list) option" where
  "parseString in0 =
     (if length in0 < 4 then None
      else let len = getUint32 in0; in1 = drop 4 in0
           in if (word_of_nat (length in1) :: u32) < len then None
              else Some (take (unat len) in1, drop (unat len) in1))"

definition comma :: byte where
  "comma = 44"

definition parseNameList :: "byte list \<Rightarrow> (byte list list \<times> byte list) option" where
  "parseNameList in0 =
     (case parseString in0 of
        None \<Rightarrow> None
      | Some (contents, rest) \<Rightarrow>
          if contents = [] then Some ([], rest) else Some (go_split comma contents, rest))"

definition parseInt :: "byte list \<Rightarrow> (int \<times> byte list) option" where
  "parseInt in0 =
     (case parseString in0 of
        None \<Rightarrow> None
      | Some (contents, rest) \<Rightarrow>
          if contents \<noteq> [] \<and> hd contents AND 0x80 = 0x80
          then Some (- (int (bigSetBytes (map NOT contents)) + 1), rest)
          else Some (int (bigSetBytes contents), rest))"

definition intLength :: "int \<Rightarrow> nat" where
  "intLength n =
     (if n < 0 then
        let bitLen = bigBitLen (nat (- n - 1))
        in 4 + (if bitLen mod 8 = 0 then 1 else 0) + (bitLen + 7) div 8
      else if n = 0 then 4
      else
        let bitLen = bigBitLen (nat n)
        in 4 + (if bitLen mod 8 = 0 then 1 else 0) + (bitLen + 7) div 8)"

text \<open>The padding byte, if any, and the digits \<^verbatim>\<open>marshalInt\<close> writes after the length.\<close>

definition marshalInt_parts :: "int \<Rightarrow> byte list \<times> byte list" where
  "marshalInt_parts n =
     (if n < 0 then
        let bytes = map (\<lambda>b. b XOR 0xff) (bigBytes (nat (- n - 1)))
        in (if bytes = [] \<or> hd bytes AND 0x80 = 0 then [0xff] else [], bytes)
      else if n = 0 then ([], [])
      else
        let bytes = bigBytes (nat n)
        in (if bytes \<noteq> [] \<and> hd bytes AND 0x80 \<noteq> 0 then [0] else [], bytes))"

text \<open>
  \<^verbatim>\<open>marshalInt\<close> writes into the buffer \<open>to\<close>; the result is the buffer afterwards. Writing the
  padding or the length outside the buffer panics, \<^verbatim>\<open>copy\<close> stops at its end.
\<close>

definition marshalInt :: "byte list \<Rightarrow> int \<Rightarrow> byte list option" where
  "marshalInt to n =
     (if length to < 4 then None
      else let body = drop 4 to; (pad, bytes) = marshalInt_parts n
           in if length body < length pad then None
              else let room = drop (length pad) body; nBytes = min (length room) (length bytes)
                   in Some (putUint32 (word_of_nat (length pad + nBytes))
                            @ pad @ take nBytes bytes @ drop nBytes room))"

definition marshalString :: "byte list \<Rightarrow> byte list \<Rightarrow> byte list option" where
  "marshalString to s =
     (if length to < 4 then None
      else let room = drop 4 to; n = min (length room) (length s)
           in if length room < length s then None
              else Some (putUint32 (word_of_nat (length s)) @ take n s @ drop n room))"

definition writeString :: "byte list \<Rightarrow> byte list" where
  "writeString s = putUint32 (word_of_nat (length s)) @ s"

definition writeInt :: "int \<Rightarrow> byte list option" where
  "writeInt n = marshalInt (replicate (intLength n) 0) n"

definition stringLength :: "nat \<Rightarrow> nat" where
  "stringLength n = 4 + n"

lemma appendU32_eq [wire_simps]: "appendU32 buf n = buf @ putUint32 n"
  by (simp add: appendU32_def putUint32_def)

lemma appendU64_eq [wire_simps]: "appendU64 buf n = buf @ putUint64 n"
  by (simp add: appendU64_def putUint64_def)

lemma appendInt_eq [wire_simps]: "appendInt buf (int n) = buf @ putUint32 (word_of_nat n)"
  by (simp add: appendInt_def appendU32_eq)

lemma parseUint32_put [simp, wire_simps]: "parseUint32 (putUint32 n @ xs) = Some (n, xs)"
  by (simp add: parseUint32_def)

lemma parseUint64_put [simp, wire_simps]: "parseUint64 (putUint64 n @ xs) = Some (n, xs)"
  by (simp add: parseUint64_def)

lemma parseString_put [simp, wire_simps]:
  assumes "length s + length xs < 2 ^ 32"
  shows "parseString (putUint32 (word_of_nat (length s)) @ s @ xs) = Some (s, xs)"
proof -
  have "unat (word_of_nat (length s) :: u32) = length s"
    and "unat (word_of_nat (length s + length xs) :: u32) = length s + length xs"
    using assms by (simp_all add: unat_of_nat del: of_nat_add)
  then show ?thesis
    by (simp add: parseString_def Let_def word_less_nat_alt del: of_nat_add)
qed

lemma byte_bit7: "bit (b::byte) 7 \<longleftrightarrow> 128 \<le> unat b"
proof -
  have "bit b 7 \<longleftrightarrow> bit (unat b) 7" by (simp add: bit_unsigned_iff)
  also have "\<dots> \<longleftrightarrow> odd (unat b div 128)" by (simp add: bit_iff_odd)
  also have "\<dots> \<longleftrightarrow> 128 \<le> unat b"
  proof -
    have "unat b < 256" using unsigned_less [of b, where ?'a = nat] by simp
    then have "unat b div 128 = (if 128 \<le> unat b then 1 else 0)" by auto
    then show ?thesis by simp
  qed
  finally show ?thesis .
qed

lemma byte_msb: "(b::byte) AND 0x80 \<noteq> 0 \<longleftrightarrow> 128 \<le> unat b"
  using bit_iff_and_push_bit_not_eq_0 [of b 7] by (simp add: byte_bit7)

lemma byte_msb_eq: "(b::byte) AND 0x80 = 0x80 \<longleftrightarrow> 128 \<le> unat b"
proof -
  have "b AND 0x80 = (if bit b 7 then 0x80 else 0)"
  proof (rule bit_word_eqI)
    fix n :: nat assume "n < LENGTH(8)"
    have "bit (0x80 :: byte) n \<longleftrightarrow> n = 7"
      using bit_push_bit_iff [of 7 "1::byte" n] \<open>n < LENGTH(8)\<close> by (auto simp: bit_1_iff)
    then show "bit (b AND 0x80) n = bit (if bit b 7 then 0x80 else (0::byte)) n"
      by (auto simp: bit_and_iff)
  qed
  then show ?thesis by (simp add: byte_bit7)
qed

lemma byte_xor_ff: "(b::byte) XOR 0xff = NOT b"
proof -
  have "(0xff :: byte) = - 1" by simp
  then show ?thesis by (simp only: bit.xor_one_right)
qed

lemma unat_NOT_byte: "unat (NOT (b::byte)) = 255 - unat b"
proof -
  have "NOT b = - 1 - b" by (simp add: not_eq_complement)
  moreover have "unat ((- 1 :: byte) - b) = unat (- 1 :: byte) - unat b"
    by (rule unat_sub) simp
  moreover have "unat (- 1 :: byte) = 255" by (simp add: unsigned_minus_1_eq_mask mask_eq_exp_minus_1)
  ultimately show ?thesis by simp
qed

text \<open>The padding byte is written exactly when the top bit would give the wrong sign.\<close>

lemma marshalInt_parts_pos:
  "0 < n \<Longrightarrow> marshalInt_parts n =
     (if bigBitLen (nat n) mod 8 = 0 then [0] else [], bigBytes (nat n))"
  using bigBytes_length_msb [of "nat n"] by (auto simp: marshalInt_parts_def Let_def byte_msb)

lemma marshalInt_parts_neg:
  assumes "n < 0"
  shows "marshalInt_parts n =
     (if bigBitLen (nat (- n - 1)) mod 8 = 0 then [0xff] else [],
      map NOT (bigBytes (nat (- n - 1))))"
proof (cases "nat (- n - 1) = 0")
  case True
  then show ?thesis using assms by (simp add: marshalInt_parts_def)
next
  case False
  let ?bs = "bigBytes (nat (- n - 1))"
  have bs: "?bs \<noteq> []" "128 \<le> unat (hd ?bs) \<longleftrightarrow> bigBitLen (nat (- n - 1)) mod 8 = 0"
    using bigBytes_length_msb False by auto
  have "NOT (hd ?bs) AND 0x80 = 0 \<longleftrightarrow> 128 \<le> unat (hd ?bs)"
    using byte_msb [of "NOT (hd ?bs)"] unsigned_less [of "hd ?bs", where ?'a = nat]
    by (auto simp: unat_NOT_byte)
  with bs assms show ?thesis
    by (simp add: marshalInt_parts_def Let_def byte_xor_ff hd_map)
qed

lemma intLength_parts:
  "intLength n = 4 + length (fst (marshalInt_parts n)) + length (snd (marshalInt_parts n))"
proof -
  consider "n < 0" "nat (- n - 1) = 0" | "n < 0" "0 < nat (- n - 1)" | "n = 0" | "0 < n"
    by linarith
  then show ?thesis
  proof cases
    case 1
    then show ?thesis by (simp add: intLength_def marshalInt_parts_neg)
  next
    case 2
    with bigBytes_length_msb [OF 2(2)] show ?thesis
      by (simp add: intLength_def marshalInt_parts_neg Let_def)
  next
    case 3
    then show ?thesis by (simp add: intLength_def marshalInt_parts_def)
  next
    case 4
    then have "0 < nat n" by simp
    from bigBytes_length_msb [OF this] 4 show ?thesis
      by (simp add: intLength_def marshalInt_parts_pos Let_def)
  qed
qed

definition mpint_contents :: "int \<Rightarrow> byte list" where
  "mpint_contents n = fst (marshalInt_parts n) @ snd (marshalInt_parts n)"

lemma length_mpint_contents: "intLength n = 4 + length (mpint_contents n)"
  by (simp add: intLength_parts mpint_contents_def)

lemma marshalInt_exact [wire_simps]:
  "length to = intLength n \<Longrightarrow>
     marshalInt to n = Some (putUint32 (word_of_nat (length (mpint_contents n))) @ mpint_contents n)"
  by (cases "marshalInt_parts n")
    (auto simp: marshalInt_def intLength_parts mpint_contents_def Let_def)

text \<open>Reading the two's complement bytes back gives the number.\<close>

lemma map_NOT_NOT [simp]: "map NOT (map NOT (bs :: byte list)) = bs"
  by (induction bs) auto

lemma mpint_contents_neg:
  assumes "n < 0"
  shows "mpint_contents n \<noteq> []" and "hd (mpint_contents n) AND 0x80 = 0x80"
    and "bigSetBytes (map NOT (mpint_contents n)) = nat (- n - 1)"
proof -
  let ?m = "nat (- n - 1)"
  have c: "mpint_contents n = (if bigBitLen ?m mod 8 = 0 then [0xff] else []) @ map NOT (bigBytes ?m)"
    using assms by (simp add: mpint_contents_def marshalInt_parts_neg)
  have ff: "NOT (0xff :: byte) = 0"
    by (simp flip: byte_xor_ff)
  have "map NOT (mpint_contents n) = (if bigBitLen ?m mod 8 = 0 then [0] else []) @ bigBytes ?m"
    by (simp only: c map_append map_NOT_NOT if_distrib [of "map NOT"] list.map ff)
  then show "bigSetBytes (map NOT (mpint_contents n)) = ?m" by simp
  have "mpint_contents n \<noteq> [] \<and> hd (mpint_contents n) AND 0x80 = 0x80"
  proof (cases "bigBitLen ?m mod 8 = 0")
    case True
    then show ?thesis by (simp add: c)
  next
    case False
    then have "0 < ?m" by (metis bigBitLen_0 gr0I mod_0)
    note b = bigBytes_length_msb [OF this]
    then have "128 \<le> unat (NOT (hd (bigBytes ?m)))" using False by (auto simp: unat_NOT_byte)
    then show ?thesis using False b by (simp add: c hd_map byte_msb_eq)
  qed
  then show "mpint_contents n \<noteq> []" and "hd (mpint_contents n) AND 0x80 = 0x80" by auto
qed

lemma mpint_contents_nonneg:
  assumes "0 \<le> n"
  shows "mpint_contents n = [] \<or> hd (mpint_contents n) AND 0x80 \<noteq> 0x80"
    and "bigSetBytes (mpint_contents n) = nat n"
proof -
  have c: "mpint_contents n = (if n = 0 then [] else
      (if bigBitLen (nat n) mod 8 = 0 then [0] else []) @ bigBytes (nat n))"
    using assms by (simp add: mpint_contents_def marshalInt_parts_pos)
      (simp add: marshalInt_parts_def)
  show "bigSetBytes (mpint_contents n) = nat n" by (simp add: c)
  show "mpint_contents n = [] \<or> hd (mpint_contents n) AND 0x80 \<noteq> 0x80"
  proof (cases "n = 0")
    case False
    then have "0 < nat n" using assms by simp
    from bigBytes_length_msb [OF this] False show ?thesis
      by (auto simp: c byte_msb_eq)
  qed (use c in simp)
qed

lemma parseInt_put [simp, wire_simps]:
  assumes "length (mpint_contents n) + length xs < 2 ^ 32"
  shows "parseInt (putUint32 (word_of_nat (length (mpint_contents n))) @ mpint_contents n @ xs)
    = Some (n, xs)"
proof (cases "n < 0")
  case True
  note c = mpint_contents_neg [OF True]
  have "- (int (bigSetBytes (map NOT (mpint_contents n))) + 1) = n" using True c(3) by simp
  with c(1,2) assms show ?thesis by (simp add: parseInt_def)
next
  case False
  then have "0 \<le> n" by simp
  note c = mpint_contents_nonneg [OF this]
  have "int (bigSetBytes (mpint_contents n)) = n" using False c(2) by simp
  with c(1) assms show ?thesis by (auto simp: parseInt_def)
qed

section \<open>Structs\<close>

datatype field_kind =
  KBool | KArray nat | KUint64 | KUint32 | KUint8 | KString | KBytes | KRest | KNames | KBigInt

text \<open>
  A field's value. \<open>VBytes\<close> is a \<^verbatim>\<open>[]byte\<close> field, \<open>VRest\<close> one with the tag
  \<^verbatim>\<open>ssh:"rest"\<close>, \<open>VNames\<close> a \<^verbatim>\<open>[]string\<close> field, \<open>VBigInt\<close> a \<^verbatim>\<open>*big.Int\<close> field.
\<close>

datatype field_val =
  VBool bool | VArray "byte list" | VUint64 u64 | VUint32 u32 | VUint8 byte
  | VString "byte list" | VBytes "byte list" | VRest "byte list" | VNames "byte list list"
  | VBigInt int

fun kind_of :: "field_val \<Rightarrow> field_kind" where
  "kind_of (VBool _) = KBool"
| "kind_of (VArray bs) = KArray (length bs)"
| "kind_of (VUint64 _) = KUint64"
| "kind_of (VUint32 _) = KUint32"
| "kind_of (VUint8 _) = KUint8"
| "kind_of (VString _) = KString"
| "kind_of (VBytes _) = KBytes"
| "kind_of (VRest _) = KRest"
| "kind_of (VNames _) = KNames"
| "kind_of (VBigInt _) = KBigInt"

text \<open>A struct type: the \<^verbatim>\<open>sshtype\<close> tag of the first field (empty if it has none), the kinds.\<close>

record struct_type =
  sshtype :: string
  kinds :: "field_kind list"

datatype ssh_error =
  ParseError byte | UnexpectedMessage byte byte | ShortRead | FieldError nat
  | EOF | Undecided | DecidedAlready | OtherError string | Disconnected u32 "byte list"
  | RunTimePanic string

text \<open>\<^verbatim>\<open>strconv.Atoi\<close> on the tags that occur: decimal digits.\<close>

definition digit_value :: "char \<Rightarrow> nat option" where
  "digit_value c = (let n = of_char c :: nat in if 48 \<le> n \<and> n \<le> 57 then Some (n - 48) else None)"

fun atoi_digits :: "nat \<Rightarrow> string \<Rightarrow> nat option" where
  "atoi_digits acc [] = Some acc"
| "atoi_digits acc (c # cs) =
     (case digit_value c of None \<Rightarrow> None | Some d \<Rightarrow> atoi_digits (10 * acc + d) cs)"

definition go_atoi :: "string \<Rightarrow> nat option" where
  "go_atoi s = (if s = [] then None else atoi_digits 0 s)"

definition typeTag :: "struct_type \<Rightarrow> byte" where
  "typeTag st = (case go_atoi (sshtype st) of None \<Rightarrow> 0 | Some i \<Rightarrow> word_of_nat i)"

text \<open>One turn of the loop of \<^verbatim>\<open>marshalStruct\<close>.\<close>

fun marshalField :: "byte list \<Rightarrow> field_val \<Rightarrow> byte list option" where
  "marshalField out (VBool b) = Some (out @ [if b then 1 else 0])"
| "marshalField out (VArray bs) = Some (out @ bs)"
| "marshalField out (VUint32 n) = Some (appendU32 out n)"
| "marshalField out (VUint64 n) = Some (appendU64 out n)"
| "marshalField out (VUint8 n) = Some (out @ [n])"
| "marshalField out (VString s) = Some (appendInt out (int (length s)) @ s)"
| "marshalField out (VBytes s) = Some (appendInt out (int (length s)) @ s)"
| "marshalField out (VRest s) = Some (out @ s)"
| "marshalField out (VNames ns) =
     (if ns = [] then Some (appendU32 out 0)
      else let body = go_join [comma] ns
           in Some (appendU32 out (word_of_nat (length body)) @ body))"
| "marshalField out (VBigInt n) =
     (case marshalInt (replicate (intLength n) 0) n of
        None \<Rightarrow> None | Some bs \<Rightarrow> Some (out @ bs))"

fun marshalFields :: "byte list \<Rightarrow> field_val list \<Rightarrow> byte list option" where
  "marshalFields out [] = Some out"
| "marshalFields out (v # vs) =
     (case marshalField out v of None \<Rightarrow> None | Some out' \<Rightarrow> marshalFields out' vs)"

definition marshalStruct :: "byte list \<Rightarrow> struct_type \<Rightarrow> field_val list \<Rightarrow> byte list option" where
  "marshalStruct out st vs =
     (let msgType = typeTag st
      in marshalFields (if msgType > 0 then out @ [msgType] else out) vs)"

definition Marshal :: "struct_type \<Rightarrow> field_val list \<Rightarrow> byte list option" where
  "Marshal st vs = marshalStruct [] st vs"

text \<open>One turn of the loop of \<^verbatim>\<open>Unmarshal\<close>, for field number \<open>i\<close>: its value and the rest of the data.\<close>

fun unmarshalField :: "nat \<Rightarrow> field_kind \<Rightarrow> byte list \<Rightarrow> ssh_error + (field_val \<times> byte list)" where
  "unmarshalField i KBool data =
     (if length data < 1 then Inl ShortRead else Inr (VBool (data ! 0 \<noteq> 0), drop 1 data))"
| "unmarshalField i (KArray n) data =
     (if length data < n then Inl ShortRead else Inr (VArray (take n data), drop n data))"
| "unmarshalField i KUint64 data =
     (case parseUint64 data of None \<Rightarrow> Inl ShortRead | Some (n, r) \<Rightarrow> Inr (VUint64 n, r))"
| "unmarshalField i KUint32 data =
     (case parseUint32 data of None \<Rightarrow> Inl ShortRead | Some (n, r) \<Rightarrow> Inr (VUint32 n, r))"
| "unmarshalField i KUint8 data =
     (if length data < 1 then Inl ShortRead else Inr (VUint8 (data ! 0), drop 1 data))"
| "unmarshalField i KString data =
     (case parseString data of None \<Rightarrow> Inl (FieldError i) | Some (s, r) \<Rightarrow> Inr (VString s, r))"
| "unmarshalField i KRest data = Inr (VRest data, [])"
| "unmarshalField i KBytes data =
     (case parseString data of None \<Rightarrow> Inl ShortRead | Some (s, r) \<Rightarrow> Inr (VBytes s, r))"
| "unmarshalField i KNames data =
     (case parseNameList data of None \<Rightarrow> Inl ShortRead | Some (ns, r) \<Rightarrow> Inr (VNames ns, r))"
| "unmarshalField i KBigInt data =
     (case parseInt data of None \<Rightarrow> Inl ShortRead | Some (n, r) \<Rightarrow> Inr (VBigInt n, r))"

fun unmarshalFields ::
  "nat \<Rightarrow> field_kind list \<Rightarrow> byte list \<Rightarrow> ssh_error + (field_val list \<times> byte list)" where
  "unmarshalFields i [] data = Inr ([], data)"
| "unmarshalFields i (k # ks) data =
     (case unmarshalField i k data of
        Inl e \<Rightarrow> Inl e
      | Inr (v, data') \<Rightarrow>
          (case unmarshalFields (Suc i) ks data' of
             Inl e \<Rightarrow> Inl e | Inr (vs, rest) \<Rightarrow> Inr (v # vs, rest)))"

definition Unmarshal :: "byte list \<Rightarrow> struct_type \<Rightarrow> ssh_error + field_val list" where
  "Unmarshal data st =
     (let expectedType = typeTag st
      in if data = [] then Inl (ParseError expectedType)
         else if expectedType > 0 \<and> data ! 0 \<noteq> expectedType
              then Inl (UnexpectedMessage expectedType (data ! 0))
         else let data1 = (if expectedType > 0 then drop 1 data else data)
              in case unmarshalFields 0 (kinds st) data1 of
                   Inl e \<Rightarrow> Inl e
                 | Inr (vs, rest) \<Rightarrow> if rest \<noteq> [] then Inl (ParseError expectedType) else Inr vs)"

subsection \<open>Marshalling never panics\<close>

text \<open>The bytes a field contributes.\<close>

fun field_bytes :: "field_val \<Rightarrow> byte list" where
  "field_bytes (VBool b) = [if b then 1 else 0]"
| "field_bytes (VArray bs) = bs"
| "field_bytes (VUint32 n) = putUint32 n"
| "field_bytes (VUint64 n) = putUint64 n"
| "field_bytes (VUint8 n) = [n]"
| "field_bytes (VString s) = putUint32 (word_of_nat (length s)) @ s"
| "field_bytes (VBytes s) = putUint32 (word_of_nat (length s)) @ s"
| "field_bytes (VRest s) = s"
| "field_bytes (VNames ns) =
     putUint32 (word_of_nat (length (go_join [comma] ns))) @ go_join [comma] ns"
| "field_bytes (VBigInt n) =
     putUint32 (word_of_nat (length (mpint_contents n))) @ mpint_contents n"

lemma marshalField_bytes: "marshalField out v = Some (out @ field_bytes v)"
  by (cases v) (auto simp: wire_simps Let_def)

lemma marshalFields_bytes: "marshalFields out vs = Some (out @ concat (map field_bytes vs))"
  by (induction vs arbitrary: out) (auto simp: marshalField_bytes)

lemma Marshal_bytes:
  "Marshal st vs = Some ((if typeTag st > 0 then [typeTag st] else []) @ concat (map field_bytes vs))"
  by (simp add: Marshal_def marshalStruct_def marshalFields_bytes Let_def)

subsection \<open>Round trip\<close>

text \<open>
  The values the format can carry. A list of names must not contain a comma inside a name,
  and the list of one empty name cannot be told from the empty list; a field with the rest
  tag must be the last one.
\<close>

fun wf_val :: "field_val \<Rightarrow> bool" where
  "wf_val (VNames ns) \<longleftrightarrow> ns \<noteq> [[]] \<and> list_all (\<lambda>n. comma \<notin> set n) ns"
| "wf_val _ \<longleftrightarrow> True"

fun wf_vals :: "field_val list \<Rightarrow> bool" where
  "wf_vals [] \<longleftrightarrow> True"
| "wf_vals (v # vs) \<longleftrightarrow> wf_val v \<and> wf_vals vs \<and> (kind_of v = KRest \<longrightarrow> vs = [])"

lemma unmarshalField_bytes:
  assumes "wf_val v" and "length (field_bytes v) + length xs < 2 ^ 32"
    and "kind_of v = KRest \<Longrightarrow> xs = []"
  shows "unmarshalField i (kind_of v) (field_bytes v @ xs) = Inr (v, xs)"
proof (cases v)
  case (VNames ns)
  let ?body = "go_join [comma] ns"
  have p: "parseString (field_bytes v @ xs) = Some (?body, xs)"
    using assms(2) VNames by simp
  show ?thesis
  proof (cases "ns = []")
    case True
    then show ?thesis using p VNames by (simp add: parseNameList_def)
  next
    case False
    then have "?body \<noteq> []"
      using assms(1) VNames by (cases ns; cases "tl ns") auto
    moreover have "go_split comma ?body = ns"
      using False assms(1) VNames by (intro go_split_join) (auto simp: list_all_iff)
    ultimately show ?thesis using p VNames by (simp add: parseNameList_def)
  qed
qed (use assms in auto)

lemma unmarshalFields_bytes:
  assumes "wf_vals vs" and "length (concat (map field_bytes vs)) < 2 ^ 32"
  shows "unmarshalFields i (map kind_of vs) (concat (map field_bytes vs)) = Inr (vs, [])"
  using assms
proof (induction vs arbitrary: i)
  case (Cons v vs)
  let ?xs = "concat (map field_bytes vs)"
  have "unmarshalField i (kind_of v) (field_bytes v @ ?xs) = Inr (v, ?xs)"
    using Cons.prems by (intro unmarshalField_bytes) auto
  with Cons show ?case by simp
qed simp

lemma Unmarshal_Marshal:
  assumes "kinds st = map kind_of vs" and "wf_vals vs" and "typeTag st \<noteq> 0"
    and "Marshal st vs = Some p" and "length p < 2 ^ 32"
  shows "Unmarshal p st = Inr vs"
proof -
  have t: "typeTag st > 0" using assms(3) by (simp add: word_neq_0_conv)
  then have p: "p = typeTag st # concat (map field_bytes vs)"
    using assms(4) by (simp add: Marshal_bytes)
  then have "unmarshalFields 0 (kinds st) (concat (map field_bytes vs)) = Inr (vs, [])"
    using assms by (simp add: unmarshalFields_bytes)
  then show ?thesis using t by (simp add: Unmarshal_def p)
qed

end
