(* ===== verification/Ssh_Messages.thy ===== *)
theory Ssh_Messages
  imports Ssh_Wire
begin

text \<open>
  The message structs of \<^verbatim>\<open>src/golang.org/x/crypto/ssh/messages.go\<close> and \<^verbatim>\<open>decode\<close>. Every struct is
  a constructor of \<open>message\<close> with its fields in the order of the source (the long
  \<^verbatim>\<open>kexInitMsg\<close> is a record); \<open>type_of\<close> gives the struct's type as \<^verbatim>\<open>reflect\<close> sees it,
  \<open>fields_of\<close> and \<open>build\<close> go between the struct and its field values. The round trip of the
  wire format is lifted to messages and to \<^verbatim>\<open>decode\<close>, which picks the struct by the first
  byte of the packet.
\<close>

section \<open>Message types\<close>

text \<open>A string literal of the source as bytes.\<close>

definition ascii :: "string \<Rightarrow> byte list" where
  "ascii s = map of_char s"

record kexInitMsg =
  Cookie :: "byte list"
  KexAlgos :: "byte list list"
  ServerHostKeyAlgos :: "byte list list"
  CiphersClientServer :: "byte list list"
  CiphersServerClient :: "byte list list"
  MACsClientServer :: "byte list list"
  MACsServerClient :: "byte list list"
  CompressionClientServer :: "byte list list"
  CompressionServerClient :: "byte list list"
  LanguagesClientServer :: "byte list list"
  LanguagesServerClient :: "byte list list"
  FirstKexFollows :: bool
  Reserved :: u32

datatype message =
  KexInitMsg kexInitMsg
  | DisconnectMsg u32 "byte list" "byte list"
  | KexDHInitMsg int
  | KexECDHInitMsg "byte list"
  | KexECDHReplyMsg "byte list" "byte list" "byte list"
  | KexDHReplyMsg "byte list" int "byte list"
  | ServiceRequestMsg "byte list"
  | ServiceAcceptMsg "byte list"
  | UserAuthRequestMsg "byte list" "byte list" "byte list" "byte list"
  | UserAuthFailureMsg "byte list list" bool
  | UserAuthInfoRequestMsg "byte list" "byte list" "byte list" u32 "byte list"
  | ChannelOpenMsg "byte list" u32 u32 u32 "byte list"
  | ChannelOpenConfirmMsg u32 u32 u32 u32 "byte list"
  | ChannelOpenFailureMsg u32 u32 "byte list" "byte list"
  | ChannelRequestMsg u32 "byte list" bool "byte list"
  | ChannelRequestSuccessMsg u32
  | ChannelRequestFailureMsg u32
  | ChannelCloseMsg u32
  | ChannelEOFMsg u32
  | GlobalRequestMsg "byte list" bool "byte list"
  | GlobalRequestSuccessMsg "byte list"
  | GlobalRequestFailureMsg "byte list"
  | WindowAdjustMsg u32 u32
  | UserAuthPubKeyOkMsg "byte list" "byte list"

datatype msg_name =
  N_kexInitMsg | N_disconnectMsg | N_kexDHInitMsg | N_kexECDHInitMsg | N_kexECDHReplyMsg
    | N_kexDHReplyMsg | N_serviceRequestMsg | N_serviceAcceptMsg | N_userAuthRequestMsg
    | N_userAuthFailureMsg | N_userAuthInfoRequestMsg | N_channelOpenMsg
    | N_channelOpenConfirmMsg | N_channelOpenFailureMsg | N_channelRequestMsg
    | N_channelRequestSuccessMsg | N_channelRequestFailureMsg | N_channelCloseMsg
    | N_channelEOFMsg | N_globalRequestMsg | N_globalRequestSuccessMsg
    | N_globalRequestFailureMsg | N_windowAdjustMsg | N_userAuthPubKeyOkMsg

text \<open>The struct types, with the tags as they stand in the source.\<close>

fun type_of :: "msg_name \<Rightarrow> struct_type" where
  "type_of N_kexInitMsg =
     \<lparr>sshtype = ''20'',
      kinds = [KArray 16, KNames, KNames, KNames, KNames, KNames, KNames, KNames, KNames, KNames,
        KNames, KBool, KUint32]\<rparr>"
| "type_of N_disconnectMsg = \<lparr>sshtype = ''1'', kinds = [KUint32, KString, KString]\<rparr>"
| "type_of N_kexDHInitMsg = \<lparr>sshtype = ''30'', kinds = [KBigInt]\<rparr>"
| "type_of N_kexECDHInitMsg = \<lparr>sshtype = ''30'', kinds = [KBytes]\<rparr>"
| "type_of N_kexECDHReplyMsg = \<lparr>sshtype = ''31'', kinds = [KBytes, KBytes, KBytes]\<rparr>"
| "type_of N_kexDHReplyMsg = \<lparr>sshtype = ''31'', kinds = [KBytes, KBigInt, KBytes]\<rparr>"
| "type_of N_serviceRequestMsg = \<lparr>sshtype = ''5'', kinds = [KString]\<rparr>"
| "type_of N_serviceAcceptMsg = \<lparr>sshtype = ''6'', kinds = [KString]\<rparr>"
| "type_of N_userAuthRequestMsg = \<lparr>sshtype = ''50'', kinds = [KString, KString, KString, KRest]\<rparr>"
| "type_of N_userAuthFailureMsg = \<lparr>sshtype = ''51'', kinds = [KNames, KBool]\<rparr>"
| "type_of N_userAuthInfoRequestMsg = \<lparr>sshtype = ''60'', kinds = [KString, KString, KString, KUint32, KRest]\<rparr>"
| "type_of N_channelOpenMsg = \<lparr>sshtype = ''90'', kinds = [KString, KUint32, KUint32, KUint32, KRest]\<rparr>"
| "type_of N_channelOpenConfirmMsg = \<lparr>sshtype = ''91'', kinds = [KUint32, KUint32, KUint32, KUint32, KRest]\<rparr>"
| "type_of N_channelOpenFailureMsg = \<lparr>sshtype = ''92'', kinds = [KUint32, KUint32, KString, KString]\<rparr>"
| "type_of N_channelRequestMsg = \<lparr>sshtype = ''98'', kinds = [KUint32, KString, KBool, KRest]\<rparr>"
| "type_of N_channelRequestSuccessMsg = \<lparr>sshtype = ''99'', kinds = [KUint32]\<rparr>"
| "type_of N_channelRequestFailureMsg = \<lparr>sshtype = ''100'', kinds = [KUint32]\<rparr>"
| "type_of N_channelCloseMsg = \<lparr>sshtype = ''97'', kinds = [KUint32]\<rparr>"
| "type_of N_channelEOFMsg = \<lparr>sshtype = ''96'', kinds = [KUint32]\<rparr>"
| "type_of N_globalRequestMsg = \<lparr>sshtype = ''80'', kinds = [KString, KBool, KRest]\<rparr>"
| "type_of N_globalRequestSuccessMsg = \<lparr>sshtype = ''81'', kinds = [KRest]\<rparr>"
| "type_of N_globalRequestFailureMsg = \<lparr>sshtype = ''82'', kinds = [KRest]\<rparr>"
| "type_of N_windowAdjustMsg = \<lparr>sshtype = ''93'', kinds = [KUint32, KUint32]\<rparr>"
| "type_of N_userAuthPubKeyOkMsg = \<lparr>sshtype = ''60'', kinds = [KString, KBytes]\<rparr>"

fun name_of :: "message \<Rightarrow> msg_name" where
  "name_of (KexInitMsg _) = N_kexInitMsg"
| "name_of (DisconnectMsg _ _ _) = N_disconnectMsg"
| "name_of (KexDHInitMsg _) = N_kexDHInitMsg"
| "name_of (KexECDHInitMsg _) = N_kexECDHInitMsg"
| "name_of (KexECDHReplyMsg _ _ _) = N_kexECDHReplyMsg"
| "name_of (KexDHReplyMsg _ _ _) = N_kexDHReplyMsg"
| "name_of (ServiceRequestMsg _) = N_serviceRequestMsg"
| "name_of (ServiceAcceptMsg _) = N_serviceAcceptMsg"
| "name_of (UserAuthRequestMsg _ _ _ _) = N_userAuthRequestMsg"
| "name_of (UserAuthFailureMsg _ _) = N_userAuthFailureMsg"
| "name_of (UserAuthInfoRequestMsg _ _ _ _ _) = N_userAuthInfoRequestMsg"
| "name_of (ChannelOpenMsg _ _ _ _ _) = N_channelOpenMsg"
| "name_of (ChannelOpenConfirmMsg _ _ _ _ _) = N_channelOpenConfirmMsg"
| "name_of (ChannelOpenFailureMsg _ _ _ _) = N_channelOpenFailureMsg"
| "name_of (ChannelRequestMsg _ _ _ _) = N_channelRequestMsg"
| "name_of (ChannelRequestSuccessMsg _) = N_channelRequestSuccessMsg"
| "name_of (ChannelRequestFailureMsg _) = N_channelRequestFailureMsg"
| "name_of (ChannelCloseMsg _) = N_channelCloseMsg"
| "name_of (ChannelEOFMsg _) = N_channelEOFMsg"
| "name_of (GlobalRequestMsg _ _ _) = N_globalRequestMsg"
| "name_of (GlobalRequestSuccessMsg _) = N_globalRequestSuccessMsg"
| "name_of (GlobalRequestFailureMsg _) = N_globalRequestFailureMsg"
| "name_of (WindowAdjustMsg _ _) = N_windowAdjustMsg"
| "name_of (UserAuthPubKeyOkMsg _ _) = N_userAuthPubKeyOkMsg"

fun fields_of :: "message \<Rightarrow> field_val list" where
  "fields_of (KexInitMsg k) =
     [VArray (Cookie k), VNames (KexAlgos k), VNames (ServerHostKeyAlgos k),
      VNames (CiphersClientServer k), VNames (CiphersServerClient k), VNames (MACsClientServer k),
      VNames (MACsServerClient k), VNames (CompressionClientServer k),
      VNames (CompressionServerClient k), VNames (LanguagesClientServer k),
      VNames (LanguagesServerClient k), VBool (FirstKexFollows k), VUint32 (Reserved k)]"
| "fields_of (DisconnectMsg a b c) = [VUint32 a, VString b, VString c]"
| "fields_of (KexDHInitMsg a) = [VBigInt a]"
| "fields_of (KexECDHInitMsg a) = [VBytes a]"
| "fields_of (KexECDHReplyMsg a b c) = [VBytes a, VBytes b, VBytes c]"
| "fields_of (KexDHReplyMsg a b c) = [VBytes a, VBigInt b, VBytes c]"
| "fields_of (ServiceRequestMsg a) = [VString a]"
| "fields_of (ServiceAcceptMsg a) = [VString a]"
| "fields_of (UserAuthRequestMsg a b c d) = [VString a, VString b, VString c, VRest d]"
| "fields_of (UserAuthFailureMsg a b) = [VNames a, VBool b]"
| "fields_of (UserAuthInfoRequestMsg a b c d e) = [VString a, VString b, VString c, VUint32 d, VRest e]"
| "fields_of (ChannelOpenMsg a b c d e) = [VString a, VUint32 b, VUint32 c, VUint32 d, VRest e]"
| "fields_of (ChannelOpenConfirmMsg a b c d e) = [VUint32 a, VUint32 b, VUint32 c, VUint32 d, VRest e]"
| "fields_of (ChannelOpenFailureMsg a b c d) = [VUint32 a, VUint32 b, VString c, VString d]"
| "fields_of (ChannelRequestMsg a b c d) = [VUint32 a, VString b, VBool c, VRest d]"
| "fields_of (ChannelRequestSuccessMsg a) = [VUint32 a]"
| "fields_of (ChannelRequestFailureMsg a) = [VUint32 a]"
| "fields_of (ChannelCloseMsg a) = [VUint32 a]"
| "fields_of (ChannelEOFMsg a) = [VUint32 a]"
| "fields_of (GlobalRequestMsg a b c) = [VString a, VBool b, VRest c]"
| "fields_of (GlobalRequestSuccessMsg a) = [VRest a]"
| "fields_of (GlobalRequestFailureMsg a) = [VRest a]"
| "fields_of (WindowAdjustMsg a b) = [VUint32 a, VUint32 b]"
| "fields_of (UserAuthPubKeyOkMsg a b) = [VString a, VBytes b]"

text \<open>The struct \<^verbatim>\<open>Unmarshal\<close> has filled, from the values it set its fields to.\<close>

fun u32_of :: "field_val \<Rightarrow> u32" where
  "u32_of (VUint32 n) = n" | "u32_of _ = 0"

fun bool_of :: "field_val \<Rightarrow> bool" where
  "bool_of (VBool b) = b" | "bool_of _ = False"

fun int_of :: "field_val \<Rightarrow> int" where
  "int_of (VBigInt n) = n" | "int_of _ = 0"

fun names_of :: "field_val \<Rightarrow> byte list list" where
  "names_of (VNames ns) = ns" | "names_of _ = []"

fun bytes_of :: "field_val \<Rightarrow> byte list" where
  "bytes_of (VString s) = s"
| "bytes_of (VBytes s) = s"
| "bytes_of (VRest s) = s"
| "bytes_of (VArray s) = s"
| "bytes_of _ = []"

fun build :: "msg_name \<Rightarrow> field_val list \<Rightarrow> message" where
  "build N_kexInitMsg vs =
     KexInitMsg \<lparr>Cookie = bytes_of (vs ! 0), KexAlgos = names_of (vs ! 1),
       ServerHostKeyAlgos = names_of (vs ! 2), CiphersClientServer = names_of (vs ! 3),
       CiphersServerClient = names_of (vs ! 4), MACsClientServer = names_of (vs ! 5),
       MACsServerClient = names_of (vs ! 6), CompressionClientServer = names_of (vs ! 7),
       CompressionServerClient = names_of (vs ! 8), LanguagesClientServer = names_of (vs ! 9),
       LanguagesServerClient = names_of (vs ! 10), FirstKexFollows = bool_of (vs ! 11),
       Reserved = u32_of (vs ! 12)\<rparr>"
| "build N_disconnectMsg vs =
     DisconnectMsg (u32_of (vs ! 0)) (bytes_of (vs ! 1)) (bytes_of (vs ! 2))"
| "build N_kexDHInitMsg vs =
     KexDHInitMsg (int_of (vs ! 0))"
| "build N_kexECDHInitMsg vs =
     KexECDHInitMsg (bytes_of (vs ! 0))"
| "build N_kexECDHReplyMsg vs =
     KexECDHReplyMsg (bytes_of (vs ! 0)) (bytes_of (vs ! 1)) (bytes_of (vs ! 2))"
| "build N_kexDHReplyMsg vs =
     KexDHReplyMsg (bytes_of (vs ! 0)) (int_of (vs ! 1)) (bytes_of (vs ! 2))"
| "build N_serviceRequestMsg vs =
     ServiceRequestMsg (bytes_of (vs ! 0))"
| "build N_serviceAcceptMsg vs =
     ServiceAcceptMsg (bytes_of (vs ! 0))"
| "build N_userAuthRequestMsg vs =
     UserAuthRequestMsg (bytes_of (vs ! 0)) (bytes_of (vs ! 1)) (bytes_of (vs ! 2)) (bytes_of (vs ! 3))"
| "build N_userAuthFailureMsg vs =
     UserAuthFailureMsg (names_of (vs ! 0)) (bool_of (vs ! 1))"
| "build N_userAuthInfoRequestMsg vs =
     UserAuthInfoRequestMsg (bytes_of (vs ! 0)) (bytes_of (vs ! 1)) (bytes_of (vs ! 2)) (u32_of (vs ! 3)) (bytes_of (vs ! 4))"
| "build N_channelOpenMsg vs =
     ChannelOpenMsg (bytes_of (vs ! 0)) (u32_of (vs ! 1)) (u32_of (vs ! 2)) (u32_of (vs ! 3)) (bytes_of (vs ! 4))"
| "build N_channelOpenConfirmMsg vs =
     ChannelOpenConfirmMsg (u32_of (vs ! 0)) (u32_of (vs ! 1)) (u32_of (vs ! 2)) (u32_of (vs ! 3)) (bytes_of (vs ! 4))"
| "build N_channelOpenFailureMsg vs =
     ChannelOpenFailureMsg (u32_of (vs ! 0)) (u32_of (vs ! 1)) (bytes_of (vs ! 2)) (bytes_of (vs ! 3))"
| "build N_channelRequestMsg vs =
     ChannelRequestMsg (u32_of (vs ! 0)) (bytes_of (vs ! 1)) (bool_of (vs ! 2)) (bytes_of (vs ! 3))"
| "build N_channelRequestSuccessMsg vs =
     ChannelRequestSuccessMsg (u32_of (vs ! 0))"
| "build N_channelRequestFailureMsg vs =
     ChannelRequestFailureMsg (u32_of (vs ! 0))"
| "build N_channelCloseMsg vs =
     ChannelCloseMsg (u32_of (vs ! 0))"
| "build N_channelEOFMsg vs =
     ChannelEOFMsg (u32_of (vs ! 0))"
| "build N_globalRequestMsg vs =
     GlobalRequestMsg (bytes_of (vs ! 0)) (bool_of (vs ! 1)) (bytes_of (vs ! 2))"
| "build N_globalRequestSuccessMsg vs =
     GlobalRequestSuccessMsg (bytes_of (vs ! 0))"
| "build N_globalRequestFailureMsg vs =
     GlobalRequestFailureMsg (bytes_of (vs ! 0))"
| "build N_windowAdjustMsg vs =
     WindowAdjustMsg (u32_of (vs ! 0)) (u32_of (vs ! 1))"
| "build N_userAuthPubKeyOkMsg vs =
     UserAuthPubKeyOkMsg (bytes_of (vs ! 0)) (bytes_of (vs ! 1))"

section \<open>Marshalling and decoding\<close>

definition marshal_msg :: "message \<Rightarrow> byte list option" where
  "marshal_msg m = Marshal (type_of (name_of m)) (fields_of m)"

definition unmarshal_msg :: "byte list \<Rightarrow> msg_name \<Rightarrow> ssh_error + message" where
  "unmarshal_msg packet nm =
     (case Unmarshal packet (type_of nm) of Inl e \<Rightarrow> Inl e | Inr vs \<Rightarrow> Inr (build nm vs))"

text \<open>The switch of \<^verbatim>\<open>decode\<close>.\<close>

definition decode_name :: "byte \<Rightarrow> msg_name option" where
  "decode_name t =
     (if t = 1 then Some N_disconnectMsg
      else if t = 5 then Some N_serviceRequestMsg
      else if t = 6 then Some N_serviceAcceptMsg
      else if t = 20 then Some N_kexInitMsg
      else if t = 30 then Some N_kexDHInitMsg
      else if t = 31 then Some N_kexDHReplyMsg
      else if t = 50 then Some N_userAuthRequestMsg
      else if t = 51 then Some N_userAuthFailureMsg
      else if t = 60 then Some N_userAuthPubKeyOkMsg
      else if t = 80 then Some N_globalRequestMsg
      else if t = 81 then Some N_globalRequestSuccessMsg
      else if t = 82 then Some N_globalRequestFailureMsg
      else if t = 90 then Some N_channelOpenMsg
      else if t = 91 then Some N_channelOpenConfirmMsg
      else if t = 92 then Some N_channelOpenFailureMsg
      else if t = 93 then Some N_windowAdjustMsg
      else if t = 96 then Some N_channelEOFMsg
      else if t = 97 then Some N_channelCloseMsg
      else if t = 98 then Some N_channelRequestMsg
      else if t = 99 then Some N_channelRequestSuccessMsg
      else if t = 100 then Some N_channelRequestFailureMsg
      else None)"

definition decode :: "byte list \<Rightarrow> ssh_error + message" where
  "decode packet =
     (case packet of
        [] \<Rightarrow> Inl (RunTimePanic ''index out of range'')
      | t # _ \<Rightarrow>
          (case decode_name t of
             None \<Rightarrow> Inl (UnexpectedMessage 0 t)
           | Some nm \<Rightarrow> unmarshal_msg packet nm))"

definition msg_tag :: "message \<Rightarrow> byte" where
  "msg_tag m = typeTag (type_of (name_of m))"

text \<open>A message the format can carry; the cookie of \<^verbatim>\<open>kexInitMsg\<close> is a \<^verbatim>\<open>[16]byte\<close>.\<close>

definition wf_msg :: "message \<Rightarrow> bool" where
  "wf_msg m \<longleftrightarrow> wf_vals (fields_of m) \<and> (case m of KexInitMsg k \<Rightarrow> length (Cookie k) = 16 | _ \<Rightarrow> True)"

section \<open>Round trip of messages\<close>

lemma typeTag_type_of:
  "typeTag (type_of nm) =
     (case nm of
        N_disconnectMsg \<Rightarrow> 1 | N_kexInitMsg \<Rightarrow> 20 | N_kexDHInitMsg \<Rightarrow> 30 | N_kexECDHInitMsg \<Rightarrow> 30
      | N_kexECDHReplyMsg \<Rightarrow> 31 | N_kexDHReplyMsg \<Rightarrow> 31 | N_serviceRequestMsg \<Rightarrow> 5
      | N_serviceAcceptMsg \<Rightarrow> 6 | N_userAuthRequestMsg \<Rightarrow> 50 | N_userAuthFailureMsg \<Rightarrow> 51
      | N_userAuthInfoRequestMsg \<Rightarrow> 60 | N_channelOpenMsg \<Rightarrow> 90 | N_channelOpenConfirmMsg \<Rightarrow> 91
      | N_channelOpenFailureMsg \<Rightarrow> 92 | N_channelRequestMsg \<Rightarrow> 98 | N_channelRequestSuccessMsg \<Rightarrow> 99
      | N_channelRequestFailureMsg \<Rightarrow> 100 | N_channelCloseMsg \<Rightarrow> 97 | N_channelEOFMsg \<Rightarrow> 96
      | N_globalRequestMsg \<Rightarrow> 80 | N_globalRequestSuccessMsg \<Rightarrow> 81
      | N_globalRequestFailureMsg \<Rightarrow> 82 | N_windowAdjustMsg \<Rightarrow> 93 | N_userAuthPubKeyOkMsg \<Rightarrow> 60)"
  by (cases nm) (simp_all add: typeTag_def go_atoi_def digit_value_def Let_def)

lemma msg_tag_pos: "msg_tag m \<noteq> 0"
  unfolding msg_tag_def typeTag_type_of by (cases "name_of m") simp_all

lemma kinds_type_of: "wf_msg m \<Longrightarrow> kinds (type_of (name_of m)) = map kind_of (fields_of m)"
  by (cases m) (auto simp: wf_msg_def)

lemma build_fields_of [simp]: "build (name_of m) (fields_of m) = m"
  by (cases m) auto

lemma marshal_msg_bytes:
  "marshal_msg m = Some (msg_tag m # concat (map field_bytes (fields_of m)))"
  using msg_tag_pos [of m]
  by (simp add: marshal_msg_def Marshal_bytes msg_tag_def word_neq_0_conv)

lemma unmarshal_marshal_msg:
  assumes "wf_msg m" and "marshal_msg m = Some p" and "length p < 2 ^ 32"
  shows "unmarshal_msg p (name_of m) = Inr m"
proof -
  have "Unmarshal p (type_of (name_of m)) = Inr (fields_of m)"
    using assms msg_tag_pos [of m]
    by (intro Unmarshal_Marshal) (auto simp: kinds_type_of wf_msg_def marshal_msg_def msg_tag_def)
  then show ?thesis by (simp add: unmarshal_msg_def)
qed

lemma decode_marshal_msg:
  assumes "wf_msg m" and "decode_name (msg_tag m) = Some (name_of m)"
    and "marshal_msg m = Some p" and "length p < 2 ^ 32"
  shows "decode p = Inr m"
proof -
  have "p = msg_tag m # concat (map field_bytes (fields_of m))"
    using assms(3) by (simp add: marshal_msg_bytes)
  then show ?thesis
    using unmarshal_marshal_msg [OF assms(1,3,4)] assms(2) by (simp add: decode_def)
qed

text \<open>
  Round trip of multi-precision integers: for every integer, negative ones included,
  \<^verbatim>\<open>intLength\<close> is exactly the number of bytes \<^verbatim>\<open>marshalInt\<close> fills (no panic, no byte left
  over), and \<^verbatim>\<open>parseInt\<close> reads the integer back and leaves what follows it untouched.
\<close>

theorem mpint_roundtrip:
  assumes "intLength n + length rest < 2 ^ 32"
  shows "\<exists>bs. writeInt n = Some bs \<and> length bs = intLength n \<and> parseInt (bs @ rest) = Some (n, rest)"
  using assms by (simp add: writeInt_def marshalInt_exact length_mpint_contents)

theorem mpint_roundtrip_witness:
  "\<exists>bs. writeInt (-129) = Some bs \<and> length bs = intLength (-129)
     \<and> parseInt (bs @ [7]) = Some (-129, [7])"
proof -
  have "bigBitLen 128 = 8" by (rule bigBitLen_eqI [of 7, simplified]) simp_all
  then have "intLength (-129) + length [7 :: byte] < 2 ^ 32" by (simp add: intLength_def)
  then show ?thesis by (rule mpint_roundtrip)
qed

text \<open>
  C14. Round trip of messages: \<^verbatim>\<open>Marshal\<close> never panics on a message struct, and \<^verbatim>\<open>decode\<close> turns
  its output back into the same struct, for every message that \<^verbatim>\<open>decode\<close> knows by its type
  byte, whose name lists hold no comma and are not the list of one empty name.
\<close>

theorem message_roundtrip:
  assumes "wf_msg m" and "decode_name (msg_tag m) = Some (name_of m)"
    and "1 + length (concat (map field_bytes (fields_of m))) < 2 ^ 32"
  shows "\<exists>p. marshal_msg m = Some p \<and> decode p = Inr m"
proof -
  let ?p = "msg_tag m # concat (map field_bytes (fields_of m))"
  have p: "marshal_msg m = Some ?p" by (rule marshal_msg_bytes)
  have "length ?p < 2 ^ 32" using assms(3) by simp
  from decode_marshal_msg [OF assms(1,2) p this] p show ?thesis by blast
qed

theorem message_roundtrip_witness:
  "\<exists>p. marshal_msg (ChannelRequestMsg 7 [101, 120, 101, 99] True [1, 2]) = Some p
     \<and> decode p = Inr (ChannelRequestMsg 7 [101, 120, 101, 99] True [1, 2])"
proof (rule message_roundtrip)
  have "msg_tag (ChannelRequestMsg 7 [101, 120, 101, 99] True [1, 2]) = 98"
    unfolding msg_tag_def typeTag_type_of by simp
  then show "decode_name (msg_tag (ChannelRequestMsg 7 [101, 120, 101, 99] True [1, 2]))
      = Some (name_of (ChannelRequestMsg 7 [101, 120, 101, 99] True [1, 2]))"
    by (simp add: decode_name_def)
qed (simp_all add: wf_msg_def)

section \<open>Truncated and extended packets\<close>

lemma getUint32_append: "4 \<le> length data \<Longrightarrow> getUint32 (data @ xs) = getUint32 data"
  by (cases data rule: getUint32.cases) auto

lemma getUint64_append: "8 \<le> length data \<Longrightarrow> getUint64 (data @ xs) = getUint64 data"
  by (cases data rule: getUint64.cases) auto

lemma parseString_append:
  assumes "parseString data = Some (s, r)" and "length data + length xs < 2 ^ 32"
  shows "parseString (data @ xs) = Some (s, r @ xs)"
proof -
  have len: "4 \<le> length data" using assms(1) by (auto simp: parseString_def split: if_splits)
  let ?n = "getUint32 data"
  have u: "unat (word_of_nat k :: u32) = k" if "k < 2 ^ 32" for k
    using that by (simp add: unat_of_nat)
  have "unat ?n \<le> length data - 4" and sr: "s = take (unat ?n) (drop 4 data)" "r = drop (unat ?n) (drop 4 data)"
    using assms len u [of "length data - 4"]
    by (auto simp: parseString_def Let_def word_less_nat_alt split: if_splits)
  then show ?thesis
    using len assms(2) u [of "length data - 4 + length xs"]
    by (auto simp: parseString_def Let_def word_less_nat_alt getUint32_append simp del: of_nat_add)
qed

lemma unmarshalField_append:
  assumes "unmarshalField i k data = Inr (v, r)" and "k \<noteq> KRest"
    and "length data + length xs < 2 ^ 32"
  shows "unmarshalField i k (data @ xs) = Inr (v, r @ xs)"
proof (cases k)
  case KRest
  then show ?thesis using assms(2) by simp
next
  case KBool
  then show ?thesis using assms by (cases data) auto
next
  case KUint8
  then show ?thesis using assms by (cases data) auto
qed (use assms in \<open>auto simp: parseUint32_def parseUint64_def getUint32_append getUint64_append
      nth_append parseNameList_def parseInt_def parseString_append
      split: if_splits option.splits\<close>)

lemma unmarshalField_rest_length:
  "unmarshalField i k data = Inr (v, r) \<Longrightarrow> length r \<le> length data"
  by (cases k) (auto simp: parseUint32_def parseUint64_def parseNameList_def parseInt_def
      parseString_def Let_def split: if_splits option.splits)

lemma unmarshalFields_append:
  assumes "unmarshalFields i ks data = Inr (vs, r)" and "KRest \<notin> set ks"
    and "length data + length xs < 2 ^ 32"
  shows "unmarshalFields i ks (data @ xs) = Inr (vs, r @ xs)"
  using assms
proof (induction ks arbitrary: i data vs)
  case (Cons k ks)
  from Cons.prems(1) obtain v d vs' where f: "unmarshalField i k data = Inr (v, d)"
    and fs: "unmarshalFields (Suc i) ks d = Inr (vs', r)" and vs: "vs = v # vs'"
    by (auto split: sum.splits)
  have "length d + length xs < 2 ^ 32"
    using unmarshalField_rest_length [OF f] Cons.prems(3) by simp
  then have "unmarshalFields (Suc i) ks (d @ xs) = Inr (vs', r @ xs)"
    using Cons.IH [OF fs] Cons.prems(2) by simp
  moreover have "unmarshalField i k (data @ xs) = Inr (v, d @ xs)"
    using unmarshalField_append [OF f] Cons.prems(2,3) by auto
  ultimately show ?case by (simp add: vs)
qed simp

text \<open>A struct without a rest field fixes the packet's length: no packet extends another.\<close>

lemma Unmarshal_no_extension:
  assumes "Unmarshal p st = Inr vs" and "Unmarshal (p @ xs) st = Inr vs'"
    and "KRest \<notin> set (kinds st)" and "length p + length xs < 2 ^ 32"
  shows "xs = []"
proof -
  let ?d = "\<lambda>p. if typeTag st > 0 then drop 1 p else p"
  have "p \<noteq> []" using assms(1) by (auto simp: Unmarshal_def Let_def)
  have u: "unmarshalFields 0 (kinds st) (?d p) = Inr (vs, [])"
    using assms(1) by (auto simp: Unmarshal_def Let_def split: if_splits sum.splits)
  have "unmarshalFields 0 (kinds st) (?d (p @ xs)) = Inr (vs', [])"
    using assms(2) by (auto simp: Unmarshal_def Let_def split: if_splits sum.splits)
  moreover have "?d (p @ xs) = ?d p @ xs" using \<open>p \<noteq> []\<close> by (cases p) auto
  moreover have "length (?d p) + length xs < 2 ^ 32" using assms(4) by auto
  ultimately show ?thesis
    using unmarshalFields_append [OF u assms(3), of xs] by simp
qed

text \<open>
  Framing is exact: for a message without a rest field, \<^verbatim>\<open>decode\<close> rejects every proper
  prefix of its packet and every packet that continues past its end, so a truncated packet is
  never taken for a shorter message and trailing bytes are never ignored.
\<close>

theorem decode_framing:
  assumes "wf_msg m" and "decode_name (msg_tag m) = Some (name_of m)"
    and "KRest \<notin> set (kinds (type_of (name_of m)))"
    and "marshal_msg m = Some p" and "length p < 2 ^ 32" and "length q < 2 ^ 32"
    and "prefix q p \<or> prefix p q" and "q \<noteq> p"
  shows "\<exists>e. decode q = Inl e"
proof (rule ccontr)
  assume "\<nexists>e. decode q = Inl e"
  then obtain m' where q: "decode q = Inr m'" by (metis sum.exhaust)
  then have "q \<noteq> []" by (auto simp: decode_def)
  have "p = msg_tag m # concat (map field_bytes (fields_of m))"
    using assms(4) by (simp add: marshal_msg_bytes)
  then have "hd q = msg_tag m"
    using \<open>q \<noteq> []\<close> assms(7) by (auto simp: prefix_def) (metis hd_append2 list.sel(1))
  then have "unmarshal_msg q (name_of m) = Inr m'"
    using q \<open>q \<noteq> []\<close> assms(2) by (cases q) (auto simp: decode_def)
  then obtain vs' where uq: "Unmarshal q (type_of (name_of m)) = Inr vs'"
    by (auto simp: unmarshal_msg_def split: sum.splits)
  obtain vs where up: "Unmarshal p (type_of (name_of m)) = Inr vs"
    using unmarshal_marshal_msg [OF assms(1,4,5)] by (auto simp: unmarshal_msg_def split: sum.splits)
  show False
    using assms(7)
  proof
    assume "prefix q p"
    then obtain xs where "p = q @ xs" by (rule prefixE)
    then show False using Unmarshal_no_extension [OF uq _ assms(3), of xs vs] up assms(5,8) by simp
  next
    assume "prefix p q"
    then obtain xs where "q = p @ xs" by (rule prefixE)
    then show False using Unmarshal_no_extension [OF up _ assms(3), of xs vs'] uq assms(6,8) by simp
  qed
qed

theorem decode_framing_witness:
  "\<exists>e. decode (93 # putUint32 3 @ putUint32 9 @ [0]) = Inl e"
proof (rule decode_framing [where m = "WindowAdjustMsg 3 9" and p = "93 # putUint32 3 @ putUint32 9"])
  have t: "msg_tag (WindowAdjustMsg 3 9) = 93" unfolding msg_tag_def typeTag_type_of by simp
  show "decode_name (msg_tag (WindowAdjustMsg 3 9)) = Some (name_of (WindowAdjustMsg 3 9))"
    by (simp add: decode_name_def t)
  show "marshal_msg (WindowAdjustMsg 3 9) = Some (93 # putUint32 3 @ putUint32 9)"
    by (simp add: marshal_msg_bytes t)
qed (simp_all add: wf_msg_def)

end
