(* ===== verification/Ssh_Algorithms.thy ===== *)
theory Ssh_Algorithms
  imports Ssh_Messages
begin

text \<open>
  Algorithm negotiation and configuration defaults of \<^verbatim>\<open>src/golang.org/x/crypto/ssh/common.go\<close>:
  \<^verbatim>\<open>findCommon\<close>, \<^verbatim>\<open>findAgreedAlgorithms\<close>, \<^verbatim>\<open>Config.SetDefaults\<close>, with the keys of \<^verbatim>\<open>cipherModes\<close> of
  \<^verbatim>\<open>cipher.go\<close>. Algorithm names are byte strings; a slice that may be \<^verbatim>\<open>nil\<close> is an option.
\<close>

section \<open>Negotiation\<close>

text \<open>The error text lists the offers; the model keeps what was being negotiated.\<close>

fun findCommon :: "string \<Rightarrow> byte list list \<Rightarrow> byte list list \<Rightarrow> string + byte list" where
  "findCommon what [] server = Inl what"
| "findCommon what (c # cs) server = (if c \<in> set server then Inr c else findCommon what cs server)"

record directionAlgorithms =
  Cipher :: "byte list"
  MAC :: "byte list"
  Compression :: "byte list"

record algorithms =
  kex :: "byte list"
  hostKey :: "byte list"
  alg_w :: directionAlgorithms
  alg_r :: directionAlgorithms

definition findAgreedAlgorithms :: "kexInitMsg \<Rightarrow> kexInitMsg \<Rightarrow> string + algorithms" where
  "findAgreedAlgorithms c s =
     (case findCommon ''key exchange'' (KexAlgos c) (KexAlgos s) of Inl e \<Rightarrow> Inl e | Inr k \<Rightarrow>
     (case findCommon ''host key'' (ServerHostKeyAlgos c) (ServerHostKeyAlgos s) of
        Inl e \<Rightarrow> Inl e | Inr h \<Rightarrow>
     (case findCommon ''client to server cipher'' (CiphersClientServer c) (CiphersClientServer s) of
        Inl e \<Rightarrow> Inl e | Inr wc \<Rightarrow>
     (case findCommon ''server to client cipher'' (CiphersServerClient c) (CiphersServerClient s) of
        Inl e \<Rightarrow> Inl e | Inr rc \<Rightarrow>
     (case findCommon ''client to server MAC'' (MACsClientServer c) (MACsClientServer s) of
        Inl e \<Rightarrow> Inl e | Inr wm \<Rightarrow>
     (case findCommon ''server to client MAC'' (MACsServerClient c) (MACsServerClient s) of
        Inl e \<Rightarrow> Inl e | Inr rm \<Rightarrow>
     (case findCommon ''client to server compression''
             (CompressionClientServer c) (CompressionClientServer s) of
        Inl e \<Rightarrow> Inl e | Inr wz \<Rightarrow>
     (case findCommon ''server to client compression''
             (CompressionServerClient c) (CompressionServerClient s) of
        Inl e \<Rightarrow> Inl e | Inr rz \<Rightarrow>
      Inr \<lparr>kex = k, hostKey = h,
           alg_w = \<lparr>Cipher = wc, MAC = wm, Compression = wz\<rparr>,
           alg_r = \<lparr>Cipher = rc, MAC = rm, Compression = rz\<rparr>\<rparr>))))))))"

text \<open>The name RFC 4253 asks for: the client's first choice that the server offers as well.\<close>

definition agreed :: "byte list list \<Rightarrow> byte list list \<Rightarrow> byte list \<Rightarrow> bool" where
  "agreed client server c \<longleftrightarrow>
     (\<exists>pre post. client = pre @ c # post \<and> c \<in> set server \<and> set pre \<inter> set server = {})"

lemma findCommon_Inr: "findCommon what client server = Inr c \<longleftrightarrow> agreed client server c"
proof (induction client)
  case Nil
  show ?case by (simp add: agreed_def)
next
  case (Cons a client)
  show ?case
  proof (cases "a \<in> set server")
    case True
    have "agreed (a # client) server c \<longleftrightarrow> c = a"
      unfolding agreed_def using True by (auto simp: Cons_eq_append_conv)
    with True show ?thesis by auto
  next
    case False
    have "agreed (a # client) server c \<longleftrightarrow> agreed client server c"
    proof
      assume "agreed (a # client) server c"
      then obtain pre post where p: "a # client = pre @ c # post" "c \<in> set server"
        "set pre \<inter> set server = {}" unfolding agreed_def by blast
      then obtain pre' where "pre = a # pre'" using False by (cases pre) auto
      then show "agreed client server c" using p unfolding agreed_def by auto
    next
      assume "agreed client server c"
      then obtain pre post where "client = pre @ c # post" "c \<in> set server"
        "set pre \<inter> set server = {}" unfolding agreed_def by blast
      then show "agreed (a # client) server c"
        unfolding agreed_def using False by (intro exI [of _ "a # pre"] exI [of _ post]) simp
    qed
    with False Cons show ?thesis by simp
  qed
qed

lemma findCommon_Inl:
  "findCommon what client server = Inl e \<longleftrightarrow> e = what \<and> set client \<inter> set server = {}"
  by (induction client) auto

definition agreed_algorithms :: "kexInitMsg \<Rightarrow> kexInitMsg \<Rightarrow> algorithms \<Rightarrow> bool" where
  "agreed_algorithms c s a \<longleftrightarrow>
     agreed (KexAlgos c) (KexAlgos s) (kex a)
     \<and> agreed (ServerHostKeyAlgos c) (ServerHostKeyAlgos s) (hostKey a)
     \<and> agreed (CiphersClientServer c) (CiphersClientServer s) (Cipher (alg_w a))
     \<and> agreed (CiphersServerClient c) (CiphersServerClient s) (Cipher (alg_r a))
     \<and> agreed (MACsClientServer c) (MACsClientServer s) (MAC (alg_w a))
     \<and> agreed (MACsServerClient c) (MACsServerClient s) (MAC (alg_r a))
     \<and> agreed (CompressionClientServer c) (CompressionClientServer s) (Compression (alg_w a))
     \<and> agreed (CompressionServerClient c) (CompressionServerClient s) (Compression (alg_r a))"

lemma findAgreedAlgorithms_Inr:
  "findAgreedAlgorithms c s = Inr a \<longleftrightarrow> agreed_algorithms c s a"
proof -
  obtain k h w r where a: "a = \<lparr>kex = k, hostKey = h, alg_w = w, alg_r = r\<rparr>" by (cases a) auto
  obtain wc wm wz where w: "w = \<lparr>Cipher = wc, MAC = wm, Compression = wz\<rparr>" by (cases w) auto
  obtain rc rm rz where r: "r = \<lparr>Cipher = rc, MAC = rm, Compression = rz\<rparr>" by (cases r) auto
  have "findAgreedAlgorithms c s = Inr a \<longleftrightarrow>
      findCommon ''key exchange'' (KexAlgos c) (KexAlgos s) = Inr k
      \<and> findCommon ''host key'' (ServerHostKeyAlgos c) (ServerHostKeyAlgos s) = Inr h
      \<and> findCommon ''client to server cipher'' (CiphersClientServer c) (CiphersClientServer s) = Inr wc
      \<and> findCommon ''server to client cipher'' (CiphersServerClient c) (CiphersServerClient s) = Inr rc
      \<and> findCommon ''client to server MAC'' (MACsClientServer c) (MACsClientServer s) = Inr wm
      \<and> findCommon ''server to client MAC'' (MACsServerClient c) (MACsServerClient s) = Inr rm
      \<and> findCommon ''client to server compression''
          (CompressionClientServer c) (CompressionClientServer s) = Inr wz
      \<and> findCommon ''server to client compression''
          (CompressionServerClient c) (CompressionServerClient s) = Inr rz"
    unfolding a w r by (auto simp: findAgreedAlgorithms_def split: sum.splits)
  then show ?thesis by (simp add: findCommon_Inr agreed_algorithms_def a w r)
qed

lemma agreed_ex: "(\<exists>x. agreed cl sv x) \<longleftrightarrow> set cl \<inter> set sv \<noteq> {}"
proof (cases "findCommon [] cl sv")
  case (Inl e)
  then have "set cl \<inter> set sv = {}" by (simp add: findCommon_Inl)
  then show ?thesis by (auto simp: agreed_def)
next
  case (Inr x)
  then have "agreed cl sv x" by (simp add: findCommon_Inr)
  then show ?thesis by (auto simp: agreed_def)
qed

lemma agreed_algorithms_ex:
  "(\<exists>a. agreed_algorithms c s a) \<longleftrightarrow>
     (\<exists>x. agreed (KexAlgos c) (KexAlgos s) x)
     \<and> (\<exists>x. agreed (ServerHostKeyAlgos c) (ServerHostKeyAlgos s) x)
     \<and> (\<exists>x. agreed (CiphersClientServer c) (CiphersClientServer s) x)
     \<and> (\<exists>x. agreed (CiphersServerClient c) (CiphersServerClient s) x)
     \<and> (\<exists>x. agreed (MACsClientServer c) (MACsClientServer s) x)
     \<and> (\<exists>x. agreed (MACsServerClient c) (MACsServerClient s) x)
     \<and> (\<exists>x. agreed (CompressionClientServer c) (CompressionClientServer s) x)
     \<and> (\<exists>x. agreed (CompressionServerClient c) (CompressionServerClient s) x)" (is "?l \<longleftrightarrow> ?r")
proof
  assume ?r
  then obtain k h wc rc wm rm wz rz where
    "agreed_algorithms c s \<lparr>kex = k, hostKey = h,
       alg_w = \<lparr>Cipher = wc, MAC = wm, Compression = wz\<rparr>,
       alg_r = \<lparr>Cipher = rc, MAC = rm, Compression = rz\<rparr>\<rparr>"
    unfolding agreed_algorithms_def by auto
  then show ?l by blast
qed (auto simp: agreed_algorithms_def)

text \<open>
  C33. Negotiation follows the client's preference and is complete: \<^verbatim>\<open>findAgreedAlgorithms\<close> returns
  algorithms exactly when each of the eight choices is the first name of the client's list
  that the server lists too, and it fails exactly when some pair of lists has no name in
  common.
\<close>

theorem negotiation_client_preference:
  "(findAgreedAlgorithms c s = Inr a \<longleftrightarrow> agreed_algorithms c s a)
   \<and> ((\<exists>e. findAgreedAlgorithms c s = Inl e) \<longleftrightarrow>
      set (KexAlgos c) \<inter> set (KexAlgos s) = {}
      \<or> set (ServerHostKeyAlgos c) \<inter> set (ServerHostKeyAlgos s) = {}
      \<or> set (CiphersClientServer c) \<inter> set (CiphersClientServer s) = {}
      \<or> set (CiphersServerClient c) \<inter> set (CiphersServerClient s) = {}
      \<or> set (MACsClientServer c) \<inter> set (MACsClientServer s) = {}
      \<or> set (MACsServerClient c) \<inter> set (MACsServerClient s) = {}
      \<or> set (CompressionClientServer c) \<inter> set (CompressionClientServer s) = {}
      \<or> set (CompressionServerClient c) \<inter> set (CompressionServerClient s) = {})"
proof -
  have "(\<exists>e. findAgreedAlgorithms c s = Inl e) \<longleftrightarrow> \<not> (\<exists>a. findAgreedAlgorithms c s = Inr a)"
    by (cases "findAgreedAlgorithms c s") auto
  then show ?thesis
    by (simp only: findAgreedAlgorithms_Inr agreed_algorithms_ex agreed_ex) blast
qed

section \<open>Configuration defaults\<close>

definition supportedCiphers :: "byte list list" where
  "supportedCiphers = map ascii
     [''aes128-ctr'', ''aes192-ctr'', ''aes256-ctr'', ''aes128-gcm@openssh.com'',
      ''arcfour256'', ''arcfour128'']"

definition supportedKexAlgos :: "byte list list" where
  "supportedKexAlgos = map ascii
     [''curve25519-sha256@libssh.org'', ''ecdh-sha2-nistp256'', ''ecdh-sha2-nistp384'',
      ''ecdh-sha2-nistp521'', ''diffie-hellman-group14-sha1'', ''diffie-hellman-group1-sha1'']"

definition supportedMACs :: "byte list list" where
  "supportedMACs = map ascii [''hmac-sha2-256'', ''hmac-sha1'', ''hmac-sha1-96'']"

definition cipherModes_keys :: "byte list list" where
  "cipherModes_keys = map ascii
     [''aes128-ctr'', ''aes192-ctr'', ''aes256-ctr'', ''arcfour128'', ''arcfour256'', ''arcfour'',
      ''aes128-gcm@openssh.com'', ''aes128-cbc'']"

definition minRekeyThreshold :: u64 where
  "minRekeyThreshold = 256"

record config =
  Rand :: "string option"
  RekeyThreshold :: u64
  KeyExchanges :: "byte list list option"
  Ciphers :: "byte list list option"
  MACs :: "byte list list option"

definition SetDefaults :: "config \<Rightarrow> config" where
  "SetDefaults c =
     (let rand = (case Rand c of None \<Rightarrow> Some ''crypto/rand.Reader'' | r \<Rightarrow> r);
          cs = (case Ciphers c of None \<Rightarrow> supportedCiphers | Some cs \<Rightarrow> cs);
          ciphers = filter (\<lambda>x. x \<in> set cipherModes_keys) cs;
          kexs = (case KeyExchanges c of None \<Rightarrow> Some supportedKexAlgos | k \<Rightarrow> k);
          macs = (case MACs c of None \<Rightarrow> Some supportedMACs | m \<Rightarrow> m);
          t1 = (if RekeyThreshold c = 0 then push_bit 30 1 else RekeyThreshold c);
          t2 = (if t1 < minRekeyThreshold then minRekeyThreshold else t1)
      in c\<lparr>Rand := rand, Ciphers := (if ciphers = [] then None else Some ciphers),
           KeyExchanges := kexs, MACs := macs, RekeyThreshold := t2\<rparr>)"

text \<open>
  After \<^verbatim>\<open>SetDefaults\<close> every field is usable: the cipher list holds only ciphers the package
  implements (a requested cipher without an implementation is dropped, the order of the
  others kept, and the default list survives whole), key exchanges and MACs are set, and the
  threshold for a new key exchange is at least 256 bytes and 1 GiB when it was not given.
\<close>

theorem SetDefaults_usable:
  "Ciphers (SetDefaults c) =
     (case Ciphers c of
        None \<Rightarrow> Some supportedCiphers
      | Some cs \<Rightarrow> (let fs = filter (\<lambda>x. x \<in> set cipherModes_keys) cs
                    in if fs = [] then None else Some fs))
   \<and> KeyExchanges (SetDefaults c) \<noteq> None \<and> MACs (SetDefaults c) \<noteq> None
   \<and> Rand (SetDefaults c) \<noteq> None
   \<and> 256 \<le> RekeyThreshold (SetDefaults c)
   \<and> (RekeyThreshold c = 0 \<longrightarrow> RekeyThreshold (SetDefaults c) = 2 ^ 30)
   \<and> (256 \<le> RekeyThreshold c \<longrightarrow> RekeyThreshold (SetDefaults c) = RekeyThreshold c)"
proof -
  have "filter (\<lambda>x. x \<in> set cipherModes_keys) supportedCiphers = supportedCiphers"
    by (simp add: supportedCiphers_def cipherModes_keys_def)
  moreover have "supportedCiphers \<noteq> []" by (simp add: supportedCiphers_def)
  ultimately have "Ciphers (SetDefaults c) =
     (case Ciphers c of
        None \<Rightarrow> Some supportedCiphers
      | Some cs \<Rightarrow> (let fs = filter (\<lambda>x. x \<in> set cipherModes_keys) cs
                    in if fs = [] then None else Some fs))"
    by (cases "Ciphers c") (simp_all add: SetDefaults_def Let_def)
  moreover have "KeyExchanges (SetDefaults c) \<noteq> None" and "MACs (SetDefaults c) \<noteq> None"
    and "Rand (SetDefaults c) \<noteq> None"
    by (simp_all add: SetDefaults_def Let_def split: option.splits)
  moreover have "RekeyThreshold (SetDefaults c) =
      (if RekeyThreshold c = 0 then 2 ^ 30 else if RekeyThreshold c < 256 then 256 else RekeyThreshold c)"
    by (simp add: SetDefaults_def Let_def minRekeyThreshold_def)
  ultimately show ?thesis by (auto simp: not_less)
qed

theorem SetDefaults_usable_witness:
  "RekeyThreshold (SetDefaults \<lparr>Rand = None, RekeyThreshold = 0, KeyExchanges = None,
     Ciphers = None, MACs = None\<rparr>) = 2 ^ 30"
  using SetDefaults_usable [of "\<lparr>Rand = None, RekeyThreshold = 0, KeyExchanges = None,
     Ciphers = None, MACs = None\<rparr>"] by simp

end
