(* ===== verification/Ssh_Buffer.thy ===== *)
theory Ssh_Buffer
  imports Ssh_Wire
begin

text \<open>
  The linked list buffer of \<^verbatim>\<open>src/golang.org/x/crypto/ssh/buffer.go\<close>, through which the data of a
  channel reaches its reader. The chain of \<^verbatim>\<open>element\<close>s from \<^verbatim>\<open>head\<close> to \<^verbatim>\<open>tail\<close> is a non-empty
  list of byte strings; every method runs under the buffer's lock and is one step, except
  that \<^verbatim>\<open>Read\<close> may come to \<^verbatim>\<open>Cond.Wait\<close>, which is the result \<open>Blocked\<close>: nothing has been copied
  then, and \<^verbatim>\<open>Read\<close> starts again from the state it left when it is woken up.

  The interface a channel relies on is the locale \<open>byte_fifo\<close>: a first-in first-out queue of
  bytes that can be closed.
\<close>

section \<open>The interface: a queue of bytes\<close>

datatype read_result = Blocked | Returned "byte list" "ssh_error option"

fun read_data :: "read_result \<Rightarrow> byte list" where
  "read_data Blocked = []"
| "read_data (Returned d _) = d"

datatype fifo_op = FWrite "byte list" | FEof | FRead nat

text \<open>A sequence of operations on a queue: the results of its reads, and the queue afterwards.\<close>

fun fifo_run ::
  "('b \<Rightarrow> byte list \<Rightarrow> 'b) \<Rightarrow> ('b \<Rightarrow> 'b) \<Rightarrow> ('b \<Rightarrow> nat \<Rightarrow> read_result \<times> 'b)
   \<Rightarrow> fifo_op list \<Rightarrow> 'b \<Rightarrow> read_result list \<times> 'b" where
  "fifo_run wr ef rd [] b = ([], b)"
| "fifo_run wr ef rd (FWrite d # ops) b = fifo_run wr ef rd ops (wr b d)"
| "fifo_run wr ef rd (FEof # ops) b = fifo_run wr ef rd ops (ef b)"
| "fifo_run wr ef rd (FRead k # ops) b =
     (let (r, b') = rd b k; (rs, b'') = fifo_run wr ef rd ops b' in (r # rs, b''))"

fun written :: "fifo_op list \<Rightarrow> byte list" where
  "written [] = []"
| "written (FWrite d # ops) = d @ written ops"
| "written (FEof # ops) = written ops"
| "written (FRead _ # ops) = written ops"

locale byte_fifo =
  fixes inv :: "'b \<Rightarrow> bool"
    and contents :: "'b \<Rightarrow> byte list"
    and is_closed :: "'b \<Rightarrow> bool"
    and empty :: 'b
    and wr :: "'b \<Rightarrow> byte list \<Rightarrow> 'b"
    and ef :: "'b \<Rightarrow> 'b"
    and rd :: "'b \<Rightarrow> nat \<Rightarrow> read_result \<times> 'b"
  assumes inv_empty: "inv empty"
    and contents_empty: "contents empty = []"
    and closed_empty: "\<not> is_closed empty"
    and inv_wr: "inv b \<Longrightarrow> inv (wr b d)"
    and contents_wr: "inv b \<Longrightarrow> contents (wr b d) = contents b @ d"
    and closed_wr: "is_closed (wr b d) = is_closed b"
    and inv_ef: "inv b \<Longrightarrow> inv (ef b)"
    and contents_ef: "contents (ef b) = contents b"
    and closed_ef: "is_closed (ef b)"
    and inv_rd: "inv b \<Longrightarrow> inv (snd (rd b k))"
    and closed_rd: "inv b \<Longrightarrow> is_closed (snd (rd b k)) = is_closed b"
    and contents_rd: "inv b \<Longrightarrow> contents (snd (rd b k)) = drop k (contents b)"
    and result_rd: "inv b \<Longrightarrow> fst (rd b k) =
      (if k = 0 \<or> contents b \<noteq> [] then Returned (take k (contents b)) None
       else if is_closed b then Returned [] (Some EOF)
       else Blocked)"
begin

lemma read_split: "inv b \<Longrightarrow> read_data (fst (rd b k)) @ contents (snd (rd b k)) = contents b"
  by (auto simp: result_rd contents_rd)

lemma read_progress: "inv b \<Longrightarrow> contents b \<noteq> [] \<Longrightarrow> 0 < k \<Longrightarrow> read_data (fst (rd b k)) \<noteq> []"
  by (simp add: result_rd)

lemma run_conserves:
  assumes "inv b"
  shows "inv (snd (fifo_run wr ef rd ops b))
    \<and> concat (map read_data (fst (fifo_run wr ef rd ops b))) @ contents (snd (fifo_run wr ef rd ops b))
      = contents b @ written ops"
  using assms
proof (induction ops arbitrary: b rule: written.induct)
  case (2 d ops)
  then have "inv (wr b d)" by (simp add: inv_wr)
  from "2.IH" [OF this] "2.prems" show ?case by (simp add: contents_wr)
next
  case (3 ops)
  then have "inv (ef b)" by (simp add: inv_ef)
  from "3.IH" [OF this] show ?case by (simp add: contents_ef)
next
  case (4 k ops)
  then have "inv (snd (rd b k))" by (simp add: inv_rd)
  from "4.IH" [OF this] read_split [OF "4.prems", of k] show ?case
    by (auto simp: case_prod_beta)
qed simp

end

section \<open>The linked list\<close>

record buffer =
  elems :: "byte list list"
  buf_closed :: bool

definition newBuffer :: buffer where
  "newBuffer = \<lparr>elems = [[]], buf_closed = False\<rparr>"

definition buf_write :: "buffer \<Rightarrow> byte list \<Rightarrow> buffer" where
  "buf_write b buf = b\<lparr>elems := elems b @ [buf]\<rparr>"

definition buf_eof :: "buffer \<Rightarrow> buffer" where
  "buf_eof b = b\<lparr>buf_closed := True\<rparr>"

text \<open>
  The loop of \<^verbatim>\<open>Read\<close>: \<open>k\<close> is the room left in the caller's slice, \<open>acc\<close> what has been copied
  into it, so that \<^verbatim>\<open>n\<close> is the length of \<open>acc\<close>; \<open>es\<close> is the chain from \<^verbatim>\<open>head\<close> to \<^verbatim>\<open>tail\<close>, and
  \<^verbatim>\<open>head\<close> differs from \<^verbatim>\<open>tail\<close> when something follows the first element.
\<close>

function buf_Read_loop ::
  "bool \<Rightarrow> nat \<Rightarrow> byte list \<Rightarrow> byte list list \<Rightarrow> read_result \<times> byte list list" where
  "buf_Read_loop cl k acc es =
     (if k = 0 then (Returned acc None, es)
      else case es of
        [] \<Rightarrow> (Blocked, [])
      | e # rest \<Rightarrow>
          if e \<noteq> [] then
            let r = min k (length e)
            in buf_Read_loop cl (k - r) (acc @ take r e) (drop r e # rest)
          else if rest \<noteq> [] then buf_Read_loop cl k acc rest
          else if acc \<noteq> [] then (Returned acc None, es)
          else if cl then (Returned acc (Some EOF), es)
          else (Blocked, es))"
  by pat_completeness auto
termination
  by (relation "measure (\<lambda>(cl, k, acc, es). k + length es)") auto

declare buf_Read_loop.simps [simp del]

definition buf_Read :: "buffer \<Rightarrow> nat \<Rightarrow> read_result \<times> buffer" where
  "buf_Read b k =
     (let (r, es) = buf_Read_loop (buf_closed b) k [] (elems b) in (r, b\<lparr>elems := es\<rparr>))"

definition buf_inv :: "buffer \<Rightarrow> bool" where
  "buf_inv b \<longleftrightarrow> elems b \<noteq> []"

definition buf_contents :: "buffer \<Rightarrow> byte list" where
  "buf_contents b = concat (elems b)"

lemma buf_Read_loop_spec:
  "es \<noteq> [] \<Longrightarrow>
   snd (buf_Read_loop cl k acc es) \<noteq> []
   \<and> concat (snd (buf_Read_loop cl k acc es)) = drop k (concat es)
   \<and> fst (buf_Read_loop cl k acc es) =
       (if k = 0 \<or> acc \<noteq> [] \<or> concat es \<noteq> [] then Returned (acc @ take k (concat es)) None
        else if cl then Returned [] (Some EOF) else Blocked)"
proof (induction cl k acc es rule: buf_Read_loop.induct)
  case (1 cl k acc es)
  then obtain e rest where es: "es = e # rest" by (cases es) auto
  consider "k = 0" | "0 < k" "e \<noteq> []" | "0 < k" "e = []" "rest \<noteq> []" | "0 < k" "e = []" "rest = []"
    by auto
  then show ?case
  proof cases
    case 2
    let ?r = "min k (length e)"
    have eq: "buf_Read_loop cl k acc es = buf_Read_loop cl (k - ?r) (acc @ take ?r e) (drop ?r e # rest)"
      using 2 es by (subst buf_Read_loop.simps) (simp add: Let_def)
    have nz: "take ?r e \<noteq> []" using 2 by simp
    from "1.IH"(1) [OF _ es] 2 have
      "concat (snd (buf_Read_loop cl k acc es)) = drop (k - ?r) (drop ?r e @ concat rest)"
      "snd (buf_Read_loop cl k acc es) \<noteq> []"
      "fst (buf_Read_loop cl k acc es)
        = Returned ((acc @ take ?r e) @ take (k - ?r) (drop ?r e @ concat rest)) None"
      unfolding eq using nz by auto
    moreover have "drop (k - ?r) (drop ?r e @ concat rest) = drop k (e @ concat rest)"
      by (cases "k \<le> length e") (auto simp: min_def)
    moreover have "take ?r e @ take (k - ?r) (drop ?r e @ concat rest) = take k (e @ concat rest)"
      by (cases "k \<le> length e") (auto simp: min_def)
    ultimately show ?thesis using 2 es by simp
  next
    case 3
    have "buf_Read_loop cl k acc es = buf_Read_loop cl k acc rest"
      using 3 es by (subst buf_Read_loop.simps) simp
    with "1.IH"(2) [OF _ es] 3 es show ?thesis by simp
  next
    case 4
    have "buf_Read_loop cl k acc es =
        (if acc \<noteq> [] then (Returned acc None, es)
         else if cl then (Returned acc (Some EOF), es) else (Blocked, es))"
      using 4 es by (subst buf_Read_loop.simps) simp
    with 4 es show ?thesis by simp
  qed (simp add: buf_Read_loop.simps [of cl 0] es)
qed

interpretation buf: byte_fifo buf_inv buf_contents buf_closed newBuffer buf_write buf_eof buf_Read
proof
  show "buf_inv newBuffer" and "buf_contents newBuffer = []" and "\<not> buf_closed newBuffer"
    by (simp_all add: buf_inv_def buf_contents_def newBuffer_def)
next
  fix b :: buffer and d
  show "buf_closed (buf_write b d) = buf_closed b" and "buf_contents (buf_eof b) = buf_contents b"
    and "buf_closed (buf_eof b)"
    by (simp_all add: buf_write_def buf_eof_def buf_contents_def)
  assume "buf_inv b"
  then show "buf_inv (buf_write b d)" and "buf_contents (buf_write b d) = buf_contents b @ d"
    and "buf_inv (buf_eof b)"
    by (simp_all add: buf_inv_def buf_contents_def buf_write_def buf_eof_def)
next
  fix b :: buffer and k
  assume "buf_inv b"
  then have "elems b \<noteq> []" by (simp add: buf_inv_def)
  from buf_Read_loop_spec [OF this, of "buf_closed b" k "[]"]
  show "buf_inv (snd (buf_Read b k))" and "buf_closed (snd (buf_Read b k)) = buf_closed b"
    and "buf_contents (snd (buf_Read b k)) = drop k (buf_contents b)"
    and "fst (buf_Read b k) =
      (if k = 0 \<or> buf_contents b \<noteq> [] then Returned (take k (buf_contents b)) None
       else if buf_closed b then Returned [] (Some EOF) else Blocked)"
    by (simp_all add: buf_Read_def buf_inv_def buf_contents_def case_prod_beta)
qed

text \<open>
  C19. \<^verbatim>\<open>buffer.Read\<close> refines reading from a queue of bytes: a read of up to \<open>k\<close> bytes returns the
  first \<open>k\<close> bytes that were written and not yet read (fewer if there are fewer) and leaves
  the others; it reports the end of the stream only when nothing is left and the buffer is
  closed, and it waits exactly when nothing is left and the buffer is open. The loop ends.
\<close>

theorem buffer_Read_refines_queue:
  assumes "buf_inv b"
  shows "buf_inv (snd (buf_Read b k))
    \<and> buf_contents (snd (buf_Read b k)) = drop k (buf_contents b)
    \<and> fst (buf_Read b k) =
        (if k = 0 \<or> buf_contents b \<noteq> [] then Returned (take k (buf_contents b)) None
         else if buf_closed b then Returned [] (Some EOF) else Blocked)"
  using assms by (simp add: buf.inv_rd buf.contents_rd buf.result_rd)

theorem buffer_Read_refines_queue_witness:
  "fst (buf_Read (buf_write (buf_write newBuffer [1, 2]) [3]) 2) = Returned [1, 2] None"
proof -
  let ?b = "buf_write (buf_write newBuffer [1, 2]) [3]"
  have "buf_inv ?b" and "buf_contents ?b = [1, 2, 3]"
    by (simp_all add: buf.inv_wr buf.inv_empty buf.contents_wr buf.contents_empty)
  with buffer_Read_refines_queue [of ?b 2] show ?thesis by simp
qed

text \<open>
  Nothing is lost, duplicated or reordered: after any sequence of writes, closes and reads
  on a new buffer, the bytes the reads returned followed by the bytes still buffered are the
  bytes written, in the order they were written.
\<close>

theorem buffer_stream_conserved:
  "concat (map read_data (fst (fifo_run buf_write buf_eof buf_Read ops newBuffer)))
     @ buf_contents (snd (fifo_run buf_write buf_eof buf_Read ops newBuffer)) = written ops"
  using buf.run_conserves [OF buf.inv_empty, of ops] by (simp add: buf.contents_empty)

end
