(* ===== verification/Ssh_Window.thy ===== *)
theory Ssh_Window
  imports Ssh_Wire
begin

text \<open>
  The flow control window of \<^verbatim>\<open>src/golang.org/x/crypto/ssh/common.go\<close>: the credit the peer has
  given for sending on a channel, a \<^verbatim>\<open>uint32\<close> kept at its width. \<^verbatim>\<open>reserve\<close> is split where it
  waits: \<open>win_reserve_enter\<close> is what runs up to the loop, \<open>win_reserve_try\<close> one test of the
  loop's condition with, when the test lets it through, the rest of the method. Goroutines
  that reserve, the reader that credits and closes, and their interleavings are the step
  relation \<open>win_step\<close>.
\<close>

section \<open>The window\<close>

record window =
  win :: u32
  writeWaiters :: int
  win_closed :: bool

definition win_new :: window where
  "win_new = \<lparr>win = 0, writeWaiters = 0, win_closed = False\<rparr>"

definition win_add :: "window \<Rightarrow> u32 \<Rightarrow> bool \<times> window" where
  "win_add w n =
     (if n = 0 then (True, w)
      else if win w + n < n then (False, w)
      else (True, w\<lparr>win := win w + n\<rparr>))"

definition win_close :: "window \<Rightarrow> window" where
  "win_close w = w\<lparr>win_closed := True\<rparr>"

definition win_reserve_enter :: "window \<Rightarrow> window" where
  "win_reserve_enter w = w\<lparr>writeWaiters := writeWaiters w + 1\<rparr>"

definition win_reserve_try :: "window \<Rightarrow> u32 \<Rightarrow> (u32 \<times> ssh_error option \<times> window) option" where
  "win_reserve_try w n =
     (if win w = 0 \<and> \<not> win_closed w then None
      else let n' = (if win w < n then win w else n)
           in Some (n', if win_closed w then Some EOF else None,
                    w\<lparr>writeWaiters := writeWaiters w - 1, win := win w - n'\<rparr>))"

datatype reserve_result = Waiting | Reserved u32 "ssh_error option"

text \<open>A whole call of \<^verbatim>\<open>reserve\<close> with no other goroutine in between.\<close>

definition win_reserve :: "window \<Rightarrow> u32 \<Rightarrow> reserve_result \<times> window" where
  "win_reserve w n =
     (case win_reserve_try (win_reserve_enter w) n of
        None \<Rightarrow> (Waiting, win_reserve_enter w)
      | Some (n', e, w') \<Rightarrow> (Reserved n' e, w'))"

lemma win_add_overflow: "win w + n < n \<longleftrightarrow> 2 ^ 32 \<le> unat (win w) + unat n \<and> n \<noteq> 0"
proof -
  have b: "unat (win w) < 2 ^ 32" "unat n < 2 ^ 32"
    using unsigned_less [of "win w", where ?'a = nat] unsigned_less [of n, where ?'a = nat] by auto
  have u: "unat (win w + n) = (unat (win w) + unat n) mod 2 ^ 32"
    by (simp add: unat_word_ariths)
  show ?thesis
  proof (cases "2 ^ 32 \<le> unat (win w) + unat n")
    case True
    then have "unat (win w + n) = unat (win w) + unat n - 2 ^ 32"
      using b by (simp add: u mod_if)
    then have "win w + n < n" using b True by (simp add: word_less_nat_alt)
    then show ?thesis using True by auto
  next
    case False
    then show ?thesis by (simp add: word_less_nat_alt u)
  qed
qed

text \<open>
  \<^verbatim>\<open>window.add\<close> is exact at 32 bits: it fails, leaving the window alone, precisely when the
  sum would not fit into a \<^verbatim>\<open>uint32\<close>, and otherwise it adds the credit without wrapping around.
\<close>

theorem window_add_exact:
  "win_add w n =
     (if 2 ^ 32 \<le> unat (win w) + unat n then (False, w) else (True, w\<lparr>win := win w + n\<rparr>))
   \<and> unat (win (snd (win_add w n))) =
     (if 2 ^ 32 \<le> unat (win w) + unat n then unat (win w) else unat (win w) + unat n)"
proof -
  have "unat (win w) < 2 ^ 32" using unsigned_less [of "win w", where ?'a = nat] by simp
  moreover have "unat (win w + n) = unat (win w) + unat n" if "unat (win w) + unat n < 2 ^ 32"
    using that by (simp add: unat_word_ariths)
  ultimately show ?thesis
    by (cases "n = 0") (auto simp: win_add_def win_add_overflow)
qed

lemma win_add_unat: "win_add w n = (True, w') \<Longrightarrow> unat (win w') = unat (win w) + unat n"
  by (cases "n = 0") (auto simp: win_add_def win_add_overflow unat_word_ariths split: if_splits)

lemma win_add_other:
  "win_add w n = (ok, w') \<Longrightarrow> writeWaiters w' = writeWaiters w \<and> win_closed w' = win_closed w"
  by (auto simp: win_add_def split: if_splits)

lemma win_add_fail: "win_add w n = (False, w') \<Longrightarrow> w' = w"
  by (auto simp: win_add_def split: if_splits)

lemma win_reserve_try_unat:
  "win_reserve_try w n = Some (n', e, w') \<Longrightarrow>
     unat n' + unat (win w') = unat (win w) \<and> n' \<le> n \<and> n' \<le> win w"
  by (auto simp: win_reserve_try_def Let_def unat_sub word_le_nat_alt word_less_nat_alt
      split: if_splits)

lemma win_reserve_try_other:
  "win_reserve_try w n = Some (n', e, w') \<Longrightarrow>
     writeWaiters w' = writeWaiters w - 1 \<and> win_closed w' = win_closed w"
  by (auto simp: win_reserve_try_def Let_def split: if_splits)

lemma win_reserve_positive:
  assumes "win_reserve w n = (Reserved n' None, w')" and "0 < n"
  shows "0 < n' \<and> n' \<le> n \<and> unat n' + unat (win w') = unat (win w) \<and> writeWaiters w' = writeWaiters w
    \<and> win_closed w' = win_closed w"
proof -
  from assms(1) have t: "win_reserve_try (win_reserve_enter w) n = Some (n', None, w')"
    by (auto simp: win_reserve_def split: option.splits)
  from t assms(2) have "0 < n'"
    by (auto simp: win_reserve_try_def Let_def word_neq_0_conv split: if_splits)
  with win_reserve_try_unat [OF t] win_reserve_try_other [OF t] show ?thesis
    by (simp add: win_reserve_enter_def)
qed

section \<open>Concurrent use\<close>

text \<open>
  The window with the requests of the goroutines inside \<^verbatim>\<open>reserve\<close>, and two counters that the
  code does not keep: the credit the peer has given so far and what has been granted of it.
\<close>

record win_state =
  wwin :: window
  waiting :: "u32 list"
  credited :: nat
  granted :: nat

inductive win_step :: "win_state \<Rightarrow> win_state \<Rightarrow> bool" where
  step_add: "win_add (wwin s) n = (True, w) \<Longrightarrow>
     win_step s (s\<lparr>wwin := w, credited := credited s + unat n\<rparr>)"
| step_add_fail: "win_add (wwin s) n = (False, w) \<Longrightarrow> win_step s (s\<lparr>wwin := w\<rparr>)"
| step_close: "win_step s (s\<lparr>wwin := win_close (wwin s)\<rparr>)"
| step_enter: "win_step s (s\<lparr>wwin := win_reserve_enter (wwin s), waiting := waiting s @ [n]\<rparr>)"
| step_wake: "waiting s = xs @ n # ys \<Longrightarrow> win_reserve_try (wwin s) n = Some (n', e, w) \<Longrightarrow>
     win_step s (s\<lparr>wwin := w, waiting := xs @ ys, granted := granted s + unat n'\<rparr>)"

inductive_cases win_stepE: "win_step s t"

inductive win_reachable :: "win_state \<Rightarrow> bool" where
  reach_init: "win_reachable \<lparr>wwin = win_new, waiting = [], credited = 0, granted = 0\<rparr>"
| reach_step: "win_reachable s \<Longrightarrow> win_step s t \<Longrightarrow> win_reachable t"

definition win_ok :: "win_state \<Rightarrow> bool" where
  "win_ok s \<longleftrightarrow> granted s + unat (win (wwin s)) = credited s
     \<and> writeWaiters (wwin s) = int (length (waiting s))"

lemma win_step_ok: "win_step s t \<Longrightarrow> win_ok s \<Longrightarrow> win_ok t"
proof (induction rule: win_step.induct)
  case (step_add s n w)
  then show ?case using win_add_unat [OF step_add(1)] win_add_other [OF step_add(1)]
    by (simp add: win_ok_def)
next
  case (step_add_fail s n w)
  then show ?case using win_add_fail by (fastforce simp: win_ok_def)
next
  case (step_wake s xs n ys n' e w)
  then show ?case
    using win_reserve_try_unat [OF step_wake(2)] win_reserve_try_other [OF step_wake(2)]
    by (simp add: win_ok_def)
qed (simp_all add: win_ok_def win_close_def win_reserve_enter_def)

text \<open>
  C20. Flow control is safe under every interleaving of goroutines: in each reachable state
  of the window the bytes granted to writers plus the bytes still available are exactly the
  bytes the peer has credited, so writers never send more than the peer allowed, and
  \<^verbatim>\<open>writeWaiters\<close> counts exactly the goroutines inside \<^verbatim>\<open>reserve\<close>.
\<close>

theorem window_flow_control:
  assumes "win_reachable s"
  shows "granted s + unat (win (wwin s)) = credited s \<and> granted s \<le> credited s
    \<and> writeWaiters (wwin s) = int (length (waiting s))"
proof -
  from assms have "win_ok s"
  proof (induction rule: win_reachable.induct)
    case reach_init
    show ?case by (simp add: win_ok_def win_new_def)
  next
    case (reach_step s t)
    then show ?case by (blast intro: win_step_ok)
  qed
  then show ?thesis by (simp add: win_ok_def)
qed

theorem window_flow_control_witness:
  "granted \<lparr>wwin = \<lparr>win = 2, writeWaiters = 0, win_closed = False\<rparr>, waiting = [], credited = 5, granted = 3\<rparr> \<le> 5"
proof -
  let ?s0 = "\<lparr>wwin = win_new, waiting = [], credited = 0, granted = 0\<rparr>"
  let ?s1 = "\<lparr>wwin = \<lparr>win = 5, writeWaiters = 0, win_closed = False\<rparr>, waiting = [], credited = 5, granted = 0\<rparr>"
  let ?s2 = "\<lparr>wwin = \<lparr>win = 5, writeWaiters = 1, win_closed = False\<rparr>, waiting = [3], credited = 5, granted = 0\<rparr>"
  let ?s3 = "\<lparr>wwin = \<lparr>win = 2, writeWaiters = 0, win_closed = False\<rparr>, waiting = [], credited = 5, granted = 3\<rparr>"
  have "win_step ?s0 ?s1"
    using step_add [of ?s0 5 "\<lparr>win = 5, writeWaiters = 0, win_closed = False\<rparr>"]
    by (simp add: win_add_def win_new_def)
  moreover have "win_step ?s1 ?s2"
    using step_enter [of ?s1 3] by (simp add: win_reserve_enter_def)
  moreover have "win_step ?s2 ?s3"
    using step_wake [of ?s2 "[]" 3 "[]" 3 None "\<lparr>win = 2, writeWaiters = 0, win_closed = False\<rparr>"]
    by (simp add: win_reserve_try_def)
  ultimately have "win_reachable ?s3"
    by (meson reach_init reach_step)
  from window_flow_control [OF this] show ?thesis by simp
qed

text \<open>
  No writer waits in vain: whenever the window has credit or is closed, every goroutine
  inside \<^verbatim>\<open>reserve\<close> can take its step, gets at least one byte (if it asked for one and the window
  was not empty) and at most what it asked for, and learns of the close as the end of the
  stream.
\<close>

theorem window_waiter_progress:
  assumes "n \<in> set (waiting s)" and "win (wwin s) \<noteq> 0 \<or> win_closed (wwin s)"
  shows "\<exists>n' e w. win_reserve_try (wwin s) n = Some (n', e, w) \<and> n' \<le> n
    \<and> (n \<noteq> 0 \<and> win (wwin s) \<noteq> 0 \<longrightarrow> n' \<noteq> 0) \<and> (e = Some EOF \<longleftrightarrow> win_closed (wwin s))
    \<and> (\<exists>xs ys. waiting s = xs @ n # ys
         \<and> win_step s (s\<lparr>wwin := w, waiting := xs @ ys, granted := granted s + unat n'\<rparr>))"
proof -
  obtain n' e w where t: "win_reserve_try (wwin s) n = Some (n', e, w)"
    using assms(2) by (auto simp: win_reserve_try_def Let_def)
  obtain xs ys where "waiting s = xs @ n # ys" using assms(1) by (auto simp: in_set_conv_decomp)
  then have "win_step s (s\<lparr>wwin := w, waiting := xs @ ys, granted := granted s + unat n'\<rparr>)"
    using t by (rule step_wake)
  moreover have "n \<noteq> 0 \<and> win (wwin s) \<noteq> 0 \<longrightarrow> n' \<noteq> 0" and "e = Some EOF \<longleftrightarrow> win_closed (wwin s)"
    using t by (auto simp: win_reserve_try_def Let_def split: if_splits)
  ultimately show ?thesis
    using t win_reserve_try_unat [OF t] \<open>waiting s = xs @ n # ys\<close> by blast
qed

theorem window_waiter_progress_witness:
  "\<exists>n' e w. win_reserve_try \<lparr>win = 1, writeWaiters = 1, win_closed = False\<rparr> 9 = Some (n', e, w) \<and> n' \<le> 9"
  using window_waiter_progress [of 9
      "\<lparr>wwin = \<lparr>win = 1, writeWaiters = 1, win_closed = False\<rparr>, waiting = [9], credited = 1, granted = 0\<rparr>"]
  by auto

end
