(* ===== verification/Ssh_Channel.thy ===== *)
theory Ssh_Channel
  imports Ssh_Messages Ssh_Buffer Ssh_Window
begin

text \<open>
  The channel of \<^verbatim>\<open>src/golang.org/x/crypto/ssh/channel.go\<close>: its state as a record, its methods as
  functions on the channel and the packet connection below it.

  The connection (\<^verbatim>\<open>mux.conn\<close>, a \<^verbatim>\<open>packetConn\<close>) is seen from above as the list of the packets
  handed to its \<^verbatim>\<open>writePacket\<close> and the answers it is going to give: \<open>answers\<close> is any list of
  errors and successes, and the writes after its end succeed. Go channels are the lists of
  what has been sent and not received; a send to a full or closed one is the outcome
  \<open>Blocks\<close> or \<open>Panics\<close>. A method that takes a lock runs under it as one step.
\<close>

section \<open>State\<close>

record conn =
  sent :: "byte list list"
  answers :: "ssh_error option list"

definition conn_writePacket :: "conn \<Rightarrow> byte list \<Rightarrow> ssh_error option \<times> conn" where
  "conn_writePacket k p =
     (case answers k of
        [] \<Rightarrow> (None, k\<lparr>sent := sent k @ [p]\<rparr>)
      | a # as \<Rightarrow> (a, k\<lparr>sent := sent k @ [p], answers := as\<rparr>))"

datatype channelDirection = channelInbound | channelOutbound

record request =
  req_type :: "byte list"
  req_wantReply :: bool
  req_payload :: "byte list"

record channel =
  chanType :: "byte list"
  extraData :: "byte list"
  localId :: u32
  remoteId :: u32
  maxIncomingPayload :: u32
  maxRemotePayload :: u32
  decided :: bool
  direction :: channelDirection
  msgs :: "message list"
  incomingRequests :: "request list"
  queues_closed :: bool
  sentEOF :: bool
  remoteWin :: window
  pending :: buffer
  extPending :: buffer
  myWindow :: u32
  sentClose :: bool
  packetPool :: "u32 \<Rightarrow> byte list"

definition minPacketLength :: u32 where
  "minPacketLength = 9"

definition channelMaxPacket :: u32 where
  "channelMaxPacket = push_bit 15 1"

definition channelWindowSize :: u32 where
  "channelWindowSize = 64 * channelMaxPacket"

text \<open>The channel \<^verbatim>\<open>mux.newChannel\<close> allocates, before it gets its local id.\<close>

definition newChannel :: "byte list \<Rightarrow> channelDirection \<Rightarrow> byte list \<Rightarrow> channel" where
  "newChannel ct dir extra =
     \<lparr>chanType = ct, extraData = extra, localId = 0, remoteId = 0, maxIncomingPayload = 0,
      maxRemotePayload = 0, decided = False, direction = dir, msgs = [], incomingRequests = [],
      queues_closed = False, sentEOF = False, remoteWin = win_new, pending = newBuffer,
      extPending = newBuffer, myWindow = channelWindowSize, sentClose = False,
      packetPool = (\<lambda>_. [])\<rparr>"

datatype 'a outcome = Done 'a | Blocks | Panics string

section \<open>Sending\<close>

definition chan_writePacket :: "channel \<Rightarrow> conn \<Rightarrow> byte list \<Rightarrow> ssh_error option \<times> channel \<times> conn" where
  "chan_writePacket c k packet =
     (if sentClose c then (Some EOF, c, k)
      else case packet of
        [] \<Rightarrow> (Some (RunTimePanic ''index out of range''), c, k)
      | t # _ \<Rightarrow>
          (case conn_writePacket k packet of (e, k') \<Rightarrow> (e, c\<lparr>sentClose := (t = 97)\<rparr>, k')))"

text \<open>\<^verbatim>\<open>sendMessage\<close> overwrites the recipient field of the marshalled message.\<close>

definition chan_sendMessage :: "channel \<Rightarrow> conn \<Rightarrow> message \<Rightarrow> ssh_error option \<times> channel \<times> conn" where
  "chan_sendMessage c k m =
     (case marshal_msg m of
        None \<Rightarrow> (Some (RunTimePanic ''Marshal''), c, k)
      | Some p \<Rightarrow>
          if length p < 5 then (Some (RunTimePanic ''slice bounds out of range''), c, k)
          else chan_writePacket c k (take 1 p @ putUint32 (remoteId c) @ drop 5 p))"

text \<open>\<^verbatim>\<open>min(a uint32, b int)\<close>: the length is cut to 32 bits.\<close>

definition go_min :: "u32 \<Rightarrow> nat \<Rightarrow> u32" where
  "go_min a b = (if a < word_of_nat b then a else word_of_nat b)"

definition data_packet :: "u32 \<Rightarrow> u32 \<Rightarrow> byte list \<Rightarrow> byte list" where
  "data_packet rid code todo =
     (if code > 0
      then 95 # putUint32 rid @ putUint32 code @ putUint32 (word_of_nat (length todo)) @ todo
      else 94 # putUint32 rid @ putUint32 (word_of_nat (length todo)) @ todo)"

datatype write_result =
  WDone nat "ssh_error option"
| WBlocked nat "byte list"
| WOutOfFuel

text \<open>
  The loop of \<^verbatim>\<open>WriteExtended\<close>: \<open>n\<close> bytes are written, \<open>data\<close> is left, \<open>packet\<close> is the buffer
  used last. \<open>WBlocked\<close> is the wait inside \<^verbatim>\<open>remoteWin.reserve\<close>. Nothing in the loop itself makes it
  end (a slice of 4 GiB reserves a space of zero bytes), so it runs on fuel.
\<close>

fun WriteExtended_loop ::
  "nat \<Rightarrow> u32 \<Rightarrow> channel \<Rightarrow> conn \<Rightarrow> byte list \<Rightarrow> nat \<Rightarrow> byte list \<Rightarrow> write_result \<times> channel \<times> conn" where
  "WriteExtended_loop 0 code c k data n packet = (WOutOfFuel, c, k)"
| "WriteExtended_loop (Suc fuel) code c k data n packet =
     (if data = [] then (WDone n None, c\<lparr>packetPool := (packetPool c)(code := packet)\<rparr>, k)
      else
        (case win_reserve (remoteWin c) (go_min (maxRemotePayload c) (length data)) of
           (Waiting, w) \<Rightarrow> (WBlocked n data, c\<lparr>remoteWin := w\<rparr>, k)
         | (Reserved space (Some e), w) \<Rightarrow> (WDone n (Some e), c\<lparr>remoteWin := w\<rparr>, k)
         | (Reserved space None, w) \<Rightarrow>
             let todo = take (unat space) data;
                 pkt = data_packet (remoteId c) code todo
             in (case chan_writePacket (c\<lparr>remoteWin := w\<rparr>) k pkt of
                   (Some e, c', k') \<Rightarrow> (WDone n (Some e), c', k')
                 | (None, c', k') \<Rightarrow>
                     WriteExtended_loop fuel code c' k' (drop (length todo) data)
                       (n + length todo) pkt)))"

definition WriteExtended ::
  "nat \<Rightarrow> channel \<Rightarrow> conn \<Rightarrow> byte list \<Rightarrow> u32 \<Rightarrow> write_result \<times> channel \<times> conn" where
  "WriteExtended fuel c k data code =
     (if sentEOF c then (WDone 0 (Some EOF), c, k)
      else WriteExtended_loop fuel code c k data 0 (packetPool c code))"

text \<open>A writer that was waiting in \<^verbatim>\<open>reserve\<close> is woken up: it leaves the count of waiters and goes on.\<close>

definition WriteExtended_resume ::
  "nat \<Rightarrow> u32 \<Rightarrow> channel \<Rightarrow> conn \<Rightarrow> byte list \<Rightarrow> nat \<Rightarrow> byte list \<Rightarrow> write_result \<times> channel \<times> conn" where
  "WriteExtended_resume fuel code c k data n packet =
     WriteExtended_loop fuel code
       (c\<lparr>remoteWin := (remoteWin c)\<lparr>writeWaiters := writeWaiters (remoteWin c) - 1\<rparr>\<rparr>) k data n packet"

section \<open>Receiving\<close>

definition handleData :: "channel \<Rightarrow> byte list \<Rightarrow> ssh_error option \<times> channel" where
  "handleData c packet =
     (case packet of
        [] \<Rightarrow> (Some (RunTimePanic ''index out of range''), c)
      | t # _ \<Rightarrow>
          let isExtendedData = (t = 95);
              headerLen = (if isExtendedData then 13 else 9)
          in if length packet < headerLen then (Some (ParseError t), c)
             else
               let extended = (if isExtendedData then getUint32 (drop 5 packet) else 0);
                   len = getUint32 (drop (headerLen - 4) packet)
               in if len = 0 then (None, c)
                  else if len > maxIncomingPayload c
                       then (Some (OtherError ''ssh: incoming packet exceeds maximum payload size''), c)
                  else
                    let data = drop headerLen packet
                    in if len \<noteq> word_of_nat (length data)
                       then (Some (OtherError ''ssh: wrong packet length''), c)
                       else if myWindow c < len
                            then (Some (OtherError ''ssh: remote side wrote too much''), c)
                       else
                         let c1 = c\<lparr>myWindow := myWindow c - len\<rparr>
                         in if extended = 1 then (None, c1\<lparr>extPending := buf_write (extPending c1) data\<rparr>)
                            else if extended > 0 then (None, c1)
                            else (None, c1\<lparr>pending := buf_write (pending c1) data\<rparr>))"

definition adjustWindow :: "channel \<Rightarrow> conn \<Rightarrow> u32 \<Rightarrow> ssh_error option \<times> channel \<times> conn" where
  "adjustWindow c k n =
     chan_sendMessage (c\<lparr>myWindow := myWindow c + n\<rparr>) k (WindowAdjustMsg 0 n)"

datatype chan_read = RBlocked | RDone "byte list" "ssh_error option"

text \<open>After the buffer has been read, the window is opened again by what was taken out.\<close>

definition read_adjust ::
  "channel \<Rightarrow> conn \<Rightarrow> read_result \<Rightarrow> chan_read \<times> channel \<times> conn" where
  "read_adjust c k r =
     (case r of
        Blocked \<Rightarrow> (RBlocked, c, k)
      | Returned d e \<Rightarrow>
          if length d > 0 then
            (case adjustWindow c k (word_of_nat (length d)) of
               (e', c', k') \<Rightarrow> (RDone d (if e' = Some EOF then None else e'), c', k'))
          else (RDone d e, c, k))"

definition ReadExtended :: "channel \<Rightarrow> conn \<Rightarrow> nat \<Rightarrow> u32 \<Rightarrow> chan_read \<times> channel \<times> conn" where
  "ReadExtended c k len extended =
     (if extended = 1 then
        (case buf_Read (extPending c) len of (r, b) \<Rightarrow> read_adjust (c\<lparr>extPending := b\<rparr>) k r)
      else if extended = 0 then
        (case buf_Read (pending c) len of (r, b) \<Rightarrow> read_adjust (c\<lparr>pending := b\<rparr>) k r)
      else (RDone [] (Some (OtherError ''ssh: extended code unimplemented'')), c, k))"

definition chan_close :: "channel \<Rightarrow> channel outcome" where
  "chan_close c =
     (let c1 = c\<lparr>pending := buf_eof (pending c), extPending := buf_eof (extPending c)\<rparr>
      in if queues_closed c then Panics ''close of closed channel''
         else Done (c1\<lparr>queues_closed := True, sentClose := True,
                       remoteWin := win_close (remoteWin c1)\<rparr>))"

definition responseMessageReceived :: "channel \<Rightarrow> ssh_error option \<times> channel" where
  "responseMessageReceived c =
     (if direction c = channelInbound
      then (Some (OtherError ''ssh: channel response message received on inbound channel''), c)
      else if decided c
      then (Some (OtherError ''ssh: duplicate response received for channel''), c)
      else (None, c\<lparr>decided := True\<rparr>))"

text \<open>Sending to \<^verbatim>\<open>c.msg\<close> and \<^verbatim>\<open>c.incomingRequests\<close>, both made with room for 16.\<close>

definition push_msg :: "channel \<Rightarrow> message \<Rightarrow> channel outcome" where
  "push_msg c m =
     (if queues_closed c then Panics ''send on closed channel''
      else if length (msgs c) < 16 then Done (c\<lparr>msgs := msgs c @ [m]\<rparr>) else Blocks)"

definition push_request :: "channel \<Rightarrow> request \<Rightarrow> channel outcome" where
  "push_request c r =
     (if queues_closed c then Panics ''send on closed channel''
      else if length (incomingRequests c) < 16
      then Done (c\<lparr>incomingRequests := incomingRequests c @ [r]\<rparr>) else Blocks)"

record hp_state =
  hp_err :: "ssh_error option"
  hp_chan :: channel
  hp_conn :: conn
  hp_removed :: "u32 list"

fun lift_outcome :: "channel outcome \<Rightarrow> conn \<Rightarrow> u32 list \<Rightarrow> hp_state outcome" where
  "lift_outcome (Done c) k rm = Done \<lparr>hp_err = None, hp_chan = c, hp_conn = k, hp_removed = rm\<rparr>"
| "lift_outcome Blocks k rm = Blocks"
| "lift_outcome (Panics s) k rm = Panics s"

text \<open>
  \<^verbatim>\<open>handlePacket\<close>: the error it returns, the channel and the connection afterwards, and the ids it
  removes from the mux's channel list.
\<close>

definition handlePacket :: "channel \<Rightarrow> conn \<Rightarrow> byte list \<Rightarrow> hp_state outcome" where
  "handlePacket c k packet =
     (let err = (\<lambda>e c. Done \<lparr>hp_err = Some e, hp_chan = c, hp_conn = k, hp_removed = []\<rparr>);
          ok = (\<lambda>c. Done \<lparr>hp_err = None, hp_chan = c, hp_conn = k, hp_removed = []\<rparr>)
      in case packet of
        [] \<Rightarrow> Panics ''index out of range''
      | t # _ \<Rightarrow>
        if t = 94 \<or> t = 95 then
          (case handleData c packet of
             (e, c') \<Rightarrow> Done \<lparr>hp_err = e, hp_chan = c', hp_conn = k, hp_removed = []\<rparr>)
        else if t = 97 then
          (case chan_sendMessage c k (ChannelCloseMsg (remoteId c)) of
             (_, c', k') \<Rightarrow> lift_outcome (chan_close c') k' [localId c])
        else if t = 96 then
          ok (c\<lparr>extPending := buf_eof (extPending c), pending := buf_eof (pending c)\<rparr>)
        else case decode packet of
          Inl e \<Rightarrow> err e c
        | Inr m \<Rightarrow>
          (case m of
             ChannelOpenFailureMsg peersId _ _ _ \<Rightarrow>
               (case responseMessageReceived c of
                  (Some e, c') \<Rightarrow> err e c'
                | (None, c') \<Rightarrow> lift_outcome (push_msg c' m) k [peersId])
           | ChannelOpenConfirmMsg _ myId myWin maxPacketSize _ \<Rightarrow>
               (case responseMessageReceived c of
                  (Some e, c') \<Rightarrow> err e c'
                | (None, c') \<Rightarrow>
                    if maxPacketSize < minPacketLength \<or> maxPacketSize > push_bit 31 1
                    then err (OtherError ''ssh: invalid MaxPacketSize from peer'') c'
                    else lift_outcome
                      (push_msg (c'\<lparr>remoteId := myId, maxRemotePayload := maxPacketSize,
                                    remoteWin := snd (win_add (remoteWin c') myWin)\<rparr>) m) k [])
           | WindowAdjustMsg _ additional \<Rightarrow>
               (case win_add (remoteWin c) additional of
                  (True, w) \<Rightarrow> ok (c\<lparr>remoteWin := w\<rparr>)
                | (False, w) \<Rightarrow> err (OtherError ''ssh: invalid window update'') (c\<lparr>remoteWin := w\<rparr>))
           | ChannelRequestMsg _ rt want rdata \<Rightarrow>
               lift_outcome
                 (push_request c \<lparr>req_type = rt, req_wantReply = want, req_payload = rdata\<rparr>) k []
           | _ \<Rightarrow> lift_outcome (push_msg c m) k []))"

section \<open>The methods of an open channel\<close>

definition chan_Accept :: "channel \<Rightarrow> conn \<Rightarrow> ssh_error option \<times> channel \<times> conn" where
  "chan_Accept c k =
     (if decided c then (Some DecidedAlready, c, k)
      else
        let c1 = c\<lparr>maxIncomingPayload := channelMaxPacket, decided := True\<rparr>
        in chan_sendMessage c1 k
             (ChannelOpenConfirmMsg (remoteId c) (localId c) (myWindow c) channelMaxPacket []))"

definition chan_Reject :: "channel \<Rightarrow> conn \<Rightarrow> u32 \<Rightarrow> byte list \<Rightarrow> ssh_error option \<times> channel \<times> conn" where
  "chan_Reject c k reason message =
     (if decided c then (Some DecidedAlready, c, k)
      else chan_sendMessage (c\<lparr>decided := True\<rparr>) k
             (ChannelOpenFailureMsg (remoteId c) reason message (ascii ''en'')))"

definition chan_Read :: "channel \<Rightarrow> conn \<Rightarrow> nat \<Rightarrow> chan_read \<times> channel \<times> conn" where
  "chan_Read c k len =
     (if \<not> decided c then (RDone [] (Some Undecided), c, k) else ReadExtended c k len 0)"

definition chan_Write :: "nat \<Rightarrow> channel \<Rightarrow> conn \<Rightarrow> byte list \<Rightarrow> write_result \<times> channel \<times> conn" where
  "chan_Write fuel c k data =
     (if \<not> decided c then (WDone 0 (Some Undecided), c, k) else WriteExtended fuel c k data 0)"

definition chan_CloseWrite :: "channel \<Rightarrow> conn \<Rightarrow> ssh_error option \<times> channel \<times> conn" where
  "chan_CloseWrite c k =
     (if \<not> decided c then (Some Undecided, c, k)
      else chan_sendMessage (c\<lparr>sentEOF := True\<rparr>) k (ChannelEOFMsg (remoteId c)))"

definition chan_Close :: "channel \<Rightarrow> conn \<Rightarrow> ssh_error option \<times> channel \<times> conn" where
  "chan_Close c k =
     (if \<not> decided c then (Some Undecided, c, k)
      else chan_sendMessage c k (ChannelCloseMsg (remoteId c)))"

definition chan_SendRequest ::
  "channel \<Rightarrow> conn \<Rightarrow> byte list \<Rightarrow> bool \<Rightarrow> byte list \<Rightarrow> ssh_error option \<times> channel \<times> conn" where
  "chan_SendRequest c k name wantReply payload =
     (if \<not> decided c then (Some Undecided, c, k)
      else chan_sendMessage c k (ChannelRequestMsg (remoteId c) name wantReply payload))"

text \<open>
  The wait of \<^verbatim>\<open>SendRequest\<close> for the reply, when \<^verbatim>\<open>wantReply\<close> is set and the request was sent;
  \<open>None\<close> while nothing has arrived.
\<close>

definition SendRequest_reply :: "channel \<Rightarrow> ((bool \<times> ssh_error option) \<times> channel) option" where
  "SendRequest_reply c =
     (case msgs c of
        [] \<Rightarrow> if queues_closed c then Some ((False, Some EOF), c) else None
      | m # ms \<Rightarrow>
          Some ((case m of
                   ChannelRequestFailureMsg _ \<Rightarrow> (False, None)
                 | ChannelRequestSuccessMsg _ \<Rightarrow> (True, None)
                 | _ \<Rightarrow> (False, Some (OtherError ''ssh: unexpected response to channel request''))),
                c\<lparr>msgs := ms\<rparr>))"

definition chan_ackRequest :: "channel \<Rightarrow> conn \<Rightarrow> bool \<Rightarrow> ssh_error option \<times> channel \<times> conn" where
  "chan_ackRequest c k ok =
     (if \<not> decided c then (Some Undecided, c, k)
      else chan_sendMessage c k
             (if \<not> ok then ChannelRequestFailureMsg (remoteId c)
              else ChannelRequestSuccessMsg (remoteId c)))"

text \<open>Every way the state of a channel changes after the mux has set it up.\<close>

datatype chan_op =
  OpPacket "byte list" | OpRead nat u32 | OpWrite nat "byte list" u32
| OpResume nat u32 "byte list" nat "byte list" | OpAccept | OpReject u32 "byte list" | OpCloseWrite | OpClose
| OpRequest "byte list" bool "byte list" | OpReply | OpTakeRequest | OpAck bool | OpTearDown

fun chan_exec :: "chan_op \<Rightarrow> channel \<Rightarrow> conn \<Rightarrow> (channel \<times> conn) option" where
  "chan_exec (OpPacket p) c k =
     (case handlePacket c k p of Done h \<Rightarrow> Some (hp_chan h, hp_conn h) | _ \<Rightarrow> None)"
| "chan_exec (OpRead len ext) c k = Some (snd (ReadExtended c k len ext))"
| "chan_exec (OpWrite fuel data code) c k = Some (snd (WriteExtended fuel c k data code))"
| "chan_exec (OpResume fuel code data n packet) c k =
     Some (snd (WriteExtended_resume fuel code c k data n packet))"
| "chan_exec OpAccept c k = Some (snd (chan_Accept c k))"
| "chan_exec (OpReject r m) c k = Some (snd (chan_Reject c k r m))"
| "chan_exec OpCloseWrite c k = Some (snd (chan_CloseWrite c k))"
| "chan_exec OpClose c k = Some (snd (chan_Close c k))"
| "chan_exec (OpRequest name want payload) c k = Some (snd (chan_SendRequest c k name want payload))"
| "chan_exec OpReply c k = map_option (\<lambda>(_, c'). (c', k)) (SendRequest_reply c)"
| "chan_exec OpTakeRequest c k = Some (c\<lparr>incomingRequests := tl (incomingRequests c)\<rparr>, k)"
| "chan_exec (OpAck ok) c k = Some (snd (chan_ackRequest c k ok))"
| "chan_exec OpTearDown c k = (case chan_close c of Done c' \<Rightarrow> Some (c', k) | _ \<Rightarrow> None)"

section \<open>Frame properties\<close>

lemma chan_writePacket_frame:
  "chan_writePacket c k p = (e, c', k') \<Longrightarrow> \<exists>b. c' = c\<lparr>sentClose := b\<rparr>"
  by (cases c) (auto simp: chan_writePacket_def split: if_splits list.splits prod.splits)

lemma chan_sendMessage_frame:
  assumes "chan_sendMessage c k m = (e, c', k')"
  obtains b where "c' = c\<lparr>sentClose := b\<rparr>"
proof (cases "e = Some (RunTimePanic ''Marshal'') \<or> e = Some (RunTimePanic ''slice bounds out of range'')")
  case True
  then show ?thesis
    using assms that [of "sentClose c"] that chan_writePacket_frame
    by (cases c) (fastforce simp: chan_sendMessage_def split: option.splits if_splits)
next
  case False
  then show ?thesis
    using assms that chan_writePacket_frame
    by (fastforce simp: chan_sendMessage_def split: option.splits if_splits)
qed

lemma chan_writePacket_silent:
  "sentClose c \<Longrightarrow> chan_writePacket c k p = (Some EOF, c, k)"
  by (simp add: chan_writePacket_def)

lemma chan_sendMessage_silent:
  "sentClose c \<Longrightarrow> snd (chan_sendMessage c k m) = (c, k)"
  by (auto simp: chan_sendMessage_def chan_writePacket_silent split: option.splits)

end
