(* ===== verification/Ssh_Channel_Flow.thy ===== *)
theory Ssh_Channel_Flow
  imports Ssh_Channel
begin

text \<open>
  The properties of a channel: the receive window bounds what is buffered and never
  overflows, a writer cuts its data into packets the peer can take and stays within the
  peer's credit, and a channel falls silent once its close message has been sent.
\<close>

section \<open>The receive window\<close>

definition buffered :: "channel \<Rightarrow> nat" where
  "buffered c = length (buf_contents (pending c)) + length (buf_contents (extPending c))"

definition chan_inv :: "channel \<Rightarrow> bool" where
  "chan_inv c \<longleftrightarrow> buf_inv (pending c) \<and> buf_inv (extPending c)
     \<and> unat (myWindow c) + buffered c \<le> unat channelWindowSize"

lemma unat_channelWindowSize [simp]: "unat channelWindowSize = 2097152"
  by (simp add: channelWindowSize_def channelMaxPacket_def)

lemma chan_inv_sendMessage:
  "chan_sendMessage c k m = (e, c', k') \<Longrightarrow> chan_inv c' = chan_inv c"
  by (erule chan_sendMessage_frame) (simp add: chan_inv_def buffered_def)

lemma chan_inv_snd_sendMessage [simp]:
  "chan_inv (fst (snd (chan_sendMessage c k m))) = chan_inv c"
  by (cases "chan_sendMessage c k m") (auto dest: chan_inv_sendMessage)

lemma chan_inv_take_data:
  assumes "chan_inv c" and "length data < 2 ^ 32"
    and "\<not> myWindow c < word_of_nat (length data)"
  shows "chan_inv (c\<lparr>myWindow := myWindow c - word_of_nat (length data)\<rparr>)"
    and "chan_inv (c\<lparr>myWindow := myWindow c - word_of_nat (length data), extPending := buf_write (extPending c) data\<rparr>)"
    and "chan_inv (c\<lparr>myWindow := myWindow c - word_of_nat (length data), pending := buf_write (pending c) data\<rparr>)"
proof -
  let ?len = "word_of_nat (length data) :: u32"
  have "unat ?len = length data" using assms(2) by (simp add: unat_of_nat)
  moreover have "unat (myWindow c - ?len) = unat (myWindow c) - unat ?len"
    using assms(3) by (simp add: unat_sub not_less)
  moreover have "unat ?len \<le> unat (myWindow c)" using assms(3) by (simp add: word_le_nat_alt not_less)
  ultimately show "chan_inv (c\<lparr>myWindow := myWindow c - ?len\<rparr>)"
    and "chan_inv (c\<lparr>myWindow := myWindow c - ?len, extPending := buf_write (extPending c) data\<rparr>)"
    and "chan_inv (c\<lparr>myWindow := myWindow c - ?len, pending := buf_write (pending c) data\<rparr>)"
    using assms(1) by (auto simp: chan_inv_def buffered_def buf.inv_wr buf.contents_wr)
qed

lemma chan_inv_handleData:
  assumes "chan_inv c" and "length packet < 2 ^ 32"
  shows "chan_inv (snd (handleData c packet))"
proof -
  have len: "length (drop n (tl packet)) < 2 ^ 32" for n using assms(2) by simp
  show ?thesis
    using assms(1) chan_inv_take_data [OF assms(1) len [of 12]] chan_inv_take_data [OF assms(1) len [of 8]]
    by (cases packet) (simp_all add: handleData_def Let_def del: length_drop)
qed

lemma unat_window_add:
  assumes "unat w + n \<le> 2097152"
  shows "unat (w + word_of_nat n :: u32) = unat w + n"
  using assms by (simp add: unat_word_ariths unat_of_nat)

lemma chan_inv_read_adjust:
  assumes "buf_inv (pending c)" and "buf_inv (extPending c)"
    and "unat (myWindow c) + buffered c + length (read_data r) \<le> 2097152"
  shows "chan_inv (fst (snd (read_adjust c k r)))"
proof (cases r)
  case Blocked
  then show ?thesis using assms by (simp add: read_adjust_def chan_inv_def)
next
  case (Returned d e)
  let ?c = "c\<lparr>myWindow := myWindow c + word_of_nat (length d)\<rparr>"
  have "chan_inv ?c"
    using assms Returned unat_window_add [of "myWindow c" "length d"]
    by (simp add: chan_inv_def buffered_def)
  then show ?thesis
    using assms Returned chan_inv_snd_sendMessage [of ?c k "WindowAdjustMsg 0 (word_of_nat (length d))"]
    by (auto simp: read_adjust_def adjustWindow_def chan_inv_def buffered_def split: prod.splits)
qed

lemma chan_inv_ReadExtended:
  assumes "chan_inv c"
  shows "chan_inv (fst (snd (ReadExtended c k len ext)))"
proof -
  have b: "length (read_data (fst (buf_Read b len))) + length (buf_contents (snd (buf_Read b len)))
      = length (buf_contents b)" if "buf_inv b" for b
    using arg_cong [OF buf.read_split [OF that, of len], of length] by simp
  have i: "buf_inv (pending c)" "buf_inv (extPending c)" using assms by (auto simp: chan_inv_def)
  obtain r1 b1 where r1: "buf_Read (extPending c) len = (r1, b1)" by force
  obtain r2 b2 where r2: "buf_Read (pending c) len = (r2, b2)" by force
  have "chan_inv (fst (snd (read_adjust (c\<lparr>extPending := b1\<rparr>) k r1)))"
    using assms i b [OF i(2)] buf.inv_rd [OF i(2), of len] r1
    by (intro chan_inv_read_adjust) (auto simp: chan_inv_def buffered_def)
  moreover have "chan_inv (fst (snd (read_adjust (c\<lparr>pending := b2\<rparr>) k r2)))"
    using assms i b [OF i(1)] buf.inv_rd [OF i(1), of len] r2
    by (intro chan_inv_read_adjust) (auto simp: chan_inv_def buffered_def)
  ultimately show ?thesis using assms r1 r2 by (simp add: ReadExtended_def)
qed

section \<open>Writing\<close>

text \<open>
  What a run of the write loop promises: \<open>chunks\<close> are the pieces of \<open>data\<close> handed to the
  connection, \<open>n\<close> the bytes counted before the run.
\<close>

definition writes_ok ::
  "u32 \<Rightarrow> channel \<Rightarrow> conn \<Rightarrow> byte list \<Rightarrow> nat \<Rightarrow> write_result \<times> channel \<times> conn \<Rightarrow> byte list list \<Rightarrow> bool" where
  "writes_ok code c k data n out chunks =
     (case out of (r, c', k') \<Rightarrow>
        sent k' = sent k @ map (data_packet (remoteId c) code) chunks
      \<and> list_all (\<lambda>ch. ch \<noteq> [] \<and> length ch \<le> unat (maxRemotePayload c)) chunks
      \<and> take (length (concat chunks)) data = concat chunks
      \<and> length (concat chunks) + unat (win (remoteWin c')) \<le> unat (win (remoteWin c))
      \<and> (case r of
           WOutOfFuel \<Rightarrow> False
         | WDone m None \<Rightarrow> m = n + length data \<and> concat chunks = data
         | WDone m (Some e) \<Rightarrow> n \<le> m \<and> m \<le> n + length (concat chunks)
         | WBlocked m rest \<Rightarrow> concat chunks @ rest = data \<and> m = n + length (concat chunks)))"

lemma go_min_bounds:
  assumes "0 < a" and "0 < n" and "n < 2 ^ 32"
  shows "0 < go_min a n" and "go_min a n \<le> a" and "unat (go_min a n) \<le> n"
proof -
  have u: "unat (word_of_nat n :: u32) = n" using assms(3) by (simp add: unat_of_nat)
  then have "(0::u32) < word_of_nat n" using assms(2) by (simp add: word_less_nat_alt)
  with assms(1) show "0 < go_min a n" by (simp add: go_min_def)
  show "go_min a n \<le> a" by (simp add: go_min_def not_less)
  show "unat (go_min a n) \<le> n" using u by (auto simp: go_min_def word_less_nat_alt)
qed

lemma win_reserve_le: "win_reserve w n = (r, w') \<Longrightarrow> unat (win w') \<le> unat (win w)"
  by (auto simp: win_reserve_def win_reserve_enter_def split: option.splits dest: win_reserve_try_unat)

lemma chan_writePacket_sent:
  assumes "chan_writePacket c k p = (e, c', k')" and "p \<noteq> []"
  shows "sent k' = (if sentClose c then sent k else sent k @ [p])" and "sentClose c \<Longrightarrow> e = Some EOF"
  using assms by (auto simp: chan_writePacket_def conn_writePacket_def split: if_splits list.splits prod.splits)

lemma data_packet_not_Nil [simp]: "data_packet rid code todo \<noteq> []"
  by (simp add: data_packet_def)

lemma writes_ok_Cons:
  assumes "writes_ok code c1 k1 (drop (length ch) data) (n + length ch) out chunks"
    and "sent k1 = sent k @ [data_packet (remoteId c) code ch]" and "remoteId c1 = remoteId c"
    and "maxRemotePayload c1 = maxRemotePayload c"
    and "ch \<noteq> []" and "length ch \<le> unat (maxRemotePayload c)" and "take (length ch) data = ch"
    and "length ch + unat (win (remoteWin c1)) \<le> unat (win (remoteWin c))"
  shows "writes_ok code c k data n out (ch # chunks)"
proof -
  have split: "data = ch @ drop (length ch) data" using assms(7) by (metis append_take_drop_id)
  have le: "length ch \<le> length data" using assms(7) by (metis length_take min.cobounded1)
  obtain r c' k' where out: "out = (r, c', k')" by (cases out)
  have "take (length ch + length (concat chunks)) data = ch @ concat chunks"
    using assms(1,7) by (simp add: writes_ok_def out take_add)
  moreover have "ch @ concat chunks = data" if "concat chunks = drop (length ch) data"
    using that split by simp
  moreover have "ch @ concat chunks @ rest = data" if "concat chunks @ rest = drop (length ch) data" for rest
    using that split by simp
  ultimately show ?thesis
    using assms le by (auto simp: writes_ok_def out split: write_result.splits option.splits)
qed

lemma WriteExtended_loop_ok:
  assumes "0 < maxRemotePayload c" and "length data < 2 ^ 32" and "length data < fuel"
  shows "\<exists>chunks. writes_ok code c k data n (WriteExtended_loop fuel code c k data n packet) chunks"
  using assms
proof (induction fuel arbitrary: c k data n packet)
  case (Suc fuel)
  have nil: "writes_ok code c k data n (r, c', k) []"
    if "unat (win (remoteWin c')) \<le> unat (win (remoteWin c))"
      "r = WDone n None \<and> data = [] \<or> (\<exists>e. r = WDone n (Some e)) \<or> r = WBlocked n data" for r c'
    using that by (auto simp: writes_ok_def)
  show ?case
  proof (cases "data = []")
    case True
    then show ?thesis using nil by (intro exI [of _ "[]"]) simp
  next
    case False
    let ?m = "go_min (maxRemotePayload c) (length data)"
    have m: "0 < ?m" "?m \<le> maxRemotePayload c" "unat ?m \<le> length data"
      using go_min_bounds [of "maxRemotePayload c" "length data"] Suc.prems False by auto
    obtain res w where rw: "win_reserve (remoteWin c) ?m = (res, w)" by force
    note le = win_reserve_le [OF rw]
    show ?thesis
    proof (cases "\<exists>space. res = Reserved space None")
      case no: False
      then show ?thesis
        using False rw le nil
        by (intro exI [of _ "[]"]) (auto split: reserve_result.splits option.splits)
    next
      case True
      then obtain space where res: "res = Reserved space None" by blast
      note sp = win_reserve_positive [OF rw [unfolded res] m(1)]
      let ?ch = "take (unat space) data" and ?c0 = "c\<lparr>remoteWin := w\<rparr>"
      let ?pkt = "data_packet (remoteId c) code ?ch"
      have splen: "unat space \<le> unat ?m" "0 < unat space"
        using sp by (auto simp: word_le_nat_alt word_less_nat_alt)
      then have len: "length ?ch = unat space" using m(3) by simp
      obtain e c1 k1 where wp: "chan_writePacket ?c0 k ?pkt = (e, c1, k1)" by (metis prod_cases3)
      from chan_writePacket_frame [OF wp] obtain b where c1: "c1 = ?c0\<lparr>sentClose := b\<rparr>" by blast
      note st = chan_writePacket_sent [OF wp data_packet_not_Nil]
      have cons: "writes_ok code c k data n out (?ch # chunks)"
        if "\<not> sentClose c" "writes_ok code c1 k1 (drop (length ?ch) data) (n + length ?ch) out chunks" for out chunks
        using that(1) st(1) c1 sp splen len m(2) False
        by (intro writes_ok_Cons [OF that(2)]) (auto simp: word_le_nat_alt)
      show ?thesis
      proof (cases e)
        case (Some err)
        have "writes_ok code c k data n (WDone n e, c1, k1) (if sentClose c then [] else [?ch])"
          using st(1) c1 sp splen len m(2) False Some le
          by (auto simp: writes_ok_def word_le_nat_alt)
        then show ?thesis using False rw res wp Some by (auto simp: Let_def)
      next
        case None
        then have nc: "\<not> sentClose c" using st(2) by auto
        have "\<exists>chunks. writes_ok code c1 k1 (drop (length ?ch) data) (n + length ?ch)
            (WriteExtended_loop fuel code c1 k1 (drop (length ?ch) data) (n + length ?ch) ?pkt) chunks"
          using Suc.prems c1 len splen False by (intro Suc.IH) auto
        then obtain chunks where "writes_ok code c1 k1 (drop (length ?ch) data) (n + length ?ch)
            (WriteExtended_loop fuel code c1 k1 (drop (length ?ch) data) (n + length ?ch) ?pkt) chunks" by blast
        from cons [OF nc this] show ?thesis
          using False rw res wp None by (auto simp: Let_def)
      qed
    qed
  qed
qed simp


definition demo_channel :: channel where
  "demo_channel = (newChannel (ascii ''session'') channelOutbound [])
     \<lparr>localId := 1, remoteId := 7, maxRemotePayload := 2, decided := True,
      maxIncomingPayload := channelMaxPacket, remoteWin := win_new\<lparr>win := 5\<rparr>\<rparr>"


section \<open>Every operation\<close>

lemma WriteExtended_loop_receive_side:
  "WriteExtended_loop fuel code c k data n packet = (r, c', k') \<Longrightarrow>
     pending c' = pending c \<and> extPending c' = extPending c \<and> myWindow c' = myWindow c"
proof (induction fuel arbitrary: c k data n packet)
  case (Suc fuel)
  have wp: "pending c1 = pending c \<and> extPending c1 = extPending c \<and> myWindow c1 = myWindow c"
    if "chan_writePacket (c\<lparr>remoteWin := w\<rparr>) k p = (e, c1, k1)" for w p e c1 k1
    using chan_writePacket_frame [OF that] by auto
  from Suc.prems show ?case
    by (auto simp: Let_def split: if_splits prod.splits reserve_result.splits option.splits
        dest!: wp Suc.IH)
qed simp

lemma chan_inv_update [simp]:
  "chan_inv (c\<lparr>maxIncomingPayload := a\<rparr>) = chan_inv c" "chan_inv (c\<lparr>decided := b\<rparr>) = chan_inv c"
  "chan_inv (c\<lparr>sentEOF := b\<rparr>) = chan_inv c" "chan_inv (c\<lparr>remoteWin := w\<rparr>) = chan_inv c"
  "chan_inv (c\<lparr>msgs := ms\<rparr>) = chan_inv c" "chan_inv (c\<lparr>incomingRequests := rs\<rparr>) = chan_inv c"
  "chan_inv (c\<lparr>remoteId := i\<rparr>) = chan_inv c" "chan_inv (c\<lparr>maxRemotePayload := a\<rparr>) = chan_inv c"
  "chan_inv (c\<lparr>localId := i\<rparr>) = chan_inv c" "chan_inv (c\<lparr>sentClose := b\<rparr>) = chan_inv c"
  "chan_inv (c\<lparr>queues_closed := b\<rparr>) = chan_inv c"
  by (simp_all add: chan_inv_def buffered_def)

lemma chan_inv_loop:
  "chan_inv (fst (snd (WriteExtended_loop fuel code c k data n packet))) = chan_inv c"
  by (cases "WriteExtended_loop fuel code c k data n packet")
    (auto dest!: WriteExtended_loop_receive_side simp: chan_inv_def buffered_def)

lemma chan_inv_WriteExtended:
  "chan_inv c \<Longrightarrow> chan_inv (fst (snd (WriteExtended fuel c k data code)))"
  by (simp add: WriteExtended_def chan_inv_loop)

lemma chan_inv_WriteExtended_resume:
  "chan_inv c \<Longrightarrow> chan_inv (fst (snd (WriteExtended_resume fuel code c k data n packet)))"
  by (simp add: WriteExtended_resume_def chan_inv_loop)

lemma chan_inv_eof:
  "chan_inv c \<Longrightarrow> chan_inv (c\<lparr>pending := buf_eof (pending c), extPending := buf_eof (extPending c)\<rparr>)"
  "chan_inv c \<Longrightarrow> chan_inv (c\<lparr>extPending := buf_eof (extPending c), pending := buf_eof (pending c)\<rparr>)"
  by (simp_all add: chan_inv_def buffered_def buf.inv_ef buf.contents_ef)

lemma chan_inv_close: "chan_close c = Done c' \<Longrightarrow> chan_inv c \<Longrightarrow> chan_inv c'"
  using chan_inv_eof(1) [of c] by (auto simp: chan_close_def Let_def split: if_splits)

lemma chan_inv_push:
  "push_msg c m = Done c' \<Longrightarrow> chan_inv c' = chan_inv c"
  "push_request c r = Done c' \<Longrightarrow> chan_inv c' = chan_inv c"
  by (auto simp: push_msg_def push_request_def split: if_splits)

lemma chan_inv_response: "responseMessageReceived c = (e, c') \<Longrightarrow> chan_inv c' = chan_inv c"
  by (auto simp: responseMessageReceived_def split: if_splits)

lemma lift_outcome_Done:
  "lift_outcome x k rm = Done h \<longleftrightarrow>
     (\<exists>c. x = Done c \<and> h = \<lparr>hp_err = None, hp_chan = c, hp_conn = k, hp_removed = rm\<rparr>)"
  by (cases x) auto

lemma chan_inv_handlePacket:
  assumes "handlePacket c k p = Done h" and "chan_inv c" and "length p < 2 ^ 32"
  shows "chan_inv (hp_chan h)"
  using assms chan_inv_handleData [OF assms(2,3)] chan_inv_eof(2) [OF assms(2)]
  by (auto simp: handlePacket_def Let_def lift_outcome_Done chan_inv_push chan_inv_sendMessage
      split: list.splits if_splits prod.splits sum.splits message.splits option.splits bool.splits
      dest: chan_inv_close chan_inv_response)

lemma chan_inv_exec:
  assumes "chan_exec op c k = Some (c', k')" and "chan_inv c"
    and "\<And>p. op = OpPacket p \<Longrightarrow> length p < 2 ^ 32"
  shows "chan_inv c'"
proof (cases op)
  case (OpPacket p)
  then show ?thesis
    using assms chan_inv_handlePacket by (auto split: outcome.splits)
next
  case (OpRead len ext)
  then show ?thesis using assms(1) chan_inv_ReadExtended [OF assms(2), of k len ext] by simp
next
  case (OpWrite fuel data code)
  then show ?thesis using assms(1) chan_inv_WriteExtended [OF assms(2), of fuel k data code] by simp
next
  case (OpResume fuel code data n packet)
  then show ?thesis
    using assms(1) chan_inv_WriteExtended_resume [OF assms(2), of fuel code k data n packet] by simp
next
  case OpTearDown
  then show ?thesis using assms chan_inv_close by (auto split: outcome.splits)
next
  case OpReply
  then show ?thesis using assms by (auto simp: SendRequest_reply_def split: list.splits if_splits)
qed (use assms in \<open>auto simp: chan_Accept_def chan_Reject_def chan_CloseWrite_def chan_Close_def
      chan_SendRequest_def chan_ackRequest_def Let_def split: if_splits dest!: arg_cong [of _ _ fst]\<close>)

text \<open>
  The states of a channel: the mux sets it up for an incoming \<^verbatim>\<open>open\<close> message or for one it sends,
  and then the methods run in any order; other channels use the connection in between.
\<close>

inductive chan_reachable :: "channel \<Rightarrow> conn \<Rightarrow> bool" where
  inbound: "chan_reachable ((newChannel ct channelInbound extra)\<lparr>localId := l, remoteId := r,
      maxRemotePayload := m, remoteWin := snd (win_add win_new w)\<rparr>) k"
| outbound: "chan_reachable ((newChannel ct channelOutbound extra)\<lparr>localId := l,
      maxIncomingPayload := channelMaxPacket\<rparr>) k"
| operation: "chan_reachable c k \<Longrightarrow> chan_exec op c k = Some (c', k') \<Longrightarrow>
      (\<And>p. op = OpPacket p \<Longrightarrow> length p < 2 ^ 32) \<Longrightarrow> chan_reachable c' k'"
| others: "chan_reachable c k \<Longrightarrow> chan_reachable c k'"

lemma chan_reachable_inv: "chan_reachable c k \<Longrightarrow> chan_inv c"
proof (induction rule: chan_reachable.induct)
  case (operation c k op c' k')
  then show ?case using chan_inv_exec by blast
qed (simp_all add: newChannel_def chan_inv_def buffered_def buf.inv_empty buf.contents_empty)

text \<open>
  C21. The receive window holds in every state a channel can reach: the credit the peer still has
  and the bytes waiting to be read stay within the two megabytes granted at the start, so a
  peer can never make the channel buffer more than that. For the same reason the addition in
  \<^verbatim>\<open>adjustWindow\<close> does not overflow for any amount that can have been read, which is what the
  comment there relies on.
\<close>

theorem receive_window_bound:
  assumes "chan_reachable c k"
  shows "unat (myWindow c) + buffered c \<le> 64 * 2 ^ 15
    \<and> (n \<le> buffered c \<longrightarrow> unat (myWindow c + word_of_nat n) = unat (myWindow c) + n)"
  using chan_reachable_inv [OF assms] unat_window_add [of "myWindow c" n] by (auto simp: chan_inv_def)

definition demo_inbound :: channel where
  "demo_inbound = (newChannel [] channelInbound [])\<lparr>localId := 0, remoteId := 1,
      maxRemotePayload := 32, remoteWin := snd (win_add win_new 100)\<rparr>"

theorem receive_window_bound_witness:
  "unat (myWindow demo_inbound) + buffered demo_inbound \<le> 64 * 2 ^ 15
   \<and> unat (myWindow demo_inbound + word_of_nat 0) = unat (myWindow demo_inbound) + 0"
  using receive_window_bound [where n = 0, OF chan_reachable.inbound [where ct = "[]" and extra = "[]" and l = 0 and r = 1
      and m = 32 and w = 100 and k = "\<lparr>sent = [], answers = []\<rparr>"]]
  unfolding demo_inbound_def by simp

section \<open>Silence after close\<close>

lemma WriteExtended_loop_silent:
  "sentClose c \<Longrightarrow> WriteExtended_loop fuel code c k data n packet = (r, c', k') \<Longrightarrow>
     sentClose c' \<and> k' = k"
  by (cases fuel)
    (auto simp: Let_def chan_writePacket_silent split: if_splits prod.splits reserve_result.splits option.splits)

lemma adjustWindow_silent:
  "sentClose c \<Longrightarrow> adjustWindow c k n = (e, c', k') \<Longrightarrow> sentClose c' \<and> k' = k"
  using chan_sendMessage_silent [of "c\<lparr>myWindow := myWindow c + n\<rparr>" k "WindowAdjustMsg 0 n"]
  by (auto simp: adjustWindow_def)

lemma read_adjust_silent:
  "sentClose c \<Longrightarrow> read_adjust c k r = (x, c', k') \<Longrightarrow> sentClose c' \<and> k' = k"
  by (auto simp: read_adjust_def split: read_result.splits if_splits prod.splits dest: adjustWindow_silent)

lemma ReadExtended_silent:
  "sentClose c \<Longrightarrow> ReadExtended c k len ext = (x, c', k') \<Longrightarrow> sentClose c' \<and> k' = k"
  by (auto simp: ReadExtended_def split: if_splits prod.splits dest: read_adjust_silent [rotated])

lemma handlePacket_silent:
  "sentClose c \<Longrightarrow> handlePacket c k p = Done h \<Longrightarrow> sentClose (hp_chan h) \<and> hp_conn h = k"
  using chan_sendMessage_silent [of c k "ChannelCloseMsg (remoteId c)"]
  by (auto simp: handlePacket_def Let_def lift_outcome_Done push_msg_def push_request_def chan_close_def
      handleData_def responseMessageReceived_def
      split: list.splits if_splits prod.splits sum.splits message.splits option.splits bool.splits)

text \<open>
  C25. Once a channel has sent its close message (or has been torn down), it is silent: whatever
  packet arrives and whatever method is called, in any state, nothing is handed to the
  connection any more and the channel stays closed, as the protocol demands.
\<close>

theorem silent_after_close:
  assumes "sentClose c" and "chan_exec op c k = Some (c', k')"
  shows "sentClose c' \<and> k' = k"
proof (cases op)
  case (OpPacket p)
  then show ?thesis using assms handlePacket_silent by (auto split: outcome.splits)
next
  case (OpRead len ext)
  then show ?thesis
    using assms by (cases "ReadExtended c k len ext") (auto dest: ReadExtended_silent)
next
  case (OpWrite fuel data code)
  then show ?thesis
    using assms by (cases "WriteExtended_loop fuel code c k data 0 (packetPool c code)")
      (auto simp: WriteExtended_def split: if_splits dest: WriteExtended_loop_silent)
next
  case (OpResume fuel code data n packet)
  then show ?thesis
    using assms by (cases "WriteExtended_resume fuel code c k data n packet")
      (auto simp: WriteExtended_resume_def dest: WriteExtended_loop_silent [rotated])
next
  case OpTearDown
  then show ?thesis using assms by (auto simp: chan_close_def Let_def split: outcome.splits if_splits)
next
  case OpReply
  then show ?thesis using assms by (auto simp: SendRequest_reply_def split: list.splits if_splits)
qed (use assms in \<open>auto simp: chan_Accept_def chan_Reject_def chan_CloseWrite_def chan_Close_def
      chan_SendRequest_def chan_ackRequest_def chan_sendMessage_silent Let_def split: if_splits\<close>)

theorem silent_after_close_witness:
  "snd (the (chan_exec (OpAck True) (demo_channel\<lparr>sentClose := True\<rparr>) \<lparr>sent = [], answers = []\<rparr>))
     = \<lparr>sent = [], answers = []\<rparr>"
  using silent_after_close [of "demo_channel\<lparr>sentClose := True\<rparr>" "OpAck True" "\<lparr>sent = [], answers = []\<rparr>"]
  by (cases "chan_ackRequest (demo_channel\<lparr>sentClose := True\<rparr>) \<lparr>sent = [], answers = []\<rparr> True") simp

end
