(* ===== verification/Ssh_Mux.thy ===== *)
theory Ssh_Mux
  imports Ssh_Channel_Flow
begin

text \<open>
  The multiplexer of \<^verbatim>\<open>src/golang.org/x/crypto/ssh/mux.go\<close>. Channels are objects: the mux keeps
  pointers to them in its channel list, and a caller that opened one holds a pointer too. So the
  channels live in a store (\<open>heap\<close>, an address is an index) and the channel list is a list of
  optional addresses, nil being \<open>None\<close>. One round of \<^verbatim>\<open>loop\<close> is \<open>onePacket\<close>; a send to one of the
  mux's Go channels that has no room is the outcome \<open>Blocks\<close>.
\<close>

section \<open>The channel list\<close>

record 'a chanList =
  chans :: "'a option list"
  offset :: u32

fun first_free :: "'a option list \<Rightarrow> nat option" where
  "first_free [] = None"
| "first_free (None # _) = Some 0"
| "first_free (Some _ # xs) = map_option Suc (first_free xs)"

definition cl_add :: "'a chanList \<Rightarrow> 'a \<Rightarrow> u32 \<times> 'a chanList" where
  "cl_add c ch =
     (case first_free (chans c) of
        Some i \<Rightarrow> (word_of_nat i + offset c, c\<lparr>chans := (chans c)[i := Some ch]\<rparr>)
      | None \<Rightarrow> (word_of_nat (length (chans c)) + offset c, c\<lparr>chans := chans c @ [Some ch]\<rparr>))"

definition cl_getChan :: "'a chanList \<Rightarrow> u32 \<Rightarrow> 'a option" where
  "cl_getChan c id0 =
     (let i = id0 - offset c
      in if i < word_of_nat (length (chans c)) then chans c ! unat i else None)"

definition cl_remove :: "'a chanList \<Rightarrow> u32 \<Rightarrow> 'a chanList" where
  "cl_remove c id0 =
     (let i = id0 - offset c
      in if i < word_of_nat (length (chans c)) then c\<lparr>chans := (chans c)[unat i := None]\<rparr> else c)"

definition cl_dropAll :: "'a chanList \<Rightarrow> 'a list \<times> 'a chanList" where
  "cl_dropAll c = (List.map_filter id (chans c), c\<lparr>chans := []\<rparr>)"

text \<open>The contract of an id table: what its clients may rely on.\<close>

locale id_table =
  fixes inv :: "'t \<Rightarrow> bool"
    and room :: "'t \<Rightarrow> bool"
    and lookup :: "'t \<Rightarrow> u32 \<Rightarrow> 'a option"
    and add :: "'t \<Rightarrow> 'a \<Rightarrow> u32 \<times> 't"
    and remove :: "'t \<Rightarrow> u32 \<Rightarrow> 't"
    and drop_all :: "'t \<Rightarrow> 'a list \<times> 't"
  assumes inv_add: "inv t \<Longrightarrow> room t \<Longrightarrow> inv (snd (add t x))"
    and add_fresh: "inv t \<Longrightarrow> room t \<Longrightarrow> lookup t (fst (add t x)) = None"
    and lookup_add: "inv t \<Longrightarrow> room t \<Longrightarrow> lookup (snd (add t x)) = (lookup t)(fst (add t x) \<mapsto> x)"
    and inv_remove: "inv t \<Longrightarrow> inv (remove t i)"
    and lookup_remove: "inv t \<Longrightarrow> lookup (remove t i) = (lookup t)(i := None)"
    and lookup_drop_all: "inv t \<Longrightarrow> lookup (snd (drop_all t)) = Map.empty"
    and set_drop_all: "inv t \<Longrightarrow> set (fst (drop_all t)) = ran (lookup t)"
begin

lemma add_keeps:
  assumes "inv t" "room t" "lookup t i = Some y"
  shows "lookup (snd (add t x)) i = Some y" and "fst (add t x) \<noteq> i"
  using assms add_fresh [of t x] by (auto simp: lookup_add)

lemma add_remove_id:
  assumes "inv t" "room t"
  shows "lookup (remove (snd (add t x)) (fst (add t x))) = lookup t"
  using assms add_fresh [of t x] by (auto simp: lookup_add inv_add lookup_remove fun_eq_iff)

lemma add_ran:
  assumes "inv t" "room t"
  shows "ran (lookup (snd (add t x))) = insert x (ran (lookup t))"
  using assms add_fresh [of t x] by (simp add: lookup_add)

end

definition cl_inv :: "'a chanList \<Rightarrow> bool" where
  "cl_inv c \<longleftrightarrow> length (chans c) < 2 ^ 32"

definition cl_room :: "'a chanList \<Rightarrow> bool" where
  "cl_room c \<longleftrightarrow> length (chans c) + 1 < 2 ^ 32"

text \<open>The table as a map from indices, and how ids and indices correspond.\<close>

definition slot :: "'a chanList \<Rightarrow> nat \<Rightarrow> 'a option" where
  "slot c i = (if i < length (chans c) then chans c ! i else None)"

lemma cl_getChan_slot: "cl_inv c \<Longrightarrow> cl_getChan c id0 = slot c (unat (id0 - offset c))"
  by (simp add: cl_getChan_def slot_def cl_inv_def Let_def word_less_nat_alt unat_of_nat)

lemma first_free_Some:
  "first_free xs = Some i \<Longrightarrow> i < length xs \<and> xs ! i = None"
  by (induction xs arbitrary: i rule: first_free.induct) auto

lemma unat_diff_inj [simp]: "unat (x - off :: u32) = unat (y - off) \<longleftrightarrow> x = y"
  using unsigned_word_eqI [of "x - off" "y - off", where ?'a = nat] by auto

lemma cl_add_slot:
  assumes "cl_inv c" "cl_room c" "cl_add c x = (i, c')"
  shows "offset c' = offset c \<and> cl_inv c' \<and> slot c (unat (i - offset c)) = None
    \<and> slot c' = (slot c)(unat (i - offset c) \<mapsto> x)"
proof (cases "first_free (chans c)")
  case None
  have "length (chans c) < 2 ^ 32" using assms(1) by (simp add: cl_inv_def)
  then have "unat (i - offset c) = length (chans c)"
    using assms(3) None by (auto simp: cl_add_def unat_of_nat)
  then show ?thesis
    using assms None by (auto simp: cl_add_def slot_def cl_inv_def cl_room_def fun_eq_iff nth_append)
next
  case (Some j)
  note j = first_free_Some [OF Some]
  then have "j < 2 ^ 32" using assms(1) by (simp add: cl_inv_def)
  then have "unat (i - offset c) = j" using assms(3) Some by (auto simp: cl_add_def unat_of_nat)
  then show ?thesis
    using assms Some j by (auto simp: cl_add_def slot_def cl_inv_def fun_eq_iff nth_list_update)
qed

lemma cl_remove_slot:
  assumes "cl_inv c"
  shows "offset (cl_remove c i) = offset c \<and> cl_inv (cl_remove c i)
    \<and> slot (cl_remove c i) = (slot c)(unat (i - offset c) := None)"
  using assms
  by (auto simp: cl_remove_def slot_def cl_inv_def Let_def word_less_nat_alt unat_of_nat
      fun_eq_iff nth_list_update)

interpretation clist: id_table cl_inv cl_room cl_getChan cl_add cl_remove cl_dropAll
proof
  fix t :: "'a chanList" and x i
  assume i: "cl_inv t"
  show "cl_inv (cl_remove t i)" using cl_remove_slot [OF i] by blast
  show "cl_getChan (cl_remove t i) = (cl_getChan t)(i := None)"
    using cl_remove_slot [OF i, of i] i by (auto simp: fun_eq_iff cl_getChan_slot)
  show "cl_getChan (snd (cl_dropAll t)) = Map.empty"
    by (simp add: cl_dropAll_def cl_getChan_def fun_eq_iff)
  assume r: "cl_room t"
  obtain j t' where a: "cl_add t x = (j, t')" by force
  note s = cl_add_slot [OF i r a]
  show "cl_inv (snd (cl_add t x))" using s a by simp
  show "cl_getChan t (fst (cl_add t x)) = None" using s a i by (simp add: cl_getChan_slot)
  show "cl_getChan (snd (cl_add t x)) = (cl_getChan t)(fst (cl_add t x) \<mapsto> x)"
    using s a i by (auto simp: fun_eq_iff cl_getChan_slot)
next
  fix t :: "'a chanList"
  assume i: "cl_inv t"
  show "set (fst (cl_dropAll t)) = ran (cl_getChan t)"
  proof (intro equalityI subsetI)
    fix x assume "x \<in> set (fst (cl_dropAll t))"
    then have "Some x \<in> set (chans t)"
      by (auto simp: cl_dropAll_def List.map_filter_def)
    then obtain k where k: "k < length (chans t)" "chans t ! k = Some x" by (auto simp: in_set_conv_nth)
    then have "k < 2 ^ 32" using i by (simp add: cl_inv_def)
    then have "unat ((word_of_nat k + offset t) - offset t) = k" by (simp add: unat_of_nat)
    then have "cl_getChan t (word_of_nat k + offset t) = Some x"
      using k i by (simp add: cl_getChan_slot slot_def)
    then show "x \<in> ran (cl_getChan t)" by (auto simp: ran_def)
  next
    fix x assume "x \<in> ran (cl_getChan t)"
    then obtain j where "slot t j = Some x" using i by (auto simp: ran_def cl_getChan_slot)
    then have "Some x \<in> set (chans t)" by (auto simp: slot_def split: if_splits dest: nth_mem)
    then show "x \<in> set (fst (cl_dropAll t))" by (force simp: cl_dropAll_def List.map_filter_def)
  qed
qed

section \<open>The mux\<close>

record mux =
  mconn :: conn
  chanlist :: "nat chanList"
  heap :: "channel list"
  incomingChannels :: "nat list"
  globalResponses :: "message list"
  mux_requests :: "request list"
  chans_closed :: bool
  conn_closed :: bool
  mux_err :: "ssh_error option"

definition newMux :: "conn \<Rightarrow> mux" where
  "newMux p =
     \<lparr>mconn = p, chanlist = \<lparr>chans = [], offset = 0\<rparr>, heap = [], incomingChannels = [],
      globalResponses = [], mux_requests = [], chans_closed = False, conn_closed = False,
      mux_err = None\<rparr>"

text \<open>\<^verbatim>\<open>newChannel\<close> allocates the channel and enters it into the channel list.\<close>

definition mux_newChannel :: "mux \<Rightarrow> byte list \<Rightarrow> channelDirection \<Rightarrow> byte list \<Rightarrow> nat \<times> mux" where
  "mux_newChannel m ct dir extra =
     (let a = length (heap m)
      in case cl_add (chanlist m) a of
           (i, cl) \<Rightarrow> (a, m\<lparr>heap := heap m @ [(newChannel ct dir extra)\<lparr>localId := i\<rparr>], chanlist := cl\<rparr>))"

definition mux_sendMessage :: "mux \<Rightarrow> message \<Rightarrow> ssh_error option \<times> mux" where
  "mux_sendMessage m msg =
     (case marshal_msg msg of
        None \<Rightarrow> (Some (RunTimePanic ''Marshal''), m)
      | Some p \<Rightarrow> (case conn_writePacket (mconn m) p of (e, k) \<Rightarrow> (e, m\<lparr>mconn := k\<rparr>)))"

text \<open>\<^verbatim>\<open>SendRequest\<close> up to its wait, and the wait: \<open>None\<close> while no response has arrived.\<close>

definition mux_SendRequest :: "mux \<Rightarrow> byte list \<Rightarrow> bool \<Rightarrow> byte list \<Rightarrow> ssh_error option \<times> mux" where
  "mux_SendRequest m name wantReply payload = mux_sendMessage m (GlobalRequestMsg name wantReply payload)"

definition mux_SendRequest_reply :: "mux \<Rightarrow> ((bool \<times> byte list \<times> ssh_error option) \<times> mux) option" where
  "mux_SendRequest_reply m =
     (case globalResponses m of
        [] \<Rightarrow> if chans_closed m then Some ((False, [], Some EOF), m) else None
      | r # rs \<Rightarrow>
          Some ((case r of
                   GlobalRequestFailureMsg d \<Rightarrow> (False, d, None)
                 | GlobalRequestSuccessMsg d \<Rightarrow> (True, d, None)
                 | _ \<Rightarrow> (False, [], Some (OtherError ''ssh: unexpected response to request''))),
                m\<lparr>globalResponses := rs\<rparr>))"

definition mux_ackRequest :: "mux \<Rightarrow> bool \<Rightarrow> byte list \<Rightarrow> ssh_error option \<times> mux" where
  "mux_ackRequest m ok data =
     mux_sendMessage m (if ok then GlobalRequestSuccessMsg data else GlobalRequestFailureMsg data)"

definition mux_Disconnect :: "mux \<Rightarrow> u32 \<Rightarrow> byte list \<Rightarrow> ssh_error option \<times> mux" where
  "mux_Disconnect m reason message = mux_sendMessage m (DisconnectMsg reason message [])"

definition handleDisconnect :: "byte list \<Rightarrow> ssh_error" where
  "handleDisconnect packet =
     (case unmarshal_msg packet N_disconnectMsg of
        Inl e \<Rightarrow> e
      | Inr m \<Rightarrow> (case m of DisconnectMsg reason message _ \<Rightarrow> Disconnected reason message
                 | _ \<Rightarrow> OtherError ''unreachable''))"

definition handleGlobalPacket :: "mux \<Rightarrow> byte list \<Rightarrow> (ssh_error option \<times> mux) outcome" where
  "handleGlobalPacket m packet =
     (case decode packet of
        Inl e \<Rightarrow> Done (Some e, m)
      | Inr msg \<Rightarrow>
          (let respond = (if chans_closed m then Panics ''send on closed channel''
                          else if globalResponses m = []
                          then Done (None, m\<lparr>globalResponses := [msg]\<rparr>) else Blocks)
           in case msg of
             GlobalRequestMsg t want d \<Rightarrow>
               if chans_closed m then Panics ''send on closed channel''
               else if length (mux_requests m) < 16
               then Done (None, m\<lparr>mux_requests := mux_requests m @
                      [\<lparr>req_type = t, req_wantReply = want, req_payload = d\<rparr>]\<rparr>)
               else Blocks
           | GlobalRequestSuccessMsg d \<Rightarrow> respond
           | GlobalRequestFailureMsg d \<Rightarrow> respond
           | _ \<Rightarrow> Panics ''not a global message''))"

definition ConnectionFailed :: u32 where
  "ConnectionFailed = 2"

definition handleChannelOpen :: "mux \<Rightarrow> byte list \<Rightarrow> (ssh_error option \<times> mux) outcome" where
  "handleChannelOpen m packet =
     (case unmarshal_msg packet N_channelOpenMsg of
        Inl e \<Rightarrow> Done (Some e, m)
      | Inr msg \<Rightarrow>
          (case msg of
             ChannelOpenMsg ct peersId peersWindow maxPacketSize extra \<Rightarrow>
               if maxPacketSize < minPacketLength \<or> maxPacketSize > push_bit 31 1
               then Done (mux_sendMessage m (ChannelOpenFailureMsg peersId ConnectionFailed
                            (ascii ''invalid request'') (ascii ''en_US.UTF-8'')))
               else
                 (case mux_newChannel m ct channelInbound extra of
                    (a, m1) \<Rightarrow>
                      let c = (heap m1 ! a);
                          c' = c\<lparr>remoteId := peersId, maxRemotePayload := maxPacketSize,
                                remoteWin := snd (win_add (remoteWin c) peersWindow)\<rparr>;
                          m2 = m1\<lparr>heap := (heap m1)[a := c']\<rparr>
                      in if chans_closed m then Panics ''send on closed channel''
                         else if length (incomingChannels m) < 16
                         then Done (None, m2\<lparr>incomingChannels := incomingChannels m2 @ [a]\<rparr>)
                         else Blocks)
           | _ \<Rightarrow> Panics ''unreachable''))"

text \<open>A channel packet: the channel's handler runs on its cell of the store.\<close>

definition handleChannelPacket :: "mux \<Rightarrow> byte list \<Rightarrow> (ssh_error option \<times> mux) outcome" where
  "handleChannelPacket m packet =
     (if length packet < 5 then Done (Some (ParseError (packet ! 0)), m)
      else
        (case cl_getChan (chanlist m) (getUint32 (drop 1 packet)) of
           None \<Rightarrow> Done (Some (OtherError ''ssh: invalid channel''), m)
         | Some a \<Rightarrow>
             (case handlePacket (heap m ! a) (mconn m) packet of
                Blocks \<Rightarrow> Blocks
              | Panics s \<Rightarrow> Panics s
              | Done h \<Rightarrow>
                  Done (hp_err h,
                        m\<lparr>heap := (heap m)[a := hp_chan h], mconn := hp_conn h,
                          chanlist := fold (\<lambda>i cl. cl_remove cl i) (hp_removed h) (chanlist m)\<rparr>))))"

text \<open>What \<^verbatim>\<open>onePacket\<close> does with the packet it has read.\<close>

definition onePacket :: "mux \<Rightarrow> byte list \<Rightarrow> (ssh_error option \<times> mux) outcome" where
  "onePacket m packet =
     (case packet of
        [] \<Rightarrow> Panics ''index out of range''
      | t # _ \<Rightarrow>
          if t = 21 then Done (None, m)
          else if t = 1 then Done (Some (handleDisconnect packet), m)
          else if t = 90 then handleChannelOpen m packet
          else if t = 80 \<or> t = 81 \<or> t = 82 then handleGlobalPacket m packet
          else handleChannelPacket m packet)"

fun close_all :: "nat list \<Rightarrow> channel list \<Rightarrow> channel list outcome" where
  "close_all [] hp = Done hp"
| "close_all (a # as) hp =
     (case chan_close (hp ! a) of
        Done c \<Rightarrow> close_all as (hp[a := c]) | Blocks \<Rightarrow> Blocks | Panics s \<Rightarrow> Panics s)"

text \<open>The end of \<^verbatim>\<open>loop\<close>, once a round has returned an error.\<close>

definition loop_exit :: "mux \<Rightarrow> ssh_error \<Rightarrow> mux outcome" where
  "loop_exit m e =
     (case cl_dropAll (chanlist m) of
        (as, cl) \<Rightarrow>
          (case close_all as (heap m) of
             Blocks \<Rightarrow> Blocks
           | Panics s \<Rightarrow> Panics s
           | Done hp \<Rightarrow>
               if chans_closed m then Panics ''close of closed channel''
               else Done (m\<lparr>chanlist := cl, heap := hp, chans_closed := True, conn_closed := True,
                            mux_err := Some e\<rparr>)))"

text \<open>
  The loop on the results of the next reads of the connection. After the last of them it is
  waiting in \<^verbatim>\<open>readPacket\<close>.
\<close>

fun mux_loop :: "mux \<Rightarrow> (ssh_error + byte list) list \<Rightarrow> mux outcome" where
  "mux_loop m [] = Done m"
| "mux_loop m (Inl e # rs) = loop_exit m e"
| "mux_loop m (Inr p # rs) =
     (case onePacket m p of
        Blocks \<Rightarrow> Blocks
      | Panics s \<Rightarrow> Panics s
      | Done (None, m') \<Rightarrow> mux_loop m' rs
      | Done (Some e, m') \<Rightarrow> loop_exit m' e)"

text \<open>\<^verbatim>\<open>openChannel\<close> up to its wait for the answer, and what it makes of the answer.\<close>

definition openChannel :: "mux \<Rightarrow> byte list \<Rightarrow> byte list \<Rightarrow> ssh_error option \<times> nat \<times> mux" where
  "openChannel m ct extra =
     (case mux_newChannel m ct channelOutbound extra of
        (a, m1) \<Rightarrow>
          let c = (heap m1 ! a)\<lparr>maxIncomingPayload := channelMaxPacket\<rparr>;
              m2 = m1\<lparr>heap := (heap m1)[a := c]\<rparr>
          in case mux_sendMessage m2
                    (ChannelOpenMsg ct (localId c) (myWindow c) (maxIncomingPayload c) extra) of
               (e, m3) \<Rightarrow> (e, a, m3))"

datatype open_result = ChannelOpened | OpenChannelError u32 "byte list" | UnexpectedOpenReply

definition openChannel_reply :: "channel \<Rightarrow> (open_result \<times> channel) option" where
  "openChannel_reply c =
     (case msgs c of
        [] \<Rightarrow> if queues_closed c then Some (UnexpectedOpenReply, c) else None
      | m # ms \<Rightarrow>
          Some (case m of
                  ChannelOpenConfirmMsg _ _ _ _ _ \<Rightarrow> ChannelOpened
                | ChannelOpenFailureMsg _ reason message _ \<Rightarrow> OpenChannelError reason message
                | _ \<Rightarrow> UnexpectedOpenReply,
                c\<lparr>msgs := ms\<rparr>))"

section \<open>What a packet can do to a channel\<close>

lemma decode_Inr:
  "decode packet = Inr m \<longleftrightarrow> (\<exists>t r nm vs. packet = t # r \<and> decode_name t = Some nm
     \<and> Unmarshal packet (type_of nm) = Inr vs \<and> m = build nm vs)"
  by (auto simp: decode_def unmarshal_msg_def split: list.splits option.splits sum.splits)

lemma decode_open_failure:
  assumes "decode packet = Inr (ChannelOpenFailureMsg pid reason msg lang)"
  shows "pid = getUint32 (drop 1 packet)"
proof -
  from assms obtain t r nm vs where p: "packet = t # r" "Unmarshal packet (type_of nm) = Inr vs"
    "ChannelOpenFailureMsg pid reason msg lang = build nm vs" by (auto simp: decode_Inr)
  from p(3) have nm: "nm = N_channelOpenFailureMsg" and pid: "pid = u32_of (vs ! 0)" by (cases nm; simp)+
  have tag: "typeTag (type_of N_channelOpenFailureMsg) = 92" by (subst typeTag_type_of) simp
  from p(2) show ?thesis
    unfolding nm pid
    by (auto simp: Unmarshal_def tag [simplified] parseUint32_def p(1) Let_def
        split: if_splits sum.splits prod.splits option.splits)
qed

lemma handleData_keeps:
  "handleData c p = (e, c') \<Longrightarrow> localId c' = localId c \<and> queues_closed c' = queues_closed c"
  by (auto simp: handleData_def Let_def split: list.splits if_splits)

lemma response_keeps:
  "responseMessageReceived c = (e, c') \<Longrightarrow> localId c' = localId c \<and> queues_closed c' = queues_closed c"
  by (auto simp: responseMessageReceived_def split: if_splits)

lemma sendMessage_keeps:
  "chan_sendMessage c k m = (e, c', k') \<Longrightarrow> localId c' = localId c \<and> queues_closed c' = queues_closed c"
  by (erule chan_sendMessage_frame) simp

lemma handlePacket_keeps:
  assumes "handlePacket c k p = Done h"
  shows "localId (hp_chan h) = localId c"
    and "set (hp_removed h) \<subseteq> {localId c, getUint32 (drop 1 p)}"
    and "queues_closed (hp_chan h) \<Longrightarrow> queues_closed c \<or> localId c \<in> set (hp_removed h)"
  using assms
  by (auto simp: handlePacket_def Let_def lift_outcome_Done push_msg_def push_request_def chan_close_def
      split: list.splits if_splits prod.splits sum.splits message.splits option.splits bool.splits
      dest!: handleData_keeps response_keeps sendMessage_keeps dest: decode_open_failure)

lemma lift_outcome_Panics: "lift_outcome x k rm = Panics s \<longleftrightarrow> x = Panics s"
  by (cases x) auto

lemma handlePacket_no_panic:
  assumes "\<not> queues_closed c" and "p \<noteq> []"
  shows "handlePacket c k p \<noteq> Panics s"
  using assms
  by (auto simp: handlePacket_def Let_def lift_outcome_Panics push_msg_def push_request_def chan_close_def
      split: list.splits if_splits prod.splits sum.splits message.splits option.splits bool.splits
      dest!: handleData_keeps response_keeps sendMessage_keeps)

text \<open>The methods of a channel, packets and the tear down by the mux apart.\<close>

definition user_op :: "chan_op \<Rightarrow> bool" where
  "user_op op = (case op of OpPacket _ \<Rightarrow> False | OpTearDown \<Rightarrow> False | _ \<Rightarrow> True)"

lemma WriteExtended_loop_keeps:
  "WriteExtended_loop fuel code c k data n packet = (r, c', k') \<Longrightarrow>
     localId c' = localId c \<and> queues_closed c' = queues_closed c"
proof (induction fuel arbitrary: c k data n packet)
  case (Suc fuel)
  have wp: "localId c1 = localId c \<and> queues_closed c1 = queues_closed c"
    if "chan_writePacket (c\<lparr>remoteWin := w\<rparr>) k p = (e, c1, k1)" for w p e c1 k1
    using chan_writePacket_frame [OF that] by auto
  from Suc.prems show ?case
    by (auto simp: Let_def split: if_splits prod.splits reserve_result.splits option.splits
        dest!: wp Suc.IH)
qed simp

lemma ReadExtended_keeps:
  "ReadExtended c k len ext = (r, c', k') \<Longrightarrow> localId c' = localId c \<and> queues_closed c' = queues_closed c"
  by (auto simp: ReadExtended_def read_adjust_def adjustWindow_def
      split: if_splits prod.splits read_result.splits dest!: sendMessage_keeps)

lemma user_op_keeps:
  assumes "chan_exec op c k = Some (c', k')" and "user_op op"
  shows "localId c' = localId c \<and> queues_closed c' = queues_closed c"
proof (cases op)
  case OpReply
  then show ?thesis using assms by (auto simp: SendRequest_reply_def split: list.splits if_splits)
next
  case (OpRead len ext)
  then show ?thesis using assms by (cases "ReadExtended c k len ext") (auto dest: ReadExtended_keeps)
next
  case (OpWrite fuel data code)
  then show ?thesis
    using assms by (cases "WriteExtended_loop fuel code c k data 0 (packetPool c code)")
      (auto simp: WriteExtended_def split: if_splits dest: WriteExtended_loop_keeps)
next
  case (OpResume fuel code data n packet)
  then show ?thesis
    using assms by (cases "WriteExtended_resume fuel code c k data n packet")
      (auto simp: WriteExtended_resume_def dest: WriteExtended_loop_keeps)
next
  case OpAccept
  then show ?thesis using assms by (cases "chan_Accept c k")
      (auto simp: chan_Accept_def Let_def split: if_splits dest!: sendMessage_keeps)
next
  case (OpReject r m)
  then show ?thesis using assms by (cases "chan_Reject c k r m")
      (auto simp: chan_Reject_def split: if_splits dest!: sendMessage_keeps)
next
  case OpCloseWrite
  then show ?thesis using assms by (cases "chan_CloseWrite c k")
      (auto simp: chan_CloseWrite_def split: if_splits dest!: sendMessage_keeps)
next
  case OpClose
  then show ?thesis using assms by (cases "chan_Close c k")
      (auto simp: chan_Close_def split: if_splits dest!: sendMessage_keeps)
next
  case (OpRequest name want payload)
  then show ?thesis using assms by (cases "chan_SendRequest c k name want payload")
      (auto simp: chan_SendRequest_def split: if_splits dest!: sendMessage_keeps)
next
  case (OpAck ok)
  then show ?thesis using assms by (cases "chan_ackRequest c k ok")
      (auto simp: chan_ackRequest_def split: if_splits dest!: sendMessage_keeps)
qed (use assms in \<open>auto simp: user_op_def\<close>)

section \<open>The invariant of the mux\<close>

definition live_ok :: "mux \<Rightarrow> u32 \<Rightarrow> nat \<Rightarrow> bool" where
  "live_ok m i a \<longleftrightarrow> a < length (heap m) \<and> localId (heap m ! a) = i \<and> \<not> queues_closed (heap m ! a)"

definition mux_inv :: "mux \<Rightarrow> bool" where
  "mux_inv m \<longleftrightarrow> cl_inv (chanlist m) \<and> length (chans (chanlist m)) \<le> length (heap m) \<and> \<not> chans_closed m
     \<and> (\<forall>i a. cl_getChan (chanlist m) i = Some a \<longrightarrow> live_ok m i a)"

definition mux_room :: "mux \<Rightarrow> bool" where
  "mux_room m \<longleftrightarrow> length (heap m) + 1 < 2 ^ 32"

lemma mux_invD:
  assumes "mux_inv m" "cl_getChan (chanlist m) i = Some a"
  shows "a < length (heap m)" "localId (heap m ! a) = i" "\<not> queues_closed (heap m ! a)"
  using assms by (auto simp: mux_inv_def live_ok_def)

lemma mux_inv_same:
  "heap m' = heap m \<Longrightarrow> chanlist m' = chanlist m \<Longrightarrow> chans_closed m' = chans_closed m \<Longrightarrow>
     mux_inv m' = mux_inv m"
  by (simp add: mux_inv_def live_ok_def)

lemma cl_add_length: "length (chans (snd (cl_add c x))) \<le> Suc (length (chans c))"
  by (auto simp: cl_add_def split: option.splits)

lemma cl_remove_length [simp]: "length (chans (cl_remove c i)) = length (chans c)"
  by (auto simp: cl_remove_def Let_def)

lemma mux_newChannel_heap:
  "mux_newChannel m ct dir extra = (a, m') \<Longrightarrow>
     a = length (heap m) \<and> heap m' = heap m @ [heap m' ! a] \<and> \<not> queues_closed (heap m' ! a)
     \<and> localId (heap m' ! a) = fst (cl_add (chanlist m) a) \<and> chanlist m' = snd (cl_add (chanlist m) a)
     \<and> chans_closed m' = chans_closed m \<and> incomingChannels m' = incomingChannels m"
  by (auto simp: mux_newChannel_def Let_def newChannel_def split: prod.splits)

text \<open>The new channel is entered, whatever fields of it are filled in afterwards.\<close>

lemma mux_inv_newChannel:
  assumes "mux_inv m" "mux_room m" "mux_newChannel m ct dir extra = (a, m1)"
    and "heap m' = (heap m1)[a := c]" "chanlist m' = chanlist m1" "chans_closed m' = chans_closed m1"
    and "localId c = localId (heap m1 ! a)" "queues_closed c = queues_closed (heap m1 ! a)"
  shows "mux_inv m'"
proof -
  note n = mux_newChannel_heap [OF assms(3)]
  have i: "cl_inv (chanlist m)" and r: "cl_room (chanlist m)" and l: "length (chans (chanlist m)) \<le> length (heap m)"
    using assms(1,2) by (auto simp: mux_inv_def mux_room_def cl_room_def)
  have h: "heap m' = heap m @ [c]" using n assms(4) by (metis list_update_length)
  have "length (chans (chanlist m')) \<le> length (heap m')"
    using cl_add_length [of "chanlist m" a] l n assms(5) h by simp
  moreover have "live_ok m' j b" if "cl_getChan (chanlist m') j = Some b" for j b
  proof (cases "j = fst (cl_add (chanlist m) a)")
    case True
    then show ?thesis
      using that n assms(5,7,8) h clist.lookup_add [OF i r, of a] by (auto simp: live_ok_def)
  next
    case False
    then have "cl_getChan (chanlist m) j = Some b"
      using that n assms(5) clist.lookup_add [OF i r, of a] by auto
    then show ?thesis using mux_invD [OF assms(1), of j b] h by (auto simp: live_ok_def nth_append)
  qed
  ultimately show ?thesis
    using clist.inv_add [OF i r, of a] n assms by (auto simp: mux_inv_def)
qed

lemma mux_inv_sendMessage: "mux_sendMessage m msg = (e, m') \<Longrightarrow> mux_inv m' = mux_inv m"
  by (auto simp: mux_sendMessage_def mux_inv_def live_ok_def split: option.splits prod.splits)

lemma fold_cl_remove:
  assumes "cl_inv cl"
  shows "cl_inv (fold (\<lambda>i cl. cl_remove cl i) is cl)
    \<and> length (chans (fold (\<lambda>i cl. cl_remove cl i) is cl)) = length (chans cl)
    \<and> cl_getChan (fold (\<lambda>i cl. cl_remove cl i) is cl) = (\<lambda>j. if j \<in> set is then None else cl_getChan cl j)"
  using assms
proof (induction "is" arbitrary: cl)
  case (Cons i "is")
  then show ?case
    using clist.inv_remove [OF Cons.prems, of i] clist.lookup_remove [OF Cons.prems, of i]
    by (auto simp: fun_eq_iff)
qed simp

text \<open>
  A channel packet touches the addressed channel only: every other cell of the store and every
  other entry of the channel list is as before.
\<close>

lemma handleChannelPacket_local:
  assumes "mux_inv m" "handleChannelPacket m p = Done (e, m')"
  shows "mux_inv m'"
    and "length (heap m') = length (heap m)"
    and "cl_getChan (chanlist m) (getUint32 (drop 1 p)) \<noteq> Some b \<Longrightarrow> heap m' ! b = heap m ! b"
    and "j \<noteq> getUint32 (drop 1 p) \<Longrightarrow> cl_getChan (chanlist m') j = cl_getChan (chanlist m) j"
proof -
  let ?i = "getUint32 (drop 1 p)"
  have "mux_inv m' \<and> length (heap m') = length (heap m)
    \<and> (cl_getChan (chanlist m) ?i \<noteq> Some b \<longrightarrow> heap m' ! b = heap m ! b)
    \<and> (j \<noteq> ?i \<longrightarrow> cl_getChan (chanlist m') j = cl_getChan (chanlist m) j)"
  proof (cases "m' = m")
    case False
    then obtain a h where a: "cl_getChan (chanlist m) ?i = Some a"
      and h: "handlePacket (heap m ! a) (mconn m) p = Done h"
      and m': "m' = m\<lparr>heap := (heap m)[a := hp_chan h], mconn := hp_conn h,
          chanlist := fold (\<lambda>i cl. cl_remove cl i) (hp_removed h) (chanlist m)\<rparr>"
      using assms(2)
      by (auto simp: handleChannelPacket_def split: if_splits option.splits outcome.splits)
    note ai = mux_invD [OF assms(1) a] and k = handlePacket_keeps [OF h]
    have rm: "set (hp_removed h) \<subseteq> {?i}" using k(2) ai(2) by auto
    have ci: "cl_inv (chanlist m)" using assms(1) by (simp add: mux_inv_def)
    note f = fold_cl_remove [OF ci, of "hp_removed h"]
    have live: "live_ok m' l b" if "cl_getChan (chanlist m') l = Some b" for l b
    proof (cases "l = ?i")
      case True
      with that f m' have "?i \<notin> set (hp_removed h)" "b = a" using a by (auto split: if_splits)
      then show ?thesis using True ai k(1,3) m' by (auto simp: live_ok_def)
    next
      case False
      with that f m' have g: "cl_getChan (chanlist m) l = Some b" by (auto split: if_splits)
      have "b \<noteq> a" using mux_invD(2) [OF assms(1) g] ai(2) False by auto
      then show ?thesis using mux_invD [OF assms(1) g] m' by (simp add: live_ok_def)
    qed
    then have "mux_inv m'" using f m' assms(1) by (auto simp: mux_inv_def)
    then show ?thesis using a m' f rm by auto
  qed (use assms(1) in simp)
  then show "mux_inv m'" "length (heap m') = length (heap m)"
    "cl_getChan (chanlist m) ?i \<noteq> Some b \<Longrightarrow> heap m' ! b = heap m ! b"
    "j \<noteq> ?i \<Longrightarrow> cl_getChan (chanlist m') j = cl_getChan (chanlist m) j" by auto
qed

lemma mux_inv_handleChannelOpen:
  assumes "mux_inv m" "mux_room m" "handleChannelOpen m p = Done (e, m')"
  shows "mux_inv m'"
proof -
  have snd: "mux_inv m'" if "Done (mux_sendMessage m x) = Done (e, m')" for x
    using that assms(1) mux_inv_sendMessage [of m x e m'] by simp
  from assms(1,3) show ?thesis
    by (auto simp: handleChannelOpen_def Let_def split: sum.splits message.splits if_splits prod.splits
        intro: snd assms(1) elim!: mux_inv_newChannel [OF assms(1,2)])
qed

lemma mux_inv_handleGlobalPacket:
  "mux_inv m \<Longrightarrow> handleGlobalPacket m p = Done (e, m') \<Longrightarrow> mux_inv m'"
  by (auto simp: handleGlobalPacket_def Let_def mux_inv_def live_ok_def
      split: sum.splits message.splits if_splits)

lemma mux_inv_onePacket:
  assumes "mux_inv m" "mux_room m" "onePacket m p = Done (e, m')"
  shows "mux_inv m'"
  using assms mux_inv_handleChannelOpen [OF assms(1,2)] mux_inv_handleGlobalPacket [OF assms(1)]
    handleChannelPacket_local(1) [OF assms(1)]
  by (auto simp: onePacket_def split: list.splits if_splits)

lemma mux_inv_openChannel:
  assumes "mux_inv m" "mux_room m" "openChannel m ct extra = (e, a, m')"
  shows "mux_inv m'"
proof -
  obtain a1 m1 where n: "mux_newChannel m ct channelOutbound extra = (a1, m1)" by force
  let ?c = "(heap m1 ! a1)\<lparr>maxIncomingPayload := channelMaxPacket\<rparr>"
  have "mux_inv (m1\<lparr>heap := (heap m1)[a1 := ?c]\<rparr>)"
    by (rule mux_inv_newChannel [OF assms(1,2) n, where c = ?c]) simp_all
  with assms(3) n show ?thesis
    by (auto simp: openChannel_def Let_def mux_inv_sendMessage split: prod.splits)
qed

lemma mux_inv_user_op:
  assumes "mux_inv m" "a < length (heap m)" "chan_exec op (heap m ! a) (mconn m) = Some (c, k)" "user_op op"
  shows "mux_inv (m\<lparr>heap := (heap m)[a := c], mconn := k\<rparr>)"
  using assms(1,2) user_op_keeps [OF assms(3,4)]
  by (auto simp: mux_inv_def live_ok_def nth_list_update)

text \<open>
  A connection at work: the reader handles packets, callers open channels and use them, send
  messages of their own and take what arrived from the queues, in any interleaving. The peer
  and the callers together open fewer than \<open>2 ^ 32\<close> channels.
\<close>

inductive mux_reachable :: "mux \<Rightarrow> bool" where
  start: "mux_reachable (newMux k)"
| packet: "mux_reachable m \<Longrightarrow> mux_room m \<Longrightarrow> onePacket m p = Done (None, m') \<Longrightarrow> mux_reachable m'"
| open_channel: "mux_reachable m \<Longrightarrow> mux_room m \<Longrightarrow> openChannel m ct extra = (e, a, m') \<Longrightarrow> mux_reachable m'"
| chan_call: "mux_reachable m \<Longrightarrow> a < length (heap m) \<Longrightarrow>
    chan_exec op (heap m ! a) (mconn m) = Some (c, k) \<Longrightarrow> user_op op \<Longrightarrow>
    mux_reachable (m\<lparr>heap := (heap m)[a := c], mconn := k\<rparr>)"
| send: "mux_reachable m \<Longrightarrow> mux_sendMessage m msg = (e, m') \<Longrightarrow> mux_reachable m'"
| take_channel: "mux_reachable m \<Longrightarrow> mux_reachable (m\<lparr>incomingChannels := tl (incomingChannels m)\<rparr>)"
| take_request: "mux_reachable m \<Longrightarrow> mux_reachable (m\<lparr>mux_requests := tl (mux_requests m)\<rparr>)"
| take_response: "mux_reachable m \<Longrightarrow> mux_SendRequest_reply m = Some (r, m') \<Longrightarrow> mux_reachable m'"

lemma mux_reachable_inv: "mux_reachable m \<Longrightarrow> mux_inv m"
proof (induction rule: mux_reachable.induct)
  case (start k)
  then show ?case by (simp add: newMux_def mux_inv_def cl_inv_def cl_getChan_def)
next
  case (packet m p m')
  then show ?case using mux_inv_onePacket by blast
next
  case (open_channel m ct extra e a m')
  then show ?case using mux_inv_openChannel by blast
next
  case (chan_call m a op c k)
  then show ?case using mux_inv_user_op by blast
next
  case (send m msg e m')
  then show ?case using mux_inv_sendMessage by blast
next
  case (take_response m r m')
  then show ?case
    by (auto simp: mux_SendRequest_reply_def mux_inv_def live_ok_def split: list.splits if_splits)
qed (simp_all add: mux_inv_def live_ok_def)

section \<open>Properties\<close>

text \<open>
  The channel list is an id table as long as its ids fit into 32 bits: \<^verbatim>\<open>add\<close> hands out an id
  that no live channel has, lookups then find the new channel under it and every other channel
  where it was, and \<^verbatim>\<open>remove\<close> of that id takes the list back to what it was, so an id is reused
  only after its channel is gone.
\<close>

theorem chanList_ids:
  assumes "length (chans cl) + 1 < 2 ^ 32"
  shows "cl_getChan cl (fst (cl_add cl x)) = None
    \<and> cl_getChan (snd (cl_add cl x)) = (cl_getChan cl)(fst (cl_add cl x) \<mapsto> x)
    \<and> cl_getChan (cl_remove (snd (cl_add cl x)) (fst (cl_add cl x))) = cl_getChan cl
    \<and> cl_getChan (cl_remove cl i) = (cl_getChan cl)(i := None)
    \<and> set (fst (cl_dropAll cl)) = ran (cl_getChan cl)"
proof -
  from assms have i: "cl_inv cl" and r: "cl_room cl" by (simp_all add: cl_inv_def cl_room_def)
  show ?thesis
    using clist.add_fresh [OF i r, of x] clist.lookup_add [OF i r, of x] clist.add_remove_id [OF i r, of x]
      clist.lookup_remove [OF i, of i] clist.set_drop_all [OF i] by simp
qed

theorem chanList_ids_witness:
  "cl_getChan \<lparr>chans = [Some (7::nat), None, Some 9], offset = 4294967295\<rparr> 0 = None
   \<and> fst (cl_add \<lparr>chans = [Some (7::nat), None, Some 9], offset = 4294967295\<rparr> 8) = 0"
proof -
  have "fst (cl_add \<lparr>chans = [Some (7::nat), None, Some 9], offset = 4294967295\<rparr> 8) = 0" by code_simp
  then show ?thesis
    using chanList_ids [of "\<lparr>chans = [Some (7::nat), None, Some 9], offset = 4294967295\<rparr>" 8 0] by simp
qed

text \<open>
  C23. Isolation of channels: in any state a connection can reach, a channel packet changes at most
  the channel whose id it carries. All other channels keep their whole state, and all other ids
  still name the same channel; the handler cannot remove another channel's entry, although the
  failure message makes it remove an id read from the packet.
\<close>

theorem channel_packet_isolation:
  assumes "mux_reachable m" and "onePacket m (t # p) = Done (e, m')" and "t \<notin> {1, 21, 80, 81, 82, 90}"
  shows "(cl_getChan (chanlist m) (getUint32 p) \<noteq> Some b \<longrightarrow> heap m' ! b = heap m ! b)
    \<and> (j \<noteq> getUint32 p \<longrightarrow> cl_getChan (chanlist m') j = cl_getChan (chanlist m) j)"
proof -
  have "handleChannelPacket m (t # p) = Done (e, m')" using assms(2,3) by (simp add: onePacket_def)
  from handleChannelPacket_local(3,4) [OF mux_reachable_inv [OF assms(1)] this]
  show ?thesis by simp
qed

definition demo_mux :: mux where
  "demo_mux = snd (snd (openChannel (newMux \<lparr>sent = [], answers = []\<rparr>) (ascii ''session'') []))"

lemma demo_mux_reachable: "mux_reachable demo_mux"
proof -
  obtain e a m where o: "openChannel (newMux \<lparr>sent = [], answers = []\<rparr>) (ascii ''session'') [] = (e, a, m)"
    by (metis prod_cases3)
  have "mux_reachable m"
    by (rule mux_reachable.open_channel [OF mux_reachable.start _ o]) (simp add: mux_room_def newMux_def)
  with o show ?thesis by (simp add: demo_mux_def)
qed

text \<open>A window adjustment for the channel with id 0.\<close>

theorem channel_packet_isolation_witness:
  "\<exists>m'. onePacket demo_mux [93, 0, 0, 0, 0, 0, 0, 0, 5] = Done (None, m')
     \<and> heap m' ! 1 = heap demo_mux ! 1 \<and> cl_getChan (chanlist m') 1 = cl_getChan (chanlist demo_mux) 1"
proof -
  have "case onePacket demo_mux [93, 0, 0, 0, 0, 0, 0, 0, 5] of Done (None, _) \<Rightarrow> True | _ \<Rightarrow> False"
    by code_simp
  then obtain m' where m': "onePacket demo_mux [93, 0, 0, 0, 0, 0, 0, 0, 5] = Done (None, m')"
    by (auto split: outcome.splits prod.splits option.splits)
  have g: "getUint32 [0, 0, 0, 0, 0, 0, 0, 5] = 0" by code_simp
  have c: "cl_getChan (chanlist demo_mux) 0 = Some 0" by code_simp
  show ?thesis
    using channel_packet_isolation [OF demo_mux_reachable m', of 1 1] m' g c by auto
qed

lemma map_filter_distinct:
  assumes "\<And>i j a. i < length xs \<Longrightarrow> j < length xs \<Longrightarrow> xs ! i = Some a \<Longrightarrow> xs ! j = Some a \<Longrightarrow> i = j"
  shows "distinct (List.map_filter id xs)"
  using assms
proof (induction xs)
  case (Cons x xs)
  have tail: "i = j" if "i < length xs" "j < length xs" "xs ! i = Some a" "xs ! j = Some a" for i j a
    using Cons.prems [of "Suc i" "Suc j" a] that by simp
  have "a \<notin> set (List.map_filter id xs)" if "x = Some a" for a
  proof
    assume "a \<in> set (List.map_filter id xs)"
    then obtain j where "j < length xs" "xs ! j = Some a"
      by (auto simp: List.map_filter_def in_set_conv_nth)
    then show False using Cons.prems [of 0 "Suc j" a] that by simp
  qed
  then show ?case using Cons.IH tail by (cases x) (auto simp: List.map_filter_simps id_def)
qed (simp add: List.map_filter_simps)

lemma mux_inv_drop_distinct:
  assumes "mux_inv m"
  shows "distinct (fst (cl_dropAll (chanlist m)))"
proof -
  have ci: "cl_inv (chanlist m)" using assms by (simp add: mux_inv_def)
  have "i = j" if ij: "i < length (chans (chanlist m))" "j < length (chans (chanlist m))"
    "chans (chanlist m) ! i = Some a" "chans (chanlist m) ! j = Some a" for i j a
  proof -
    let ?id = "\<lambda>i. word_of_nat i + offset (chanlist m) :: u32"
    have l: "i < 2 ^ 32" "j < 2 ^ 32" using ij ci by (auto simp: cl_inv_def)
    have "cl_getChan (chanlist m) (?id i) = Some a" "cl_getChan (chanlist m) (?id j) = Some a"
      using ij l ci by (auto simp: cl_getChan_slot slot_def unat_of_nat)
    then have "?id i = ?id j" using mux_invD(2) [OF assms] by metis
    then have "unat (word_of_nat i :: u32) = unat (word_of_nat j :: u32)" by simp
    then show ?thesis using l by (simp add: unat_of_nat)
  qed
  then show ?thesis by (simp add: cl_dropAll_def map_filter_distinct)
qed

text \<open>What closing leaves of a channel: whoever reads, writes or waits gets an end of file.\<close>

definition shut :: "channel \<Rightarrow> bool" where
  "shut c \<longleftrightarrow> queues_closed c \<and> sentClose c \<and> win_closed (remoteWin c) \<and> buf_closed (pending c)
     \<and> buf_closed (extPending c)"

lemma close_all_Done:
  assumes "distinct as" "\<And>a. a \<in> set as \<Longrightarrow> a < length hp \<and> \<not> queues_closed (hp ! a)"
  shows "\<exists>hp'. close_all as hp = Done hp' \<and> length hp' = length hp
    \<and> (\<forall>a. if a \<in> set as then shut (hp' ! a) else hp' ! a = hp ! a)"
  using assms
proof (induction as arbitrary: hp)
  case (Cons a as)
  obtain c where c: "chan_close (hp ! a) = Done c" "shut c"
    using Cons.prems(2) [of a]
    by (auto simp: chan_close_def shut_def Let_def win_close_def buf.closed_ef)
  have "\<exists>hp'. close_all as (hp[a := c]) = Done hp' \<and> length hp' = length (hp[a := c])
    \<and> (\<forall>b. if b \<in> set as then shut (hp' ! b) else hp' ! b = hp[a := c] ! b)"
    using Cons.prems by (intro Cons.IH) (auto simp: nth_list_update)
  then obtain hp' where hp': "close_all as (hp[a := c]) = Done hp'" "length hp' = length hp"
    "\<And>b. if b \<in> set as then shut (hp' ! b) else hp' ! b = hp[a := c] ! b" by auto
  have "if b \<in> set (a # as) then shut (hp' ! b) else hp' ! b = hp ! b" for b
    using hp'(3) [of b] c(2) Cons.prems by (auto simp: nth_list_update split: if_splits)
  then show ?case using c hp' by (intro exI [of _ hp']) simp
qed simp

lemma decode_global:
  assumes "decode p = Inr msg" and "hd p \<in> {80, 81, 82}"
  shows "(\<exists>t w d. msg = GlobalRequestMsg t w d) \<or> (\<exists>d. msg = GlobalRequestSuccessMsg d)
    \<or> (\<exists>d. msg = GlobalRequestFailureMsg d)"
proof -
  from assms(1) obtain t r nm vs where p: "p = t # r" "decode_name t = Some nm" "msg = build nm vs"
    by (auto simp: decode_Inr)
  then have "nm \<in> {N_globalRequestMsg, N_globalRequestSuccessMsg, N_globalRequestFailureMsg}"
    using assms(2) by (auto simp: decode_name_def)
  then show ?thesis using p(3) by auto
qed

text \<open>
  C24. The peer cannot crash the connection: in any state a connection can reach, no packet makes
  the reader panic - in particular it never sends on or closes a Go channel that is closed
  already, because a torn down channel has left the channel list. (Packets are not empty: the
  transport rejects empty ones.)
\<close>

theorem mux_never_panics:
  assumes "mux_reachable m" and "p \<noteq> []"
  shows "onePacket m p \<noteq> Panics s"
proof -
  note i = mux_reachable_inv [OF assms(1)]
  then have nc: "\<not> chans_closed m" by (simp add: mux_inv_def)
  have "handleChannelPacket m p \<noteq> Panics s"
    using handlePacket_no_panic [OF mux_invD(3) [OF i] assms(2)]
    by (auto simp: handleChannelPacket_def split: option.splits outcome.splits)
  moreover have "handleChannelOpen m p \<noteq> Panics s"
    using nc by (auto simp: handleChannelOpen_def unmarshal_msg_def Let_def split: sum.splits prod.splits)
  moreover have "handleGlobalPacket m p \<noteq> Panics s" if "hd p = 80 \<or> hd p = 81 \<or> hd p = 82"
    using decode_global [of p] that nc
    by (cases "decode p") (auto simp: handleGlobalPacket_def Let_def split: if_splits)
  ultimately show ?thesis
    using assms(2) by (auto simp: onePacket_def split: list.splits)
qed

theorem mux_never_panics_witness: "onePacket demo_mux [97, 0, 0, 0, 0] \<noteq> Panics ''send on closed channel''"
  using mux_never_panics [OF demo_mux_reachable] by simp

text \<open>
  C26. When the loop of a mux ends, for whatever reason, it ends cleanly: it does not panic, every
  live channel is shut (its queues and streams are at end of file, its window is closed and it
  will send nothing more), no id names a channel any more, and the reason is recorded for
  \<^verbatim>\<open>Wait\<close>; channels that were gone before are left as they are.
\<close>

theorem loop_exit_shuts_all:
  assumes "mux_reachable m"
  shows "\<exists>m'. loop_exit m e = Done m' \<and> mux_err m' = Some e \<and> cl_getChan (chanlist m') = Map.empty
    \<and> (\<forall>a. if a \<in> ran (cl_getChan (chanlist m)) then shut (heap m' ! a) else heap m' ! a = heap m ! a)"
proof -
  note i = mux_reachable_inv [OF assms]
  then have ci: "cl_inv (chanlist m)" and nc: "\<not> chans_closed m" by (auto simp: mux_inv_def)
  obtain as cl where d: "cl_dropAll (chanlist m) = (as, cl)" by force
  have as: "set as = ran (cl_getChan (chanlist m))" using clist.set_drop_all [OF ci] d by simp
  have "\<exists>hp'. close_all as (heap m) = Done hp' \<and> length hp' = length (heap m)
    \<and> (\<forall>a. if a \<in> set as then shut (hp' ! a) else hp' ! a = heap m ! a)"
    using mux_inv_drop_distinct [OF i] d mux_invD [OF i]
    by (intro close_all_Done) (auto simp: as ran_def)
  then show ?thesis
    using clist.lookup_drop_all [OF ci] d nc as by (auto simp: loop_exit_def)
qed

theorem loop_exit_shuts_all_witness: "\<exists>m'. loop_exit demo_mux EOF = Done m' \<and> shut (heap m' ! 0)"
proof -
  have "cl_getChan (chanlist demo_mux) 0 = Some 0" by code_simp
  then have "0 \<in> ran (cl_getChan (chanlist demo_mux))" by (rule ranI)
  with loop_exit_shuts_all [OF demo_mux_reachable, of EOF] show ?thesis by auto
qed

end
