(* ===== verification/Ssh_Session.thy ===== *)
theory Ssh_Session
  imports Ssh_Channel
begin

text \<open>
  Sessions, \<^verbatim>\<open>src/golang.org/x/crypto/ssh/session.go\<close>: a command or shell on the remote host over a channel. The
  session keeps the requests it has sent; what \<^verbatim>\<open>SendRequest\<close> of the channel answers is an
  argument (\<open>ans\<close>), and so are the requests of the server and the results of the copying
  goroutines, in the order they arrive. \<^verbatim>\<open>Wait\<close> is a function of all these.
\<close>

section \<open>State\<close>

datatype sink = Discard | UserWriter nat | OutputBuffer | SharedBuffer

datatype copy_fun = CopyStdin "nat option" | CopyStdout sink | CopyStderr sink

type_synonym answer = "bool \<times> ssh_error option"

record session =
  s_Stdin :: "nat option"
  s_Stdout :: "sink option"
  s_Stderr :: "sink option"
  s_started :: bool
  s_copyFuncs :: "copy_fun list"
  stdinpipe :: bool
  stdoutpipe :: bool
  stderrpipe :: bool
  stdinPipeWriter :: bool
  s_requests :: "request list"

record Waitmsg =
  wm_status :: int
  wm_signal :: "byte list"
  wm_msg :: "byte list"
  wm_lang :: "byte list"

datatype session_error = SshFailure ssh_error | Refused string | CommandFailed "byte list" | ExitError Waitmsg | WaitPanic

definition newSession :: session where
  "newSession = \<lparr>s_Stdin = None, s_Stdout = None, s_Stderr = None, s_started = False, s_copyFuncs = [],
     stdinpipe = False, stdoutpipe = False, stderrpipe = False, stdinPipeWriter = False, s_requests = []\<rparr>"

section \<open>Requests\<close>

definition signals :: "(byte list \<times> int) list" where
  "signals = map (\<lambda>(s, n). (ascii s, n))
     [(''ABRT'', 6), (''ALRM'', 14), (''FPE'', 8), (''HUP'', 1), (''ILL'', 4), (''INT'', 2), (''KILL'', 9),
      (''PIPE'', 13), (''QUIT'', 3), (''SEGV'', 11), (''TERM'', 15)]"

text \<open>The structs that are marshalled have no \<^verbatim>\<open>sshtype\<close> tag.\<close>

definition untagged :: "field_kind list \<Rightarrow> struct_type" where
  "untagged ks = \<lparr>sshtype = [], kinds = ks\<rparr>"

definition marshal_untagged :: "field_val list \<Rightarrow> byte list" where
  "marshal_untagged vs = the (Marshal (untagged (map kind_of vs)) vs)"

definition send_request :: "string \<Rightarrow> bool \<Rightarrow> byte list \<Rightarrow> session \<Rightarrow> session" where
  "send_request name wantReply payload s =
     s\<lparr>s_requests := s_requests s @ [\<lparr>req_type = ascii name, req_wantReply = wantReply, req_payload = payload\<rparr>]\<rparr>"

text \<open>A request that fails when it is refused.\<close>

definition request_error :: "session_error \<Rightarrow> answer \<Rightarrow> session_error option" where
  "request_error what ans =
     (case ans of (accepted, Some e) \<Rightarrow> Some (SshFailure e)
                | (accepted, None) \<Rightarrow> if accepted then None else Some what)"

definition Setenv :: "byte list \<Rightarrow> byte list \<Rightarrow> answer \<Rightarrow> session \<Rightarrow> session_error option \<times> session" where
  "Setenv name value ans s =
     (request_error (Refused ''ssh: setenv failed'') ans,
      send_request ''env'' True (marshal_untagged [VString name, VString value]) s)"

text \<open>The modes in the order in which the iteration over the map gives them.\<close>

definition RequestPty ::
  "byte list \<Rightarrow> int \<Rightarrow> int \<Rightarrow> (byte \<times> u32) list \<Rightarrow> answer \<Rightarrow> session \<Rightarrow> session_error option \<times> session" where
  "RequestPty trm h w termmodes ans s =
     (let tm = concat (map (\<lambda>(k, v). marshal_untagged [VUint8 k, VUint32 v]) termmodes) @ [0]
      in (request_error (Refused ''ssh: pty-req failed'') ans,
          send_request ''pty-req'' True
            (marshal_untagged [VString trm, VUint32 (of_int w), VUint32 (of_int h), VUint32 (of_int (w * 8)),
               VUint32 (of_int (h * 8)), VString tm]) s))"

definition RequestSubsystem :: "byte list \<Rightarrow> answer \<Rightarrow> session \<Rightarrow> session_error option \<times> session" where
  "RequestSubsystem subsystem ans s =
     (request_error (Refused ''ssh: subsystem request failed'') ans,
      send_request ''subsystem'' True (marshal_untagged [VString subsystem]) s)"

definition SendSignal :: "byte list \<Rightarrow> answer \<Rightarrow> session \<Rightarrow> session_error option \<times> session" where
  "SendSignal sig ans s =
     (map_option SshFailure (snd ans), send_request ''signal'' False (marshal_untagged [VString sig]) s)"

section \<open>Starting\<close>

definition setup_stdin :: "session \<Rightarrow> session" where
  "setup_stdin s =
     (if stdinpipe s then s
      else s\<lparr>stdinPipeWriter := (s_Stdin s \<noteq> None), s_copyFuncs := s_copyFuncs s @ [CopyStdin (s_Stdin s)]\<rparr>)"

definition setup_stdout :: "session \<Rightarrow> session" where
  "setup_stdout s =
     (if stdoutpipe s then s
      else (let d = (case s_Stdout s of None \<Rightarrow> Discard | Some w \<Rightarrow> w)
            in s\<lparr>s_Stdout := Some d, s_copyFuncs := s_copyFuncs s @ [CopyStdout d]\<rparr>))"

definition setup_stderr :: "session \<Rightarrow> session" where
  "setup_stderr s =
     (if stderrpipe s then s
      else (let d = (case s_Stderr s of None \<Rightarrow> Discard | Some w \<Rightarrow> w)
            in s\<lparr>s_Stderr := Some d, s_copyFuncs := s_copyFuncs s @ [CopyStderr d]\<rparr>))"

definition session_start :: "session \<Rightarrow> session" where
  "session_start s = setup_stderr (setup_stdout (setup_stdin (s\<lparr>s_started := True\<rparr>)))"

text \<open>The result of the goroutine for standard input: of copying, and of \<^verbatim>\<open>CloseWrite\<close> after it.\<close>

definition stdin_copy_result :: "ssh_error option \<Rightarrow> ssh_error option \<Rightarrow> ssh_error option" where
  "stdin_copy_result err err1 = (if err = None \<and> err1 \<noteq> Some EOF then err1 else err)"

definition Start :: "byte list \<Rightarrow> answer \<Rightarrow> session \<Rightarrow> session_error option \<times> session" where
  "Start cmd ans s =
     (if s_started s then (Some (Refused ''ssh: session already started''), s)
      else
        (let s1 = send_request ''exec'' True (marshal_untagged [VString cmd]) s
         in case request_error (CommandFailed cmd) ans of
              Some e \<Rightarrow> (Some e, s1) | None \<Rightarrow> (None, session_start s1)))"

definition Shell :: "answer \<Rightarrow> session \<Rightarrow> session_error option \<times> session" where
  "Shell ans s =
     (if s_started s then (Some (Refused ''ssh: session already started''), s)
      else
        (let s1 = send_request ''shell'' True [] s
         in case request_error (Refused ''ssh: could not start shell'') ans of
              Some e \<Rightarrow> (Some e, s1) | None \<Rightarrow> (None, session_start s1)))"

definition StdinPipe :: "session \<Rightarrow> session_error option \<times> session" where
  "StdinPipe s =
     (if s_Stdin s \<noteq> None then (Some (Refused ''ssh: Stdin already set''), s)
      else if s_started s then (Some (Refused ''ssh: StdinPipe after process started''), s)
      else (None, s\<lparr>stdinpipe := True\<rparr>))"

definition StdoutPipe :: "session \<Rightarrow> session_error option \<times> session" where
  "StdoutPipe s =
     (if s_Stdout s \<noteq> None then (Some (Refused ''ssh: Stdout already set''), s)
      else if s_started s then (Some (Refused ''ssh: StdoutPipe after process started''), s)
      else (None, s\<lparr>stdoutpipe := True\<rparr>))"

definition StderrPipe :: "session \<Rightarrow> session_error option \<times> session" where
  "StderrPipe s =
     (if s_Stderr s \<noteq> None then (Some (Refused ''ssh: Stderr already set''), s)
      else if s_started s then (Some (Refused ''ssh: StderrPipe after process started''), s)
      else (None, s\<lparr>stderrpipe := True\<rparr>))"

section \<open>Waiting\<close>

definition exit_signal_kinds :: "field_kind list" where
  "exit_signal_kinds = [KString, KBool, KString, KString]"

text \<open>
  The goroutine that reads the requests of the server until their queue is closed: its result, and for each reply
  it sends whether it accepts.
\<close>

fun wait_loop :: "request list \<Rightarrow> Waitmsg \<Rightarrow> (session_error + Waitmsg) \<times> bool list" where
  "wait_loop [] wm = (Inr wm, [])"
| "wait_loop (m # ms) wm =
     (if req_type m = ascii ''exit-status'' then
        (if length (req_payload m) < 4 then (Inl WaitPanic, [])
         else wait_loop ms (wm\<lparr>wm_status := uint (getUint32 (req_payload m))\<rparr>))
      else if req_type m = ascii ''exit-signal'' then
        (case Unmarshal (req_payload m) (untagged exit_signal_kinds) of
           Inl e \<Rightarrow> (Inl (SshFailure e), [])
         | Inr vs \<Rightarrow>
             (case vs of
                [VString sig, VBool core, VString err, VString lg] \<Rightarrow>
                  wait_loop ms (wm\<lparr>wm_signal := sig, wm_msg := err, wm_lang := lg\<rparr>)
              | _ \<Rightarrow> (Inl WaitPanic, [])))
      else
        (case wait_loop ms wm of
           (res, replies) \<Rightarrow> (res, if req_wantReply m then False # replies else replies)))"

definition wait_verdict :: "Waitmsg \<Rightarrow> session_error option" where
  "wait_verdict wm =
     (if wm_status wm = 0 then None
      else if wm_status wm = -1 then
        (if wm_signal wm = [] then Some (Refused ''wait: remote command exited without exit status or exit signal'')
         else Some (ExitError (wm\<lparr>wm_status := 128 + (case map_of signals (wm_signal wm) of None \<Rightarrow> 0 | Some n \<Rightarrow> n)\<rparr>)))
      else Some (ExitError wm))"

definition session_wait :: "request list \<Rightarrow> session_error option" where
  "session_wait reqs =
     (case fst (wait_loop reqs \<lparr>wm_status = -1, wm_signal = [], wm_msg = [], wm_lang = []\<rparr>) of
        Inl e \<Rightarrow> Some e | Inr wm \<Rightarrow> wait_verdict wm)"

text \<open>The first error of the copying goroutines, in the order they end.\<close>

fun first_error :: "ssh_error option list \<Rightarrow> ssh_error option" where
  "first_error [] = None"
| "first_error (Some e # es) = Some e"
| "first_error (None # es) = first_error es"

definition Wait :: "request list \<Rightarrow> ssh_error option list \<Rightarrow> session \<Rightarrow> session_error option" where
  "Wait reqs copies s =
     (if \<not> s_started s then Some (Refused ''ssh: session not started'')
      else (case session_wait reqs of
              Some e \<Rightarrow> Some e
            | None \<Rightarrow> map_option SshFailure (first_error (take (length (s_copyFuncs s)) copies))))"

definition Run ::
  "byte list \<Rightarrow> answer \<Rightarrow> request list \<Rightarrow> ssh_error option list \<Rightarrow> session \<Rightarrow> session_error option \<times> session" where
  "Run cmd ans reqs copies s =
     (case Start cmd ans s of
        (Some e, s1) \<Rightarrow> (Some e, s1) | (None, s1) \<Rightarrow> (Wait reqs copies s1, s1))"

definition Output ::
  "byte list \<Rightarrow> answer \<Rightarrow> request list \<Rightarrow> ssh_error option list \<Rightarrow> session \<Rightarrow> session_error option \<times> session" where
  "Output cmd ans reqs copies s =
     (if s_Stdout s \<noteq> None then (Some (Refused ''ssh: Stdout already set''), s)
      else Run cmd ans reqs copies (s\<lparr>s_Stdout := Some OutputBuffer\<rparr>))"

definition CombinedOutput ::
  "byte list \<Rightarrow> answer \<Rightarrow> request list \<Rightarrow> ssh_error option list \<Rightarrow> session \<Rightarrow> session_error option \<times> session" where
  "CombinedOutput cmd ans reqs copies s =
     (if s_Stdout s \<noteq> None then (Some (Refused ''ssh: Stdout already set''), s)
      else if s_Stderr s \<noteq> None then (Some (Refused ''ssh: Stderr already set''), s)
      else Run cmd ans reqs copies (s\<lparr>s_Stdout := Some SharedBuffer, s_Stderr := Some SharedBuffer\<rparr>))"

section \<open>Correctness\<close>

text \<open>The server's requests of one kind, in order.\<close>

definition statuses :: "request list \<Rightarrow> int list" where
  "statuses reqs = map (\<lambda>m. uint (getUint32 (req_payload m))) (filter (\<lambda>m. req_type m = ascii ''exit-status'') reqs)"

definition exit_signals :: "request list \<Rightarrow> byte list list" where
  "exit_signals reqs =
     map (\<lambda>m. case Unmarshal (req_payload m) (untagged exit_signal_kinds) of Inr (VString sig # _) \<Rightarrow> sig | _ \<Rightarrow> [])
       (filter (\<lambda>m. req_type m = ascii ''exit-signal'') reqs)"

text \<open>Requests whose payloads are what the protocol prescribes.\<close>

definition proper :: "request \<Rightarrow> bool" where
  "proper m \<longleftrightarrow>
     (req_type m = ascii ''exit-status'' \<longrightarrow> 4 \<le> length (req_payload m))
   \<and> (req_type m = ascii ''exit-signal'' \<longrightarrow> (\<exists>vs. Unmarshal (req_payload m) (untagged exit_signal_kinds) = Inr vs))"

lemma unmarshalField_kind: "unmarshalField i k data = Inr (v, rest) \<Longrightarrow> kind_of v = k"
  by (cases k) (auto split: if_splits option.splits prod.splits)

lemma unmarshalFields_kinds: "unmarshalFields i ks data = Inr (vs, rest) \<Longrightarrow> map kind_of vs = ks"
proof (induction ks arbitrary: i data vs)
  case (Cons k ks)
  then show ?case by (auto dest: unmarshalField_kind split: sum.splits prod.splits)
qed simp

lemma Unmarshal_kinds: "Unmarshal data st = Inr vs \<Longrightarrow> map kind_of vs = kinds st"
  by (auto simp: Unmarshal_def Let_def dest: unmarshalFields_kinds split: if_splits sum.splits)

lemma kind_of_cases:
  "kind_of v = KString \<longleftrightarrow> (\<exists>s. v = VString s)" "kind_of v = KBool \<longleftrightarrow> (\<exists>b. v = VBool b)"
  by (cases v; auto)+

lemma exit_signal_fields:
  assumes "Unmarshal d (untagged exit_signal_kinds) = Inr vs"
  shows "\<exists>sig core err lg. vs = [VString sig, VBool core, VString err, VString lg]"
  using Unmarshal_kinds [OF assms]
  by (auto simp: untagged_def exit_signal_kinds_def map_eq_Cons_conv kind_of_cases)

definition last_or :: "'a \<Rightarrow> 'a list \<Rightarrow> 'a" where
  "last_or d xs = (if xs = [] then d else last xs)"

lemma last_or_Cons: "last_or d (x # xs) = last_or x xs"
  by (simp add: last_or_def)

lemma exit_types: "ascii ''exit-status'' \<noteq> ascii ''exit-signal''"
  by (simp add: ascii_def)

lemma wait_loop_last:
  assumes "list_all proper reqs"
  shows "\<exists>wm'. wait_loop reqs wm = (Inr wm', map (\<lambda>_. False) (filter (\<lambda>m. req_wantReply m
        \<and> req_type m \<noteq> ascii ''exit-status'' \<and> req_type m \<noteq> ascii ''exit-signal'') reqs))
    \<and> wm_status wm' = last_or (wm_status wm) (statuses reqs) \<and> wm_signal wm' = last_or (wm_signal wm) (exit_signals reqs)"
  using assms
proof (induction reqs arbitrary: wm)
  case Nil
  then show ?case by (simp add: statuses_def exit_signals_def last_or_def)
next
  case (Cons m ms)
  then have ms: "list_all proper ms" by simp
  consider "req_type m = ascii ''exit-status''" | "req_type m = ascii ''exit-signal''"
    | "req_type m \<noteq> ascii ''exit-status''" "req_type m \<noteq> ascii ''exit-signal''" by blast
  then show ?case
  proof cases
    case 1
    then show ?thesis
      using Cons.prems Cons.IH [OF ms, of "wm\<lparr>wm_status := uint (getUint32 (req_payload m))\<rparr>"] exit_types
      by (auto simp: proper_def statuses_def exit_signals_def last_or_Cons)
  next
    case 2
    then obtain vs where "Unmarshal (req_payload m) (untagged exit_signal_kinds) = Inr vs"
      using Cons.prems by (auto simp: proper_def)
    moreover from exit_signal_fields [OF this] obtain sig core err lg where
      "vs = [VString sig, VBool core, VString err, VString lg]" by blast
    ultimately show ?thesis
      using 2 Cons.IH [OF ms, of "wm\<lparr>wm_signal := sig, wm_msg := err, wm_lang := lg\<rparr>"] exit_types
      by (auto simp: statuses_def exit_signals_def last_or_Cons)
  next
    case 3
    then show ?thesis using Cons.IH [OF ms, of wm] by (auto simp: statuses_def exit_signals_def)
  qed
qed

lemma session_wait_None:
  assumes "list_all proper reqs"
  shows "session_wait reqs = None \<longleftrightarrow> statuses reqs \<noteq> [] \<and> last (statuses reqs) = 0"
proof -
  let ?wm = "\<lparr>wm_status = -1, wm_signal = [], wm_msg = [], wm_lang = []\<rparr>"
  obtain wm' where "fst (wait_loop reqs ?wm) = Inr wm'" "wm_status wm' = last_or (-1) (statuses reqs)"
    using wait_loop_last [OF assms, of ?wm] by auto
  then show ?thesis by (auto simp: session_wait_def wait_verdict_def last_or_def split: if_splits)
qed

lemma first_error_None: "first_error es = None \<longleftrightarrow> list_all (\<lambda>e. e = None) es"
  by (induction es rule: first_error.induct) auto

lemma exec_payload:
  assumes "length cmd < 2 ^ 32 - 4"
  shows "Unmarshal (marshal_untagged [VString cmd]) (untagged [KString]) = Inr [VString cmd]"
proof -
  have t: "typeTag (untagged ks) = 0" "kinds (untagged ks) = ks" for ks
    by (simp_all add: typeTag_def untagged_def go_atoi_def)
  have b: "marshal_untagged [VString cmd] = field_bytes (VString cmd)"
    by (simp add: marshal_untagged_def Marshal_bytes t)
  have "unmarshalFields 0 (map kind_of [VString cmd]) (concat (map field_bytes [VString cmd])) = Inr ([VString cmd], [])"
    using assms by (intro unmarshalFields_bytes) auto
  then show ?thesis
    unfolding b by (simp add: Unmarshal_def t Let_def putUint32_def del: unmarshalFields.simps)
qed


definition demo_exit :: "u32 \<Rightarrow> request" where
  "demo_exit n = \<lparr>req_type = ascii ''exit-status'', req_wantReply = False, req_payload = putUint32 n\<rparr>"


text \<open>A request for the exit status with fewer than four bytes makes the goroutine, and the program, panic.\<close>

lemma short_exit_status_panics:
  "session_wait [\<lparr>req_type = ascii ''exit-status'', req_wantReply = False, req_payload = [0]\<rparr>] = Some WaitPanic"
  by (simp add: session_wait_def)

end
