(* ===== verification/Ssh_Auth.thy ===== *)
theory Ssh_Auth
  imports Ssh_Session
begin

text \<open>
  Client authentication, \<^verbatim>\<open>src/golang.org/x/crypto/ssh/client_auth.go\<close>. The connection is the packets the server will
  send, or the errors of reading them, and the packets written. Keys sign through a function, passwords and answers
  come from callbacks. The loop over the methods has a termination proof: a method
  that was tried is never chosen again. A list of methods may be \<^verbatim>\<open>nil\<close>, which is not the empty
  list that \<^verbatim>\<open>parseNameList\<close> returns: the first keeps the methods known before, the second leaves none.
\<close>

section \<open>Definitions\<close>

record signer =
  pub_Type :: "byte list"
  pub_Marshal :: "byte list"
  signer_Sign :: "byte list \<Rightarrow> ssh_error + byte list \<times> byte list"

type_synonym challenge = "byte list \<Rightarrow> byte list \<Rightarrow> byte list list \<Rightarrow> bool list \<Rightarrow> ssh_error + byte list list"

datatype auth_method =
  NoneAuth
| PasswordCallback "ssh_error + byte list"
| PublicKeyCallback "ssh_error + signer list"
| KeyboardInteractive challenge

fun method_name :: "auth_method \<Rightarrow> byte list" where
  "method_name NoneAuth = ascii ''none''"
| "method_name (PasswordCallback _) = ascii ''password''"
| "method_name (PublicKeyCallback _) = ascii ''publickey''"
| "method_name (KeyboardInteractive _) = ascii ''keyboard-interactive''"

type_synonym packets = "(ssh_error + byte list) list"

datatype auth_result = AuthOk | AuthFailed "byte list list option" | AuthError ssh_error

type_synonym auth_state = "conn \<times> packets"

definition serviceUserAuth :: "byte list" where
  "serviceUserAuth = ascii ''ssh-userauth''"

definition serviceSSH :: "byte list" where
  "serviceSSH = ascii ''ssh-connection''"

definition index_panic :: ssh_error where
  "index_panic = RunTimePanic ''index out of range''"

text \<open>\<^verbatim>\<open>Marshal\<close> of the structs with the tag 50 that the methods declare.\<close>

definition marshal_50 :: "field_val list \<Rightarrow> byte list" where
  "marshal_50 vs = the (Marshal \<lparr>sshtype = ''50'', kinds = map kind_of vs\<rparr> vs)"

text \<open>The answer to a request: banners are skipped.\<close>

fun handleAuthResponse :: "packets \<Rightarrow> auth_result \<times> packets" where
  "handleAuthResponse [] = (AuthError EOF, [])"
| "handleAuthResponse (Inl e # r) = (AuthError e, r)"
| "handleAuthResponse (Inr [] # r) = (AuthError index_panic, r)"
| "handleAuthResponse (Inr (t # p) # r) =
     (if t = 53 then handleAuthResponse r
      else if t = 51 then
        (case unmarshal_msg (t # p) N_userAuthFailureMsg of
           Inl e \<Rightarrow> (AuthError e, r)
         | Inr (UserAuthFailureMsg methods _) \<Rightarrow> (AuthFailed (Some methods), r)
         | Inr _ \<Rightarrow> (AuthError index_panic, r))
      else if t = 52 then (AuthOk, r)
      else if t = 1 then (AuthError EOF, r)
      else (AuthError (UnexpectedMessage 52 t), r))"

text \<open>A packet written, and what happens after it.\<close>

definition write_then :: "byte list \<Rightarrow> (auth_state \<Rightarrow> auth_result \<times> auth_state) \<Rightarrow> auth_state \<Rightarrow> auth_result \<times> auth_state" where
  "write_then p f = (\<lambda>(k, ins).
     (case conn_writePacket k p of (Some e, k') \<Rightarrow> (AuthError e, k', ins) | (None, k') \<Rightarrow> f (k', ins)))"

definition response :: "auth_state \<Rightarrow> auth_result \<times> auth_state" where
  "response = (\<lambda>(k, ins). (case handleAuthResponse ins of (res, r) \<Rightarrow> (res, k, r)))"

definition none_auth :: "byte list \<Rightarrow> auth_state \<Rightarrow> auth_result \<times> auth_state" where
  "none_auth user =
     write_then (the (marshal_msg (UserAuthRequestMsg user serviceSSH (ascii ''none'') []))) response"

definition password_auth :: "ssh_error + byte list \<Rightarrow> byte list \<Rightarrow> auth_state \<Rightarrow> auth_result \<times> auth_state" where
  "password_auth cb user st =
     (case cb of
        Inl e \<Rightarrow> (AuthError e, st)
      | Inr pw \<Rightarrow>
          write_then (marshal_50 [VString user, VString serviceSSH, VString (ascii ''password''), VBool False, VString pw]) response st)"

definition publickey_msg :: "byte list \<Rightarrow> bool \<Rightarrow> signer \<Rightarrow> byte list \<Rightarrow> byte list" where
  "publickey_msg user hasSig sg sig =
     marshal_50 [VString user, VString serviceSSH, VString (ascii ''publickey''), VBool hasSig, VString (pub_Type sg),
       VBytes (pub_Marshal sg), VRest sig]"

fun confirmKeyAck :: "signer \<Rightarrow> packets \<Rightarrow> (ssh_error + bool) \<times> packets" where
  "confirmKeyAck sg [] = (Inl EOF, [])"
| "confirmKeyAck sg (Inl e # r) = (Inl e, r)"
| "confirmKeyAck sg (Inr [] # r) = (Inl index_panic, r)"
| "confirmKeyAck sg (Inr (t # p) # r) =
     (if t = 53 then confirmKeyAck sg r
      else if t = 60 then
        (case unmarshal_msg (t # p) N_userAuthPubKeyOkMsg of
           Inl e \<Rightarrow> (Inl e, r)
         | Inr (UserAuthPubKeyOkMsg algo key) \<Rightarrow> (Inr (algo = pub_Type sg \<and> key = pub_Marshal sg), r)
         | Inr _ \<Rightarrow> (Inl index_panic, r))
      else if t = 51 then (Inr False, r)
      else (Inl (UnexpectedMessage 52 t), r))"

definition validateKey :: "byte list \<Rightarrow> signer \<Rightarrow> auth_state \<Rightarrow> (ssh_error + bool) \<times> auth_state" where
  "validateKey user sg = (\<lambda>(k, ins).
     (case conn_writePacket k (publickey_msg user False sg []) of
        (Some e, k') \<Rightarrow> (Inl e, k', ins)
      | (None, k') \<Rightarrow> (case confirmKeyAck sg ins of (res, r) \<Rightarrow> (res, k', r))))"

fun valid_keys :: "byte list \<Rightarrow> signer list \<Rightarrow> auth_state \<Rightarrow> (ssh_error + signer list) \<times> auth_state" where
  "valid_keys user [] st = (Inr [], st)"
| "valid_keys user (sg # sgs) st =
     (case validateKey user sg st of
        (Inl e, st') \<Rightarrow> (Inl e, st')
      | (Inr ok, st') \<Rightarrow>
          (case valid_keys user sgs st' of
             (Inl e, st'') \<Rightarrow> (Inl e, st'')
           | (Inr vs, st'') \<Rightarrow> (Inr (if ok then sg # vs else vs), st'')))"

definition buildDataSignedForAuth :: "byte list \<Rightarrow> byte list \<Rightarrow> byte list \<Rightarrow> byte list \<Rightarrow> byte list \<Rightarrow> byte list \<Rightarrow> byte list" where
  "buildDataSignedForAuth sid user service meth algo pubKey =
     marshal_untagged [VBytes sid, VUint8 50, VString user, VString service, VString meth, VBool True, VBytes algo, VBytes pubKey]"

text \<open>The second stage, over the keys the server knows; \<open>methods\<close> is the answer to the last one.\<close>

fun sign_keys :: "byte list \<Rightarrow> byte list \<Rightarrow> byte list list option \<Rightarrow> signer list \<Rightarrow> auth_state \<Rightarrow> auth_result \<times> auth_state" where
  "sign_keys sid user methods [] st = (AuthFailed methods, st)"
| "sign_keys sid user methods (sg # sgs) st =
     (case signer_Sign sg (buildDataSignedForAuth sid user serviceSSH (ascii ''publickey'') (pub_Type sg) (pub_Marshal sg)) of
        Inl e \<Rightarrow> (AuthError e, st)
      | Inr (fmt, blob) \<Rightarrow>
          (case write_then (publickey_msg user True sg (writeString (marshal_untagged [VString fmt, VBytes blob]))) response st of
             (AuthFailed ms, st') \<Rightarrow> sign_keys sid user ms sgs st'
           | res \<Rightarrow> res))"

definition publickey_auth :: "ssh_error + signer list \<Rightarrow> byte list \<Rightarrow> byte list \<Rightarrow> auth_state \<Rightarrow> auth_result \<times> auth_state" where
  "publickey_auth cb sid user st =
     (case cb of
        Inl e \<Rightarrow> (AuthError e, st)
      | Inr signers \<Rightarrow>
          (case valid_keys user signers st of
             (Inl e, st') \<Rightarrow> (AuthError e, st')
           | (Inr vs, st') \<Rightarrow> sign_keys sid user None vs st'))"

text \<open>The prompts of a keyboard-interactive request: \<open>n\<close> pairs of a string and a flag, and nothing after them.\<close>

fun parse_prompts :: "nat \<Rightarrow> byte list \<Rightarrow> ssh_error + byte list list \<times> bool list" where
  "parse_prompts 0 rest =
     (if rest \<noteq> [] then Inl (OtherError ''ssh: extra data following keyboard-interactive pairs'') else Inr ([], []))"
| "parse_prompts (Suc n) rest =
     (case parseString rest of
        None \<Rightarrow> Inl (OtherError ''ssh: prompt format error'')
      | Some (p, []) \<Rightarrow> Inl (OtherError ''ssh: prompt format error'')
      | Some (p, b # r) \<Rightarrow>
          (case parse_prompts n r of Inl e \<Rightarrow> Inl e | Inr (ps, es) \<Rightarrow> Inr (p # ps, (b \<noteq> 0) # es)))"

definition info_response :: "byte list list \<Rightarrow> byte list" where
  "info_response as = 61 # putUint32 (word_of_nat (length as)) @ concat (map writeString as)"

definition answer_prompts :: "challenge \<Rightarrow> byte list \<Rightarrow> ssh_error + byte list" where
  "answer_prompts cb packet =
     (case unmarshal_msg packet N_userAuthInfoRequestMsg of
        Inl e \<Rightarrow> Inl e
      | Inr (UserAuthInfoRequestMsg usr ins _ num prompts) \<Rightarrow>
          (case parse_prompts (unat num) prompts of
             Inl e \<Rightarrow> Inl e
           | Inr (ps, es) \<Rightarrow>
               (case cb usr ins ps es of
                  Inl e \<Rightarrow> Inl e
                | Inr as \<Rightarrow>
                    if length as \<noteq> length ps
                    then Inl (OtherError ''ssh: not enough answers from keyboard-interactive callback'')
                    else Inr (info_response as)))
      | Inr _ \<Rightarrow> Inl index_panic)"

fun keyboard_loop :: "challenge \<Rightarrow> conn \<Rightarrow> packets \<Rightarrow> auth_result \<times> auth_state" where
  "keyboard_loop cb k [] = (AuthError EOF, k, [])"
| "keyboard_loop cb k (Inl e # r) = (AuthError e, k, r)"
| "keyboard_loop cb k (Inr [] # r) = (AuthError index_panic, k, r)"
| "keyboard_loop cb k (Inr (t # p) # r) =
     (if t = 53 then keyboard_loop cb k r
      else if t = 60 then
        (case answer_prompts cb (t # p) of
           Inl e \<Rightarrow> (AuthError e, k, r)
         | Inr reply \<Rightarrow>
             (case conn_writePacket k reply of
                (Some e, k') \<Rightarrow> (AuthError e, k', r) | (None, k') \<Rightarrow> keyboard_loop cb k' r))
      else if t = 51 then
        (case unmarshal_msg (t # p) N_userAuthFailureMsg of
           Inl e \<Rightarrow> (AuthError e, k, r)
         | Inr (UserAuthFailureMsg methods _) \<Rightarrow> (AuthFailed (Some methods), k, r)
         | Inr _ \<Rightarrow> (AuthError index_panic, k, r))
      else if t = 52 then (AuthOk, k, r)
      else (AuthError (UnexpectedMessage 60 t), k, r))"

definition keyboard_auth :: "challenge \<Rightarrow> byte list \<Rightarrow> auth_state \<Rightarrow> auth_result \<times> auth_state" where
  "keyboard_auth cb user =
     write_then (marshal_50 [VString user, VString serviceSSH, VString (ascii ''keyboard-interactive''), VString [], VString []])
       (\<lambda>(k, ins). keyboard_loop cb k ins)"

fun run_auth :: "byte list \<Rightarrow> byte list \<Rightarrow> auth_method \<Rightarrow> auth_state \<Rightarrow> auth_result \<times> auth_state" where
  "run_auth sid user NoneAuth st = none_auth user st"
| "run_auth sid user (PasswordCallback cb) st = password_auth cb user st"
| "run_auth sid user (PublicKeyCallback cb) st = publickey_auth cb sid user st"
| "run_auth sid user (KeyboardInteractive cb) st = keyboard_auth cb user st"

text \<open>The next method: the first one configured that is not tried yet and that the server offers.\<close>

definition find_next :: "auth_method list \<Rightarrow> byte list list \<Rightarrow> byte list list \<Rightarrow> auth_method option" where
  "find_next auths tried methods = List.find (\<lambda>a. method_name a \<notin> set tried \<and> method_name a \<in> set methods) auths"

datatype client_result = Authenticated | AuthAborted ssh_error | NoMethodsRemain "byte list list"

lemma find_next_Some:
  "find_next auths tried methods = Some a \<Longrightarrow> a \<in> set auths \<and> method_name a \<notin> set tried \<and> method_name a \<in> set methods"
  by (auto simp: find_next_def find_Some_iff)

definition untried :: "auth_method list \<Rightarrow> byte list list \<Rightarrow> nat" where
  "untried auths tried = length (filter (\<lambda>b. method_name b \<notin> set tried) auths)"

lemma untried_decreases:
  assumes "find_next auths tried methods = Some a"
  shows "untried auths (tried @ [method_name a]) < untried auths tried"
proof -
  have m: "a \<in> set (filter (\<lambda>b. method_name b \<notin> set tried) auths)" using find_next_Some [OF assms] by simp
  have "filter (\<lambda>b. method_name b \<notin> set (tried @ [method_name a])) auths =
      filter (\<lambda>b. method_name b \<noteq> method_name a) (filter (\<lambda>b. method_name b \<notin> set tried) auths)"
    unfolding filter_filter by (intro filter_cong) auto
  then show ?thesis unfolding untried_def using length_filter_less [OF m, of "\<lambda>b. method_name b \<noteq> method_name a"] by simp
qed

function auth_loop ::
  "byte list \<Rightarrow> byte list \<Rightarrow> auth_method list \<Rightarrow> byte list list \<Rightarrow> byte list list \<Rightarrow> auth_method \<Rightarrow> auth_state \<Rightarrow>
   client_result \<times> byte list list \<times> auth_state" where
  "auth_loop sid user auths tried lastMethods a st =
     (case run_auth sid user a st of
        (AuthError e, st') \<Rightarrow> (AuthAborted e, tried @ [method_name a], st')
      | (AuthOk, st') \<Rightarrow> (Authenticated, tried @ [method_name a], st')
      | (AuthFailed ms, st') \<Rightarrow>
          (let tried' = tried @ [method_name a]; methods = (case ms of None \<Rightarrow> lastMethods | Some l \<Rightarrow> l)
           in case find_next auths tried' methods of
                None \<Rightarrow> (NoMethodsRemain tried', tried', st')
              | Some a' \<Rightarrow> auth_loop sid user auths tried' methods a' st'))"
  by pat_completeness auto
termination
  by (relation "measure (\<lambda>(sid, user, auths, tried, lastMethods, a, st). untried auths (tried @ [method_name a]))")
     (simp_all only: in_measure prod.case wf_measure untried_decreases)

declare auth_loop.simps [simp del]

definition clientAuthenticate ::
  "byte list \<Rightarrow> byte list \<Rightarrow> auth_method list \<Rightarrow> auth_state \<Rightarrow> client_result \<times> byte list list \<times> auth_state" where
  "clientAuthenticate sid user auths = (\<lambda>(k, ins).
     (case conn_writePacket k (the (marshal_msg (ServiceRequestMsg serviceUserAuth))) of
        (Some e, k') \<Rightarrow> (AuthAborted e, [], k', ins)
      | (None, k') \<Rightarrow>
          (case ins of
             [] \<Rightarrow> (AuthAborted EOF, [], k', [])
           | Inl e # r \<Rightarrow> (AuthAborted e, [], k', r)
           | Inr packet # r \<Rightarrow>
               (case unmarshal_msg packet N_serviceAcceptMsg of
                  Inl e \<Rightarrow> (AuthAborted e, [], k', r)
                | Inr _ \<Rightarrow> auth_loop sid user auths [] [] NoneAuth (k', r)))))"

section \<open>Who is let in\<close>

text \<open>
  What a run of a method leaves of the packets of the server: a rest of them, and if it
  succeeded, the last packet it took was the server's message of success.
\<close>

definition honest :: "packets \<Rightarrow> auth_result \<Rightarrow> packets \<Rightarrow> bool" where
  "honest ins res r \<longleftrightarrow> suffix r ins \<and> (res = AuthOk \<longrightarrow> (\<exists>pre p. ins = pre @ Inr (52 # p) # r))"

lemma honest_Cons: "honest r res r' \<Longrightarrow> honest (x # r) res r'"
  by (auto simp: honest_def suffix_def intro: exI [of _ "x # _"])

lemma honest_refl: "res \<noteq> AuthOk \<Longrightarrow> honest r res r"
  by (simp add: honest_def)

lemma honest_drop: "suffix mid ins \<Longrightarrow> honest mid res r \<Longrightarrow> honest ins res r"
  by (auto simp: honest_def suffix_def)

lemma honest_success: "honest (Inr (52 # p) # r) AuthOk r"
  by (auto simp: honest_def suffix_def)

lemma handleAuthResponse_honest: "handleAuthResponse ins = (res, r) \<Longrightarrow> honest ins res r"
proof (induction ins rule: handleAuthResponse.induct)
  case (4 t p r')
  then show ?case
    by (cases "t = 52") (auto intro: honest_Cons honest_refl honest_success split: if_splits sum.splits message.splits)
qed (auto intro: honest_Cons honest_refl)

lemma keyboard_loop_honest: "keyboard_loop cb k ins = (res, k', r) \<Longrightarrow> honest ins res r"
proof (induction cb k ins rule: keyboard_loop.induct)
  case (4 cb k t p r')
  then show ?case
    by (cases "t = 52")
       (auto intro: honest_Cons honest_refl honest_success split: if_splits sum.splits message.splits option.splits prod.splits)
qed (auto intro: honest_Cons honest_refl)

lemma response_honest: "response st = (res, k', r) \<Longrightarrow> honest (snd st) res r"
  by (auto simp: response_def handleAuthResponse_honest split: prod.splits)

lemma write_then_honest:
  assumes "write_then p f (k, ins) = (res, k', r)" and "\<And>k1. f (k1, ins) = (res, k', r) \<Longrightarrow> honest ins res r"
  shows "honest ins res r"
  using assms by (auto simp: write_then_def intro: honest_refl split: prod.splits option.splits)

lemma write_response_honest: "write_then p response (k, ins) = (res, k', r) \<Longrightarrow> honest ins res r"
  by (erule write_then_honest) (use response_honest in fastforce)

lemma confirmKeyAck_suffix: "confirmKeyAck sg ins = (res, r) \<Longrightarrow> suffix r ins"
  by (induction sg ins rule: confirmKeyAck.induct)
     (auto intro: suffix_ConsI split: if_splits sum.splits message.splits)

lemma valid_keys_suffix: "valid_keys user sgs st = (res, st') \<Longrightarrow> suffix (snd st') (snd st)"
proof (induction sgs arbitrary: st res st')
  case (Cons sg sgs)
  obtain v st1 where v: "validateKey user sg st = (v, st1)" by (rule prod.exhaust)
  then have s: "suffix (snd st1) (snd st)"
    by (cases st) (auto simp: validateKey_def intro: confirmKeyAck_suffix split: prod.splits option.splits)
  obtain w st2 where w: "valid_keys user sgs st1 = (w, st2)" by (rule prod.exhaust)
  have "suffix (snd st2) (snd st)" using Cons.IH [OF w] s by (rule suffix_order.trans)
  then show ?case using Cons.prems v w s by (auto split: sum.splits)
qed simp

lemma sign_keys_honest: "sign_keys sid user ms sgs (k, ins) = (res, k', r) \<Longrightarrow> honest ins res r"
proof (induction sgs arbitrary: ms k ins)
  case (Cons sg sgs)
  show ?case
  proof (cases "signer_Sign sg (buildDataSignedForAuth sid user serviceSSH (ascii ''publickey'') (pub_Type sg) (pub_Marshal sg))")
    case (Inl e)
    then show ?thesis using Cons.prems by (auto intro: honest_refl)
  next
    case (Inr fb)
    obtain fmt blob where fb: "fb = (fmt, blob)" by force
    obtain res1 k1 r1 where w:
      "write_then (publickey_msg user True sg (writeString (marshal_untagged [VString fmt, VBytes blob]))) response (k, ins) = (res1, k1, r1)"
      by (metis prod_cases3)
    then have h: "honest ins res1 r1" by (rule write_response_honest)
    show ?thesis
    proof (cases res1)
      case (AuthFailed ms')
      then have "sign_keys sid user ms' sgs (k1, r1) = (res, k', r)" using Cons.prems Inr fb w by simp
      then have "honest r1 res r" by (rule Cons.IH)
      with h show ?thesis using honest_drop by (auto simp: honest_def [of ins res1])
    qed (use Cons.prems Inr fb w h in auto)
  qed
qed (auto intro: honest_refl)

lemma run_auth_honest:
  assumes "run_auth sid user a (k, ins) = (res, k', r)"
  shows "honest ins res r"
proof (cases a)
  case NoneAuth
  then show ?thesis using assms by (auto simp: none_auth_def intro: write_response_honest)
next
  case (PasswordCallback cb)
  then show ?thesis
    using assms by (auto simp: password_auth_def intro: honest_refl write_response_honest split: sum.splits)
next
  case (KeyboardInteractive cb)
  have "honest ins res r"
    by (rule write_then_honest [OF assms [unfolded KeyboardInteractive run_auth.simps keyboard_auth_def]])
       (simp add: keyboard_loop_honest)
  then show ?thesis .
next
  case (PublicKeyCallback cb)
  show ?thesis
  proof (cases cb)
    case (Inr signers)
    obtain v st1 where v: "valid_keys user signers (k, ins) = (v, st1)" by (rule prod.exhaust)
    have sf: "suffix (snd st1) ins" using valid_keys_suffix [OF v] by simp
    show ?thesis
    proof (cases v)
      case (Inl e)
      then show ?thesis using assms PublicKeyCallback Inr v sf by (auto simp: publickey_auth_def honest_def)
    next
      case (Inr vs)
      then have "sign_keys sid user None vs (fst st1, snd st1) = (res, k', r)"
        using assms PublicKeyCallback \<open>cb = Inr signers\<close> v by (simp add: publickey_auth_def)
      then show ?thesis using sign_keys_honest honest_drop [OF sf] by blast
    qed
  qed (use assms PublicKeyCallback in \<open>auto simp: publickey_auth_def intro: honest_refl\<close>)
qed

lemma auth_loop_sound:
  assumes "auth_loop sid user auths tried lm a (k, ins) = (res, tried', k', r)"
    and "method_name a \<notin> set tried" and "distinct tried"
  shows "\<exists>more. tried' = tried @ method_name a # more \<and> distinct tried' \<and> set more \<subseteq> method_name ` set auths
    \<and> suffix r ins \<and> (res = Authenticated \<longrightarrow> (\<exists>pre p. ins = pre @ Inr (52 # p) # r))
    \<and> (\<forall>ms. res = NoMethodsRemain ms \<longrightarrow> ms = tried')"
  using assms
proof (induction sid user auths tried lm a "(k, ins)" arbitrary: k ins rule: auth_loop.induct)
  case (1 sid user auths tried lm a k ins)
  obtain res1 k1 r1 where ra: "run_auth sid user a (k, ins) = (res1, k1, r1)" by (metis prod_cases3)
  have h: "honest ins res1 r1" using run_auth_honest [OF ra] .
  have d: "distinct (tried @ [method_name a])" using "1.prems" by simp
  show ?case
  proof (cases res1)
    case (AuthFailed ms)
    define methods where "methods = (case ms of None \<Rightarrow> lm | Some l \<Rightarrow> l)"
    show ?thesis
    proof (cases "find_next auths (tried @ [method_name a]) methods")
      case None
      then show ?thesis
        using "1.prems" ra AuthFailed h d by (subst (asm) auth_loop.simps) (auto simp: methods_def Let_def honest_def)
    next
      case (Some a')
      note f = find_next_Some [OF Some]
      have "auth_loop sid user auths (tried @ [method_name a]) methods a' (k1, r1) = (res, tried', k', r)"
        using "1.prems"(1) ra AuthFailed Some by (subst (asm) auth_loop.simps) (simp add: methods_def Let_def)
      from "1.hyps" [OF ra [symmetric] AuthFailed refl methods_def Some this] f d
      obtain more where m: "tried' = (tried @ [method_name a]) @ method_name a' # more" "distinct tried'"
        "set more \<subseteq> method_name ` set auths" "suffix r r1" "res = Authenticated \<longrightarrow> (\<exists>pre p. r1 = pre @ Inr (52 # p) # r)"
        "\<forall>ms. res = NoMethodsRemain ms \<longrightarrow> ms = tried'" by auto
      have "suffix r1 ins" using h by (simp add: honest_def)
      then have "suffix r ins" "res = Authenticated \<longrightarrow> (\<exists>pre p. ins = pre @ Inr (52 # p) # r)"
        using m(4,5) by (auto simp: suffix_def)
      then show ?thesis using m f by (intro exI [of _ "method_name a' # more"]) auto
    qed
  qed (use "1.prems" ra h d in \<open>subst (asm) auth_loop.simps, auto simp: honest_def\<close>)+
qed

text \<open>
  C13. Authentication comes to an end and lets nobody in by itself: the client tries the method
  none first and then only methods it is configured with, each at most once; it reports
  success only directly after a message of success from the server, and when it gives up, the
  methods it names are exactly those it tried. Every packet it takes is one the server sent.
\<close>

theorem clientAuthenticate_sound:
  assumes "clientAuthenticate sid user auths (k, ins) = (res, tried, k', rest)"
  shows "distinct tried \<and> (tried = [] \<or> hd tried = ascii ''none'') \<and> set (tl tried) \<subseteq> method_name ` set auths
    \<and> length tried \<le> Suc (card (method_name ` set auths)) \<and> suffix rest ins
    \<and> (res = Authenticated \<longrightarrow> (\<exists>pre p. ins = pre @ Inr (52 # p) # rest))
    \<and> (\<forall>ms. res = NoMethodsRemain ms \<longrightarrow> ms = tried)"
proof (cases "\<exists>k1 packet r m. conn_writePacket k (the (marshal_msg (ServiceRequestMsg serviceUserAuth))) = (None, k1)
    \<and> ins = Inr packet # r \<and> unmarshal_msg packet N_serviceAcceptMsg = Inr m")
  case True
  then obtain k1 packet r where r: "ins = Inr packet # r"
    "auth_loop sid user auths [] [] NoneAuth (k1, r) = (res, tried, k', rest)"
    using assms by (auto simp: clientAuthenticate_def)
  from auth_loop_sound [OF r(2)] obtain more where m: "tried = ascii ''none'' # more" "distinct tried"
    "set more \<subseteq> method_name ` set auths" "suffix rest r" "res = Authenticated \<longrightarrow> (\<exists>pre p. r = pre @ Inr (52 # p) # rest)"
    "\<forall>ms. res = NoMethodsRemain ms \<longrightarrow> ms = tried" by auto
  have "length more \<le> card (method_name ` set auths)"
    using m(1-3) by (metis card_mono distinct.simps(2) distinct_card finite_imageI finite_set)
  moreover have "res = Authenticated \<longrightarrow> (\<exists>pre p. ins = pre @ Inr (52 # p) # rest)"
    using m(5) r(1) by (metis append_Cons)
  ultimately show ?thesis using m r(1) by (auto intro: suffix_ConsI)
next
  case False
  then show ?thesis
    using assms by (auto simp: clientAuthenticate_def suffix_def split: option.splits prod.splits list.splits sum.splits)
qed

definition demo_server :: packets where
  "demo_server =
     [Inr (the (marshal_msg (ServiceAcceptMsg serviceUserAuth))), Inr [53, 0, 0, 0, 0, 0, 0, 0, 0],
      Inr (the (marshal_msg (UserAuthFailureMsg [ascii ''publickey'', ascii ''password''] False))), Inr [52]]"

theorem clientAuthenticate_sound_witness:
  "\<exists>tried k'. clientAuthenticate [1, 2] (ascii ''root'')
      [PublicKeyCallback (Inr []), PasswordCallback (Inr (ascii ''pw''))] (\<lparr>sent = [], answers = []\<rparr>, demo_server)
     = (Authenticated, tried, k', []) \<and> tried = [ascii ''none'', ascii ''publickey'', ascii ''password'']
    \<and> length (sent k') = 3 \<and> distinct tried \<and> (\<exists>pre p. demo_server = pre @ [Inr (52 # p)])"
proof -
  let ?run = "clientAuthenticate [1, 2] (ascii ''root'')
      [PublicKeyCallback (Inr []), PasswordCallback (Inr (ascii ''pw''))] (\<lparr>sent = [], answers = []\<rparr>, demo_server)"
  have e: "?run = (Authenticated, [ascii ''none'', ascii ''publickey'', ascii ''password''], fst (snd (snd ?run)), [])"
    "length (sent (fst (snd (snd ?run)))) = 3" by code_simp+
  have c: "distinct [ascii ''none'', ascii ''publickey'', ascii ''password'']" "\<exists>pre p. demo_server = pre @ [Inr (52 # p)]"
    using clientAuthenticate_sound [OF e(1)] by blast+
  show ?thesis by (rule exI, rule exI, (rule conjI, rule e refl c(1))+, rule c(2))
qed

end
