(* ===== verification/Go_Scanner.thy ===== *)
theory Go_Scanner
  imports Go_Strings
begin

text \<open>
  \<^verbatim>\<open>bufio.Scanner\<close> with its default split function, \<^verbatim>\<open>ScanLines\<close>: a token is a line without its
  line feed and without one carriage return before it; a line of 64 KiB or more stops the scanner
  with an error and gives no token.
\<close>

abbreviation line_feed :: char where
  "line_feed \<equiv> CHR 0x0A"

definition carriage_return :: char where
  "carriage_return = CHR 0x0D"

definition raw_line :: "string \<Rightarrow> string" where
  "raw_line s = takeWhile (\<lambda>c. c \<noteq> line_feed) s"

definition dropCR :: "string \<Rightarrow> string" where
  "dropCR l = (if l \<noteq> [] \<and> last l = carriage_return then butlast l else l)"

definition maxTokenSize :: nat where
  "maxTokenSize = 65536"

datatype scan_result = Token string | TooLong | AtEnd

definition scan_line :: "string \<Rightarrow> scan_result" where
  "scan_line s =
     (if s = [] then AtEnd
      else if length (raw_line s) \<ge> maxTokenSize then TooLong
      else Token (dropCR (raw_line s)))"

text \<open>\<^verbatim>\<open>len(scanner.Bytes())\<close> after one \<^verbatim>\<open>Scan\<close>.\<close>

definition scan_length :: "string \<Rightarrow> nat" where
  "scan_length s = (case scan_line s of Token t \<Rightarrow> length t | _ \<Rightarrow> 0)"

text \<open>All tokens, and whether the scanner stopped with an error.\<close>

function scan_all :: "string \<Rightarrow> string list \<times> bool" where
  "scan_all s =
     (case scan_line s of
        AtEnd \<Rightarrow> ([], False)
      | TooLong \<Rightarrow> ([], True)
      | Token t \<Rightarrow> (case scan_all (drop (length (raw_line s) + 1) s) of (ts, e) \<Rightarrow> (t # ts, e)))"
  by pat_completeness auto
termination
  by (relation "measure length") (auto simp: scan_line_def split: if_splits)

declare scan_all.simps [simp del]

lemma dropCR_id: "carriage_return \<notin> set l \<Longrightarrow> dropCR l = l"
  by (metis dropCR_def last_in_set)

lemma set_raw_line: "set (raw_line s) \<subseteq> set s"
  by (auto simp: raw_line_def dest: set_takeWhileD)

lemma raw_line_append: "line_feed \<notin> set l \<Longrightarrow> raw_line (l @ line_feed # r) = l"
  by (simp add: raw_line_def takeWhile_append takeWhile_eq_all_conv)

lemma raw_line_end: "line_feed \<notin> set l \<Longrightarrow> raw_line l = l"
  by (auto simp: raw_line_def takeWhile_eq_all_conv)

text \<open>Scanning gives back the lines of a text.\<close>

lemma scan_all_lines:
  assumes "list_all (\<lambda>l. line_feed \<notin> set l \<and> carriage_return \<notin> set l \<and> length l < maxTokenSize) ls"
  shows "scan_all (concat (map (\<lambda>l. l @ [line_feed]) ls)) = (ls, False)"
  using assms
proof (induction ls)
  case Nil
  then show ?case by (simp add: scan_all.simps scan_line_def)
next
  case (Cons l ls)
  then have r: "raw_line (l @ line_feed # concat (map (\<lambda>l. l @ [line_feed]) ls)) = l"
    by (intro raw_line_append) simp
  show ?case
    using Cons by (subst scan_all.simps) (simp add: scan_line_def r dropCR_id)
qed

end
