(* ===== verification/Gocui_View.thy ===== *)
theory Gocui_View
  imports Go_Utf8 Go_Scanner
begin

text \<open>
  A window of the terminal interface, \<^verbatim>\<open>src/gocui/view.go\<close> and \<^verbatim>\<open>src/gocui/edit.go\<close>. The text is a
  list of lines, each nil (\<open>None\<close>) or a list of runes; a line that is made longer is filled
  with zero runes, as the allocation does. What is drawn is the list of the calls of
  \<^verbatim>\<open>termbox.SetCell\<close>. Methods that fail return an error and leave the view as it is. \<open>Panicked\<close> among the errors is a run-time
  panic of a handler of the client, which goes the way of an error up through every caller.
\<close>

section \<open>Views\<close>

type_synonym attribute = int

record view =
  vname :: string
  x0 :: int
  y0 :: int
  x1 :: int
  y1 :: int
  ox :: int
  oy :: int
  cx :: int
  cy :: int
  vlines :: "rune list option list"
  bgColor :: attribute
  fgColor :: attribute
  selBgColor :: attribute
  selFgColor :: attribute
  overwrite :: bool
  Editable :: bool
  Highlight :: bool

record cell =
  cell_x :: int
  cell_y :: int
  cell_ch :: rune
  cell_fg :: attribute
  cell_bg :: attribute

datatype gerror = InvalidPoint | InvalidDimensions | InvalidName | UnkView | Quit | NullLayout
  | UnknownType | ScannerError | EventErr string | Panicked

definition newView :: "string \<Rightarrow> int \<Rightarrow> int \<Rightarrow> int \<Rightarrow> int \<Rightarrow> view" where
  "newView name a0 b0 a1 b1 =
     \<lparr>vname = name, x0 = a0, y0 = b0, x1 = a1, y1 = b1, ox = 0, oy = 0, cx = 0, cy = 0, vlines = [],
      bgColor = 0, fgColor = 0, selBgColor = 0, selFgColor = 0, overwrite = False, Editable = False,
      Highlight = False\<rparr>"

definition view_Size :: "view \<Rightarrow> int \<times> int" where
  "view_Size v = (x1 v - x0 v - 1, y1 v - y0 v - 1)"

definition in_view :: "view \<Rightarrow> int \<Rightarrow> int \<Rightarrow> bool" where
  "in_view v x y =
     (case view_Size v of (maxX, maxY) \<Rightarrow> \<not> (x < 0 \<or> x \<ge> maxX \<or> y < 0 \<or> y \<ge> maxY))"

definition view_setRune :: "view \<Rightarrow> int \<Rightarrow> int \<Rightarrow> rune \<Rightarrow> gerror + cell" where
  "view_setRune v x y ch =
     (if \<not> in_view v x y then Inl InvalidPoint
      else Inr \<lparr>cell_x = x0 v + x + 1, cell_y = y0 v + y + 1, cell_ch = ch,
                cell_fg = (if Highlight v \<and> y = cy v then selFgColor v else fgColor v),
                cell_bg = (if Highlight v \<and> y = cy v then selBgColor v else bgColor v)\<rparr>)"

definition SetCursor :: "view \<Rightarrow> int \<Rightarrow> int \<Rightarrow> gerror option \<times> view" where
  "SetCursor v x y = (if \<not> in_view v x y then (Some InvalidPoint, v) else (None, v\<lparr>cx := x, cy := y\<rparr>))"

definition SetOrigin :: "view \<Rightarrow> int \<Rightarrow> int \<Rightarrow> gerror option \<times> view" where
  "SetOrigin v x y = (if x < 0 \<or> y < 0 then (Some InvalidPoint, v) else (None, v\<lparr>ox := x, oy := y\<rparr>))"

text \<open>\<^verbatim>\<open>Write\<close>: the lines of the text are appended, those before an over-long line too.\<close>

definition view_Write :: "view \<Rightarrow> string \<Rightarrow> gerror option \<times> view" where
  "view_Write v p =
     (case scan_all p of
        (ts, err) \<Rightarrow>
          (if err then Some ScannerError else None, v\<lparr>vlines := vlines v @ map (\<lambda>t. Some (to_runes t)) ts\<rparr>))"

section \<open>Drawing\<close>

text \<open>One line at row \<open>y\<close>: \<open>j\<close> is the index of the rune, \<open>x\<close> its column.\<close>

fun draw_line :: "view \<Rightarrow> int \<Rightarrow> int \<Rightarrow> int \<Rightarrow> rune list \<Rightarrow> gerror + cell list" where
  "draw_line v y j x [] = Inr []"
| "draw_line v y j x (ch # chs) =
     (if j < ox v then draw_line v y (j + 1) x chs
      else if in_view v x y then
        (case view_setRune v x y ch of
           Inl e \<Rightarrow> Inl e
         | Inr c \<Rightarrow> (case draw_line v y (j + 1) (x + 1) chs of Inl e \<Rightarrow> Inl e | Inr cs \<Rightarrow> Inr (c # cs)))
      else draw_line v y (j + 1) (x + 1) chs)"

fun draw_lines :: "view \<Rightarrow> int \<Rightarrow> int \<Rightarrow> rune list option list \<Rightarrow> gerror + cell list" where
  "draw_lines v i y [] = Inr []"
| "draw_lines v i y (l # ls) =
     (if i < oy v then draw_lines v (i + 1) y ls
      else (case draw_line v y 0 0 (case l of None \<Rightarrow> [] | Some rs \<Rightarrow> rs) of
              Inl e \<Rightarrow> Inl e
            | Inr cs \<Rightarrow> (case draw_lines v (i + 1) (y + 1) ls of Inl e \<Rightarrow> Inl e | Inr cs' \<Rightarrow> Inr (cs @ cs'))))"

definition view_draw :: "view \<Rightarrow> gerror + cell list" where
  "view_draw v = draw_lines v 0 0 (vlines v)"

definition clearRunes :: "view \<Rightarrow> cell list" where
  "clearRunes v =
     (case view_Size v of
        (maxX, maxY) \<Rightarrow>
          concat (map (\<lambda>x. map (\<lambda>y. \<lparr>cell_x = x0 v + x + 1, cell_y = y0 v + y + 1, cell_ch = 32,
                                   cell_fg = fgColor v, cell_bg = bgColor v\<rparr>) [0..maxY - 1]) [0..maxX - 1]))"

definition view_Clear :: "view \<Rightarrow> cell list \<times> view" where
  "view_Clear v = (let v' = v\<lparr>vlines := []\<rparr> in (clearRunes v', v'))"

section \<open>Editing the text\<close>

definition resize :: "nat \<Rightarrow> 'a \<Rightarrow> 'a list \<Rightarrow> 'a list" where
  "resize n d xs = xs @ replicate (n - length xs) d"

text \<open>Inserting at \<open>x\<close>: append a blank, shift the rest by one, store.\<close>

definition insert_rune :: "nat \<Rightarrow> rune \<Rightarrow> rune list \<Rightarrow> rune list" where
  "insert_rune x ch l =
     (let l1 = l @ [32]; l2 = take (x + 1) l1 @ take (length l1 - (x + 1)) (drop x l1)
      in l2[x := ch])"

definition write_line :: "bool \<Rightarrow> nat \<Rightarrow> rune \<Rightarrow> rune list option \<Rightarrow> rune list" where
  "write_line over x ch line =
     (let l = (case line of None \<Rightarrow> replicate (x + 1) 0 | Some rs \<Rightarrow> resize (x + 1) 0 rs)
      in if \<not> over then insert_rune x ch l else l[x := ch])"

definition writeRune :: "view \<Rightarrow> int \<Rightarrow> int \<Rightarrow> rune \<Rightarrow> gerror option \<times> view" where
  "writeRune v x' y' ch =
     (let x = ox v + x'; y = oy v + y'
      in if x < 0 \<or> y < 0 then (Some InvalidPoint, v)
         else
           let ls = resize (nat y + 1) None (vlines v)
           in (None, v\<lparr>vlines := ls[nat y := Some (write_line (overwrite v) (nat x) ch (ls ! nat y))]\<rparr>))"

definition deleteRune :: "view \<Rightarrow> int \<Rightarrow> int \<Rightarrow> gerror option \<times> view" where
  "deleteRune v x' y' =
     (let x = ox v + x'; y = oy v + y'
      in if x < 0 \<or> y < 0 \<or> y \<ge> int (length (vlines v)) then (Some InvalidPoint, v)
         else (case vlines v ! nat y of
                 None \<Rightarrow> (Some InvalidPoint, v)
               | Some l \<Rightarrow>
                   if x \<ge> int (length l) then (Some InvalidPoint, v)
                   else (None, v\<lparr>vlines := (vlines v)[nat y :=
                                  Some (take (nat x) l @ drop (nat x + 1) l @ [32])]\<rparr>)))"

definition addLine :: "view \<Rightarrow> int \<Rightarrow> gerror option \<times> view" where
  "addLine v y' =
     (let y = oy v + y'
      in if y < 0 \<or> y \<ge> int (length (vlines v)) then (Some InvalidPoint, v)
         else (None, v\<lparr>vlines := take (nat y) (vlines v) @ None # drop (nat y) (vlines v)\<rparr>))"

definition line_runes :: "rune list option \<Rightarrow> rune list" where
  "line_runes l = (case l of None \<Rightarrow> [] | Some rs \<Rightarrow> rs)"

definition view_Line :: "view \<Rightarrow> int \<Rightarrow> gerror + string" where
  "view_Line v y' =
     (let y = oy v + y'
      in if y < 0 \<or> y \<ge> int (length (vlines v)) then Inl InvalidPoint
         else Inr (of_runes (line_runes (vlines v ! nat y))))"

definition is_sep :: "rune \<Rightarrow> bool" where
  "is_sep r \<longleftrightarrow> r = 32 \<or> r = 0"

text \<open>
  \<^verbatim>\<open>Word\<close>. It cuts the encoded line at \<open>x\<close>, an index of runes, as if it were one of bytes. The
  separators are one byte long, so the byte positions found are those of the bytes 32 and 0.
\<close>

definition sep_char :: "char \<Rightarrow> bool" where
  "sep_char c \<longleftrightarrow> c = CHR '' '' \<or> c = CHR 0x00"

fun first_index :: "('a \<Rightarrow> bool) \<Rightarrow> 'a list \<Rightarrow> nat option" where
  "first_index P [] = None"
| "first_index P (x # xs) = (if P x then Some 0 else map_option Suc (first_index P xs))"

definition last_index :: "('a \<Rightarrow> bool) \<Rightarrow> 'a list \<Rightarrow> nat option" where
  "last_index P xs = map_option (\<lambda>i. length xs - 1 - i) (first_index P (rev xs))"

datatype word_result = WordOk string | WordErr gerror | WordPanic

definition view_Word :: "view \<Rightarrow> int \<Rightarrow> int \<Rightarrow> word_result" where
  "view_Word v x' y' =
     (let x = ox v + x'; y = oy v + y'
      in if y < 0 \<or> y \<ge> int (length (vlines v)) \<or> x \<ge> int (length (line_runes (vlines v ! nat y)))
         then WordErr InvalidPoint
         else if x < 0 then WordPanic
         else
           let l = of_runes (line_runes (vlines v ! nat y));
               nl = (case last_index sep_char (take (nat x) l) of None \<Rightarrow> 0 | Some i \<Rightarrow> i + 1);
               nr = (case first_index sep_char (drop (nat x) l) of None \<Rightarrow> length l | Some i \<Rightarrow> i + nat x)
           in WordOk (take (nr - nl) (drop nl l)))"

section \<open>Edit mode\<close>

definition editWrite :: "view \<Rightarrow> rune \<Rightarrow> gerror option \<times> view" where
  "editWrite v ch =
     (let v1 = snd (writeRune v (cx v) (cy v) ch)
      in case SetCursor v1 (cx v1 + 1) (cy v1) of
           (None, v2) \<Rightarrow> (None, v2)
         | (Some _, v2) \<Rightarrow> SetOrigin v2 (ox v2 + 1) (oy v2))"

definition editDelete :: "view \<Rightarrow> bool \<Rightarrow> gerror option \<times> view" where
  "editDelete v back =
     (if back then
        (let v1 = snd (deleteRune v (cx v - 1) (cy v))
         in case SetCursor v1 (cx v1 - 1) (cy v1) of
              (None, v2) \<Rightarrow> (None, v2)
            | (Some _, v2) \<Rightarrow> if ox v2 > 0 then SetOrigin v2 (ox v2 - 1) (oy v2) else (None, v2))
      else (None, snd (deleteRune v (cx v) (cy v))))"

definition editLine :: "view \<Rightarrow> gerror option \<times> view" where
  "editLine v =
     (let v1 = snd (addLine v (cy v + 1));
          (e2, v2) = (case SetCursor v1 (cx v1) (cy v1 + 1) of
                        (None, u) \<Rightarrow> (None, u)
                      | (Some _, u) \<Rightarrow> SetOrigin u (ox u) (oy u + 1))
      in case e2 of
           Some e \<Rightarrow> (Some e, v2)
         | None \<Rightarrow>
             (case SetCursor v2 0 (cy v2) of
                (Some e, v3) \<Rightarrow> (Some e, v3)
              | (None, v3) \<Rightarrow> SetOrigin v3 0 (oy v3)))"

section \<open>What is drawn\<close>

text \<open>The reference: the part of the text that shows through the window, row by row.\<close>

definition window_line :: "view \<Rightarrow> int \<Rightarrow> rune list option \<Rightarrow> cell list" where
  "window_line v y l =
     map (\<lambda>(x, ch). \<lparr>cell_x = x0 v + int x + 1, cell_y = y0 v + y + 1, cell_ch = ch,
                    cell_fg = (if Highlight v \<and> y = cy v then selFgColor v else fgColor v),
                    cell_bg = (if Highlight v \<and> y = cy v then selBgColor v else bgColor v)\<rparr>)
       (enumerate 0 (take (nat (fst (view_Size v))) (drop (nat (ox v)) (line_runes l))))"

definition window_cells :: "view \<Rightarrow> cell list" where
  "window_cells v =
     concat (map (\<lambda>(y, l). window_line v (int y) l)
       (enumerate 0 (take (nat (snd (view_Size v))) (drop (nat (oy v)) (vlines v)))))"

lemma in_view_iff:
  "in_view v x y \<longleftrightarrow> 0 \<le> x \<and> x < fst (view_Size v) \<and> 0 \<le> y \<and> y < snd (view_Size v)"
  by (auto simp: in_view_def split: prod.splits)

lemma draw_line_skip:
  "j + int (length l) \<le> ox v \<Longrightarrow> draw_line v y j x (l @ r) = draw_line v y (j + int (length l)) x r"
  by (induction l arbitrary: j) (auto simp: algebra_simps)

lemma draw_line_window:
  assumes "ox v \<le> j" and "0 \<le> y" and "y < snd (view_Size v)"
  shows "draw_line v y j (int n) l =
    Inr (map (\<lambda>(x, ch). \<lparr>cell_x = x0 v + int x + 1, cell_y = y0 v + y + 1, cell_ch = ch,
           cell_fg = (if Highlight v \<and> y = cy v then selFgColor v else fgColor v),
           cell_bg = (if Highlight v \<and> y = cy v then selBgColor v else bgColor v)\<rparr>)
         (enumerate n (take (nat (fst (view_Size v)) - n) l)))"
  using assms
proof (induction l arbitrary: j n)
  case (Cons c l)
  have IH: "draw_line v y (j + 1) (int n + 1) l = draw_line v y (j + 1) (int (Suc n)) l" by (simp add: add.commute)
  note IHn = Cons.IH [of "j + 1" "Suc n"]
  show ?case
  proof (cases "int n < fst (view_Size v)")
    case True
    then obtain k where k: "nat (fst (view_Size v)) - n = Suc k" by (metis Suc_diff_Suc nat_less_iff of_nat_0_le_iff zless_nat_eq_int_zless)
    then have "nat (fst (view_Size v)) - Suc n = k" by simp
    then show ?thesis
      using True Cons.prems IHn k IH by (simp add: in_view_iff view_setRune_def)
  next
    case False
    then have "nat (fst (view_Size v)) - n = 0" "nat (fst (view_Size v)) - Suc n = 0" by auto
    then show ?thesis using False Cons.prems IHn IH by (simp add: in_view_iff)
  qed
qed simp

lemma draw_line_invisible:
  "\<not> y < snd (view_Size v) \<Longrightarrow> draw_line v y j x l = Inr []"
  by (induction l arbitrary: j x) (auto simp: in_view_iff)

lemma draw_line_eq:
  assumes "0 \<le> ox v" and "0 \<le> y"
  shows "draw_line v y 0 0 l = Inr (if y < snd (view_Size v) then window_line v y (Some l) else [])"
proof (cases "y < snd (view_Size v)")
  case True
  show ?thesis
  proof (cases "length l < nat (ox v)")
    case len: True
    then have "draw_line v y 0 0 (l @ []) = Inr []" using draw_line_skip [of 0 l v y 0 "[]"] by simp
    then show ?thesis using len True by (simp add: window_line_def line_runes_def)
  next
    case False
    let ?p = "take (nat (ox v)) l" and ?r = "drop (nat (ox v)) l"
    have len: "int (length ?p) = ox v" using False assms(1) by simp
    have "draw_line v y 0 0 (?p @ ?r) = draw_line v y (ox v) 0 ?r"
      using draw_line_skip [of 0 ?p v y 0 ?r] len by simp
    then show ?thesis
      using draw_line_window [of v "ox v" y 0 ?r] assms(2) True
      by (simp add: window_line_def line_runes_def)
  qed
qed (simp add: draw_line_invisible)

lemma draw_lines_skip:
  "i + int (length ls) \<le> oy v \<Longrightarrow> draw_lines v i y (ls @ r) = draw_lines v (i + int (length ls)) y r"
  by (induction ls arbitrary: i) (auto simp: algebra_simps)

lemma draw_lines_window:
  assumes "0 \<le> ox v" and "oy v \<le> i"
  shows "draw_lines v i (int n) ls =
    Inr (concat (map (\<lambda>(y, l). window_line v (int y) l) (enumerate n (take (nat (snd (view_Size v)) - n) ls))))"
  using assms
proof (induction ls arbitrary: i n)
  case (Cons l ls)
  note IHn = Cons.IH [of "i + 1" "Suc n"]
  have l: "window_line v y l = window_line v y (Some (case l of None \<Rightarrow> [] | Some rs \<Rightarrow> rs))" for y
    by (cases l) (simp_all add: window_line_def line_runes_def)
  show ?case
  proof (cases "int n < snd (view_Size v)")
    case True
    then obtain k where k: "nat (snd (view_Size v)) - n = Suc k" by (metis Suc_diff_Suc nat_less_iff of_nat_0_le_iff zless_nat_eq_int_zless)
    then have "nat (snd (view_Size v)) - Suc n = k" by simp
    then show ?thesis
      using True Cons.prems IHn k draw_line_eq [of v "int n"] l by (simp add: add.commute)
  next
    case False
    then have "nat (snd (view_Size v)) - n = 0" "nat (snd (view_Size v)) - Suc n = 0" by auto
    then show ?thesis using False Cons.prems IHn draw_line_eq [of v "int n"] by (simp add: add.commute)
  qed
qed simp

lemma view_draw_eq:
  assumes "0 \<le> ox v" and "0 \<le> oy v"
  shows "view_draw v = Inr (window_cells v)"
proof (cases "length (vlines v) < nat (oy v)")
  case True
  then show ?thesis
    using draw_lines_skip [of 0 "vlines v" v 0 "[]"] by (simp add: view_draw_def window_cells_def)
next
  case False
  let ?p = "take (nat (oy v)) (vlines v)" and ?r = "drop (nat (oy v)) (vlines v)"
  have "int (length ?p) = oy v" using False assms(2) by simp
  then have "draw_lines v 0 0 (?p @ ?r) = draw_lines v (oy v) 0 ?r"
    using draw_lines_skip [of 0 ?p v 0 ?r] by simp
  then show ?thesis
    using draw_lines_window [OF assms(1), of "oy v" 0 ?r] by (simp add: view_draw_def window_cells_def)
qed

lemma window_cells_inside:
  assumes "c \<in> set (window_cells v)"
  shows "x0 v < cell_x c \<and> cell_x c < x1 v \<and> y0 v < cell_y c \<and> cell_y c < y1 v"
proof -
  obtain y l where yl: "(y, l) \<in> set (enumerate 0 (take (nat (snd (view_Size v))) (drop (nat (oy v)) (vlines v))))"
    "c \<in> set (window_line v (int y) l)" using assms unfolding window_cells_def by auto
  then have y: "int y < snd (view_Size v)" by (auto simp: in_set_enumerate_eq)
  obtain x ch where x: "(x, ch) \<in> set (enumerate 0 (take (nat (fst (view_Size v))) (drop (nat (ox v)) (line_runes l))))"
    "cell_x c = x0 v + int x + 1" "cell_y c = y0 v + int y + 1"
    using yl(2) unfolding window_line_def by auto
  then have "int x < fst (view_Size v)" by (auto simp: in_set_enumerate_eq)
  then show ?thesis using y x(2,3) by (simp add: view_Size_def)
qed

text \<open>
  C38. Drawing a view shows exactly the part of its text that lies behind its window: the rune
  at row \<open>oy + y\<close> and column \<open>ox + x\<close> of the text at cell \<open>(x, y)\<close> inside the frame, for every such
  rune and no other, in the colours of the line; drawing never fails, and no cell of the frame or
  outside it is touched.
\<close>

theorem view_draw_window:
  assumes "0 \<le> ox v" and "0 \<le> oy v"
  shows "view_draw v = Inr (window_cells v)
    \<and> list_all (\<lambda>c. x0 v < cell_x c \<and> cell_x c < x1 v \<and> y0 v < cell_y c \<and> cell_y c < y1 v) (window_cells v)"
  using view_draw_eq [OF assms] window_cells_inside by (auto simp: list_all_iff)

definition demo_view :: view where
  "demo_view = (newView ''side'' 2 3 6 6)\<lparr>ox := 1, vlines := [Some [97, 98, 99, 100, 101, 102], None, Some [103]]\<rparr>"

theorem view_draw_window_witness:
  "view_draw demo_view = Inr (window_cells demo_view) \<and> map cell_ch (window_cells demo_view) = [98, 99, 100]"
proof -
  have "map cell_ch (window_cells demo_view) = [98, 99, 100]" by code_simp
  then show ?thesis using view_draw_window [of demo_view] by (simp add: demo_view_def newView_def)
qed

section \<open>What editing does\<close>

definition edit_ok :: "view \<Rightarrow> bool" where
  "edit_ok v \<longleftrightarrow> in_view v (cx v) (cy v) \<and> 0 \<le> ox v \<and> 0 \<le> oy v"

text \<open>The place in the text the cursor stands on.\<close>

definition text_x :: "view \<Rightarrow> nat" where
  "text_x v = nat (ox v + cx v)"

definition text_y :: "view \<Rightarrow> nat" where
  "text_y v = nat (oy v + cy v)"

definition text_line :: "view \<Rightarrow> nat \<Rightarrow> rune list" where
  "text_line v y = (if y < length (vlines v) then line_runes (vlines v ! y) else [])"

lemma insert_rune_eq: "x < length l \<Longrightarrow> insert_rune x ch l = take x l @ ch # drop x l"
  by (simp add: insert_rune_def Let_def list_update_append take_Suc_conv_app_nth nth_append)

lemma length_resize [simp]: "length (resize n d xs) = max n (length xs)"
  by (simp add: resize_def)

lemma resize_id: "n \<le> length xs \<Longrightarrow> resize n d xs = xs"
  by (simp add: resize_def)

lemma write_line_insert:
  "write_line False x ch line = (let l = resize (x + 1) 0 (line_runes line) in take x l @ ch # drop x l)"
proof -
  have "(case line of None \<Rightarrow> replicate (x + 1) 0 | Some rs \<Rightarrow> resize (x + 1) 0 rs) = resize (x + 1) 0 (line_runes line)"
    by (cases line) (simp_all add: resize_def line_runes_def)
  then show ?thesis by (simp add: write_line_def Let_def insert_rune_eq)
qed

lemma resize_nth_runes: "line_runes (resize (Suc y) None ls ! y) = (if y < length ls then line_runes (ls ! y) else [])"
  by (simp add: resize_def nth_append line_runes_def)

lemma in_view_update [simp]:
  "in_view (v\<lparr>vlines := ls\<rparr>) = in_view v" "in_view (v\<lparr>cx := a\<rparr>) = in_view v" "in_view (v\<lparr>cy := a\<rparr>) = in_view v"
  "in_view (v\<lparr>ox := a\<rparr>) = in_view v" "in_view (v\<lparr>oy := a\<rparr>) = in_view v"
  by (simp_all add: in_view_def view_Size_def fun_eq_iff)

lemma editWrite_insert:
  assumes "edit_ok v" and "\<not> overwrite v"
  shows "fst (editWrite v ch) = None" and "edit_ok (snd (editWrite v ch))"
    and "\<not> overwrite (snd (editWrite v ch))"
    and "text_x (snd (editWrite v ch)) = text_x v + 1" and "text_y (snd (editWrite v ch)) = text_y v"
    and "vlines (snd (editWrite v ch)) =
      (resize (text_y v + 1) None (vlines v))[text_y v :=
         Some (let l = resize (text_x v + 1) 0 (text_line v (text_y v)) in take (text_x v) l @ ch # drop (text_x v) l)]"
proof -
  have pos: "0 \<le> ox v" "0 \<le> oy v" "0 \<le> cx v" "0 \<le> cy v" using assms(1) by (auto simp: edit_ok_def in_view_iff)
  define ls where "ls = (resize (text_y v + 1) None (vlines v))[text_y v :=
         Some (let l = resize (text_x v + 1) 0 (text_line v (text_y v)) in take (text_x v) l @ ch # drop (text_x v) l)]"
  have w: "snd (writeRune v (cx v) (cy v) ch) = v\<lparr>vlines := ls\<rparr>"
    using pos assms(2)
    by (simp add: writeRune_def Let_def ls_def write_line_insert resize_nth_runes text_x_def text_y_def text_line_def)
  have e: "editWrite v ch =
      (if in_view v (cx v + 1) (cy v) then (None, v\<lparr>vlines := ls, cx := cx v + 1\<rparr>)
       else (None, v\<lparr>vlines := ls, ox := ox v + 1\<rparr>))"
    using pos by (auto simp: editWrite_def Let_def w SetCursor_def SetOrigin_def)
  show "fst (editWrite v ch) = None" and "edit_ok (snd (editWrite v ch))"
    and "\<not> overwrite (snd (editWrite v ch))"
    and "text_x (snd (editWrite v ch)) = text_x v + 1" and "text_y (snd (editWrite v ch)) = text_y v"
    using assms pos by (auto simp: e edit_ok_def text_x_def text_y_def nat_add_distrib)
  show "vlines (snd (editWrite v ch)) =
      (resize (text_y v + 1) None (vlines v))[text_y v :=
         Some (let l = resize (text_x v + 1) 0 (text_line v (text_y v)) in take (text_x v) l @ ch # drop (text_x v) l)]"
    by (simp add: e ls_def)
qed

lemma take_drop_shift:
  assumes "p < length l"
  shows "(let m = resize (p + 2) 0 (take p l @ ch # drop p l) in take (p + 1) m @ rs @ drop (p + 1) m)
    = take p l @ (ch # rs) @ drop p l"
  using assms by (simp add: resize_id)

text \<open>
  Typing inserts what is typed: in insert mode, with the cursor in the window, typing a
  sequence of runes never fails and puts them, in order, into the line under the cursor at the
  cursor's place (the line and the text are extended with zero runes where they do not reach
  that far), leaves the other lines alone, and moves the cursor, scrolling if need be, just past
  what was typed, still inside the window.
\<close>

theorem typing_inserts:
  assumes "edit_ok v" and "\<not> overwrite v" and "rs \<noteq> []"
  shows "let v' = fold (\<lambda>ch v. snd (editWrite v ch)) rs v in
      edit_ok v' \<and> text_x v' = text_x v + length rs \<and> text_y v' = text_y v
    \<and> text_line v' (text_y v) = (let l = resize (text_x v + 1) 0 (text_line v (text_y v))
                                 in take (text_x v) l @ rs @ drop (text_x v) l)
    \<and> (y \<noteq> text_y v \<longrightarrow> text_line v' y = text_line v y)"
proof -
  have other: "text_line (snd (editWrite v ch)) y = text_line v y" if "edit_ok v" "\<not> overwrite v" "y \<noteq> text_y v" for v ch
    using that editWrite_insert(6) [OF that(1,2), of ch]
    by (auto simp: text_line_def resize_def nth_append line_runes_def)
  have own: "text_line (snd (editWrite v ch)) (text_y v) =
      (let l = resize (text_x v + 1) 0 (text_line v (text_y v)) in take (text_x v) l @ ch # drop (text_x v) l)"
    if "edit_ok v" "\<not> overwrite v" for v ch
    using editWrite_insert(6) [OF that, of ch] by (simp add: text_line_def line_runes_def)
  show ?thesis
    using assms
  proof (induction rs arbitrary: v)
    case (Cons ch rs)
    let ?v = "snd (editWrite v ch)"
    note w = editWrite_insert(2-5) [OF Cons.prems(1,2), of ch]
    note o = own [OF Cons.prems(1,2), of ch] and ot = other [OF Cons.prems(1,2), of ch]
    show ?case
    proof (cases "rs = []")
      case True
      then show ?thesis using w o ot by (simp add: Let_def)
    next
      case False
      let ?l = "resize (text_x v + 1) 0 (text_line v (text_y v))"
      have l: "text_x v < length ?l" by simp
      from Cons.IH [OF w(1,2) False] show ?thesis
        using w(3,4) o ot take_drop_shift [OF l, of ch rs] by (simp add: Let_def)
    qed
  qed simp
qed

theorem typing_inserts_witness:
  "text_line (fold (\<lambda>ch v. snd (editWrite v ch)) [120, 121] demo_view) 0 = [97, 120, 121, 98, 99, 100, 101, 102]"
proof -
  have "edit_ok demo_view" "\<not> overwrite demo_view" "text_y demo_view = 0"
    "(let l = resize (text_x demo_view + 1) 0 (text_line demo_view 0) in take (text_x demo_view) l @ [120, 121] @ drop (text_x demo_view) l)
      = [97, 120, 121, 98, 99, 100, 101, 102]" by code_simp+
  then show ?thesis using typing_inserts [of demo_view "[120, 121]" 0] by (simp add: Let_def)
qed

lemma deleteRune_at:
  assumes "ox u + x' = int p" and "oy u + y' = int q" and "q < length (vlines u)"
    and "vlines u ! q = Some l" and "p < length l"
  shows "snd (deleteRune u x' y') = u\<lparr>vlines := (vlines u)[q := Some (take p l @ drop (p + 1) l @ [32])]\<rparr>"
  using assms by (simp add: deleteRune_def Let_def)

text \<open>
  Backspace takes back what was typed: the line is what it was (made long enough to
  reach the cursor), but for a blank at its end, the other lines are untouched and the cursor is
  back at its place in the text, whether or not typing or deleting scrolled the window.
\<close>

theorem backspace_undoes_typing:
  assumes "edit_ok v" and "\<not> overwrite v"
  shows "let v' = snd (editDelete (snd (editWrite v ch)) True) in
      fst (editDelete (snd (editWrite v ch)) True) = None \<and> edit_ok v'
    \<and> text_x v' = text_x v \<and> text_y v' = text_y v
    \<and> text_line v' (text_y v) = resize (text_x v + 1) 0 (text_line v (text_y v)) @ [32]
    \<and> (y \<noteq> text_y v \<longrightarrow> text_line v' y = text_line v y)"
proof -
  define u where "u = snd (editWrite v ch)"
  note w = editWrite_insert(2-6) [OF assms, of ch, folded u_def]
  let ?l = "resize (text_x v + 1) 0 (text_line v (text_y v))"
  let ?m = "take (text_x v) ?l @ ch # drop (text_x v) ?l"
  have pos: "0 \<le> ox u" "0 \<le> oy u" "0 \<le> cx u" "0 \<le> cy u" using w(1) by (auto simp: edit_ok_def in_view_iff)
  have px: "ox u + (cx u - 1) = int (text_x v)" using w(3) pos unfolding text_x_def by arith
  have py: "oy u + cy u = int (text_y v)" using w(4) pos unfolding text_y_def by arith
  have line: "vlines u ! text_y v = Some ?m" and len: "text_y v < length (vlines u)"
    using w(5) by (simp_all add: Let_def)
  have m: "take (text_x v) ?m @ drop (text_x v + 1) ?m @ [32] = ?l @ [32]" by simp
  have d: "snd (deleteRune u (cx u - 1) (cy u)) = u\<lparr>vlines := (vlines u)[text_y v := Some (?l @ [32])]\<rparr>"
    using deleteRune_at [OF px py len line, unfolded m] by simp
  let ?ls = "(vlines u)[text_y v := Some (?l @ [32])]"
  have e: "editDelete u True =
      (if in_view u (cx u - 1) (cy u) then (None, u\<lparr>vlines := ?ls, cx := cx u - 1\<rparr>)
       else if ox u > 0 then (None, u\<lparr>vlines := ?ls, ox := ox u - 1\<rparr>) else (None, u\<lparr>vlines := ?ls\<rparr>))"
    using pos by (auto simp: editDelete_def Let_def d SetCursor_def SetOrigin_def)
  have in_or: "in_view u (cx u - 1) (cy u) \<or> cx u = 0 \<and> ox u > 0"
    using w(1,3) px by (auto simp: edit_ok_def in_view_iff)
  have ls: "length ?ls = length (vlines u)" "?ls ! text_y v = Some (?l @ [32])"
    "i \<noteq> text_y v \<Longrightarrow> ?ls ! i = vlines u ! i" for i using len by simp_all
  have tl: "text_line (snd (editDelete u True)) i = (if i = text_y v then ?l @ [32] else text_line u i)" for i
    using ls len by (auto simp: e text_line_def line_runes_def)
  have tu: "text_line u y = text_line v y" if "y \<noteq> text_y v"
    using that w(5) by (auto simp: text_line_def resize_def nth_append line_runes_def)
  have "text_x (snd (editDelete u True)) = text_x v" "text_y (snd (editDelete u True)) = text_y v"
    "edit_ok (snd (editDelete u True))" "fst (editDelete u True) = None"
    using in_or px py w(1) pos by (auto simp: e text_x_def text_y_def edit_ok_def)
  then show ?thesis using tl tu unfolding u_def [symmetric] by (simp add: Let_def)
qed

theorem backspace_undoes_typing_witness:
  "text_line (snd (editDelete (snd (editWrite demo_view 120)) True)) 0 = [97, 98, 99, 100, 101, 102, 32]"
proof -
  have "edit_ok demo_view" "\<not> overwrite demo_view" "text_y demo_view = 0"
    "resize (text_x demo_view + 1) 0 (text_line demo_view 0) @ [32] = [97, 98, 99, 100, 101, 102, 32]" by code_simp+
  then show ?thesis using backspace_undoes_typing [of demo_view 120 0] by (simp add: Let_def)
qed

end
