(* ===== verification/Gocui_Gui.thy ===== *)
theory Gocui_Gui
  imports Gocui_View
begin

text \<open>
  The user interface of \<^verbatim>\<open>src/gocui/gui.go\<close> and the keybindings of \<^verbatim>\<open>src/gocui/keybinding.go\<close>. Views are
  objects shared by pointers: they live in a store, the list of views and the current view are
  addresses, so a deleted view can stay the current one. The terminal library is a grid of cells of a fixed size
  that ignores writes outside; handlers and the layout function are names, and what
  they do is the argument \<open>call\<close> of the operations that call them. \<open>user\<close> holds the variables of the client.
\<close>

section \<open>State\<close>

datatype key =
  KeyNone | KeySpace | KeyBackspace | KeyBackspace2 | KeyDelete | KeyInsert | KeyEnter
| KeyCtrlC | KeyCtrlN | KeyCtrlP | KeyArrowDown | KeyArrowUp | KeyOther nat

datatype event = EventKey key rune int | EventError string | EventResize

record 'h keybinding =
  kb_viewName :: string
  kb_key :: key
  kb_ch :: rune
  kb_mod :: int
  kb_h :: "'h option"

record ('h, 'u) gui =
  store :: "view list"
  views :: "nat list"
  currentView :: "nat option"
  glayout :: "'h option"
  keybindings :: "'h keybinding list"
  maxX :: int
  maxY :: int
  BgColor :: attribute
  FgColor :: attribute
  SelBgColor :: attribute
  SelFgColor :: attribute
  ShowCursor :: bool
  screen :: "int \<times> int \<Rightarrow> rune \<times> attribute \<times> attribute"
  term_size :: "int \<times> int"
  term_cursor :: "(int \<times> int) option"
  user :: 'u

type_synonym ('h, 'u) handler = "('h, 'u) gui \<Rightarrow> nat option \<Rightarrow> gerror option \<times> ('h, 'u) gui"

definition NewGui :: "int \<times> int \<Rightarrow> 'u \<Rightarrow> ('h, 'u) gui" where
  "NewGui tsize u =
     \<lparr>store = [], views = [], currentView = None, glayout = None, keybindings = [], maxX = 0, maxY = 0,
      BgColor = 0, FgColor = 0, SelBgColor = 0, SelFgColor = 0, ShowCursor = False,
      screen = (\<lambda>_. (32, 0, 0)), term_size = tsize, term_cursor = None, user = u\<rparr>"

text \<open>\<^verbatim>\<open>Init\<close> with the result of \<^verbatim>\<open>termbox.Init\<close> and the library's colours black and white.\<close>

definition gui_Init :: "gerror option \<Rightarrow> attribute \<Rightarrow> attribute \<Rightarrow> ('h, 'u) gui \<Rightarrow> gerror option \<times> ('h, 'u) gui" where
  "gui_Init err black white g =
     (case err of
        Some e \<Rightarrow> (Some e, g)
      | None \<Rightarrow> (None, g\<lparr>maxX := fst (term_size g), maxY := snd (term_size g), BgColor := black,
                         FgColor := white\<rparr>))"

section \<open>Cells\<close>

definition put_cell :: "cell \<Rightarrow> ('h, 'u) gui \<Rightarrow> ('h, 'u) gui" where
  "put_cell c g =
     (if 0 \<le> cell_x c \<and> cell_x c < fst (term_size g) \<and> 0 \<le> cell_y c \<and> cell_y c < snd (term_size g)
      then g\<lparr>screen := (screen g)((cell_x c, cell_y c) := (cell_ch c, cell_fg c, cell_bg c))\<rparr> else g)"

definition put_cells :: "cell list \<Rightarrow> ('h, 'u) gui \<Rightarrow> ('h, 'u) gui" where
  "put_cells cs g = fold put_cell cs g"

definition off_screen :: "('h, 'u) gui \<Rightarrow> int \<Rightarrow> int \<Rightarrow> bool" where
  "off_screen g x y \<longleftrightarrow> x < 0 \<or> y < 0 \<or> x \<ge> maxX g \<or> y \<ge> maxY g"

definition gui_SetRune :: "int \<Rightarrow> int \<Rightarrow> rune \<Rightarrow> ('h, 'u) gui \<Rightarrow> gerror option \<times> ('h, 'u) gui" where
  "gui_SetRune x y ch g =
     (if off_screen g x y then (Some InvalidPoint, g)
      else (None, put_cell \<lparr>cell_x = x, cell_y = y, cell_ch = ch, cell_fg = FgColor g, cell_bg = BgColor g\<rparr> g))"

definition gui_Rune :: "('h, 'u) gui \<Rightarrow> int \<Rightarrow> int \<Rightarrow> rune \<times> gerror option" where
  "gui_Rune g x y =
     (if off_screen g x y then (32, Some InvalidPoint) else (fst (screen g (x, y)), None))"

section \<open>Views\<close>

fun find_view :: "view list \<Rightarrow> string \<Rightarrow> nat list \<Rightarrow> nat option" where
  "find_view st name [] = None"
| "find_view st name (a # as) = (if vname (st ! a) = name then Some a else find_view st name as)"

definition gui_View :: "('h, 'u) gui \<Rightarrow> string \<Rightarrow> nat option" where
  "gui_View g name = find_view (store g) name (views g)"

definition update_view :: "nat \<Rightarrow> (view \<Rightarrow> view) \<Rightarrow> ('h, 'u) gui \<Rightarrow> ('h, 'u) gui" where
  "update_view a f g = g\<lparr>store := (store g)[a := f (store g ! a)]\<rparr>"

definition SetView ::
  "string \<Rightarrow> int \<Rightarrow> int \<Rightarrow> int \<Rightarrow> int \<Rightarrow> ('h, 'u) gui \<Rightarrow> nat option \<times> gerror option \<times> ('h, 'u) gui" where
  "SetView name a0 b0 a1 b1 g =
     (if a0 \<ge> a1 \<or> b0 \<ge> b1 then (None, Some InvalidDimensions, g)
      else if name = [] then (None, Some InvalidName, g)
      else (case gui_View g name of
              Some a \<Rightarrow> (Some a, None, update_view a (\<lambda>v. v\<lparr>x0 := a0, y0 := b0, x1 := a1, y1 := b1\<rparr>) g)
            | None \<Rightarrow>
                let a = length (store g);
                    v = (newView name a0 b0 a1 b1)\<lparr>bgColor := BgColor g, fgColor := FgColor g,
                           selBgColor := SelBgColor g, selFgColor := SelFgColor g\<rparr>
                in (Some a, Some UnkView, g\<lparr>store := store g @ [v], views := views g @ [a]\<rparr>)))"

fun remove_view :: "view list \<Rightarrow> string \<Rightarrow> nat list \<Rightarrow> nat list option" where
  "remove_view st name [] = None"
| "remove_view st name (a # as) =
     (if vname (st ! a) = name then Some as else map_option (\<lambda>r. a # r) (remove_view st name as))"

definition DeleteView :: "string \<Rightarrow> ('h, 'u) gui \<Rightarrow> gerror option \<times> ('h, 'u) gui" where
  "DeleteView name g =
     (case remove_view (store g) name (views g) of
        Some vs \<Rightarrow> (None, g\<lparr>views := vs\<rparr>) | None \<Rightarrow> (Some UnkView, g))"

definition SetCurrentView :: "string \<Rightarrow> ('h, 'u) gui \<Rightarrow> gerror option \<times> ('h, 'u) gui" where
  "SetCurrentView name g =
     (case gui_View g name of
        Some a \<Rightarrow> (None, g\<lparr>currentView := Some a\<rparr>) | None \<Rightarrow> (Some UnkView, g))"

text \<open>The key of a binding is a \<^verbatim>\<open>Key\<close> or a rune; anything else is refused.\<close>

datatype key_arg = ArgKey key | ArgRune rune | ArgOther

definition newKeybinding :: "string \<Rightarrow> key \<Rightarrow> rune \<Rightarrow> int \<Rightarrow> 'h option \<Rightarrow> 'h keybinding" where
  "newKeybinding vn k ch md h = \<lparr>kb_viewName = vn, kb_key = k, kb_ch = ch, kb_mod = md, kb_h = h\<rparr>"

definition SetKeybinding ::
  "string \<Rightarrow> key_arg \<Rightarrow> int \<Rightarrow> 'h option \<Rightarrow> ('h, 'u) gui \<Rightarrow> gerror option \<times> ('h, 'u) gui" where
  "SetKeybinding vn k md h g =
     (case k of
        ArgKey k' \<Rightarrow> (None, g\<lparr>keybindings := keybindings g @ [newKeybinding vn k' 0 md h]\<rparr>)
      | ArgRune r \<Rightarrow> (None, g\<lparr>keybindings := keybindings g @ [newKeybinding vn KeyNone r md h]\<rparr>)
      | ArgOther \<Rightarrow> (Some UnknownType, g))"

text \<open>\<^verbatim>\<open>SetLayout\<close>; the resize event it sends is one of the events of the main loop.\<close>

definition SetLayout :: "'h \<Rightarrow> ('h, 'u) gui \<Rightarrow> ('h, 'u) gui" where
  "SetLayout l g = g\<lparr>glayout := Some l, currentView := None, views := []\<rparr>"

section \<open>Drawing\<close>

fun steps :: "('s \<Rightarrow> gerror option \<times> 's) list \<Rightarrow> 's \<Rightarrow> gerror option \<times> 's" where
  "steps [] s = (None, s)"
| "steps (f # fs) s = (case f s of (Some e, s') \<Rightarrow> (Some e, s') | (None, s') \<Rightarrow> steps fs s')"

definition when_step :: "bool \<Rightarrow> ('s \<Rightarrow> gerror option \<times> 's) \<Rightarrow> 's \<Rightarrow> gerror option \<times> 's" where
  "when_step b f s = (if b then f s else (None, s))"

definition drawFrame :: "nat \<Rightarrow> ('h, 'u) gui \<Rightarrow> gerror option \<times> ('h, 'u) gui" where
  "drawFrame a g =
     (let v = store g ! a;
          horizontal = (\<lambda>x. [when_step (y0 v > -1 \<and> y0 v < maxY g) (gui_SetRune x (y0 v) 9472),
                             when_step (y1 v > -1 \<and> y1 v < maxY g) (gui_SetRune x (y1 v) 9472)]);
          vertical = (\<lambda>y. [when_step (x0 v > -1 \<and> x0 v < maxX g) (gui_SetRune (x0 v) y 9474),
                           when_step (x1 v > -1 \<and> x1 v < maxX g) (gui_SetRune (x1 v) y 9474)])
      in steps (concat (map horizontal (filter (\<lambda>x. 0 \<le> x) [x0 v + 1..min (x1 v) (maxX g) - 1]))
                @ concat (map vertical (filter (\<lambda>y. 0 \<le> y) [y0 v + 1..min (y1 v) (maxY g) - 1]))) g)"

text \<open>The cursor is moved into the current view before each view is drawn.\<close>

definition place_cursor :: "('h, 'u) gui \<Rightarrow> gerror option \<times> ('h, 'u) gui" where
  "place_cursor g =
     (if ShowCursor g then
        (case currentView g of
           None \<Rightarrow> (None, g)
         | Some a \<Rightarrow>
             (let v = store g ! a; (mx, my) = view_Size v;
                  px = (if cx v \<ge> mx then mx - 1 else cx v); py = (if cy v \<ge> my then my - 1 else cy v)
              in case SetCursor v px py of
                   (Some e, _) \<Rightarrow> (Some e, g)
                 | (None, v') \<Rightarrow> (None, (update_view a (\<lambda>_. v') g)
                                    \<lparr>term_cursor := Some (x0 v' + cx v' + 1, y0 v' + cy v' + 1)\<rparr>)))
      else (None, g\<lparr>term_cursor := None\<rparr>))"

definition gui_draw :: "nat \<Rightarrow> ('h, 'u) gui \<Rightarrow> gerror option \<times> ('h, 'u) gui" where
  "gui_draw a g =
     (case place_cursor g of
        (Some e, g1) \<Rightarrow> (Some e, g1)
      | (None, g1) \<Rightarrow>
          (let v = store g1 ! a; g2 = put_cells (clearRunes v) g1
           in case view_draw v of
                Inl e \<Rightarrow> (Some e, g2) | Inr cs \<Rightarrow> (None, put_cells cs g2)))"

definition verticalRune :: "rune \<Rightarrow> bool" where
  "verticalRune ch \<longleftrightarrow> ch \<in> {9474, 9532, 9500, 9508}"

definition horizontalRune :: "rune \<Rightarrow> bool" where
  "horizontalRune ch \<longleftrightarrow> ch \<in> {9472, 9532, 9516, 9524}"

definition corner :: "bool \<Rightarrow> bool \<Rightarrow> bool \<Rightarrow> bool \<Rightarrow> rune option" where
  "corner up down left right =
     (if \<not> up \<and> down \<and> \<not> left \<and> right then Some 9484
      else if \<not> up \<and> down \<and> left \<and> \<not> right then Some 9488
      else if up \<and> \<not> down \<and> \<not> left \<and> right then Some 9492
      else if up \<and> \<not> down \<and> left \<and> \<not> right then Some 9496
      else if up \<and> down \<and> left \<and> right then Some 9532
      else if up \<and> down \<and> \<not> left \<and> right then Some 9500
      else if up \<and> down \<and> left \<and> \<not> right then Some 9508
      else if \<not> up \<and> down \<and> left \<and> right then Some 9516
      else if up \<and> \<not> down \<and> left \<and> right then Some 9524
      else None)"

definition intersectionRune :: "('h, 'u) gui \<Rightarrow> int \<Rightarrow> int \<Rightarrow> rune option" where
  "intersectionRune g x y =
     (if off_screen g x y then None
      else corner (verticalRune (fst (gui_Rune g x (y - 1)))) (verticalRune (fst (gui_Rune g x (y + 1))))
                  (horizontalRune (fst (gui_Rune g (x - 1) y))) (horizontalRune (fst (gui_Rune g (x + 1) y))))"

definition draw_corner :: "int \<Rightarrow> int \<Rightarrow> ('h, 'u) gui \<Rightarrow> gerror option \<times> ('h, 'u) gui" where
  "draw_corner x y g =
     (case intersectionRune g x y of None \<Rightarrow> (None, g) | Some ch \<Rightarrow> gui_SetRune x y ch g)"

definition drawIntersections :: "('h, 'u) gui \<Rightarrow> gerror option \<times> ('h, 'u) gui" where
  "drawIntersections g =
     steps (concat (map (\<lambda>a. let v = store g ! a in
              [draw_corner (x0 v) (y0 v), draw_corner (x0 v) (y1 v), draw_corner (x1 v) (y0 v), draw_corner (x1 v) (y1 v)])
              (views g))) g"

definition Flush :: "('h \<Rightarrow> ('h, 'u) handler) \<Rightarrow> ('h, 'u) gui \<Rightarrow> gerror option \<times> ('h, 'u) gui" where
  "Flush call g =
     (case glayout g of
        None \<Rightarrow> (Some NullLayout, g)
      | Some l \<Rightarrow>
          (let g1 = g\<lparr>screen := (\<lambda>_. (32, FgColor g, BgColor g)), maxX := fst (term_size g), maxY := snd (term_size g)\<rparr>
           in case call l g1 None of
                (Some e, g2) \<Rightarrow> (Some e, g2)
              | (None, g2) \<Rightarrow>
                  (case steps (concat (map (\<lambda>a. [drawFrame a, gui_draw a]) (views g2))) g2 of
                     (Some e, g3) \<Rightarrow> (Some e, g3)
                   | (None, g3) \<Rightarrow> drawIntersections g3)))"

section \<open>Events\<close>

definition handleEdit :: "nat \<Rightarrow> key \<Rightarrow> rune \<Rightarrow> int \<Rightarrow> ('h, 'u) gui \<Rightarrow> gerror option \<times> ('h, 'u) gui" where
  "handleEdit a k ch md g =
     (let v = store g ! a;
          (e, v') =
            (if ch \<noteq> 0 \<and> md = 0 then editWrite v ch
             else if k = KeySpace then editWrite v 32
             else if k = KeyBackspace \<or> k = KeyBackspace2 then editDelete v True
             else if k = KeyDelete then editDelete v False
             else if k = KeyInsert then (None, v\<lparr>overwrite := \<not> overwrite v\<rparr>)
             else if k = KeyEnter then editLine v
             else (None, v))
      in (e, update_view a (\<lambda>_. v') g))"

definition binding_matches :: "('h, 'u) gui \<Rightarrow> key \<Rightarrow> rune \<Rightarrow> int \<Rightarrow> 'h keybinding \<Rightarrow> bool" where
  "binding_matches g k ch md kb \<longleftrightarrow>
     kb_h kb \<noteq> None \<and> ch = kb_ch kb \<and> k = kb_key kb \<and> md = kb_mod kb
     \<and> (kb_viewName kb = [] \<or> (case currentView g of None \<Rightarrow> False | Some a \<Rightarrow> kb_viewName kb = vname (store g ! a)))"

definition edit_current :: "key \<Rightarrow> rune \<Rightarrow> int \<Rightarrow> ('h, 'u) gui \<Rightarrow> gerror option \<times> ('h, 'u) gui" where
  "edit_current k ch md g =
     (case currentView g of
        None \<Rightarrow> (None, g)
      | Some a \<Rightarrow> if Editable (store g ! a) then handleEdit a k ch md g else (None, g))"

definition onKey ::
  "('h \<Rightarrow> ('h, 'u) handler) \<Rightarrow> key \<Rightarrow> rune \<Rightarrow> int \<Rightarrow> ('h, 'u) gui \<Rightarrow> gerror option \<times> ('h, 'u) gui" where
  "onKey call k ch md g =
     (case edit_current k ch md g of
        (Some e, g1) \<Rightarrow> (Some e, g1)
      | (None, g1) \<Rightarrow>
          (case List.find (binding_matches g1 k ch md) (keybindings g1) of
             Some kb \<Rightarrow> call (the (kb_h kb)) g1 (currentView g1)
           | None \<Rightarrow> (None, g1)))"

definition handleEvent :: "('h \<Rightarrow> ('h, 'u) handler) \<Rightarrow> event \<Rightarrow> ('h, 'u) gui \<Rightarrow> gerror option \<times> ('h, 'u) gui" where
  "handleEvent call ev g =
     (case ev of
        EventKey k ch md \<Rightarrow> onKey call k ch md g
      | EventError s \<Rightarrow> (Some (EventErr s), g)
      | EventResize \<Rightarrow> (None, g))"

text \<open>
  The main loop on what it finds when it waits: one event and those that are in the pool behind
  it, or the message of the user. After the last of them it goes on waiting.
\<close>

datatype wait_result = GotEvents event "event list" | GotMessage

datatype 'g loop_result = Stopped "gerror option" 'g | StillWaiting 'g

definition consumeevents ::
  "('h \<Rightarrow> ('h, 'u) handler) \<Rightarrow> event list \<Rightarrow> ('h, 'u) gui \<Rightarrow> gerror option \<times> ('h, 'u) gui" where
  "consumeevents call evs g = steps (map (handleEvent call) evs) g"

fun loop_rounds :: "('h \<Rightarrow> ('h, 'u) handler) \<Rightarrow> wait_result list \<Rightarrow> ('h, 'u) gui \<Rightarrow> ('h, 'u) gui loop_result" where
  "loop_rounds call [] g = StillWaiting g"
| "loop_rounds call (GotMessage # ws) g = Stopped None g"
| "loop_rounds call (GotEvents ev evs # ws) g =
     (case steps [handleEvent call ev, consumeevents call evs, Flush call] g of
        (Some e, g') \<Rightarrow> Stopped (Some e) g'
      | (None, g') \<Rightarrow> loop_rounds call ws g')"

definition MainLoop :: "('h \<Rightarrow> ('h, 'u) handler) \<Rightarrow> wait_result list \<Rightarrow> ('h, 'u) gui \<Rightarrow> ('h, 'u) gui loop_result" where
  "MainLoop call ws g =
     (case Flush call g of
        (Some e, g') \<Rightarrow> Stopped (Some e) g'
      | (None, g') \<Rightarrow> loop_rounds call ws g')"

section \<open>The table of views\<close>

text \<open>What a client of named objects relies on: \<open>put\<close> makes or finds one, \<open>del\<close> forgets it.\<close>

locale name_table =
  fixes ok :: "'t \<Rightarrow> bool"
    and valid :: "'p \<Rightarrow> bool"
    and lookup :: "'t \<Rightarrow> string \<Rightarrow> nat option"
    and put :: "'p \<Rightarrow> string \<Rightarrow> 't \<Rightarrow> 't"
    and del :: "string \<Rightarrow> 't \<Rightarrow> 't"
  assumes ok_put: "ok t \<Longrightarrow> valid p \<Longrightarrow> n \<noteq> [] \<Longrightarrow> ok (put p n t)"
    and ok_del: "ok t \<Longrightarrow> ok (del n t)"
    and lookup_put: "ok t \<Longrightarrow> valid p \<Longrightarrow> n \<noteq> [] \<Longrightarrow> lookup (put p n t) n \<noteq> None"
    and lookup_put_old: "ok t \<Longrightarrow> valid p \<Longrightarrow> n \<noteq> [] \<Longrightarrow> lookup t m = Some a \<Longrightarrow> lookup (put p n t) m = Some a"
    and lookup_put_other: "ok t \<Longrightarrow> valid p \<Longrightarrow> n \<noteq> [] \<Longrightarrow> m \<noteq> n \<Longrightarrow> lookup (put p n t) m = lookup t m"
    and lookup_del: "ok t \<Longrightarrow> lookup (del n t) = (lookup t)(n := None)"
begin

text \<open>Putting again only moves the object: every name keeps its address.\<close>

lemma put_again:
  assumes "ok t" "valid p" "valid q" "n \<noteq> []"
  shows "lookup (put q n (put p n t)) = lookup (put p n t)"
proof
  fix m
  show "lookup (put q n (put p n t)) m = lookup (put p n t) m"
    using assms lookup_put [of t p n] lookup_put_old [of "put p n t" q n m] lookup_put_other [of "put p n t" q n m]
      ok_put [of t p n]
    by (cases "m = n") auto
qed

lemma del_put:
  "ok t \<Longrightarrow> valid p \<Longrightarrow> n \<noteq> [] \<Longrightarrow> lookup t n = None \<Longrightarrow> lookup (del n (put p n t)) = lookup t"
  using lookup_del [of "put p n t" n] ok_put [of t p n] lookup_put_other [of t p n] by (auto simp: fun_eq_iff)

end

definition gui_ok :: "('h, 'u) gui \<Rightarrow> bool" where
  "gui_ok g \<longleftrightarrow> list_all (\<lambda>a. a < length (store g)) (views g)
     \<and> distinct (map (\<lambda>a. vname (store g ! a)) (views g))
     \<and> list_all (\<lambda>v. 0 \<le> ox v \<and> 0 \<le> oy v) (store g)"

lemma find_view_Some: "find_view st n as = Some a \<Longrightarrow> a \<in> set as \<and> vname (st ! a) = n"
  by (induction as) (auto split: if_splits)

lemma find_view_None: "find_view st n as = None \<longleftrightarrow> n \<notin> (\<lambda>a. vname (st ! a)) ` set as"
  by (induction as) auto

lemma find_view_cong:
  "(\<And>a. a \<in> set as \<Longrightarrow> vname (st' ! a) = vname (st ! a)) \<Longrightarrow> find_view st' n as = find_view st n as"
  by (induction as) auto

lemma find_view_append:
  "find_view st n (as @ bs) = (case find_view st n as of Some a \<Rightarrow> Some a | None \<Rightarrow> find_view st n bs)"
  by (induction as) auto

lemma remove_view_find:
  assumes "distinct (map (\<lambda>a. vname (st ! a)) as)"
  shows "find_view st m (case remove_view st n as of Some r \<Rightarrow> r | None \<Rightarrow> as) =
    (if m = n then None else find_view st m as)"
  using assms
proof (induction as)
  case (Cons a as)
  show ?case
  proof (cases "vname (st ! a) = n")
    case True
    then show ?thesis using Cons.prems find_view_None [of st n as] by auto
  next
    case False
    then show ?thesis using Cons by (cases "remove_view st n as") (auto split: if_splits)
  qed
qed simp

lemma remove_view_subset:
  "remove_view st n as = Some r \<Longrightarrow> set r \<subseteq> set as \<and>
     (distinct (map (\<lambda>a. vname (st ! a)) as) \<longrightarrow> distinct (map (\<lambda>a. vname (st ! a)) r))"
  by (induction as arbitrary: r) (auto 0 3 simp: image_iff subset_iff split: if_splits)

text \<open>\<^verbatim>\<open>SetView\<close> with valid arguments, and \<^verbatim>\<open>DeleteView\<close>, as operations on the table.\<close>

definition put_view :: "int \<Rightarrow> int \<Rightarrow> int \<Rightarrow> int \<Rightarrow> string \<Rightarrow> ('h, 'u) gui \<Rightarrow> ('h, 'u) gui" where
  "put_view a0 b0 a1 b1 n g = snd (snd (SetView n a0 b0 a1 b1 g))"

definition del_view :: "string \<Rightarrow> ('h, 'u) gui \<Rightarrow> ('h, 'u) gui" where
  "del_view n g = snd (DeleteView n g)"

lemma SetView_new:
  assumes "a0 < a1" "b0 < b1" "n \<noteq> []" "gui_View g n = None"
  shows "\<exists>v. SetView n a0 b0 a1 b1 g = (Some (length (store g)), Some UnkView,
      g\<lparr>store := store g @ [v], views := views g @ [length (store g)]\<rparr>)
    \<and> vname v = n \<and> ox v = 0 \<and> oy v = 0 \<and> x0 v = a0 \<and> y0 v = b0 \<and> x1 v = a1 \<and> y1 v = b1"
  using assms by (auto simp: SetView_def Let_def newView_def)

lemma SetView_old:
  assumes "a0 < a1" "b0 < b1" "n \<noteq> []" "gui_View g n = Some a"
  shows "SetView n a0 b0 a1 b1 g =
    (Some a, None, update_view a (\<lambda>v. v\<lparr>x0 := a0, y0 := b0, x1 := a1, y1 := b1\<rparr>) g)"
  using assms by (simp add: SetView_def)

lemma views_nth_append:
  "list_all (\<lambda>a. a < length st) as \<Longrightarrow> a \<in> set as \<Longrightarrow> (st @ r) ! a = st ! a"
  by (simp add: list_all_iff nth_append)

lemma put_view_props:
  assumes "gui_ok g" "a0 < a1" "b0 < b1" "n \<noteq> []"
  shows "gui_ok (put_view a0 b0 a1 b1 n g)
    \<and> (\<exists>a. gui_View (put_view a0 b0 a1 b1 n g) n = Some a \<and> (gui_View g n = Some a \<or> gui_View g n = None))
    \<and> (m \<noteq> n \<longrightarrow> gui_View (put_view a0 b0 a1 b1 n g) m = gui_View g m)"
proof (cases "gui_View g n")
  case None
  from SetView_new [OF assms(2-4) None] obtain v where v:
    "put_view a0 b0 a1 b1 n g = g\<lparr>store := store g @ [v], views := views g @ [length (store g)]\<rparr>"
    "vname v = n" "ox v = 0" "oy v = 0" by (auto simp: put_view_def)
  have va: "list_all (\<lambda>a. a < length (store g)) (views g)" using assms(1) by (simp add: gui_ok_def)
  have same: "map (\<lambda>a. vname ((store g @ [v]) ! a)) (views g) = map (\<lambda>a. vname (store g ! a)) (views g)"
    using views_nth_append [OF va] by auto
  have fv: "find_view (store g @ [v]) m (views g) = gui_View g m" for m
    unfolding gui_View_def using views_nth_append [OF va] by (intro find_view_cong) auto
  have fresh: "n \<notin> (\<lambda>a. vname (store g ! a)) ` set (views g)"
    using None find_view_None by (auto simp: gui_View_def)
  then have "distinct (map (\<lambda>a. vname ((store g @ [v]) ! a)) (views g @ [length (store g)]))"
    unfolding map_append distinct_append same
    using assms(1) v(2) by (auto simp: gui_ok_def image_def views_nth_append [OF va])
  moreover have "list_all (\<lambda>a. a < length (store g @ [v])) (views g @ [length (store g)])"
    using va by (auto simp: list_all_iff less_Suc_eq)
  ultimately have "gui_ok (put_view a0 b0 a1 b1 n g)"
    using assms(1) v by (simp add: gui_ok_def)
  then show ?thesis
    using v fv None by (auto simp: gui_View_def find_view_append split: option.splits)
next
  case (Some a)
  let ?st = "(store g)[a := (store g ! a)\<lparr>x0 := a0, y0 := b0, x1 := a1, y1 := b1\<rparr>]"
  have a: "a \<in> set (views g)" "a < length (store g)"
    using Some find_view_Some assms(1) by (auto simp: gui_View_def gui_ok_def list_all_iff)
  have p: "put_view a0 b0 a1 b1 n g = g\<lparr>store := ?st\<rparr>"
    using SetView_old [OF assms(2-4) Some] by (simp add: put_view_def update_view_def)
  have names: "vname (?st ! b) = vname (store g ! b)" for b
    using a by (cases "b = a") (auto simp: nth_list_update)
  have fv: "find_view ?st m (views g) = find_view (store g) m (views g)" for m
    by (intro find_view_cong) (simp add: names)
  have org: "list_all (\<lambda>v. 0 \<le> ox v \<and> 0 \<le> oy v) ?st"
    using assms(1) a by (auto simp: gui_ok_def list_all_iff dest!: set_update_subset_insert [THEN subsetD])
  have "gui_ok (g\<lparr>store := ?st\<rparr>)"
    using assms(1) org by (simp add: gui_ok_def names)
  then show ?thesis using p fv Some by (auto simp: gui_View_def)
qed

lemma del_view_props:
  assumes "gui_ok g"
  shows "gui_ok (del_view n g) \<and> gui_View (del_view n g) = (gui_View g)(n := None)"
proof -
  have d: "distinct (map (\<lambda>a. vname (store g ! a)) (views g))" using assms by (simp add: gui_ok_def)
  have s: "store (del_view n g) = store g"
    "views (del_view n g) = (case remove_view (store g) n (views g) of Some r \<Rightarrow> r | None \<Rightarrow> views g)"
    by (auto simp: del_view_def DeleteView_def split: option.splits)
  have "gui_ok (del_view n g)"
    using assms remove_view_subset [of "store g" n "views g"] d
    by (auto simp: gui_ok_def s list_all_iff split: option.splits)
  moreover have "gui_View (del_view n g) m = ((gui_View g)(n := None)) m" for m
    using remove_view_find [OF d, of m n] by (simp add: gui_View_def s)
  ultimately show ?thesis by auto
qed

text \<open>The views of a user interface are such a table, their places are rectangles.\<close>

definition valid_place :: "int \<times> int \<times> int \<times> int \<Rightarrow> bool" where
  "valid_place p = (case p of (a0, b0, a1, b1) \<Rightarrow> a0 < a1 \<and> b0 < b1)"

definition place_view :: "int \<times> int \<times> int \<times> int \<Rightarrow> string \<Rightarrow> ('h, 'u) gui \<Rightarrow> ('h, 'u) gui" where
  "place_view p n g = (case p of (a0, b0, a1, b1) \<Rightarrow> put_view a0 b0 a1 b1 n g)"

interpretation gviews: name_table gui_ok valid_place gui_View place_view del_view
proof
  fix t :: "('h, 'u) gui" and n m a p
  assume ok: "gui_ok t"
  show "gui_ok (del_view n t)" and "gui_View (del_view n t) = (gui_View t)(n := None)"
    using del_view_props [OF ok] by auto
  assume n: "n \<noteq> []" and vp: "valid_place p"
  obtain a0 b0 a1 b1 where p: "p = (a0, b0, a1, b1)" "a0 < a1" "b0 < b1"
    using vp by (auto simp: valid_place_def split: prod.splits)
  note q = put_view_props [OF ok p(2,3) n]
  show "gui_ok (place_view p n t)" and "gui_View (place_view p n t) n \<noteq> None"
    using q p(1) by (auto simp: place_view_def)
  show "gui_View (place_view p n t) m = gui_View t m" if "m \<noteq> n" using q p(1) that by (auto simp: place_view_def)
  show "gui_View (place_view p n t) m = Some a" if "gui_View t m = Some a"
    using q p(1) that by (cases "m = n") (auto simp: place_view_def)
qed

text \<open>
  The views are a table by name: \<^verbatim>\<open>SetView\<close> with proper dimensions makes a view, reporting
  \<^verbatim>\<open>ErrorUnkView\<close> just when there was none of that name, or moves the one there is; afterwards the name
  is found, at the same address as before if it was there, no other name is affected, a
  second \<^verbatim>\<open>SetView\<close> changes no address, and \<^verbatim>\<open>DeleteView\<close> makes exactly that name unknown. Names stay unique.
\<close>

theorem SetView_table:
  assumes "gui_ok g" and "a0 < a1" and "b0 < b1" and "name \<noteq> []" and "c0 < c1" and "d0 < d1"
  shows "case SetView name a0 b0 a1 b1 g of (r, e, g') \<Rightarrow>
      gui_ok g' \<and> r \<noteq> None \<and> gui_View g' name = r
    \<and> (e = Some UnkView) = (gui_View g name = None) \<and> (e = None) = (gui_View g name = r)
    \<and> (\<forall>m. m \<noteq> name \<longrightarrow> gui_View g' m = gui_View g m)
    \<and> gui_View (snd (snd (SetView name c0 d0 c1 d1 g'))) = gui_View g'
    \<and> gui_View (snd (DeleteView name g')) = (gui_View g)(name := None)"
proof -
  have p: "valid_place (a0, b0, a1, b1)" "valid_place (c0, d0, c1, d1)" using assms by (auto simp: valid_place_def)
  let ?g = "put_view a0 b0 a1 b1 name g"
  note l = gviews.lookup_put_other [OF assms(1) p(1) assms(4), unfolded place_view_def prod.case]
  have ok: "gui_ok ?g" using gviews.ok_put [OF assms(1) p(1) assms(4)] by (simp add: place_view_def)
  have again: "gui_View (snd (snd (SetView name c0 d0 c1 d1 ?g))) = gui_View ?g"
    using gviews.put_again [OF assms(1) p(1,2) assms(4)] by (simp add: place_view_def put_view_def)
  have del: "gui_View (snd (DeleteView name ?g)) = (gui_View g)(name := None)"
    using gviews.lookup_del [OF ok] l by (auto simp: del_view_def fun_eq_iff)
  show ?thesis
  proof (cases "gui_View g name")
    case None
    from SetView_new [OF assms(2-4) None] obtain v where v: "vname v = name"
      "SetView name a0 b0 a1 b1 g = (Some (length (store g)), Some UnkView,
        g\<lparr>store := store g @ [v], views := views g @ [length (store g)]\<rparr>)" by blast
    then have "?g = g\<lparr>store := store g @ [v], views := views g @ [length (store g)]\<rparr>" by (simp add: put_view_def)
    moreover have "gui_View ?g name \<noteq> None"
      using gviews.lookup_put [OF assms(1) p(1) assms(4)] by (simp add: place_view_def)
    then have "gui_View ?g name = Some (length (store g))"
      using None v assms(1) views_nth_append [of "store g" "views g" _ "[v]"] find_view_cong [of "views g" "store g @ [v]" "store g" name]
      by (auto simp: calculation gui_View_def find_view_append gui_ok_def)
    ultimately show ?thesis using ok again del l None v(2) by auto
  next
    case (Some a)
    note o = SetView_old [OF assms(2-4) Some]
    have "gui_View ?g name = Some a"
      using gviews.lookup_put_old [OF assms(1) p(1) assms(4) Some] by (simp add: place_view_def)
    then show ?thesis using o ok again del l Some by (auto simp: put_view_def)
  qed
qed

definition demo_gui :: "(bool, unit) gui" where
  "demo_gui = place_view (0, 0, 40, 9) ''center'' (NewGui (80, 24) ())"

lemma demo_gui_ok: "gui_ok demo_gui"
proof -
  have "gui_ok (NewGui (80, 24) () :: (bool, unit) gui)" by (simp add: gui_ok_def NewGui_def)
  then show ?thesis unfolding demo_gui_def by (rule gviews.ok_put) (simp_all add: valid_place_def)
qed

theorem SetView_table_witness:
  "gui_View (snd (DeleteView ''side'' (snd (snd (SetView ''side'' 41 0 79 9 demo_gui))))) = (gui_View demo_gui)(''side'' := None)"
  using SetView_table [OF demo_gui_ok, of 41 79 0 9 "''side''" 0 1 0 1] by (simp split: prod.splits)

end
