(* ===== verification/Gocui_Flush.thy ===== *)
theory Gocui_Flush
  imports Gocui_Gui
begin

text \<open>
  What \<^verbatim>\<open>Flush\<close> of \<^verbatim>\<open>src/gocui/gui.go\<close> does to the interface. Frames, windows and corners are
  drawn by operations that report errors; here none of them can fail on an interface that is in
  order, whatever the size of the terminal is and wherever the views are.
\<close>

section \<open>Sequences of drawing steps\<close>

lemma steps_inv:
  assumes "\<And>f s. f \<in> set fs \<Longrightarrow> I s \<Longrightarrow> fst (f s) = None \<and> I (snd (f s))" and "I s"
  shows "fst (steps fs s) = None \<and> I (snd (steps fs s))"
  using assms
proof (induction fs arbitrary: s)
  case (Cons f fs)
  have f: "fst (f s) = None" "I (snd (f s))" using Cons.prems by auto
  then have "steps (f # fs) s = steps fs (snd (f s))" by (cases "f s") auto
  then show ?case using Cons.IH [of "snd (f s)"] Cons.prems f(2) by auto
qed simp

text \<open>An interface whose cursor can be placed: the current view, if it is shown, has an inside.\<close>

definition cursor_ok :: "('h, 'u) gui \<Rightarrow> bool" where
  "cursor_ok g \<longleftrightarrow>
     (case currentView g of
        None \<Rightarrow> True
      | Some a \<Rightarrow> \<not> ShowCursor g \<or>
          (a < length (store g) \<and> 0 < fst (view_Size (store g ! a)) \<and> 0 < snd (view_Size (store g ! a))
           \<and> 0 \<le> cx (store g ! a) \<and> 0 \<le> cy (store g ! a)))"

text \<open>A view without its cursor, and what drawing leaves alone of an interface.\<close>

definition body :: "view \<Rightarrow> view" where
  "body v = v\<lparr>cx := 0, cy := 0\<rparr>"

definition drawn_from :: "('h, 'u) gui \<Rightarrow> ('h, 'u) gui \<Rightarrow> bool" where
  "drawn_from g g' \<longleftrightarrow>
     gui_ok g' \<and> cursor_ok g' \<and> map body (store g') = map body (store g)
   \<and> g'\<lparr>store := store g, screen := screen g, term_cursor := term_cursor g\<rparr> = g"

lemma drawn_refl: "gui_ok g \<Longrightarrow> cursor_ok g \<Longrightarrow> drawn_from g g"
  by (simp add: drawn_from_def)

lemma drawn_fields:
  assumes "drawn_from g g'"
  shows "maxX g' = maxX g" "maxY g' = maxY g" "views g' = views g" "length (store g') = length (store g)"
proof -
  from assms have e: "g'\<lparr>store := store g, screen := screen g, term_cursor := term_cursor g\<rparr> = g"
    and m: "map body (store g') = map body (store g)" by (auto simp: drawn_from_def)
  show "maxX g' = maxX g" "maxY g' = maxY g" "views g' = views g" by (subst e [symmetric], simp)+
  show "length (store g') = length (store g)" using m by (metis length_map)
qed

lemma drawn_screen: "drawn_from g g' \<Longrightarrow> drawn_from g (g'\<lparr>screen := s\<rparr>)"
  by (auto simp: drawn_from_def gui_ok_def cursor_ok_def split: option.splits)

lemma drawn_term_cursor: "drawn_from g g' \<Longrightarrow> drawn_from g (g'\<lparr>term_cursor := c\<rparr>)"
  by (auto simp: drawn_from_def gui_ok_def cursor_ok_def split: option.splits)

lemma drawn_put_cell: "drawn_from g g' \<Longrightarrow> drawn_from g (put_cell c g')"
  by (simp add: put_cell_def drawn_screen)

lemma drawn_put_cells: "drawn_from g g' \<Longrightarrow> drawn_from g (put_cells cs g')"
  unfolding put_cells_def by (induction cs arbitrary: g') (simp_all add: drawn_put_cell)

lemma SetRune_on_screen:
  assumes "drawn_from g g'" "0 \<le> x" "x < maxX g" "0 \<le> y" "y < maxY g"
  shows "fst (gui_SetRune x y ch g') = None \<and> drawn_from g (snd (gui_SetRune x y ch g'))"
  using assms by (simp add: gui_SetRune_def off_screen_def drawn_fields [OF assms(1)] drawn_put_cell)

section \<open>Each step\<close>

lemma drawFrame_ok:
  assumes "drawn_from g g'"
  shows "fst (drawFrame a g') = None \<and> drawn_from g (snd (drawFrame a g'))"
  unfolding drawFrame_def Let_def
  by (rule steps_inv [where I = "drawn_from g", OF _ assms])
     (auto simp: when_step_def drawn_fields [OF assms] intro!: SetRune_on_screen [THEN conjunct1] SetRune_on_screen [THEN conjunct2])

lemma draw_corner_ok:
  assumes "drawn_from g g'"
  shows "fst (draw_corner x y g') = None \<and> drawn_from g (snd (draw_corner x y g'))"
proof (cases "intersectionRune g' x y")
  case (Some ch)
  then have "\<not> off_screen g' x y" by (auto simp: intersectionRune_def split: if_splits)
  then show ?thesis
    using Some SetRune_on_screen [OF assms, of x y ch] by (auto simp: draw_corner_def off_screen_def drawn_fields [OF assms])
qed (simp add: draw_corner_def assms)

lemma drawIntersections_ok:
  assumes "drawn_from g g'"
  shows "fst (drawIntersections g') = None \<and> drawn_from g (snd (drawIntersections g'))"
  unfolding drawIntersections_def Let_def
  by (rule steps_inv [where I = "drawn_from g", OF _ assms]) (auto simp: draw_corner_ok)

lemma drawn_update_cursor:
  assumes "drawn_from g g'" "a < length (store g')" "0 \<le> x" "0 \<le> y"
  shows "drawn_from g (update_view a (\<lambda>_. (store g' ! a)\<lparr>cx := x, cy := y\<rparr>) g')"
proof -
  let ?v = "(store g' ! a)\<lparr>cx := x, cy := y\<rparr>"
  have n: "(store g')[a := ?v] ! b = (if b = a then ?v else store g' ! b)" for b
    using assms(2) by simp
  have "map body ((store g')[a := ?v]) = map body (store g')"
    by (rule nth_equalityI) (auto simp: n body_def)
  moreover have "list_all (\<lambda>v. 0 \<le> ox v \<and> 0 \<le> oy v) ((store g')[a := ?v])"
    using assms(1,2) by (auto simp: drawn_from_def gui_ok_def list_all_length n)
  moreover have "vname ((store g')[a := ?v] ! b) = vname (store g' ! b)" for b by (simp add: n)
  ultimately show ?thesis
    using assms by (auto simp: drawn_from_def gui_ok_def cursor_ok_def update_view_def view_Size_def n split: option.splits)
qed

lemma place_cursor_ok:
  assumes "drawn_from g g'"
  shows "fst (place_cursor g') = None \<and> drawn_from g (snd (place_cursor g'))"
proof (cases "ShowCursor g'")
  case True
  show ?thesis
  proof (cases "currentView g'")
    case (Some a)
    let ?v = "store g' ! a"
    obtain mx my where m: "view_Size ?v = (mx, my)" by force
    define px where "px = (if cx ?v \<ge> mx then mx - 1 else cx ?v)"
    define py where "py = (if cy ?v \<ge> my then my - 1 else cy ?v)"
    have c: "a < length (store g')" "in_view ?v px py" "0 \<le> px" "0 \<le> py"
      using assms True Some by (auto simp: drawn_from_def cursor_ok_def px_def py_def in_view_iff m)
    then have "SetCursor ?v px py = (None, ?v\<lparr>cx := px, cy := py\<rparr>)" by (simp add: SetCursor_def)
    then have "place_cursor g' = (None, (update_view a (\<lambda>_. ?v\<lparr>cx := px, cy := py\<rparr>) g')
        \<lparr>term_cursor := Some (x0 ?v + px + 1, y0 ?v + py + 1)\<rparr>)"
      using True Some by (simp add: place_cursor_def m Let_def flip: px_def py_def)
    then show ?thesis using drawn_update_cursor [OF assms c(1,3,4)] by (simp add: drawn_term_cursor)
  qed (use assms True in \<open>simp add: place_cursor_def\<close>)
qed (use assms in \<open>simp add: place_cursor_def drawn_term_cursor\<close>)

lemma gui_draw_ok:
  assumes "drawn_from g g'" and "a \<in> set (views g)"
  shows "fst (gui_draw a g') = None \<and> drawn_from g (snd (gui_draw a g'))"
proof -
  obtain g1 where g1: "place_cursor g' = (None, g1)" "drawn_from g g1"
    using place_cursor_ok [OF assms(1)] by (metis prod.collapse)
  have "a < length (store g1)" "list_all (\<lambda>v. 0 \<le> ox v \<and> 0 \<le> oy v) (store g1)"
    using g1(2) assms(2) drawn_fields(3) [OF g1(2)] by (auto simp: drawn_from_def gui_ok_def list_all_iff)
  then have "view_draw (store g1 ! a) = Inr (window_cells (store g1 ! a))"
    by (intro view_draw_eq) (auto simp: list_all_length)
  then show ?thesis using g1 by (simp add: gui_draw_def Let_def drawn_put_cells)
qed

section \<open>Flush\<close>

text \<open>What \<^verbatim>\<open>Flush\<close> hands to the layout function: a cleared screen of the current size.\<close>

definition cleared :: "('h, 'u) gui \<Rightarrow> ('h, 'u) gui" where
  "cleared g = g\<lparr>screen := (\<lambda>_. (32, FgColor g, BgColor g)), maxX := fst (term_size g), maxY := snd (term_size g)\<rparr>"

lemma draw_views_ok:
  assumes "drawn_from g g'"
  shows "fst (steps (concat (map (\<lambda>a. [drawFrame a, gui_draw a]) (views g))) g') = None
    \<and> drawn_from g (snd (steps (concat (map (\<lambda>a. [drawFrame a, gui_draw a]) (views g))) g'))"
  by (rule steps_inv [where I = "drawn_from g", OF _ assms]) (auto simp: drawFrame_ok gui_draw_ok)

text \<open>
  \<^verbatim>\<open>Flush\<close> fails only where the layout function is missing or fails. When the layout function leaves the interface in
  order (names unique, origins not negative, and, if the cursor is shown, a current view
  with an inside), drawing the frames, texts, corners and the cursor reports no error, for
  every terminal size and all positions of the views, also off the screen; and it changes nothing but the screen and
  the cursors.
\<close>

theorem Flush_fails_only_in_layout:
  assumes "glayout g = Some l"
    and "gui_ok (snd (call l (cleared g) None))" and "cursor_ok (snd (call l (cleared g) None))"
  shows "fst (Flush call g) = fst (call l (cleared g) None)
    \<and> drawn_from (snd (call l (cleared g) None)) (snd (Flush call g))"
proof -
  obtain e g2 where c: "call l (cleared g) None = (e, g2)" by force
  then have d: "drawn_from g2 g2" using assms by (simp add: drawn_refl)
  obtain g3 where g3: "steps (concat (map (\<lambda>a. [drawFrame a, gui_draw a]) (views g2))) g2 = (None, g3)"
    "drawn_from g2 g3" using draw_views_ok [OF d] by (metis (mono_tags) prod.exhaust_sel)
  have F: "Flush call g = (case e of Some x \<Rightarrow> (Some x, g2) | None \<Rightarrow> drawIntersections g3)"
    unfolding Flush_def Let_def assms(1) option.case cleared_def [symmetric] c prod.case g3(1) ..
  show ?thesis
    using drawIntersections_ok [OF g3(2)] d by (cases e) (simp_all add: F c)
qed

theorem Flush_fails_only_in_layout_witness:
  "fst (Flush (\<lambda>l g c. (None, snd (snd (SetView ''side'' 41 0 90 9 g)))) (demo_gui\<lparr>glayout := Some True, ShowCursor := True, currentView := Some 0\<rparr>)) = None"
proof -
  let ?call = "\<lambda>(l :: bool) (g :: (bool, unit) gui) (c :: nat option). (None :: gerror option, snd (snd (SetView ''side'' 41 0 90 9 g)))"
  let ?g = "demo_gui\<lparr>glayout := Some True, ShowCursor := True, currentView := Some 0\<rparr>"
  have ok: "gui_ok (cleared ?g)" using demo_gui_ok by (simp add: gui_ok_def cleared_def)
  have "gui_ok (snd (snd (SetView ''side'' 41 0 90 9 (cleared ?g))))"
    using gviews.ok_put [OF ok, of "(41, 0, 90, 9)" "''side''"] by (simp add: valid_place_def place_view_def put_view_def)
  moreover have "cursor_ok (snd (snd (SetView ''side'' 41 0 90 9 (cleared ?g))))"
    by (simp add: cursor_ok_def cleared_def demo_gui_def place_view_def put_view_def SetView_def NewGui_def gui_View_def
        newView_def view_Size_def Let_def)
  ultimately show ?thesis using Flush_fails_only_in_layout [of ?g True ?call] by simp
qed

end
