(* ===== verification/Tail_File.thy ===== *)
theory Tail_File
  imports Go_Scanner
begin

text \<open>
  The last lines of a file, \<^verbatim>\<open>src/dircat/file_tail.go\<close>. The file is its contents, a seek followed by
  a scan reads from an offset. \<^verbatim>\<open>GetLineByPosition\<close> goes back in steps of 50 bytes until it is past
  a line feed and then forward line by line; both loops are functions with a termination proof.
\<close>

section \<open>Definitions\<close>

function back_loop :: "string \<Rightarrow> nat \<Rightarrow> nat \<Rightarrow> nat" where
  "back_loop content cursor now0 =
     (let now = (if now0 < 50 then 0 else now0 - 50);
          linelen = scan_length (drop now content)
      in if linelen + now \<ge> cursor \<and> now \<noteq> 0 then back_loop content cursor now
         else if now \<noteq> 0 then now + linelen + 1 else now)"
  by pat_completeness auto
termination
  by (relation "measure (\<lambda>(content, cursor, now). now)") auto

function forward_loop :: "string \<Rightarrow> nat \<Rightarrow> nat \<Rightarrow> nat \<times> nat" where
  "forward_loop content cursor now =
     (let linelen = scan_length (drop now content)
      in if now + linelen < cursor then forward_loop content cursor (now + linelen + 1)
         else (now, linelen))"
  by pat_completeness auto
termination
  by (relation "measure (\<lambda>(content, cursor, now). cursor - now)") auto

declare back_loop.simps [simp del] forward_loop.simps [simp del]

text \<open>\<^verbatim>\<open>ReadAt\<close> fills as much of the zeroed buffer as the file has.\<close>

definition GetLineByPosition :: "nat \<Rightarrow> string \<Rightarrow> nat \<times> string" where
  "GetLineByPosition cursor content =
     (case forward_loop content cursor (back_loop content cursor cursor) of
        (now, linelen) \<Rightarrow>
          (let got = take linelen (drop now content)
           in (now, got @ replicate (linelen - length got) (CHR 0x00))))"

text \<open>The loop of \<^verbatim>\<open>TailFile\<close>: \<open>n\<close> rounds, \<open>cursor\<close> is one more than in the code.\<close>

fun tail_loop :: "nat \<Rightarrow> nat \<Rightarrow> string \<Rightarrow> string list \<Rightarrow> string list" where
  "tail_loop 0 cursor1 content lines = lines"
| "tail_loop (Suc n) cursor1 content lines =
     (if cursor1 = 0 then lines
      else (case GetLineByPosition (cursor1 - 1) content of
              (head, str) \<Rightarrow> tail_loop n head content (str # lines)))"

definition TailFile :: "string + string \<Rightarrow> int \<Rightarrow> string + string" where
  "TailFile file cnt =
     (case file of
        Inl err \<Rightarrow> Inl err
      | Inr content \<Rightarrow>
          Inr (go_join [line_feed]
                 (tail_loop (nat (if cnt < 1 then 10 else cnt)) (length content) content [])))"

section \<open>Finding a line\<close>

text \<open>Texts the scanner reads line by line without loss.\<close>

definition plain :: "string \<Rightarrow> bool" where
  "plain s \<longleftrightarrow> carriage_return \<notin> set s \<and> list_all (\<lambda>l. length l < maxTokenSize) (go_split line_feed s)"

text \<open>A position that starts a line.\<close>

definition line_start :: "string \<Rightarrow> bool" where
  "line_start p \<longleftrightarrow> p = [] \<or> last p = line_feed"

lemma raw_line_split: "raw_line s = hd (go_split line_feed s)"
proof (induction s)
  case (Cons c s)
  then show ?case by (cases "go_split line_feed s") (auto simp: raw_line_def)
qed (simp add: raw_line_def)

lemma raw_line_drop_bound:
  assumes "list_all (\<lambda>l. length l < m) (go_split line_feed s)"
  shows "length (raw_line (drop n s)) < m"
  using assms
proof (induction s arbitrary: n)
  case Nil
  then show ?case by (simp add: raw_line_def)
next
  case (Cons c s)
  obtain l ls where l: "go_split line_feed s = l # ls" by (cases "go_split line_feed s") auto
  have tail: "list_all (\<lambda>l. length l < m) (go_split line_feed s)"
    using Cons.prems l by (auto split: if_splits)
  show ?case
  proof (cases n)
    case 0
    then show ?thesis using Cons.prems raw_line_split [of "c # s"] l by (auto split: if_splits)
  next
    case (Suc k)
    then show ?thesis using Cons.IH [OF tail, of k] by simp
  qed
qed

lemma scan_length_plain:
  assumes "plain s"
  shows "scan_length (drop n s) = length (raw_line (drop n s))"
proof -
  have "length (raw_line (drop n s)) < maxTokenSize"
    using assms raw_line_drop_bound by (auto simp: plain_def)
  moreover have "carriage_return \<notin> set (raw_line (drop n s))"
    using assms set_raw_line [of "drop n s"] set_drop_subset [of n s] by (auto simp: plain_def)
  ultimately show ?thesis
    by (cases "drop n s") (auto simp: scan_length_def scan_line_def dropCR_id raw_line_def)
qed

text \<open>Going forward from a line start not after the wanted line.\<close>

lemma forward_loop_finds:
  assumes "plain (p @ q @ l @ r)" and "line_start (p @ q)" and "line_start p"
    and "line_feed \<notin> set l" and "r = [] \<or> hd r = line_feed"
    and "length (p @ q) \<le> cursor" and "cursor \<le> length (p @ q) + length l"
  shows "forward_loop (p @ q @ l @ r) cursor (length p) = (length (p @ q), length l)"
  using assms
proof (induction "length q" arbitrary: p q rule: less_induct)
  case less
  have rl: "raw_line (l @ r) = l"
    using less.prems(4,5) raw_line_append [of l "tl r"] raw_line_end [of l] by (cases r) auto
  note sc = scan_length_plain [OF less.prems(1)]
  show ?case
  proof (cases "q = []")
    case True
    then show ?thesis
      using sc [of "length p"] rl less.prems(6,7) by (subst forward_loop.simps) (simp add: Let_def)
  next
    case False
    then have "line_feed \<in> set q" using less.prems(2) by (auto simp: line_start_def split: if_splits dest: last_in_set)
    then obtain q1 q2 where q: "q = q1 @ line_feed # q2" "line_feed \<notin> set q1" by (auto dest: split_list_first)
    have "raw_line (q @ l @ r) = q1" using q raw_line_append [of q1 "q2 @ l @ r"] by simp
    moreover have "length p + length q1 < cursor" using less.prems(6) q by simp
    moreover have "forward_loop ((p @ q1 @ [line_feed]) @ q2 @ l @ r) cursor (length (p @ q1 @ [line_feed]))
        = (length ((p @ q1 @ [line_feed]) @ q2), length l)"
      using less.prems q by (intro less.hyps) (auto simp: line_start_def split: if_splits)
    ultimately show ?thesis
      using sc [of "length p"] q by (subst forward_loop.simps) (simp add: Let_def)
  qed
qed

text \<open>Going back ends at a line start not after the cursor.\<close>

lemma back_loop_line_start:
  assumes "plain s" and "cursor < length s" and "now \<le> cursor"
  shows "back_loop s cursor now \<le> cursor \<and> line_start (take (back_loop s cursor now) s)"
  using assms
proof (induction s cursor now rule: back_loop.induct)
  case (1 s cursor now0)
  define now where "now = (if now0 < 50 then 0 else now0 - 50)"
  have sc: "scan_length (drop now s) = length (raw_line (drop now s))" by (rule scan_length_plain [OF "1.prems"(1)])
  let ?n = "length (raw_line (drop now s))"
  consider "?n + now \<ge> cursor \<and> now \<noteq> 0" | "\<not> ?n + now \<ge> cursor" "now \<noteq> 0" | "now = 0" by blast
  then show ?case
  proof cases
    case 1
    have "back_loop s cursor now0 = back_loop s cursor now"
      by (subst back_loop.simps) (use 1 sc in \<open>simp add: Let_def flip: now_def\<close>)
    moreover have "back_loop s cursor now \<le> cursor \<and> line_start (take (back_loop s cursor now) s)"
      using "1.IH" [OF now_def refl] 1 sc "1.prems" by (auto simp: now_def)
    ultimately show ?thesis by simp
  next
    case 2
    have b: "back_loop s cursor now0 = now + ?n + 1"
      by (subst back_loop.simps) (use 2 sc in \<open>simp add: Let_def flip: now_def\<close>)
    have lt: "now + ?n < length s" using 2 "1.prems"(2) by simp
    have nf: "drop now s ! ?n = line_feed"
      using nth_length_takeWhile [of "\<lambda>c. c \<noteq> line_feed" "drop now s"] lt by (simp add: raw_line_def)
    then have "s ! (now + ?n) = line_feed" using lt by simp
    then have "last (take (now + ?n + 1) s) = line_feed"
      using lt by (simp add: take_Suc_conv_app_nth)
    then show ?thesis unfolding b using 2 by (simp add: line_start_def)
  next
    case 3
    then have "back_loop s cursor now0 = 0"
      by (subst back_loop.simps) (simp add: Let_def flip: now_def)
    then show ?thesis by (simp add: line_start_def)
  qed
qed

lemma line_start_prefix:
  assumes "line_start (take n (P @ l1 @ x))" and "line_feed \<notin> set l1" and "n \<le> length (P @ l1)"
  shows "n \<le> length P"
proof (rule ccontr)
  assume "\<not> n \<le> length P"
  then obtain k where k: "n = length P + Suc k" by (metis less_imp_Suc_add not_le add_Suc_right)
  then have "take n (P @ l1 @ x) = P @ take (Suc k) l1" "Suc k \<le> length l1" using assms(3) by auto
  moreover from this(2) have "take (Suc k) l1 \<noteq> []" by auto
  ultimately have "last (take (Suc k) l1) = line_feed"
    using assms(1) by (auto simp: line_start_def)
  with \<open>take (Suc k) l1 \<noteq> []\<close> have "line_feed \<in> set (take (Suc k) l1)" by (metis last_in_set)
  then show False using assms(2) by (auto dest: in_set_takeD)
qed

text \<open>The line that contains a position, its line feed included, and where it starts.\<close>

lemma GetLineByPosition_line:
  assumes "plain s" and "s = P @ l @ r" and "line_start P" and "line_feed \<notin> set l"
    and "r = [] \<or> hd r = line_feed" and "length P \<le> cursor" and "cursor \<le> length P + length l" and "cursor < length s"
  shows "GetLineByPosition cursor s = (length P, l)"
proof -
  let ?n = "back_loop s cursor cursor"
  note b = back_loop_line_start [OF assms(1,8) order_refl]
  have "?n \<le> length P"
  proof (rule line_start_prefix [of ?n P "take (cursor - length P) l" "drop (cursor - length P) l @ r"])
    show "line_start (take ?n (P @ take (cursor - length P) l @ drop (cursor - length P) l @ r))"
      using b assms(2) by (simp add: append_assoc [symmetric] del: append_assoc)
    show "line_feed \<notin> set (take (cursor - length P) l)" using assms(4) by (auto dest: in_set_takeD)
    show "?n \<le> length (P @ take (cursor - length P) l)" using b assms(6,7) by simp
  qed
  then obtain q where q: "P = take ?n P @ q" "length (take ?n P) = ?n" by (metis append_take_drop_id length_take min.absorb2)
  have "line_start (take ?n P)" using b assms(2) \<open>?n \<le> length P\<close> by simp
  then have "forward_loop (take ?n P @ q @ l @ r) cursor (length (take ?n P)) = (length (take ?n P @ q), length l)"
    using assms q by (intro forward_loop_finds) (auto simp: append_assoc [symmetric] simp del: append_assoc)
  then have "forward_loop s cursor ?n = (length P, length l)"
    using q assms(2) by (metis append_assoc)
  then show ?thesis by (simp add: GetLineByPosition_def Let_def assms(2))
qed

section \<open>The last lines\<close>

definition file_lines :: "string \<Rightarrow> string list" where
  "file_lines s = (let ls = go_split line_feed s in if last ls = [] then butlast ls else ls)"

lemma file_lines_append:
  assumes "line_start P" and "line_feed \<notin> set l" and "e = [line_feed] \<or> e = [] \<and> l \<noteq> []"
  shows "file_lines (P @ l @ e) = file_lines P @ [l]"
proof -
  have le: "go_split line_feed (l @ e) = l # (if e = [] then [] else [[]])"
    using assms(2,3) by auto
  show ?thesis
  proof (cases "P = []")
    case True
    then show ?thesis using le assms(3) by (auto simp: file_lines_def Let_def)
  next
    case False
    then obtain P0 where P: "P = P0 @ [line_feed]" using assms(1) by (metis append_butlast_last_id line_start_def)
    have "file_lines P = go_split line_feed P0" by (simp add: P file_lines_def go_split_sep_append)
    then show ?thesis
      using le assms(3) by (auto simp: P file_lines_def go_split_sep_append butlast_append Let_def)
  qed
qed

lemma last_line_split:
  assumes "P \<noteq> []"
  obtains P1 l e where "P = P1 @ l @ e" "line_start P1" "line_feed \<notin> set l" "e = [line_feed] \<or> e = [] \<and> l \<noteq> []"
    and "line_start P \<Longrightarrow> e = [line_feed]"
proof -
  define e where "e = (if last P = line_feed then [line_feed] else [])"
  define B where "B = (if last P = line_feed then butlast P else P)"
  have P: "P = B @ e" using append_butlast_last_id [OF assms] by (auto simp: B_def e_def)
  obtain P1 l where B: "B = P1 @ l" "line_start P1" "line_feed \<notin> set l"
  proof (cases "line_feed \<in> set B")
    case True
    then obtain ys zs where "B = ys @ line_feed # zs" "line_feed \<notin> set zs" by (metis split_list_last)
    then show ?thesis using that [of "ys @ [line_feed]" zs] by (simp add: line_start_def)
  next
    case False
    then show ?thesis using that [of "[]" B] by (simp add: line_start_def)
  qed
  have "l \<noteq> []" if "e = []"
  proof
    assume "l = []"
    then have "P = P1" using P B(1) that by simp
    then have "last P = line_feed" using B(2) assms by (simp add: line_start_def)
    then show False using that by (simp add: e_def)
  qed
  then have e: "e = [line_feed] \<or> e = [] \<and> l \<noteq> []" by (auto simp: e_def)
  have ls: "e = [line_feed]" if "line_start P" using that assms by (simp add: line_start_def e_def)
  show ?thesis using that [of P1 l e] P B e ls by simp
qed

lemma tail_loop_lines:
  assumes "plain (P @ R)" and "line_start P \<or> R = []"
  shows "tail_loop n (length P) (P @ R) acc = drop (length (file_lines P) - n) (file_lines P) @ acc"
  using assms
proof (induction n arbitrary: P R acc)
  case (Suc n)
  show ?case
  proof (cases "P = []")
    case True
    then show ?thesis by (simp add: file_lines_def)
  next
    case False
    obtain P1 l e where p: "P = P1 @ l @ e" "line_start P1" "line_feed \<notin> set l"
      "e = [line_feed] \<or> e = [] \<and> l \<noteq> []" "line_start P \<Longrightarrow> e = [line_feed]"
      using last_line_split [OF False] by metis
    have len: "length P1 \<le> length P - 1" "length P - 1 \<le> length P1 + length l"
      using p(1,4) by (cases l; auto)+
    have "GetLineByPosition (length P - 1) (P @ R) = (length P1, l)"
      using Suc.prems p len False
      by (intro GetLineByPosition_line [where r = "e @ R"]) (auto simp: Suc_le_eq)
    moreover have "tail_loop n (length P1) (P1 @ l @ e @ R) (l # acc)
        = drop (length (file_lines P1) - n) (file_lines P1) @ l # acc"
      using Suc.prems p by (intro Suc.IH) auto
    ultimately show ?thesis
      using False p(1) file_lines_append [OF p(2,3,4)] by simp
  qed
qed simp

text \<open>
  C37. \<^verbatim>\<open>TailFile\<close> returns the last lines of a file: for a file without carriage returns whose
  lines are shorter than 64 KiB, the last \<^verbatim>\<open>cnt\<close> lines (ten if \<^verbatim>\<open>cnt\<close> is not positive, all of
  them if there are fewer), in order, whether or not the file ends with a line feed. Both search
  loops come to an end on every file.
\<close>

theorem TailFile_last_lines:
  assumes "plain content"
  shows "TailFile (Inr content) cnt =
    Inr (go_join [line_feed]
      (drop (length (file_lines content) - nat (if cnt < 1 then 10 else cnt)) (file_lines content)))"
  using tail_loop_lines [of content "[]" "nat (if cnt < 1 then 10 else cnt)" "[]"] assms
  by (simp add: TailFile_def)

theorem TailFile_last_lines_witness:
  "TailFile (Inr (''ab'' @ [line_feed] @ ''c'' @ [line_feed] @ ''de'')) 2 = Inr (''c'' @ [line_feed] @ ''de'')"
proof -
  have "plain (''ab'' @ [line_feed] @ ''c'' @ [line_feed] @ ''de'')"
    by (simp add: plain_def carriage_return_def maxTokenSize_def)
  moreover have "go_join [line_feed] (drop (length (file_lines (''ab'' @ [line_feed] @ ''c'' @ [line_feed] @ ''de''))
      - nat (if (2::int) < 1 then 10 else 2)) (file_lines (''ab'' @ [line_feed] @ ''c'' @ [line_feed] @ ''de'')))
      = ''c'' @ [line_feed] @ ''de''" by code_simp
  ultimately show ?thesis using TailFile_last_lines by metis
qed

text \<open>A carriage return before a line feed is not counted: the line found is one byte short.\<close>

lemma TailFile_crlf_shifted:
  "TailFile (Inr (''ab'' @ [carriage_return, line_feed] @ ''cd'')) 2 = Inr ([line_feed] @ ''cd'')"
  by (simp add: TailFile_def GetLineByPosition_def back_loop.simps forward_loop.simps scan_length_def
      scan_line_def raw_line_def dropCR_def maxTokenSize_def carriage_return_def Let_def numeral_2_eq_2)

end
