(* ===== verification/Dir_Cat.thy ===== *)
theory Dir_Cat
  imports Gocui_Flush Tail_File
begin

text \<open>
  The live view of the output files, \<^verbatim>\<open>src/dircat/dir_cat.go\<close>: a client of the user interface with
  a list of files on the right and the tail of the selected file on the left. Its package variables are the
  \<open>user\<close> part of the interface; an index out of range and a division by zero are \<open>Panicked\<close>.
\<close>

section \<open>State\<close>

datatype dc_handler = HLayout | HQuit | HNext | HPrev

record dc_vars =
  files :: "string list"
  file_offset :: int
  window_offset :: int

type_synonym dc_gui = "(dc_handler, dc_vars) gui"

definition Padding :: int where
  "Padding = 1"

definition PrefixEmpty :: string where
  "PrefixEmpty = ''   ''"

definition PrefixArrow :: string where
  "PrefixArrow = ''=> ''"

text \<open>\<^verbatim>\<open>filepath.Base\<close> where the separator is a slash.\<close>

definition path_Base :: "string \<Rightarrow> string" where
  "path_Base p =
     (if p = [] then ''.''
      else let q = rev (dropWhile (\<lambda>c. c = CHR ''/'') (rev p));
               b = rev (takeWhile (\<lambda>c. c \<noteq> CHR ''/'') (rev q))
           in if b = [] then ''/'' else b)"

text \<open>\<^verbatim>\<open>fmt.Fprintln(v, s)\<close>, whose error is ignored.\<close>

definition Fprintln :: "nat \<Rightarrow> string \<Rightarrow> dc_gui \<Rightarrow> dc_gui" where
  "Fprintln a s g = update_view a (\<lambda>v. snd (view_Write v (s @ [line_feed]))) g"

section \<open>Handlers\<close>

definition layout_line :: "nat \<Rightarrow> nat \<Rightarrow> dc_gui \<Rightarrow> gerror option \<times> dc_gui" where
  "layout_line a i g =
     (if i < length (files (user g))
      then (None, Fprintln a ((if i = 0 then PrefixArrow else PrefixEmpty) @ path_Base (files (user g) ! i)) g)
      else (Some Panicked, g))"

definition layout :: "dc_gui \<Rightarrow> gerror option \<times> dc_gui" where
  "layout g =
     (case SetView ''center'' 0 0 (go_quot (maxX g * 4) 5) (maxY g - Padding) g of
        (_, e1, g1) \<Rightarrow>
          if e1 \<noteq> None \<and> e1 \<noteq> Some UnkView then (e1, g1)
          else
            (case SetView ''side'' (go_quot (maxX g * 4) 5 + 1) 0 (maxX g - Padding) (maxY g - Padding) g1 of
               (r, None, g2) \<Rightarrow> (None, g2)
             | (r, Some e, g2) \<Rightarrow>
                 if e \<noteq> UnkView then (Some e, g2)
                 else
                   let n = int (length (files (user g2)));
                       height = (if maxY g2 - 2 * Padding > n then n else maxY g2)
                   in steps (map (layout_line (the r)) [0..<nat height]) g2))"

definition quit :: "dc_gui \<Rightarrow> nat option \<Rightarrow> gerror option \<times> dc_gui" where
  "quit g v = (Some Quit, g)"

definition side_line :: "nat \<Rightarrow> int \<Rightarrow> nat \<times> string \<Rightarrow> dc_gui \<Rightarrow> dc_gui" where
  "side_line a fOffset = (\<lambda>(i, name). Fprintln a ((if int i = fOffset then PrefixArrow else PrefixEmpty) @ path_Base name))"

definition scroll :: "int \<Rightarrow> int \<Rightarrow> int \<Rightarrow> int" where
  "scroll wheight fOffset w =
     (if fOffset < w then fOffset else if fOffset \<ge> w + wheight then fOffset - wheight + 1 else w)"

definition drawSide :: "nat \<Rightarrow> string list \<Rightarrow> int \<Rightarrow> dc_gui \<Rightarrow> dc_gui" where
  "drawSide a filelist fOffset g =
     (let g1 = put_cells (fst (view_Clear (store g ! a))) (update_view a (\<lambda>v. snd (view_Clear v)) g);
          wheight = maxY g - 2 * Padding;
          w = scroll wheight fOffset (window_offset (user g));
          g2 = g1\<lparr>user := (user g1)\<lparr>window_offset := w\<rparr>\<rparr>;
          last = min (int (length filelist)) (wheight + w)
      in fold (side_line a fOffset) (filter (\<lambda>(i, name). \<not> (int i < w \<or> int i \<ge> last)) (enumerate 0 filelist)) g2)"

definition moveSelection :: "int \<Rightarrow> dc_gui \<Rightarrow> nat option \<Rightarrow> gerror option \<times> dc_gui" where
  "moveSelection d g v =
     (case gui_View g ''side'' of
        None \<Rightarrow> (None, g)
      | Some a \<Rightarrow>
          let n = int (length (files (user g)))
          in if n = 0 then (Some Panicked, g)
             else let f = go_rem (file_offset (user g) + d + n) n
                  in (None, drawSide a (files (user g)) f (g\<lparr>user := (user g)\<lparr>file_offset := f\<rparr>\<rparr>)))"

definition nexOne :: "dc_gui \<Rightarrow> nat option \<Rightarrow> gerror option \<times> dc_gui" where
  "nexOne = moveSelection 1"

definition prevOne :: "dc_gui \<Rightarrow> nat option \<Rightarrow> gerror option \<times> dc_gui" where
  "prevOne = moveSelection (- 1)"

definition dc_call :: "dc_handler \<Rightarrow> (dc_handler, dc_vars) handler" where
  "dc_call h g v =
     (case h of HLayout \<Rightarrow> layout g | HQuit \<Rightarrow> quit g v | HNext \<Rightarrow> nexOne g v | HPrev \<Rightarrow> prevOne g v)"

text \<open>
  \<^verbatim>\<open>Init\<close>: \<open>stat\<close> says of a path whether it is a directory, \<open>abs_path\<close> is \<^verbatim>\<open>filepath.Abs\<close>,
  \<open>tb\<close> the result of \<^verbatim>\<open>termbox.Init\<close>.
\<close>

definition dc_bindings :: "(key \<times> dc_handler) list" where
  "dc_bindings = [(KeyCtrlC, HQuit), (KeyArrowDown, HNext), (KeyCtrlN, HNext), (KeyArrowUp, HPrev), (KeyCtrlP, HPrev)]"

definition dc_Init ::
  "(string \<Rightarrow> bool option) \<Rightarrow> (string \<Rightarrow> string) \<Rightarrow> gerror option \<Rightarrow> int \<times> int \<Rightarrow> attribute \<Rightarrow> attribute \<Rightarrow>
   string list \<Rightarrow> gerror + dc_gui" where
  "dc_Init stat abs_path tb tsize black white filelist =
     (let list = map abs_path (filter (\<lambda>f. stat f = Some False) filelist);
          g0 = NewGui tsize \<lparr>files = list, file_offset = 0, window_offset = 0\<rparr>
      in case gui_Init tb black white g0 of
           (Some e, _) \<Rightarrow> Inl e
         | (None, g1) \<Rightarrow>
             (case steps (map (\<lambda>(k, h). SetKeybinding [] (ArgKey k) 0 (Some h)) dc_bindings) (SetLayout HLayout g1) of
                (Some e, _) \<Rightarrow> Inl e | (None, g2) \<Rightarrow> Inr g2))"

section \<open>The tail of the selected file\<close>

text \<open>
  The expression \<^verbatim>\<open>\033[[0-9]+m\<close>: an escape, one or more digits or brackets, and an \<^verbatim>\<open>m\<close>. The class
  does not contain \<^verbatim>\<open>m\<close>, so there is one way to match at an escape.
\<close>

definition esc_class :: "char \<Rightarrow> bool" where
  "esc_class c \<longleftrightarrow> c \<in> set ''[0123456789''"

fun esc_match :: "string \<Rightarrow> nat option" where
  "esc_match [] = None"
| "esc_match (c # s) =
     (let p = takeWhile esc_class s
      in if c = CHR 0x1B \<and> p \<noteq> [] \<and> prefix ''m'' (drop (length p) s) then Some (length p + 2) else None)"

function strip_escapes :: "string \<Rightarrow> string" where
  "strip_escapes [] = []"
| "strip_escapes (c # s) =
     (case esc_match (c # s) of None \<Rightarrow> c # strip_escapes s | Some n \<Rightarrow> strip_escapes (drop n (c # s)))"
  by pat_completeness auto
termination
  by (relation "measure length") (auto simp: Let_def split: if_splits)

definition clean_text :: "string \<Rightarrow> string" where
  "clean_text text =
     (case first_index (\<lambda>c. c = line_feed) text of
        Some i \<Rightarrow> if i > 0 then strip_escapes (take i text) @ drop i text else strip_escapes text
      | None \<Rightarrow> strip_escapes text)"

definition drawCenter :: "(string \<Rightarrow> string + string) \<Rightarrow> dc_gui \<Rightarrow> gerror option \<times> dc_gui" where
  "drawCenter fs g =
     (case gui_View g ''center'' of
        None \<Rightarrow> (None, g)
      | Some a \<Rightarrow>
          if file_offset (user g) < 0 \<or> int (length (files (user g))) \<le> file_offset (user g) then (Some Panicked, g)
          else
            let name = files (user g) ! nat (file_offset (user g));
                text = (case TailFile (fs name) (maxY g - 2) of
                          Inr t \<Rightarrow> clean_text t
                        | Inl _ \<Rightarrow> ''------ failed to read from '' @ path_Base name @ '' ------'' @ [line_feed]);
                g1 = put_cells (fst (view_Clear (store g ! a))) (update_view a (\<lambda>v. snd (view_Clear v)) g);
                g2 = update_view a (\<lambda>v. snd (view_Write v text)) g1;
                (e, g3) = Flush dc_call g2
            in (if e = Some Panicked then e else None, g3))"

section \<open>Writing lines into a view\<close>

text \<open>Names that take one line of the list.\<close>

definition shown_name :: "string \<Rightarrow> bool" where
  "shown_name p \<longleftrightarrow> line_feed \<notin> set (path_Base p) \<and> carriage_return \<notin> set (path_Base p)
     \<and> length (path_Base p) + 3 < maxTokenSize"

definition entry :: "bool \<Rightarrow> string \<Rightarrow> rune list option" where
  "entry sel p = Some (to_runes ((if sel then PrefixArrow else PrefixEmpty) @ path_Base p))"

lemma scan_one_line:
  assumes "shown_name p"
  shows "scan_all ((if sel then PrefixArrow else PrefixEmpty) @ path_Base p @ [line_feed]) =
    ([(if sel then PrefixArrow else PrefixEmpty) @ path_Base p], False)"
  using scan_all_lines [of "[(if sel then PrefixArrow else PrefixEmpty) @ path_Base p]"] assms
  by (auto simp: shown_name_def PrefixArrow_def PrefixEmpty_def carriage_return_def)

lemma put_cells_fields [simp]:
  "store (put_cells cs g) = store g" "user (put_cells cs g) = user g" "maxY (put_cells cs g) = maxY g"
  "views (put_cells cs g) = views g"
proof -
  have c: "store (put_cell c h) = store h \<and> user (put_cell c h) = user h \<and> maxY (put_cell c h) = maxY h
      \<and> views (put_cell c h) = views h" for c h
    by (simp add: put_cell_def)
  have "store (put_cells cs g) = store g \<and> user (put_cells cs g) = user g \<and> maxY (put_cells cs g) = maxY g
      \<and> views (put_cells cs g) = views g"
    unfolding put_cells_def by (induction cs arbitrary: g) (simp_all add: c)
  then show "store (put_cells cs g) = store g" "user (put_cells cs g) = user g" "maxY (put_cells cs g) = maxY g"
    "views (put_cells cs g) = views g" by auto
qed

text \<open>An operation that changes the text of one view only.\<close>

definition retext :: "nat \<Rightarrow> dc_gui \<Rightarrow> dc_gui \<Rightarrow> bool" where
  "retext a g g' \<longleftrightarrow> views g' = views g \<and> maxY g' = maxY g
     \<and> (\<exists>ls. store g' = (store g)[a := (store g ! a)\<lparr>vlines := ls\<rparr>])"

lemma retext_trans:
  assumes "retext a g g'" "retext a g' g''" "a < length (store g)"
  shows "retext a g g''"
  using assms unfolding retext_def by (auto simp: list_update_overwrite)

lemma retext_ok:
  assumes "retext a g g'" "gui_ok g" "a < length (store g)"
  shows "gui_ok g' \<and> gui_View g' n = gui_View g n"
proof -
  obtain ls where st: "store g' = (store g)[a := (store g ! a)\<lparr>vlines := ls\<rparr>]" "views g' = views g"
    using assms(1) by (auto simp: retext_def)
  have names: "vname (store g' ! b) = vname (store g ! b)" for b
    using assms(3) by (cases "b = a") (auto simp: st)
  have "list_all (\<lambda>v. 0 \<le> ox v \<and> 0 \<le> oy v) (store g')"
    using assms(2,3) by (auto simp: st gui_ok_def list_all_length nth_list_update)
  then have "gui_ok g'" using assms(2) by (simp add: gui_ok_def names) (simp add: st)
  moreover have "find_view (store g') n (views g) = find_view (store g) n (views g)"
    by (intro find_view_cong) (simp add: names)
  ultimately show ?thesis by (simp add: gui_View_def st(2))
qed

lemma Fprintln_props:
  "retext a g (Fprintln a s g)" "user (Fprintln a s g) = user g"
  by (auto simp: Fprintln_def retext_def update_view_def view_Write_def split: prod.splits)

lemma Fprintln_entry:
  assumes "shown_name p" "a < length (store g)"
  shows "vlines (store (Fprintln a ((if sel then PrefixArrow else PrefixEmpty) @ path_Base p) g) ! a) =
    vlines (store g ! a) @ [entry sel p]"
  using assms scan_one_line [OF assms(1), of sel]
  by (simp add: Fprintln_def update_view_def view_Write_def entry_def)

lemma side_lines:
  assumes "list_all (\<lambda>(i, p). shown_name p) xs" "a < length (store g)"
  shows "let g' = fold (side_line a f) xs g in
    retext a g g' \<and> user g' = user g
    \<and> vlines (store g' ! a) = vlines (store g ! a) @ map (\<lambda>(i, p). entry (int i = f) p) xs"
  using assms
proof (induction xs arbitrary: g)
  case Nil
  then show ?case by (auto simp: retext_def Let_def intro!: exI [of _ "vlines (store g ! a)"])
next
  case (Cons x xs)
  obtain i p where x: "x = (i, p)" by force
  let ?g = "side_line a f x g"
  have g: "retext a g ?g" "user ?g = user g" "vlines (store ?g ! a) = vlines (store g ! a) @ [entry (int i = f) p]"
    using Cons.prems x Fprintln_props Fprintln_entry [of p a g "int i = f"] by (auto simp: side_line_def)
  then have "a < length (store ?g)" using Cons.prems(2) by (auto simp: retext_def)
  then show ?case using Cons.IH [of ?g] Cons.prems g x retext_trans [OF g(1) _ Cons.prems(2)] by (auto simp: Let_def)
qed

section \<open>The first listing\<close>

lemma layout_lines_panic:
  "a < length (store g) \<Longrightarrow> fst (steps (map (layout_line a) [i..<j]) g) =
    (if j \<le> max i (length (files (user g))) then None else Some Panicked)"
proof (induction "j - i" arbitrary: i g)
  case (Suc k)
  then have "[i..<j] = i # [Suc i..<j]" by (simp add: upt_rec)
  moreover have "a < length (store (Fprintln a s g))" for s
    using Suc.prems by (simp add: Fprintln_def update_view_def)
  ultimately show ?case
    using Suc Fprintln_props(2) by (auto simp: layout_line_def)
qed simp

text \<open>
  C40. The first layout panics exactly for some numbers of files: on a terminal of at least 11 columns and two
  rows, with \<open>n\<close> files and no views yet, it is fine when the terminal has more than \<open>n + 2\<close> rows or at
  most \<open>n\<close>; with \<open>n + 1\<close> or \<open>n + 2\<close> rows it reads past the end of the list of files. (The
  height is cut to \<open>n\<close> only when it exceeds \<open>n\<close> by more than the padding.)
\<close>

theorem layout_panics_iff:
  assumes "gui_View g ''center'' = None" and "gui_View g ''side'' = None" and "11 \<le> maxX g" and "2 \<le> maxY g" and "gui_ok g"
  shows "fst (layout g) =
    (if maxY g = int (length (files (user g))) + 1 \<or> maxY g = int (length (files (user g))) + 2 then Some Panicked else None)"
proof -
  let ?q = "maxX g * 4 div 5" and ?n = "int (length (files (user g)))"
  have q: "go_quot (maxX g * 4) 5 = ?q" "0 < ?q" "?q + 1 < maxX g - 1" using assms(3) by (simp_all add: go_quot_pos)
  from SetView_new [of 0 ?q 0 "maxY g - 1" "''center''" g] obtain v1 where v1:
    "SetView ''center'' 0 0 ?q (maxY g - 1) g = (Some (length (store g)), Some UnkView,
      g\<lparr>store := store g @ [v1], views := views g @ [length (store g)]\<rparr>)" "vname v1 = ''center''"
    using assms(1,4) q(2) by auto
  let ?g1 = "g\<lparr>store := store g @ [v1], views := views g @ [length (store g)]\<rparr>"
  have "gui_View ?g1 ''side'' = None"
    using put_view_props [OF assms(5) q(2), of 0 "maxY g - 1" "''center''" "''side''"] v1(1) assms(2,4)
    by (simp add: put_view_def)
  from SetView_new [OF q(3) _ _ this, of 0 "maxY g - 1"] obtain v2 where v2:
    "SetView ''side'' (?q + 1) 0 (maxX g - 1) (maxY g - 1) ?g1 = (Some (length (store ?g1)), Some UnkView,
      ?g1\<lparr>store := store ?g1 @ [v2], views := views ?g1 @ [length (store ?g1)]\<rparr>)"
    using assms(4) by auto
  let ?g2 = "?g1\<lparr>store := store ?g1 @ [v2], views := views ?g1 @ [length (store ?g1)]\<rparr>"
  let ?h = "nat (if maxY g - 2 > ?n then ?n else maxY g)"
  have "layout g = steps (map (layout_line (length (store ?g1))) [0..<?h]) ?g2"
    using v1(1) v2 q(1) by (simp add: layout_def Padding_def Let_def)
  then show ?thesis
    using layout_lines_panic [of "length (store ?g1)" ?g2 0 ?h] assms(4) by (auto split: if_splits)
qed

definition demo_dc :: "nat \<Rightarrow> dc_gui" where
  "demo_dc n = (NewGui (80, 24) \<lparr>files = replicate n ''/tmp/h'', file_offset = 0, window_offset = 0\<rparr>)\<lparr>maxX := 80, maxY := 24\<rparr>"

theorem layout_panics_iff_witness:
  "fst (layout (demo_dc 22)) = Some Panicked \<and> fst (layout (demo_dc 23)) = Some Panicked
    \<and> fst (layout (demo_dc 21)) = None \<and> fst (layout (demo_dc 24)) = None"
proof -
  have "gui_View (demo_dc n) m = None" "11 \<le> maxX (demo_dc n)" "maxY (demo_dc n) = 24"
    "length (files (user (demo_dc n))) = n" "gui_ok (demo_dc n)" for n m
    by (simp_all add: demo_dc_def NewGui_def gui_View_def gui_ok_def)
  then show ?thesis using layout_panics_iff [of "demo_dc _"] by simp
qed

section \<open>Moving the selection\<close>

definition selection_ok :: "dc_gui \<Rightarrow> bool" where
  "selection_ok g \<longleftrightarrow> 0 \<le> file_offset (user g) \<and> file_offset (user g) < int (length (files (user g)))
     \<and> 0 \<le> window_offset (user g)"

lemma scroll_visible:
  assumes "0 < h" "0 \<le> f" "0 \<le> w"
  shows "0 \<le> scroll h f w \<and> scroll h f w \<le> f \<and> f < scroll h f w + h"
  using assms by (auto simp: scroll_def)

lemma filter_upt_int:
  "0 \<le> w \<Longrightarrow> filter (\<lambda>i. \<not> (int i < w \<or> int i \<ge> e)) [0..<n] = [nat w..<min n (nat e)]"
proof (induction n)
  case (Suc n)
  have "[nat w..<min (Suc n) (nat e)] = [nat w..<min n (nat e)] @ (if w \<le> int n \<and> int n < e then [n] else [])"
    by (cases "nat e \<le> n"; cases "nat w \<le> n") (auto simp: min_def)
  then show ?case using Suc by auto
qed simp

lemma filter_enumerate:
  "filter (\<lambda>(i, x). P i) (enumerate 0 xs) = map (\<lambda>i. (i, xs ! i)) (filter P [0..<length xs])"
proof -
  have "enumerate 0 xs = map (\<lambda>i. (i, xs ! i)) [0..<length xs]"
    by (rule nth_equalityI) (auto simp: nth_enumerate_eq)
  then show ?thesis by (simp add: filter_map comp_def)
qed

lemma drawSide_shows:
  assumes "a < length (store g)" "list_all shown_name fl" "0 \<le> f" "0 \<le> window_offset (user g)" "2 < maxY g"
  shows "let g' = drawSide a fl f g; w = window_offset (user g') in
    retext a g g' \<and> files (user g') = files (user g) \<and> file_offset (user g') = file_offset (user g)
    \<and> w = scroll (maxY g - 2) f (window_offset (user g)) \<and> 0 \<le> w \<and> w \<le> f \<and> f < w + (maxY g - 2)
    \<and> vlines (store g' ! a) = map (\<lambda>i. entry (int i = f) (fl ! i)) [nat w..<min (length fl) (nat (w + (maxY g - 2)))]"
proof -
  let ?h = "maxY g - 2 * Padding"
  define w where "w = scroll ?h f (window_offset (user g))"
  define g2 where "g2 = (put_cells (fst (view_Clear (store g ! a))) (update_view a (\<lambda>v. snd (view_Clear v)) g))
      \<lparr>user := (user g)\<lparr>window_offset := w\<rparr>\<rparr>"
  define idx where "idx = [nat w..<min (length fl) (nat (w + (maxY g - 2)))]"
  have w: "0 \<le> w" "w \<le> f" "f < w + (maxY g - 2)"
    using scroll_visible [of ?h f "window_offset (user g)"] assms by (auto simp: w_def Padding_def)
  have weq: "w = scroll (maxY g - 2) f (window_offset (user g))" by (simp add: w_def Padding_def)
  have fl: "filter (\<lambda>(i, name). \<not> (int i < w \<or> int i \<ge> min (int (length fl)) (?h + w))) (enumerate 0 fl)
      = map (\<lambda>i. (i, fl ! i)) idx"
    unfolding filter_enumerate filter_upt_int [OF w(1)] idx_def using w
    by (simp add: Padding_def min_def add.commute)
  have g2: "retext a g g2" "user g2 = (user g)\<lparr>window_offset := w\<rparr>" "vlines (store g2 ! a) = []" "a < length (store g2)"
    using assms(1) by (auto simp: g2_def retext_def update_view_def view_Clear_def Let_def)
  have "list_all (\<lambda>(i, p). shown_name p) (map (\<lambda>i. (i, fl ! i)) idx)"
    using assms(2) by (auto simp: list_all_iff idx_def)
  note sl = side_lines [OF this g2(4), of f]
  have d: "drawSide a fl f g = fold (side_line a f) (map (\<lambda>i. (i, fl ! i)) idx) g2"
    unfolding drawSide_def Let_def fl [symmetric] w_def g2_def by (simp add: update_view_def)
  show ?thesis
    using sl g2 w retext_trans [OF g2(1) _ assms(1)] by (simp add: d Let_def idx_def comp_def flip: weq)
qed

lemma go_rem_move:
  assumes "0 \<le> f" "f < n" "d = 1 \<or> d = - 1"
  shows "go_rem (f + d + n) n = (f + d) mod n"
proof -
  have "0 \<le> f + d + n" using assms by auto
  then have "go_rem (f + d + n) n = (f + d + n) mod n"
    using assms by (simp add: go_rem_def go_quot_pos minus_div_mult_eq_mod)
  then show ?thesis by simp
qed

text \<open>
  C39. The arrow keys move the selection around the list and keep it in sight: \<^verbatim>\<open>nexOne\<close> and
  \<^verbatim>\<open>prevOne\<close> select the next or previous file modulo the number of files without an
  error, the selected file lies in the window, and the side view then lists exactly the files of
  the window, each on one line, with the arrow at the selected one and at no other. The interface stays in order,
  no view is added or lost.
\<close>

theorem navigation_shows_selection:
  assumes "gui_ok g" and "gui_View g ''side'' = Some a" and "selection_ok g" and "2 < maxY g"
    and "list_all shown_name (files (user g))" and "(h, d) = (HNext, 1) \<or> (h, d) = (HPrev, - 1)"
  shows "case dc_call h g v of (e, g') \<Rightarrow>
      let f = file_offset (user g'); w = window_offset (user g'); n = length (files (user g)) in
      e = None \<and> files (user g') = files (user g) \<and> f = (file_offset (user g) + d) mod int n
    \<and> w = scroll (maxY g - 2) f (window_offset (user g)) \<and> w \<le> f \<and> f < w + (maxY g - 2)
    \<and> vlines (store g' ! a) = map (\<lambda>i. entry (int i = f) (files (user g) ! i)) [nat w..<min n (nat (w + (maxY g - 2)))]
    \<and> selection_ok g' \<and> gui_ok g' \<and> gui_View g' = gui_View g"
proof -
  let ?n = "int (length (files (user g)))"
  define f where "f = (file_offset (user g) + d) mod ?n"
  have n: "0 < ?n" using assms(3) by (auto simp: selection_ok_def)
  have f: "0 \<le> f" "f < ?n" using n by (auto simp: f_def)
  have rem: "go_rem (file_offset (user g) + d + ?n) ?n = f"
    using assms(3,6) unfolding f_def by (intro go_rem_move) (auto simp: selection_ok_def)
  let ?g = "g\<lparr>user := (user g)\<lparr>file_offset := f\<rparr>\<rparr>"
  have a: "a < length (store g)"
    using assms(1,2) find_view_Some [of "store g" "''side''" "views g" a] by (auto simp: gui_View_def gui_ok_def list_all_iff)
  have c: "dc_call h g v = (None, drawSide a (files (user g)) f ?g)"
    using assms(2,6) n rem by (auto simp: dc_call_def nexOne_def prevOne_def moveSelection_def Let_def)
  have "gui_ok ?g" "gui_View ?g = gui_View g" using assms(1) by (auto simp: gui_ok_def gui_View_def fun_eq_iff)
  then have ok: "gui_ok g' \<and> gui_View g' = gui_View g" if "retext a ?g g'" for g'
    using retext_ok [OF that] a by (auto simp: fun_eq_iff)
  define g' where "g' = drawSide a (files (user g)) f ?g"
  have "selection_ok ?g" using assms(3) f by (simp add: selection_ok_def)
  then show ?thesis
    using drawSide_shows [of a ?g "files (user g)" f] a assms(4,5) f ok [of g']
    by (simp add: c Let_def selection_ok_def f_def [symmetric] g'_def [symmetric])
qed

definition demo_nav :: dc_gui where
  "demo_nav = place_view (41, 0, 79, 3) ''side''
     ((NewGui (80, 4) \<lparr>files = [''/t/a'', ''/t/b'', ''/t/c''], file_offset = 1, window_offset = 0\<rparr>)\<lparr>maxX := 80, maxY := 4\<rparr>)"

theorem navigation_shows_selection_witness:
  "vlines (store (snd (dc_call HNext demo_nav None)) ! 0) = [entry False ''/t/b'', entry True ''/t/c'']"
proof -
  have "gui_ok demo_nav"
    unfolding demo_nav_def
    by (rule gviews.ok_put) (simp_all add: valid_place_def gui_ok_def NewGui_def)
  moreover have "gui_View demo_nav ''side'' = Some 0" "user demo_nav = \<lparr>files = [''/t/a'', ''/t/b'', ''/t/c''], file_offset = 1, window_offset = 0\<rparr>"
    "maxY demo_nav = 4"
    by (simp_all add: demo_nav_def place_view_def put_view_def SetView_def NewGui_def gui_View_def newView_def Let_def)
  moreover have "list_all shown_name [''/t/a'', ''/t/b'', ''/t/c'']"
    by (simp add: shown_name_def path_Base_def carriage_return_def maxTokenSize_def)
  ultimately show ?thesis
    using navigation_shows_selection [of demo_nav 0 HNext 1 None]
    by (auto simp: selection_ok_def Let_def scroll_def upt_rec [of 1] upt_rec [of 2] split: prod.splits)
qed

section \<open>Start and Stop\<close>

text \<open>
  \<^verbatim>\<open>Start\<close> runs the main loop and, beside it, a goroutine that draws the selected file on every
  tick; both read the channel of messages, which holds one. \<^verbatim>\<open>Stop\<close> sends two messages to it. A step
  of the system is one turn of one of the three; \<open>to_send\<close> counts the messages \<^verbatim>\<open>Stop\<close> has
  still to send. A panic ends the program.
\<close>

record dc_run =
  dgui :: dc_gui
  main_on :: bool
  ticker_on :: bool
  mailbox :: nat
  to_send :: nat
  crashed :: bool

definition after_main :: "dc_gui loop_result \<Rightarrow> dc_run \<Rightarrow> dc_run" where
  "after_main r d =
     (case r of
        StillWaiting g \<Rightarrow> d\<lparr>dgui := g\<rparr>
      | Stopped e g \<Rightarrow> d\<lparr>dgui := g, main_on := False, crashed := (e = Some Panicked)\<rparr>)"

definition Start :: "dc_gui \<Rightarrow> dc_run" where
  "Start g = after_main (MainLoop dc_call [] g)
     \<lparr>dgui = g, main_on = True, ticker_on = True, mailbox = 0, to_send = 0, crashed = False\<rparr>"

definition Stop :: "dc_run \<Rightarrow> dc_run" where
  "Stop d = d\<lparr>to_send := 2\<rparr>"

inductive message_step :: "dc_run \<Rightarrow> dc_run \<Rightarrow> bool" where
  send: "0 < to_send d \<Longrightarrow> mailbox d = 0 \<Longrightarrow> message_step d (d\<lparr>to_send := to_send d - 1, mailbox := 1\<rparr>)"
| ticker_message: "ticker_on d \<Longrightarrow> 0 < mailbox d \<Longrightarrow> message_step d (d\<lparr>ticker_on := False, mailbox := mailbox d - 1\<rparr>)"
| main_message: "main_on d \<Longrightarrow> 0 < mailbox d \<Longrightarrow>
    message_step d (after_main (loop_rounds dc_call [GotMessage] (dgui d)) (d\<lparr>mailbox := mailbox d - 1\<rparr>))"

inductive dc_step :: "(string \<Rightarrow> string + string) \<Rightarrow> dc_run \<Rightarrow> dc_run \<Rightarrow> bool" for fs where
  message: "\<not> crashed d \<Longrightarrow> message_step d d' \<Longrightarrow> dc_step fs d d'"
| tick: "\<not> crashed d \<Longrightarrow> ticker_on d \<Longrightarrow>
    dc_step fs d (d\<lparr>dgui := snd (drawCenter fs (dgui d)), crashed := (fst (drawCenter fs (dgui d)) = Some Panicked)\<rparr>)"
| events: "\<not> crashed d \<Longrightarrow> main_on d \<Longrightarrow>
    dc_step fs d (after_main (loop_rounds dc_call [GotEvents ev evs] (dgui d)) d)"

inductive_cases message_stepE: "message_step d d'"

definition stop_inv :: "dc_run \<Rightarrow> bool" where
  "stop_inv d \<longleftrightarrow> mailbox d \<le> 1 \<and> mailbox d + to_send d \<le> 2 \<and> (ticker_on d \<or> mailbox d + to_send d \<le> 1)"

lemma after_main_fields [simp]:
  "ticker_on (after_main r d) = ticker_on d" "mailbox (after_main r d) = mailbox d" "to_send (after_main r d) = to_send d"
  by (cases r; simp add: after_main_def)+

lemma message_step_inv:
  "message_step d d' \<Longrightarrow> stop_inv d \<Longrightarrow> stop_inv d' \<and> 2 * to_send d' + mailbox d' < 2 * to_send d + mailbox d"
  by (auto simp: stop_inv_def elim!: message_stepE)

lemma dc_step_inv: "dc_step fs d d' \<Longrightarrow> stop_inv d \<Longrightarrow> stop_inv d'"
proof (induction rule: dc_step.induct)
  case (message d d')
  then show ?case by (simp add: message_step_inv)
qed (simp_all add: stop_inv_def)

text \<open>
  \<^verbatim>\<open>Stop\<close> never gets stuck: called once on a running view, in every later state either both messages
  are sent, or one of its sends or a receive is possible, whichever of the two receivers is still
  there; and each of these steps brings it nearer to its end.
\<close>

lemma Stop_returns:
  assumes "(dc_step fs)\<^sup>*\<^sup>* (Stop (Start g)) d" and "\<not> crashed d" and "0 < to_send d"
  shows "(\<exists>d'. message_step d d') \<and>
    (\<forall>d'. message_step d d' \<longrightarrow> 2 * to_send d' + mailbox d' < 2 * to_send d + mailbox d)"
proof -
  have "stop_inv (Stop (Start g))" by (simp add: Stop_def Start_def stop_inv_def)
  with assms(1) have inv: "stop_inv d" by (induction rule: rtranclp_induct) (auto dest: dc_step_inv)
  have "\<exists>d'. message_step d d'"
    using inv assms(3) send [of d] ticker_message [of d] by (cases "mailbox d = 0") (auto simp: stop_inv_def)
  then show ?thesis using message_step_inv inv by blast
qed

end
