(* ===== verification/Ssh_Keys.thy ===== *)
theory Ssh_Keys
  imports Ssh_Auth "HOL-Library.List_Lexorder"
begin

text \<open>
  Public keys and certificates, \<^verbatim>\<open>src/golang.org/x/crypto/ssh/keys.go\<close> and \<^verbatim>\<open>certs.go\<close>: their wire format and the checks
  of signatures. The algorithms of Go's \<^verbatim>\<open>crypto\<close> packages are the fields of a record. A map of
  options is an association list with distinct keys. A type name that is not in a table makes the code panic, which
  is \<open>None\<close> here.
\<close>

section \<open>Keys\<close>

datatype ec_curve = P256 | P384 | P521

record key_crypto =
  k_sha1 :: "byte list \<Rightarrow> byte list"
  k_sha256 :: "byte list \<Rightarrow> byte list"
  k_sha384 :: "byte list \<Rightarrow> byte list"
  k_sha512 :: "byte list \<Rightarrow> byte list"
  ec_Marshal :: "ec_curve \<Rightarrow> int \<Rightarrow> int \<Rightarrow> byte list"
  ec_Unmarshal :: "ec_curve \<Rightarrow> byte list \<Rightarrow> (int \<times> int) option"
  rsa_Verify :: "int \<Rightarrow> int \<Rightarrow> byte list \<Rightarrow> byte list \<Rightarrow> bool"
  dsa_Verify :: "int \<Rightarrow> int \<Rightarrow> int \<Rightarrow> int \<Rightarrow> byte list \<Rightarrow> int \<Rightarrow> int \<Rightarrow> bool"
  ecdsa_Verify :: "ec_curve \<Rightarrow> int \<Rightarrow> int \<Rightarrow> byte list \<Rightarrow> int \<Rightarrow> int \<Rightarrow> bool"

type_synonym signature = "byte list \<times> byte list"

type_synonym tuples = "(byte list \<times> byte list) list"

datatype 'k certificate = Certificate
  (crt_Nonce: "byte list") (crt_Key: 'k) (crt_Serial: u64) (crt_CertType: u32) (crt_KeyId: "byte list")
  (crt_ValidPrincipals: "byte list list") (crt_ValidAfter: u64) (crt_ValidBefore: u64) (crt_CriticalOptions: tuples)
  (crt_Extensions: tuples) (crt_Reserved: "byte list") (crt_SignatureKey: 'k) (crt_Signature: "signature option")

datatype public_key =
  RSAKey int int
| DSAKey int int int int
| ECDSAKey ec_curve int int
| CertKey "public_key certificate"

lemma size_crt_Key [termination_simp]: "size (crt_Key c) < Suc (size_certificate size c)"
  "size (crt_SignatureKey c) < Suc (size_certificate size c)"
  by (cases c; simp)+

definition KeyAlgoRSA :: "byte list" where "KeyAlgoRSA = ascii ''ssh-rsa''"
definition KeyAlgoDSA :: "byte list" where "KeyAlgoDSA = ascii ''ssh-dss''"
definition KeyAlgoECDSA256 :: "byte list" where "KeyAlgoECDSA256 = ascii ''ecdsa-sha2-nistp256''"
definition KeyAlgoECDSA384 :: "byte list" where "KeyAlgoECDSA384 = ascii ''ecdsa-sha2-nistp384''"
definition KeyAlgoECDSA521 :: "byte list" where "KeyAlgoECDSA521 = ascii ''ecdsa-sha2-nistp521''"

definition certAlgoNames :: "(byte list \<times> byte list) list" where
  "certAlgoNames =
     [(KeyAlgoRSA, ascii ''ssh-rsa-cert-v01@openssh.com''), (KeyAlgoDSA, ascii ''ssh-dss-cert-v01@openssh.com''),
      (KeyAlgoECDSA256, ascii ''ecdsa-sha2-nistp256-cert-v01@openssh.com''),
      (KeyAlgoECDSA384, ascii ''ecdsa-sha2-nistp384-cert-v01@openssh.com''),
      (KeyAlgoECDSA521, ascii ''ecdsa-sha2-nistp521-cert-v01@openssh.com'')]"

definition certToPrivAlgo :: "byte list \<Rightarrow> byte list option" where
  "certToPrivAlgo algo = map_of (map (\<lambda>(priv, pub). (pub, priv)) certAlgoNames) algo"

fun nistID :: "ec_curve \<Rightarrow> byte list" where
  "nistID P256 = ascii ''nistp256''"
| "nistID P384 = ascii ''nistp384''"
| "nistID P521 = ascii ''nistp521''"

definition curve_of :: "byte list \<Rightarrow> ec_curve option" where
  "curve_of name = map_of [(nistID P256, P256), (nistID P384, P384), (nistID P521, P521)] name"

fun ecHash :: "key_crypto \<Rightarrow> ec_curve \<Rightarrow> byte list \<Rightarrow> byte list" where
  "ecHash cr P256 = k_sha256 cr"
| "ecHash cr P384 = k_sha384 cr"
| "ecHash cr P521 = k_sha512 cr"

fun key_Type :: "public_key \<Rightarrow> byte list option" where
  "key_Type (RSAKey e n) = Some KeyAlgoRSA"
| "key_Type (DSAKey p q g y) = Some KeyAlgoDSA"
| "key_Type (ECDSAKey c x y) = Some (ascii ''ecdsa-sha2-'' @ nistID c)"
| "key_Type (CertKey c) = Option.bind (key_Type (crt_Key c)) (map_of certAlgoNames)"

section \<open>Parsing\<close>

definition bad_key :: "string \<Rightarrow> ssh_error" where
  "bad_key s = OtherError (''ssh: '' @ s)"

definition parseRSA :: "byte list \<Rightarrow> ssh_error + public_key \<times> byte list" where
  "parseRSA in0 =
     (case Unmarshal in0 (untagged [KBigInt, KBigInt, KRest]) of
        Inl err \<Rightarrow> Inl err
      | Inr [VBigInt e, VBigInt n, VRest rest] \<Rightarrow>
          if bigBitLen (nat \<bar>e\<bar>) > 24 then Inl (bad_key ''exponent too large'')
          else if e < 3 \<or> even e then Inl (bad_key ''incorrect exponent'')
          else Inr (RSAKey e n, rest)
      | Inr _ \<Rightarrow> Inl index_panic)"

definition parseDSA :: "byte list \<Rightarrow> ssh_error + public_key \<times> byte list" where
  "parseDSA in0 =
     (case Unmarshal in0 (untagged [KBigInt, KBigInt, KBigInt, KBigInt, KRest]) of
        Inl err \<Rightarrow> Inl err
      | Inr [VBigInt p, VBigInt q, VBigInt g, VBigInt y, VRest rest] \<Rightarrow> Inr (DSAKey p q g y, rest)
      | Inr _ \<Rightarrow> Inl index_panic)"

definition parseECDSA :: "key_crypto \<Rightarrow> byte list \<Rightarrow> ssh_error + public_key \<times> byte list" where
  "parseECDSA cr in0 =
     (case Unmarshal in0 (untagged [KString, KBytes, KRest]) of
        Inl err \<Rightarrow> Inl err
      | Inr [VString name, VBytes keyBytes, VRest rest] \<Rightarrow>
          (case curve_of name of
             None \<Rightarrow> Inl (bad_key ''unsupported curve'')
           | Some c \<Rightarrow>
               (case ec_Unmarshal cr c keyBytes of
                  None \<Rightarrow> Inl (bad_key ''invalid curve point'')
                | Some (x, y) \<Rightarrow> Inr (ECDSAKey c x y, rest)))
      | Inr _ \<Rightarrow> Inl index_panic)"

text \<open>\<^verbatim>\<open>parsePubKey\<close> without its branch for certificates.\<close>

definition parse_plain_key :: "key_crypto \<Rightarrow> byte list \<Rightarrow> byte list \<Rightarrow> ssh_error + public_key \<times> byte list" where
  "parse_plain_key cr in0 algo =
     (if algo = KeyAlgoRSA then parseRSA in0
      else if algo = KeyAlgoDSA then parseDSA in0
      else if algo = KeyAlgoECDSA256 \<or> algo = KeyAlgoECDSA384 \<or> algo = KeyAlgoECDSA521 then parseECDSA cr in0
      else Inl (bad_key ''unknown key algorithm''))"

definition parseSignatureBody :: "byte list \<Rightarrow> (signature \<times> byte list) option" where
  "parseSignatureBody in0 =
     (case parseString in0 of
        None \<Rightarrow> None
      | Some (format, in1) \<Rightarrow>
          (case parseString in1 of None \<Rightarrow> None | Some (blob, rest) \<Rightarrow> Some ((format, blob), rest)))"

definition parseSignature :: "byte list \<Rightarrow> (signature \<times> byte list) option" where
  "parseSignature in0 =
     (case parseString in0 of
        None \<Rightarrow> None
      | Some (sigBytes, rest) \<Rightarrow>
          (case parseSignatureBody sigBytes of
             None \<Rightarrow> None | Some (out, trailing) \<Rightarrow> if trailing \<noteq> [] then None else Some (out, rest)))"

lemma parseString_shorter: "parseString b = Some (s, r) \<Longrightarrow> length s + length r + 4 = length b"
  by (auto simp: parseString_def Let_def split: if_splits)

function parse_principals :: "byte list \<Rightarrow> ssh_error + byte list list" where
  "parse_principals b =
     (if b = [] then Inr []
      else case parseString b of
             None \<Rightarrow> Inl ShortRead
           | Some (p, r) \<Rightarrow> (case parse_principals r of Inl e \<Rightarrow> Inl e | Inr ps \<Rightarrow> Inr (p # ps)))"
  by pat_completeness auto
termination
  by (relation "measure length") (auto dest: parseString_shorter)

text \<open>The value of an option is empty or a string within the string.\<close>

definition option_value :: "byte list \<Rightarrow> ssh_error + byte list" where
  "option_value val =
     (if val = [] then Inr []
      else case parseString val of
             None \<Rightarrow> Inl ShortRead
           | Some (v, extra) \<Rightarrow>
               if extra \<noteq> [] then Inl (bad_key ''unexpected trailing data after certificate option value'') else Inr v)"

function parse_tuples_from :: "byte list option \<Rightarrow> byte list \<Rightarrow> ssh_error + tuples" where
  "parse_tuples_from lastKey b =
     (if b = [] then Inr []
      else case parseString b of
             None \<Rightarrow> Inl ShortRead
           | Some (key, r) \<Rightarrow>
               if (case lastKey of None \<Rightarrow> False | Some k \<Rightarrow> key \<le> k)
               then Inl (bad_key ''certificate options are not in lexical order'')
               else (case parseString r of
                       None \<Rightarrow> Inl ShortRead
                     | Some (val, r') \<Rightarrow>
                         (case option_value val of
                            Inl e \<Rightarrow> Inl e
                          | Inr v \<Rightarrow>
                              (case parse_tuples_from (Some key) r' of Inl e \<Rightarrow> Inl e | Inr ts \<Rightarrow> Inr ((key, v) # ts)))))"
  by pat_completeness auto
termination
  by (relation "measure (\<lambda>(k, b). length b)") (auto dest!: parseString_shorter)

declare parse_principals.simps [simp del] parse_tuples_from.simps [simp del]

definition parseTuples :: "byte list \<Rightarrow> ssh_error + tuples" where
  "parseTuples b = parse_tuples_from None b"

definition genericCertData :: struct_type where
  "genericCertData = untagged [KUint64, KUint32, KString, KBytes, KUint64, KUint64, KBytes, KBytes, KBytes, KBytes, KBytes]"

text \<open>
  \<^verbatim>\<open>parseCert\<close> up to the key of the signer: the certificate as a function of that key and of the
  signature, with the bytes of both.
\<close>

definition cert_parts ::
  "key_crypto \<Rightarrow> byte list \<Rightarrow> byte list \<Rightarrow>
   ssh_error + (public_key \<Rightarrow> signature \<Rightarrow> public_key certificate) \<times> byte list \<times> byte list" where
  "cert_parts cr in0 privAlgo =
     (case parseString in0 of
        None \<Rightarrow> Inl ShortRead
      | Some (nonce, rest) \<Rightarrow>
          (case parse_plain_key cr rest privAlgo of
             Inl e \<Rightarrow> Inl e
           | Inr (key, rest') \<Rightarrow>
               (case Unmarshal rest' genericCertData of
                  Inl e \<Rightarrow> Inl e
                | Inr [VUint64 serial, VUint32 ct, VString kid, VBytes principals, VUint64 va, VUint64 vb, VBytes crit, VBytes ext,
                       VBytes reserved, VBytes sigKey, VBytes sig] \<Rightarrow>
                    (case parse_principals principals of
                       Inl e \<Rightarrow> Inl e
                     | Inr ps \<Rightarrow>
                         (case parseTuples crit of
                            Inl e \<Rightarrow> Inl e
                          | Inr co \<Rightarrow>
                              (case parseTuples ext of
                                 Inl e \<Rightarrow> Inl e
                               | Inr ex \<Rightarrow>
                                   Inr (\<lambda>k s. Certificate nonce key serial ct kid ps va vb co ex reserved k (Some s), sigKey, sig))))
                | Inr _ \<Rightarrow> Inl index_panic)))"

lemma unmarshalField_shorter:
  assumes "unmarshalField i k d = Inr (v, r)"
  shows "length r \<le> length d" "v = VBytes s \<or> v = VRest s \<Longrightarrow> length s \<le> length d"
  using assms by (cases k; auto simp: parseUint64_def parseUint32_def parseNameList_def parseInt_def
    dest!: parseString_shorter split: if_splits option.splits)+

lemma unmarshalFields_shorter:
  "unmarshalFields i ks d = Inr (vs, r) \<Longrightarrow> VBytes s \<in> set vs \<or> VRest s \<in> set vs \<Longrightarrow> length s \<le> length d"
proof (induction ks arbitrary: i d vs)
  case (Cons k ks)
  then show ?case
    using unmarshalField_shorter
    by (auto split: sum.splits prod.splits) (metis (no_types, lifting) le_trans unmarshalField_shorter(1))+
qed simp

lemma Unmarshal_shorter: "Unmarshal d st = Inr vs \<Longrightarrow> VBytes s \<in> set vs \<or> VRest s \<in> set vs \<Longrightarrow> length s \<le> length d"
  by (auto simp: Unmarshal_def Let_def dest: unmarshalFields_shorter split: if_splits sum.splits prod.splits)

lemma parse_plain_key_shorter: "parse_plain_key cr b algo = Inr (k, r) \<Longrightarrow> length r \<le> length b"
  by (auto simp: parse_plain_key_def parseRSA_def parseDSA_def parseECDSA_def split: if_splits sum.splits list.splits field_val.splits
    option.splits dest!: Unmarshal_shorter [where s = r])

lemma cert_parts_shorter:
  assumes "cert_parts cr b algo = Inr (f, sigKey, sig)"
  shows "length sigKey < length b"
proof -
  obtain nonce rest key rest' vs where p: "parseString b = Some (nonce, rest)" "parse_plain_key cr rest algo = Inr (key, rest')"
    "Unmarshal rest' genericCertData = Inr vs"
    using assms by (auto simp: cert_parts_def split: option.splits sum.splits prod.splits)
  then have "VBytes sigKey \<in> set vs"
    using assms by (auto simp: cert_parts_def split: option.splits sum.splits list.splits field_val.splits)
  then show ?thesis
    using Unmarshal_shorter [OF p(3)] parse_plain_key_shorter [OF p(2)] parseString_shorter [OF p(1)] by fastforce
qed

text \<open>
  \<^verbatim>\<open>ParsePublicKey\<close>, with \<^verbatim>\<open>parsePubKey\<close> and \<^verbatim>\<open>parseCert\<close>. A certificate holds the key of its signer, which may be a certificate
  again; it is shorter, so the recursion ends.
\<close>

function ParsePublicKey :: "key_crypto \<Rightarrow> byte list \<Rightarrow> ssh_error + public_key" where
  "ParsePublicKey cr in0 =
     (case parseString in0 of
        None \<Rightarrow> Inl ShortRead
      | Some (algo, in1) \<Rightarrow>
          (case certToPrivAlgo algo of
             None \<Rightarrow>
               (case parse_plain_key cr in1 algo of
                  Inl e \<Rightarrow> Inl e
                | Inr (key, rest) \<Rightarrow> if rest \<noteq> [] then Inl (bad_key ''trailing junk in public key'') else Inr key)
           | Some priv \<Rightarrow>
               (case cert_parts cr in1 priv of
                  Inl e \<Rightarrow> Inl e
                | Inr (mk, sigKey, sig) \<Rightarrow>
                    (case ParsePublicKey cr sigKey of
                       Inl e \<Rightarrow> Inl e
                     | Inr k \<Rightarrow>
                         (case parseSignatureBody sig of
                            Some (s, []) \<Rightarrow> Inr (CertKey (mk k s))
                          | _ \<Rightarrow> Inl (bad_key ''signature parse error''))))))"
  by pat_completeness auto
termination
  by (relation "measure (\<lambda>(cr, b). length b)") (auto dest!: parseString_shorter cert_parts_shorter)

declare ParsePublicKey.simps [simp del]

section \<open>Serializing\<close>

definition marshal_Signature :: "signature \<Rightarrow> byte list" where
  "marshal_Signature s = marshal_untagged [VString (fst s), VBytes (snd s)]"

definition marshalStringList :: "byte list list \<Rightarrow> byte list" where
  "marshalStringList namelist = concat (map (\<lambda>n. marshal_untagged [VString n]) namelist)"

definition marshalTuples :: "tuples \<Rightarrow> byte list" where
  "marshalTuples tups =
     concat (map (\<lambda>key.
       marshal_untagged [VString key,
         VBytes (case map_of tups key of
                   Some value \<Rightarrow> if value \<noteq> [] then marshal_untagged [VString value] else []
                 | None \<Rightarrow> [])]) (sort (map fst tups)))"

fun key_Marshal :: "key_crypto \<Rightarrow> public_key \<Rightarrow> byte list option" where
  "key_Marshal cr (RSAKey e n) = Some (marshal_untagged [VString KeyAlgoRSA, VBigInt e, VBigInt n])"
| "key_Marshal cr (DSAKey p q g y) =
     Some (marshal_untagged [VString KeyAlgoDSA, VBigInt p, VBigInt q, VBigInt g, VBigInt y])"
| "key_Marshal cr (ECDSAKey c x y) =
     Some (marshal_untagged [VString (ascii ''ecdsa-sha2-'' @ nistID c), VString (nistID c), VBytes (ec_Marshal cr c x y)])"
| "key_Marshal cr (CertKey c) =
     (case (key_Marshal cr (crt_SignatureKey c), key_Marshal cr (crt_Key c), key_Type (CertKey c)) of
        (Some sk, Some keyBytes, Some ty) \<Rightarrow>
          (let generic = marshal_untagged
                 [VUint64 (crt_Serial c), VUint32 (crt_CertType c), VString (crt_KeyId c), VBytes (marshalStringList (crt_ValidPrincipals c)),
                  VUint64 (crt_ValidAfter c), VUint64 (crt_ValidBefore c), VBytes (marshalTuples (crt_CriticalOptions c)),
                  VBytes (marshalTuples (crt_Extensions c)), VBytes (crt_Reserved c), VBytes sk,
                  VBytes (case crt_Signature c of None \<Rightarrow> [] | Some s \<Rightarrow> marshal_Signature s)];
               keyBytes' = (case parseString keyBytes of Some (_, r) \<Rightarrow> r | None \<Rightarrow> [])
           in Some (marshal_untagged [VString ty, VBytes (crt_Nonce c), VRest keyBytes'] @ generic))
      | _ \<Rightarrow> None)"

definition bytesForSigning :: "key_crypto \<Rightarrow> public_key certificate \<Rightarrow> byte list option" where
  "bytesForSigning cr c =
     (case c of Certificate n k s t i p va vb co ex r sk _ \<Rightarrow>
        map_option (\<lambda>out. take (length out - 4) out) (key_Marshal cr (CertKey (Certificate n k s t i p va vb co ex r sk None))))"

section \<open>Signatures\<close>

definition wrong_format :: ssh_error where
  "wrong_format = bad_key ''signature type for key type''"

definition not_verified :: ssh_error where
  "not_verified = bad_key ''signature did not verify''"

text \<open>\<^verbatim>\<open>Verify\<close>: no error or an error; the error of \<^verbatim>\<open>rsa.VerifyPKCS1v15\<close> is passed on. \<open>Some index_panic\<close> is a panic.\<close>

fun key_Verify :: "key_crypto \<Rightarrow> public_key \<Rightarrow> byte list \<Rightarrow> signature \<Rightarrow> ssh_error option" where
  "key_Verify cr (RSAKey e n) data sig =
     (if fst sig \<noteq> KeyAlgoRSA then Some wrong_format
      else if rsa_Verify cr e n (k_sha1 cr data) (snd sig) then None else Some (OtherError ''crypto/rsa: verification error''))"
| "key_Verify cr (DSAKey p q g y) data sig =
     (if fst sig \<noteq> KeyAlgoDSA then Some wrong_format
      else if length (snd sig) \<noteq> 40 then Some (bad_key ''DSA signature parse error'')
      else if dsa_Verify cr p q g y (k_sha1 cr data) (int (bigSetBytes (take 20 (snd sig)))) (int (bigSetBytes (drop 20 (snd sig))))
      then None else Some not_verified)"
| "key_Verify cr (ECDSAKey c x y) data sig =
     (if fst sig \<noteq> ascii ''ecdsa-sha2-'' @ nistID c then Some wrong_format
      else (case Unmarshal (snd sig) (untagged [KBigInt, KBigInt]) of
              Inl e \<Rightarrow> Some e
            | Inr [VBigInt r, VBigInt s] \<Rightarrow> if ecdsa_Verify cr c x y (ecHash cr c data) r s then None else Some not_verified
            | Inr _ \<Rightarrow> Some index_panic))"
| "key_Verify cr (CertKey c) data sig = key_Verify cr (crt_Key c) data sig"

text \<open>The 40 bytes of a DSA signature; an integer of more than 20 bytes makes the slice expression panic.\<close>

definition dsa_blob :: "int \<Rightarrow> int \<Rightarrow> byte list option" where
  "dsa_blob r s =
     (let rb = bigBytes (nat \<bar>r\<bar>); sb = bigBytes (nat \<bar>s\<bar>)
      in if length rb > 20 \<or> length sb > 40 then None
         else Some (take (40 - length sb) (replicate (20 - length rb) 0 @ rb @ replicate 20 0) @ sb))"

section \<open>Checking certificates\<close>

record CertChecker =
  SupportedCriticalOptions :: "byte list list"
  IsAuthority :: "public_key \<Rightarrow> bool"
  Clock :: int
  UserKeyFallback :: "(public_key \<Rightarrow> ssh_error option) option"
  HostKeyFallback :: "(byte list \<Rightarrow> public_key \<Rightarrow> ssh_error option) option"
  IsRevoked :: "(public_key certificate \<Rightarrow> bool) option"

definition sourceAddressCriticalOption :: "byte list" where
  "sourceAddressCriticalOption = ascii ''source-address''"

definition CertTimeInfinity :: u64 where
  "CertTimeInfinity = 2 ^ 64 - 1"

text \<open>\<^verbatim>\<open>CheckCert\<close>; a certificate without signature, which only a caller can make, panics in \<^verbatim>\<open>Verify\<close>.\<close>

definition CheckCert :: "key_crypto \<Rightarrow> CertChecker \<Rightarrow> byte list \<Rightarrow> public_key certificate \<Rightarrow> ssh_error option" where
  "CheckCert cr ck name cert =
     (if (case IsRevoked ck of None \<Rightarrow> False | Some f \<Rightarrow> f cert) then Some (bad_key ''certicate serial revoked'')
      else if list_ex (\<lambda>(opt, _). opt \<noteq> sourceAddressCriticalOption \<and> opt \<notin> set (SupportedCriticalOptions ck)) (crt_CriticalOptions cert)
      then Some (bad_key ''unsupported critical option in certificate'')
      else if crt_ValidPrincipals cert \<noteq> [] \<and> name \<notin> set (crt_ValidPrincipals cert)
      then Some (bad_key ''principal not in the set of valid principals for given certificate'')
      else if \<not> IsAuthority ck (crt_SignatureKey cert) then Some (bad_key ''certificate signed by unrecognized authority'')
      else if sint (crt_ValidAfter cert) < 0 \<or> Clock ck < sint (crt_ValidAfter cert) then Some (bad_key ''cert is not yet valid'')
      else if crt_ValidBefore cert \<noteq> CertTimeInfinity \<and> (Clock ck \<ge> sint (crt_ValidBefore cert) \<or> sint (crt_ValidBefore cert) < 0)
      then Some (bad_key ''cert has expired'')
      else (case (bytesForSigning cr cert, crt_Signature cert) of
              (Some data, Some sig) \<Rightarrow>
                (case key_Verify cr (crt_SignatureKey cert) data sig of
                   None \<Rightarrow> None | Some _ \<Rightarrow> Some (bad_key ''certificate signature does not verify''))
            | _ \<Rightarrow> Some index_panic))"

definition UserCert :: u32 where "UserCert = 1"
definition HostCert :: u32 where "HostCert = 2"

fun CheckHostKey :: "key_crypto \<Rightarrow> CertChecker \<Rightarrow> byte list \<Rightarrow> public_key \<Rightarrow> ssh_error option" where
  "CheckHostKey cr ck addr (CertKey cert) =
     (if crt_CertType cert \<noteq> HostCert then Some (bad_key ''certificate presented as a host key has wrong type'')
      else CheckCert cr ck addr cert)"
| "CheckHostKey cr ck addr key =
     (case HostKeyFallback ck of Some f \<Rightarrow> f addr key | None \<Rightarrow> Some (bad_key ''non-certificate host key''))"

fun Authenticate :: "key_crypto \<Rightarrow> CertChecker \<Rightarrow> byte list \<Rightarrow> public_key \<Rightarrow> ssh_error option" where
  "Authenticate cr ck user (CertKey cert) =
     (if crt_CertType cert \<noteq> UserCert then Some (bad_key ''cert has wrong type'') else CheckCert cr ck user cert)"
| "Authenticate cr ck user key =
     (case UserKeyFallback ck of Some f \<Rightarrow> f key | None \<Rightarrow> Some (bad_key ''normal key pairs not accepted''))"

text \<open>\<^verbatim>\<open>SignCert\<close> with the nonce that was drawn and the signature of the authority over the bytes for signing.\<close>

definition SignCert ::
  "key_crypto \<Rightarrow> ssh_error + byte list \<Rightarrow> public_key \<Rightarrow> (byte list \<Rightarrow> ssh_error + signature) \<Rightarrow> public_key certificate \<Rightarrow>
   (ssh_error + public_key certificate) option" where
  "SignCert cr rand authority sign c =
     (case rand of
        Inl e \<Rightarrow> Some (Inl e)
      | Inr nonce \<Rightarrow>
          (case c of Certificate _ k s t i p va vb co ex r _ sg \<Rightarrow>
             (let c1 = Certificate nonce k s t i p va vb co ex r authority sg
              in case bytesForSigning cr c1 of
                   None \<Rightarrow> None
                 | Some data \<Rightarrow>
                     Some (case sign data of
                             Inl e \<Rightarrow> Inl e
                           | Inr sig \<Rightarrow> Inr (Certificate nonce k s t i p va vb co ex r authority (Some sig))))))"

end
