(* ===== verification/Ssh_Keys_Wire.thy ===== *)
theory Ssh_Keys_Wire
  imports Ssh_Keys
begin

text \<open>
  Keys and certificates survive the wire, and what a certificate that is accepted has to satisfy.
\<close>

section \<open>Structs without a tag\<close>

lemma untagged_sel: "typeTag (untagged ks) = 0" "kinds (untagged ks) = ks"
  by (simp_all add: typeTag_def untagged_def go_atoi_def)

lemma marshal_untagged_bytes: "marshal_untagged vs = concat (map field_bytes vs)"
  by (simp add: marshal_untagged_def Marshal_bytes untagged_sel)

lemma Unmarshal_untagged:
  assumes "wf_vals vs" and "length (concat (map field_bytes vs)) < 2 ^ 32" and "concat (map field_bytes vs) \<noteq> []"
  shows "Unmarshal (concat (map field_bytes vs)) (untagged (map kind_of vs)) = Inr vs"
  using unmarshalFields_bytes [OF assms(1,2), of 0] assms(3) by (simp add: Unmarshal_def untagged_sel Let_def)

lemma field_bytes_ne [simp]: "field_bytes (VBigInt n) \<noteq> []" "field_bytes (VString s) \<noteq> []" "field_bytes (VBytes s) \<noteq> []"
  "field_bytes (VUint64 u) \<noteq> []"
  by (simp_all add: putUint32_def putUint64_def)

section \<open>Plain keys\<close>

text \<open>The fields of a key after its name.\<close>

fun plain_fields :: "key_crypto \<Rightarrow> public_key \<Rightarrow> field_val list" where
  "plain_fields cr (RSAKey e n) = [VBigInt e, VBigInt n]"
| "plain_fields cr (DSAKey p q g y) = [VBigInt p, VBigInt q, VBigInt g, VBigInt y]"
| "plain_fields cr (ECDSAKey c x y) = [VString (nistID c), VBytes (ec_Marshal cr c x y)]"
| "plain_fields cr (CertKey c) = []"

definition plain_bytes :: "key_crypto \<Rightarrow> public_key \<Rightarrow> byte list" where
  "plain_bytes cr k = concat (map field_bytes (plain_fields cr k))"

fun is_plain :: "public_key \<Rightarrow> bool" where
  "is_plain (CertKey _) = False"
| "is_plain _ = True"

text \<open>What a key must satisfy to be carried: the exponent of an RSA key is accepted, a point is read back, and
  the bytes of the key within a certificate have a length that a 32 bit word holds.\<close>

definition sorted_tuples :: "tuples \<Rightarrow> bool" where
  "sorted_tuples ts \<longleftrightarrow> sorted_wrt (<) (map fst ts)"

fun wf_key :: "key_crypto \<Rightarrow> public_key \<Rightarrow> bool" where
  "wf_key cr (RSAKey e n) \<longleftrightarrow> 3 \<le> e \<and> odd e \<and> e < 2 ^ 24"
| "wf_key cr (DSAKey p q g y) \<longleftrightarrow> True"
| "wf_key cr (ECDSAKey c x y) \<longleftrightarrow> ec_Unmarshal cr c (ec_Marshal cr c x y) = Some (x, y)"
| "wf_key cr (CertKey c) \<longleftrightarrow> is_plain (crt_Key c) \<and> wf_key cr (crt_Key c) \<and> wf_key cr (crt_SignatureKey c)
     \<and> sorted_tuples (crt_CriticalOptions c) \<and> sorted_tuples (crt_Extensions c) \<and> crt_Signature c \<noteq> None
     \<and> length (plain_bytes cr (crt_Key c)) < 2 ^ 31"

lemmas key_algo_defs = KeyAlgoRSA_def KeyAlgoDSA_def KeyAlgoECDSA256_def KeyAlgoECDSA384_def KeyAlgoECDSA521_def

lemma key_names [simp]:
  "KeyAlgoDSA \<noteq> KeyAlgoRSA" "ascii ''ecdsa-sha2-'' @ nistID c \<noteq> KeyAlgoRSA" "ascii ''ecdsa-sha2-'' @ nistID c \<noteq> KeyAlgoDSA"
  by (simp_all add: key_algo_defs ascii_def)

lemma curve_names [simp]:
  "ascii ''ecdsa-sha2-'' @ nistID c = KeyAlgoECDSA256 \<or> ascii ''ecdsa-sha2-'' @ nistID c = KeyAlgoECDSA384
    \<or> ascii ''ecdsa-sha2-'' @ nistID c = KeyAlgoECDSA521"
  "curve_of (nistID c) = Some c"
  by (cases c; simp add: key_algo_defs curve_of_def ascii_def)+

lemma key_Marshal_plain:
  assumes "is_plain k"
  shows "\<exists>t. key_Type k = Some t \<and> key_Marshal cr k = Some (field_bytes (VString t) @ plain_bytes cr k)"
  using assms by (cases k) (simp_all add: marshal_untagged_bytes plain_bytes_def)

lemma bigBitLen_24: "3 \<le> e \<Longrightarrow> e < 2 ^ 24 \<Longrightarrow> \<not> 24 < bigBitLen (nat \<bar>e\<bar>)"
proof
  assume e: "3 \<le> e" "e < 2 ^ 24" and b: "24 < bigBitLen (nat \<bar>e\<bar>)"
  have "2 ^ (bigBitLen (nat \<bar>e\<bar>) - 1) \<le> nat \<bar>e\<bar>" using bigBitLen_bounds [of "nat \<bar>e\<bar>"] e(1) by simp
  moreover have "(2::nat) ^ 24 \<le> 2 ^ (bigBitLen (nat \<bar>e\<bar>) - 1)" using b by (intro power_increasing) auto
  ultimately have "(2::nat) ^ 24 \<le> nat \<bar>e\<bar>" by (rule le_trans [rotated])
  then show False using e by (simp add: nat_le_iff)
qed

lemma parse_plain_key_bytes:
  assumes "is_plain k" and "wf_key cr k" and "key_Type k = Some t" and "length (plain_bytes cr k @ r) < 2 ^ 32"
  shows "parse_plain_key cr (plain_bytes cr k @ r) t = Inr (k, r)"
proof -
  have u: "Unmarshal (plain_bytes cr k @ r) (untagged (map kind_of (plain_fields cr k @ [VRest r]))) = Inr (plain_fields cr k @ [VRest r])"
  proof -
    have "plain_bytes cr k @ r = concat (map field_bytes (plain_fields cr k @ [VRest r]))" by (simp add: plain_bytes_def)
    moreover have "wf_vals (plain_fields cr k @ [VRest r])" by (cases k) auto
    moreover have "plain_bytes cr k \<noteq> []" using assms(1) by (cases k) (auto simp: plain_bytes_def simp del: field_bytes.simps)
    ultimately show ?thesis using Unmarshal_untagged assms(4) by (metis append_is_Nil_conv)
  qed
  show ?thesis
  proof (cases k)
    case (RSAKey e n)
    then show ?thesis using u assms(2,3) bigBitLen_24 [of e] by (auto simp: parse_plain_key_def parseRSA_def)
  next
    case (DSAKey p q g y)
    then show ?thesis using u assms(3) by (auto simp: parse_plain_key_def parseDSA_def)
  next
    case (ECDSAKey c x y)
    have "parseECDSA cr (plain_bytes cr k @ r) = Inr (k, r)" using u assms(2) ECDSAKey by (auto simp: parseECDSA_def)
    moreover have "t \<noteq> KeyAlgoRSA" "t \<noteq> KeyAlgoDSA" "t = KeyAlgoECDSA256 \<or> t = KeyAlgoECDSA384 \<or> t = KeyAlgoECDSA521"
      using assms(3) ECDSAKey key_names(2,3) [of c] curve_names(1) [of c] by (simp_all del: key_names curve_names)
    ultimately show ?thesis by (simp add: parse_plain_key_def)
  qed (use assms(1) in simp)
qed

lemma parseString_field:
  assumes "length (field_bytes (VString s) @ r) < 2 ^ 32"
  shows "parseString (field_bytes (VString s) @ r) = Some (s, r)" "parseString (field_bytes (VBytes s) @ r) = Some (s, r)"
  using assms by simp_all

section \<open>Lists of strings and options\<close>

lemma parse_principals_bytes:
  "length (marshalStringList ps) < 2 ^ 32 \<Longrightarrow> parse_principals (marshalStringList ps) = Inr ps"
proof (induction ps)
  case (Cons p ps)
  have e: "marshalStringList (p # ps) = field_bytes (VString p) @ marshalStringList ps"
    by (simp add: marshalStringList_def marshal_untagged_bytes)
  then have l: "length (field_bytes (VString p) @ marshalStringList ps) < 2 ^ 32" using Cons.prems by simp
  have "field_bytes (VString p) @ marshalStringList ps \<noteq> []" by (simp del: field_bytes.simps)
  with Cons.IH l parseString_field(1) [OF l] show ?case
    unfolding e by (subst parse_principals.simps) (simp del: field_bytes.simps)
qed (simp add: parse_principals.simps marshalStringList_def)

definition value_bytes :: "byte list \<Rightarrow> byte list" where
  "value_bytes v = (if v \<noteq> [] then field_bytes (VString v) else [])"

definition tuple_bytes :: "byte list \<times> byte list \<Rightarrow> byte list" where
  "tuple_bytes kv = field_bytes (VString (fst kv)) @ field_bytes (VBytes (value_bytes (snd kv)))"

lemma marshalTuples_sorted:
  assumes "sorted_tuples ts"
  shows "marshalTuples ts = concat (map tuple_bytes ts)"
proof -
  have s: "sorted (map fst ts)" "distinct (map fst ts)"
    using assms by (simp_all add: sorted_tuples_def strict_sorted_iff)
  then have "sort (map fst ts) = map fst ts" by (simp add: sorted_sort_id)
  moreover have "marshal_untagged [VString k, VBytes (case map_of ts k of Some value \<Rightarrow> if value \<noteq> [] then marshal_untagged [VString value] else []
      | None \<Rightarrow> [])] = tuple_bytes (k, v)" if "(k, v) \<in> set ts" for k v
    using that s(2) by (simp add: map_of_is_SomeI marshal_untagged_bytes tuple_bytes_def value_bytes_def)
  ultimately show ?thesis
    by (auto simp: marshalTuples_def o_def intro!: arg_cong [where f = concat] map_cong)
qed

lemma option_value_bytes: "length (value_bytes v) < 2 ^ 32 \<Longrightarrow> option_value (value_bytes v) = Inr v"
  using parseString_field(1) [of v "[]"] by (auto simp: option_value_def value_bytes_def simp del: field_bytes.simps)

lemma parse_tuples_bytes:
  assumes "sorted_wrt (<) (map fst ts)" and "length (concat (map tuple_bytes ts)) < 2 ^ 32"
    and "\<And>k. lk = Some k \<Longrightarrow> list_all (\<lambda>kv. k < fst kv) ts"
  shows "parse_tuples_from lk (concat (map tuple_bytes ts)) = Inr ts"
  using assms
proof (induction ts arbitrary: lk)
  case (Cons kv ts)
  obtain k v where kv: "kv = (k, v)" by (cases kv)
  let ?rest = "concat (map tuple_bytes ts)" let ?val = "field_bytes (VBytes (value_bytes v)) @ ?rest"
  have b: "concat (map tuple_bytes (kv # ts)) = field_bytes (VString k) @ ?val" by (simp add: kv tuple_bytes_def del: field_bytes.simps)
  have l: "length (field_bytes (VString k) @ ?val) < 2 ^ 32" "length ?val < 2 ^ 32" "length (value_bytes v) < 2 ^ 32" "length ?rest < 2 ^ 32"
    using Cons.prems(2) unfolding b by simp_all
  have o: "\<not> (case lk of None \<Rightarrow> False | Some l \<Rightarrow> k \<le> l)" using Cons.prems(3) kv by (auto split: option.splits)
  have "parse_tuples_from (Some k) ?rest = Inr ts"
    using Cons.prems(1) l(4) kv by (intro Cons.IH) (auto simp: list_all_iff)
  moreover have "parseString ?val = Some (value_bytes v, ?rest)" using l(2) by simp
  moreover have "field_bytes (VString k) @ ?val \<noteq> []" by (simp del: field_bytes.simps)
  ultimately show ?case
    using parseString_field(1) [OF l(1)] o option_value_bytes [OF l(3)] unfolding b
    by (subst parse_tuples_from.simps) (simp add: kv del: field_bytes.simps)
qed (simp add: parse_tuples_from.simps)

lemma parseTuples_marshalTuples: "sorted_tuples ts \<Longrightarrow> length (marshalTuples ts) < 2 ^ 32 \<Longrightarrow> parseTuples (marshalTuples ts) = Inr ts"
  using parse_tuples_bytes [of ts None] by (simp add: parseTuples_def marshalTuples_sorted sorted_tuples_def)

section \<open>Certificates\<close>

lemma cert_name:
  assumes "is_plain k" and "key_Type k = Some t"
  shows "certToPrivAlgo t = None" "\<exists>ty. map_of certAlgoNames t = Some ty \<and> certToPrivAlgo ty = Some t"
proof -
  have "t \<in> {KeyAlgoRSA, KeyAlgoDSA, KeyAlgoECDSA256, KeyAlgoECDSA384, KeyAlgoECDSA521}"
    using assms curve_names(1) by (cases k) (simp_all del: curve_names, blast)
  then show "certToPrivAlgo t = None" "\<exists>ty. map_of certAlgoNames t = Some ty \<and> certToPrivAlgo ty = Some t"
    by (auto simp: certToPrivAlgo_def certAlgoNames_def key_algo_defs ascii_def)
qed

lemma cert_name_length: "is_plain k \<Longrightarrow> key_Type k = Some t \<Longrightarrow> length t \<le> 20"
proof (cases k)
  case (ECDSAKey c x y)
  then show "key_Type k = Some t \<Longrightarrow> length t \<le> 20" by (cases c) (auto simp: ascii_def)
qed (auto simp: key_algo_defs ascii_def)

text \<open>The fields of a certificate after its key.\<close>

definition generic_vals :: "public_key certificate \<Rightarrow> byte list \<Rightarrow> byte list \<Rightarrow> field_val list" where
  "generic_vals c sk sg =
     [VUint64 (crt_Serial c), VUint32 (crt_CertType c), VString (crt_KeyId c), VBytes (marshalStringList (crt_ValidPrincipals c)),
      VUint64 (crt_ValidAfter c), VUint64 (crt_ValidBefore c), VBytes (marshalTuples (crt_CriticalOptions c)),
      VBytes (marshalTuples (crt_Extensions c)), VBytes (crt_Reserved c), VBytes sk, VBytes sg]"

definition generic_bytes :: "public_key certificate \<Rightarrow> byte list \<Rightarrow> byte list \<Rightarrow> byte list" where
  "generic_bytes c sk sg = concat (map field_bytes (generic_vals c sk sg))"

lemma Unmarshal_generic:
  assumes "length (generic_bytes c sk sg) < 2 ^ 32"
  shows "Unmarshal (generic_bytes c sk sg) genericCertData = Inr (generic_vals c sk sg)"
proof -
  have "genericCertData = untagged (map kind_of (generic_vals c sk sg))" by (simp add: genericCertData_def generic_vals_def)
  moreover have "generic_bytes c sk sg \<noteq> []" by (simp add: generic_bytes_def generic_vals_def del: field_bytes.simps)
  moreover have "wf_vals (generic_vals c sk sg)" by (simp add: generic_vals_def)
  ultimately show ?thesis using Unmarshal_untagged [of "generic_vals c sk sg"] assms by (simp add: generic_bytes_def)
qed

lemma generic_bytes_parts:
  assumes "length (generic_bytes c sk sg) < 2 ^ 32"
  shows "length (marshalStringList (crt_ValidPrincipals c)) < 2 ^ 32" "length (marshalTuples (crt_CriticalOptions c)) < 2 ^ 32"
    "length (marshalTuples (crt_Extensions c)) < 2 ^ 32" "length sk < 2 ^ 32" "length sg < 2 ^ 32"
  using assms by (simp_all add: generic_bytes_def generic_vals_def)

lemma cert_parts_bytes:
  assumes "wf_key cr (CertKey c)" and "key_Type (crt_Key c) = Some t"
    and "length (field_bytes (VBytes (crt_Nonce c)) @ plain_bytes cr (crt_Key c) @ generic_bytes c sk sg) < 2 ^ 32"
  shows "\<exists>mk. cert_parts cr (field_bytes (VBytes (crt_Nonce c)) @ plain_bytes cr (crt_Key c) @ generic_bytes c sk sg) t = Inr (mk, sk, sg)
    \<and> (\<forall>k s. mk k s = Certificate (crt_Nonce c) (crt_Key c) (crt_Serial c) (crt_CertType c) (crt_KeyId c) (crt_ValidPrincipals c)
         (crt_ValidAfter c) (crt_ValidBefore c) (crt_CriticalOptions c) (crt_Extensions c) (crt_Reserved c) k (Some s))"
proof -
  let ?g = "generic_bytes c sk sg"
  have l: "length (plain_bytes cr (crt_Key c) @ ?g) < 2 ^ 32" "length ?g < 2 ^ 32" using assms(3) by simp_all
  have "parseString (field_bytes (VBytes (crt_Nonce c)) @ plain_bytes cr (crt_Key c) @ ?g) = Some (crt_Nonce c, plain_bytes cr (crt_Key c) @ ?g)"
    using assms(3) by simp
  moreover have "parse_plain_key cr (plain_bytes cr (crt_Key c) @ ?g) t = Inr (crt_Key c, ?g)"
    using parse_plain_key_bytes [OF _ _ assms(2) l(1)] assms(1) by simp
  ultimately show ?thesis
    using Unmarshal_generic [OF l(2)] generic_bytes_parts [OF l(2)] assms(1)
    by (simp add: cert_parts_def generic_vals_def parse_principals_bytes parseTuples_marshalTuples del: field_bytes.simps)
qed

lemma parseSignatureBody_marshal:
  assumes "length (marshal_Signature s) < 2 ^ 32"
  shows "parseSignatureBody (marshal_Signature s) = Some (s, [])"
proof -
  have e: "marshal_Signature s = field_bytes (VString (fst s)) @ field_bytes (VBytes (snd s)) @ []"
    by (simp add: marshal_Signature_def marshal_untagged_bytes)
  have l: "length (field_bytes (VString (fst s)) @ field_bytes (VBytes (snd s)) @ []) < 2 ^ 32"
    "length (field_bytes (VString (snd s)) @ []) < 2 ^ 32"
    using assms unfolding e by simp_all
  show ?thesis
    unfolding e parseSignatureBody_def parseString_field(1) [OF l(1)] by (simp add: parseString_field(2) [OF l(2)] del: field_bytes.simps append_Nil2)
qed

lemma key_Marshal_cert:
  assumes "wf_key cr (CertKey c)" and "key_Marshal cr (CertKey c) = Some b" and "length b < 2 ^ 32"
  shows "\<exists>t ty sk s. key_Type (crt_Key c) = Some t \<and> certToPrivAlgo ty = Some t \<and> key_Marshal cr (crt_SignatureKey c) = Some sk
    \<and> crt_Signature c = Some s
    \<and> b = field_bytes (VString ty) @ field_bytes (VBytes (crt_Nonce c)) @ plain_bytes cr (crt_Key c) @ generic_bytes c sk (marshal_Signature s)"
proof -
  obtain sk where sk: "key_Marshal cr (crt_SignatureKey c) = Some sk"
    using assms(2) by (auto split: option.splits)
  obtain t where t: "key_Type (crt_Key c) = Some t" and kb: "key_Marshal cr (crt_Key c) = Some (field_bytes (VString t) @ plain_bytes cr (crt_Key c))"
    using key_Marshal_plain assms(1) by (metis wf_key.simps(4))
  obtain ty where ty: "map_of certAlgoNames t = Some ty" "certToPrivAlgo ty = Some t"
    using cert_name(2) t assms(1) by (meson wf_key.simps(4))
  obtain s where s: "crt_Signature c = Some s" using assms(1) by auto
  let ?g = "generic_bytes c sk (marshal_Signature s)"
  have b: "b = field_bytes (VString ty) @ field_bytes (VBytes (crt_Nonce c))
      @ (case parseString (field_bytes (VString t) @ plain_bytes cr (crt_Key c)) of Some (_, r) \<Rightarrow> r | None \<Rightarrow> []) @ ?g"
    using assms(2) sk t kb ty s
    by (simp add: Let_def marshal_untagged_bytes generic_bytes_def generic_vals_def split: option.splits prod.splits)
  have "length t \<le> 20" using cert_name_length [OF _ t] assms(1) by simp
  then have "length (field_bytes (VString t) @ plain_bytes cr (crt_Key c)) < 2 ^ 32" using assms(1) by simp
  from parseString_field(1) [OF this] b s sk t ty show ?thesis by (auto simp del: field_bytes.simps)
qed

lemma plain_roundtrip:
  assumes "is_plain k" and "wf_key cr k" and "key_Marshal cr k = Some b" and "length b < 2 ^ 32"
  shows "ParsePublicKey cr b = Inr k"
proof -
  obtain t where t: "key_Type k = Some t" and b: "b = field_bytes (VString t) @ plain_bytes cr k"
    using key_Marshal_plain [OF assms(1)] assms(3) by (metis option.inject)
  then have l: "length (field_bytes (VString t) @ plain_bytes cr k) < 2 ^ 32" using assms(4) by simp
  then have "parse_plain_key cr (plain_bytes cr k) t = Inr (k, [])" using parse_plain_key_bytes [OF assms(1,2) t, of "[]"] by simp
  with cert_name(1) [OF assms(1) t] show ?thesis
    unfolding b by (subst ParsePublicKey.simps) (simp add: parseString_field(1) [OF l] del: field_bytes.simps)
qed

lemma ParsePublicKey_Marshal:
  assumes "wf_key cr k" and "key_Marshal cr k = Some b" and "length b < 2 ^ 32"
  shows "ParsePublicKey cr b = Inr k"
  using assms
proof (induction k arbitrary: b rule: key_Marshal.induct)
  case (4 cr c)
  obtain t ty sk s where p: "key_Type (crt_Key c) = Some t" "certToPrivAlgo ty = Some t" "key_Marshal cr (crt_SignatureKey c) = Some sk"
    "crt_Signature c = Some s"
    and b: "b = field_bytes (VString ty) @ field_bytes (VBytes (crt_Nonce c)) @ plain_bytes cr (crt_Key c) @ generic_bytes c sk (marshal_Signature s)"
    using key_Marshal_cert [OF 4(3-5)] by blast
  let ?r = "field_bytes (VBytes (crt_Nonce c)) @ plain_bytes cr (crt_Key c) @ generic_bytes c sk (marshal_Signature s)"
  have l: "length (field_bytes (VString ty) @ ?r) < 2 ^ 32" "length ?r < 2 ^ 32" "length (generic_bytes c sk (marshal_Signature s)) < 2 ^ 32"
    using 4(5) b by simp_all
  have sk: "ParsePublicKey cr sk = Inr (crt_SignatureKey c)" using 4(1) 4(3) p(3) generic_bytes_parts(4) [OF l(3)] by simp
  obtain mk where mk: "cert_parts cr ?r t = Inr (mk, sk, marshal_Signature s)" and c: "mk (crt_SignatureKey c) s = c"
    using cert_parts_bytes [OF 4(3) p(1) l(2)] p(4) by (metis certificate.collapse)
  show ?case
    unfolding b using p(2) mk c sk parseSignatureBody_marshal [OF generic_bytes_parts(5) [OF l(3)]]
    by (subst ParsePublicKey.simps) (simp add: parseString_field(1) [OF l(1)] del: field_bytes.simps)
qed (rule plain_roundtrip; simp)+

section \<open>What the signature of a certificate covers\<close>

definition sig_bytes :: "signature option \<Rightarrow> byte list" where
  "sig_bytes s = (case s of None \<Rightarrow> [] | Some s \<Rightarrow> marshal_Signature s)"

fun signed_with :: "public_key certificate \<Rightarrow> signature option \<Rightarrow> public_key certificate" where
  "signed_with (Certificate n k s t i p va vb co ex r sk _) sg = Certificate n k s t i p va vb co ex r sk sg"

lemma signed_with_sel [simp]:
  "crt_Signature (signed_with c s) = s" "crt_SignatureKey (signed_with c s) = crt_SignatureKey c" "signed_with (signed_with c s) t = signed_with c t"
  "signed_with c (crt_Signature c) = c" "crt_CriticalOptions (signed_with c s) = crt_CriticalOptions c"
  "crt_ValidPrincipals (signed_with c s) = crt_ValidPrincipals c" "crt_ValidAfter (signed_with c s) = crt_ValidAfter c"
  "crt_ValidBefore (signed_with c s) = crt_ValidBefore c" "crt_Extensions (signed_with c s) = crt_Extensions c"
  "crt_Key (signed_with c s) = crt_Key c"
  by (cases c; simp)+

text \<open>The bytes of a certificate before its signature.\<close>

definition cert_head :: "key_crypto \<Rightarrow> public_key certificate \<Rightarrow> byte list option" where
  "cert_head cr c =
     (case (key_Marshal cr (crt_SignatureKey c), key_Marshal cr (crt_Key c), key_Type (CertKey c)) of
        (Some sk, Some keyBytes, Some ty) \<Rightarrow>
          Some (concat (map field_bytes
            ([VString ty, VBytes (crt_Nonce c), VRest (case parseString keyBytes of Some (_, r) \<Rightarrow> r | None \<Rightarrow> [])]
             @ butlast (generic_vals c sk []))))
      | _ \<Rightarrow> None)"

lemma key_Marshal_head:
  "key_Marshal cr (CertKey c) = map_option (\<lambda>d. d @ field_bytes (VBytes (sig_bytes (crt_Signature c)))) (cert_head cr c)"
  by (simp add: cert_head_def generic_vals_def sig_bytes_def marshal_untagged_bytes Let_def split: option.split del: field_bytes.simps)

lemma cert_head_signed [simp]: "cert_head cr (signed_with c s) = cert_head cr c"
  by (cases c) (simp add: cert_head_def generic_vals_def split: option.split)

lemma bytesForSigning_head: "bytesForSigning cr c = cert_head cr c"
proof -
  have "bytesForSigning cr c = map_option (\<lambda>out. take (length out - 4) out) (key_Marshal cr (CertKey (signed_with c None)))"
    by (cases c) (simp add: bytesForSigning_def)
  then show ?thesis
    unfolding key_Marshal_head by (cases "cert_head cr c") (simp_all add: sig_bytes_def putUint32_def)
qed

lemma bytesForSigning_signed [simp]: "bytesForSigning cr (signed_with c s) = bytesForSigning cr c"
  by (simp add: bytesForSigning_head)

lemma wf_key_signed: "wf_key cr (CertKey c) \<Longrightarrow> wf_key cr (CertKey (signed_with c (Some s)))"
  by (cases c) simp

text \<open>
  C17. What is signed determines the certificate: two certificates with the same bytes to sign agree in every field but the
  signature, so a signature cannot be moved to a certificate with another key, principal, period or option.
\<close>

theorem cert_signature_binds:
  assumes "wf_key cr (CertKey c)" and "wf_key cr (CertKey c')"
    and "bytesForSigning cr c = Some d" and "bytesForSigning cr c' = Some d" and "length d < 2 ^ 31"
  shows "signed_with c' s = signed_with c s"
proof -
  let ?s = "Some ([], [])"
  have "key_Marshal cr (CertKey (signed_with x ?s)) = Some (d @ field_bytes (VBytes (sig_bytes ?s)))" if "bytesForSigning cr x = Some d" for x
    using that unfolding key_Marshal_head by (simp add: bytesForSigning_head)
  moreover have "length (d @ field_bytes (VBytes (sig_bytes ?s))) < 2 ^ 32"
    using assms(5) by (simp add: sig_bytes_def marshal_Signature_def marshal_untagged_bytes putUint32_def)
  ultimately have "ParsePublicKey cr (d @ field_bytes (VBytes (sig_bytes ?s))) = Inr (CertKey (signed_with x ?s))"
    if "wf_key cr (CertKey x)" "bytesForSigning cr x = Some d" for x
    using that by (intro ParsePublicKey_Marshal wf_key_signed)
  from this [OF assms(1,3)] this [OF assms(2,4)] have "signed_with c ?s = signed_with c' ?s" by (simp del: field_bytes.simps)
  then have "signed_with (signed_with c' ?s) s = signed_with (signed_with c ?s) s" by (rule arg_cong [OF sym])
  then show ?thesis by simp
qed

text \<open>An accepted certificate satisfies every condition, and a certificate that was issued under them is accepted.\<close>

definition cert_conditions :: "CertChecker \<Rightarrow> byte list \<Rightarrow> public_key certificate \<Rightarrow> bool" where
  "cert_conditions ck name c \<longleftrightarrow>
     (\<forall>f. IsRevoked ck = Some f \<longrightarrow> \<not> f c)
     \<and> list_all (\<lambda>(opt, _). opt = sourceAddressCriticalOption \<or> opt \<in> set (SupportedCriticalOptions ck)) (crt_CriticalOptions c)
     \<and> (crt_ValidPrincipals c = [] \<or> name \<in> set (crt_ValidPrincipals c))
     \<and> IsAuthority ck (crt_SignatureKey c)
     \<and> uint (crt_ValidAfter c) < 2 ^ 63 \<and> uint (crt_ValidAfter c) \<le> Clock ck
     \<and> (crt_ValidBefore c = CertTimeInfinity \<or> uint (crt_ValidBefore c) < 2 ^ 63 \<and> Clock ck < uint (crt_ValidBefore c))"

lemma sint_u64: "sint (w :: u64) < 0 \<longleftrightarrow> \<not> uint w < 2 ^ 63" "uint w < 2 ^ 63 \<Longrightarrow> sint w = uint w"
proof -
  show e: "uint w < 2 ^ 63 \<Longrightarrow> sint w = uint w"
    using signed_take_bit_int_eq_self [of 63 "uint w"] order_trans [OF _ uint_ge_0 [of w], of "- (2 ^ 63)"] by (simp add: sint_uint)
  have "0 \<le> sint w \<Longrightarrow> uint w < 2 ^ 63"
    using uint_sint [of w] sint_lt [of w] by (simp add: take_bit_int_eq_self)
  with e uint_ge_0 [of w] show "sint w < 0 \<longleftrightarrow> \<not> uint w < 2 ^ 63" by linarith
qed

lemma if_Some_None: "(if p then Some x else y) = None \<longleftrightarrow> \<not> p \<and> y = None"
  by simp

lemma CheckCert_iff:
  "CheckCert cr ck name c = None \<longleftrightarrow>
     cert_conditions ck name c
     \<and> (\<exists>data sig. bytesForSigning cr c = Some data \<and> crt_Signature c = Some sig \<and> key_Verify cr (crt_SignatureKey c) data sig = None)"
proof -
  have a: "sint (crt_ValidAfter c) < 0 \<or> Clock ck < sint (crt_ValidAfter c)
    \<longleftrightarrow> \<not> (uint (crt_ValidAfter c) < 2 ^ 63 \<and> uint (crt_ValidAfter c) \<le> Clock ck)"
    using sint_u64 [of "crt_ValidAfter c"] by auto
  have b: "Clock ck \<ge> sint (crt_ValidBefore c) \<or> sint (crt_ValidBefore c) < 0
    \<longleftrightarrow> \<not> (uint (crt_ValidBefore c) < 2 ^ 63 \<and> Clock ck < uint (crt_ValidBefore c))"
    using sint_u64 [of "crt_ValidBefore c"] by auto
  have o: "list_ex (\<lambda>(opt, _). opt \<noteq> sourceAddressCriticalOption \<and> opt \<notin> set (SupportedCriticalOptions ck)) (crt_CriticalOptions c)
    \<longleftrightarrow> \<not> list_all (\<lambda>(opt, _). opt = sourceAddressCriticalOption \<or> opt \<in> set (SupportedCriticalOptions ck)) (crt_CriticalOptions c)"
    by (auto simp: list_ex_iff list_all_iff)
  have r: "(case IsRevoked ck of None \<Rightarrow> False | Some f \<Rightarrow> f c) \<longleftrightarrow> \<not> (\<forall>f. IsRevoked ck = Some f \<longrightarrow> \<not> f c)"
    by (auto split: option.splits)
  have v: "(case (bytesForSigning cr c, crt_Signature c) of
      (Some data, Some sig) \<Rightarrow>
        (case key_Verify cr (crt_SignatureKey c) data sig of
           None \<Rightarrow> None | Some _ \<Rightarrow> Some (bad_key ''certificate signature does not verify''))
    | _ \<Rightarrow> Some index_panic) = None \<longleftrightarrow>
    (\<exists>data sig. bytesForSigning cr c = Some data \<and> crt_Signature c = Some sig \<and> key_Verify cr (crt_SignatureKey c) data sig = None)"
    by (auto split: option.splits)
  show ?thesis
    unfolding CheckCert_def a b o r if_Some_None v cert_conditions_def by argo
qed

section \<open>Issuing a certificate\<close>

lemma SignCert_signed:
  assumes "SignCert cr rand authority sign c = Some (Inr c')"
  shows "\<exists>data sig. bytesForSigning cr c' = Some data \<and> sign data = Inr sig \<and> crt_Signature c' = Some sig \<and> crt_SignatureKey c' = authority"
proof -
  obtain n k s t i p va vb co ex r sk sg where c: "c = Certificate n k s t i p va vb co ex r sk sg" by (cases c)
  then obtain nonce data sig where
    "rand = Inr nonce" "bytesForSigning cr (Certificate nonce k s t i p va vb co ex r authority sg) = Some data" "sign data = Inr sig"
    and c': "c' = signed_with (Certificate nonce k s t i p va vb co ex r authority sg) (Some sig)"
    using assms by (auto simp: SignCert_def Let_def split: sum.splits option.splits)
  then have "bytesForSigning cr c' = Some data" by (simp only: bytesForSigning_signed)
  then show ?thesis using \<open>sign data = Inr sig\<close> c' by simp
qed


section \<open>A certificate of two RSA keys\<close>

definition toy_keys :: key_crypto where
  "toy_keys = \<lparr>k_sha1 = (#) 0 \<circ> take 19, k_sha256 = (#) 0 \<circ> take 31, k_sha384 = (#) 0 \<circ> take 47, k_sha512 = (#) 0 \<circ> take 63, ec_Marshal = \<lambda>_ _ _. [4],
     ec_Unmarshal = \<lambda>_ _. None, rsa_Verify = \<lambda>_ _ h s. h = s, dsa_Verify = \<lambda>_ _ _ _ _ _ _. False,
     ecdsa_Verify = \<lambda>_ _ _ _ _ _. False\<rparr>"

definition toy_cert :: "signature option \<Rightarrow> public_key certificate" where
  "toy_cert = Certificate [7] (RSAKey 3 33) 1 HostCert (ascii ''h'') [ascii ''host''] 0 CertTimeInfinity [] [(ascii ''x'', [])] [] (RSAKey 5 35)"

definition toy_sign :: "byte list \<Rightarrow> ssh_error + signature" where
  "toy_sign d = Inr (KeyAlgoRSA, 0 # take 19 d)"

definition toy_checker :: CertChecker where
  "toy_checker = \<lparr>SupportedCriticalOptions = [], IsAuthority = \<lambda>k. k = RSAKey 5 35, Clock = 100, UserKeyFallback = None,
     HostKeyFallback = None, IsRevoked = None\<rparr>"

definition toy_bytes :: "byte list" where
  "toy_bytes = the (bytesForSigning toy_keys (toy_cert None))"

definition toy_signed :: "public_key certificate" where
  "toy_signed = toy_cert (Some (KeyAlgoRSA, 0 # take 19 toy_bytes))"

lemma toy_sel [simp]: "crt_SignatureKey (toy_cert s) = RSAKey 5 35" "crt_Key (toy_cert s) = RSAKey 3 33" "signed_with (toy_cert s) t = toy_cert t"
  "crt_Signature (toy_cert s) = s"
  by (simp_all add: toy_cert_def)

lemma toy_bytesForSigning: "bytesForSigning toy_keys (toy_cert s) = Some toy_bytes"
proof -
  have "bytesForSigning toy_keys (toy_cert None) \<noteq> None" by (simp add: bytesForSigning_head cert_head_def certAlgoNames_def)
  then have "bytesForSigning toy_keys (toy_cert None) = Some toy_bytes" by (auto simp: toy_bytes_def)
  then show ?thesis using bytesForSigning_signed [of toy_keys "toy_cert None" s] by simp
qed

lemma toy_SignCert: "SignCert toy_keys (Inr [7]) (RSAKey 5 35) toy_sign (toy_cert None) = Some (Inr toy_signed)"
  using toy_bytesForSigning [of None] by (simp add: SignCert_def toy_cert_def toy_sign_def toy_signed_def)

lemma toy_mpints: "mpint_contents 3 = [3]" "mpint_contents 33 = [33]" "mpint_contents 5 = [5]" "mpint_contents 35 = [35]"
  by code_simp+

lemma toy_wf: "wf_key toy_keys (CertKey toy_signed)"
  by (simp add: toy_signed_def toy_cert_def sorted_tuples_def plain_bytes_def toy_mpints)

lemma length_ascii: "length (ascii s) = length s"
  by (simp add: ascii_def)

lemma toy_key_bytes:
  "parseString (marshal_untagged [VString KeyAlgoRSA, VBigInt 3, VBigInt 33]) = Some (KeyAlgoRSA, field_bytes (VBigInt 3) @ field_bytes (VBigInt 33))"
  using parseString_field(1) [of KeyAlgoRSA "field_bytes (VBigInt 3) @ field_bytes (VBigInt 33)"]
  by (simp add: marshal_untagged_bytes KeyAlgoRSA_def length_ascii toy_mpints)

lemma toy_bytes_length: "length toy_bytes < 1000"
  using toy_key_bytes unfolding toy_bytes_def bytesForSigning_head
  by (simp add: cert_head_def certAlgoNames_def generic_vals_def toy_cert_def marshalStringList_def marshalTuples_def
    marshal_untagged_bytes toy_mpints length_ascii KeyAlgoRSA_def)

lemma toy_Marshal: "\<exists>b. key_Marshal toy_keys (CertKey toy_signed) = Some b \<and> length b < 2 ^ 32"
  using toy_bytesForSigning [of "crt_Signature toy_signed"] toy_bytes_length unfolding toy_signed_def key_Marshal_head
  by (simp add: bytesForSigning_head sig_bytes_def marshal_Signature_def marshal_untagged_bytes KeyAlgoRSA_def length_ascii del: of_nat_add)

text \<open>
  C16. A public key or certificate survives its encoding: parsing the bytes of \<^verbatim>\<open>Marshal\<close> gives the key back, for every key type of
  the package and for certificates with all their options, principals and signatures.
\<close>

theorem key_roundtrip:
  assumes "wf_key cr k" and "key_Marshal cr k = Some b" and "length b < 2 ^ 32"
  shows "ParsePublicKey cr b = Inr k"
  using assms by (rule ParsePublicKey_Marshal)

theorem key_roundtrip_witness: "ParsePublicKey toy_keys (the (key_Marshal toy_keys (CertKey toy_signed))) = Inr (CertKey toy_signed)"
  using key_roundtrip [OF toy_wf] toy_Marshal by force

theorem cert_signature_binds_witness: "signed_with toy_signed (Some ([], [1])) = signed_with (toy_cert (Some ([], [2]))) (Some ([], [1]))"
proof (rule cert_signature_binds)
  show "wf_key toy_keys (CertKey toy_signed)" by (rule toy_wf)
  then show "wf_key toy_keys (CertKey (toy_cert (Some ([], [2]))))" using wf_key_signed toy_sel(3) toy_signed_def by metis
  show "bytesForSigning toy_keys toy_signed = Some toy_bytes" "bytesForSigning toy_keys (toy_cert (Some ([], [2]))) = Some toy_bytes"
    by (simp_all add: toy_signed_def toy_bytesForSigning)
  show "length toy_bytes < 2 ^ 31" using toy_bytes_length by simp
qed


end
