(* ===== verification/Ssh_Cipher.thy ===== *)
theory Ssh_Cipher
  imports Ssh_Wire
begin

text \<open>
  The packet protection of \<^verbatim>\<open>src/golang.org/x/crypto/ssh/cipher.go\<close>: the stream ciphers with a MAC, AES-GCM
  and AES-CBC. The primitives are functions in the state of a cipher: a key stream, a MAC with its
  size, \<^verbatim>\<open>Seal\<close> and \<^verbatim>\<open>Open\<close> of an AEAD, a block permutation and its inverse; the chaining of
  CBC is written out. A reader is the bytes that are still to come before the end of file, a writer the bytes
  written, how many more it takes before it fails and whether flushing it fails. Packets are passed by value, so the scrambling of
  the caller's buffer is not visible.
\<close>

section \<open>Readers and writers\<close>

datatype cbc_reason = CbcTooLarge | CbcTooSmall | CbcMultiple | CbcLength | CbcMac

datatype cipher_error =
  EOF | UnexpectedEOF | WriteFailed
| PacketTooSmall | PacketTooLarge | MACFailure
| AuthFailed | IllegalPadding byte | PaddingTooLarge byte | IndexPanic
| CbcError cbc_reason

definition ReadFull :: "nat \<Rightarrow> byte list \<Rightarrow> cipher_error + byte list \<times> byte list" where
  "ReadFull n r =
     (if n \<le> length r then Inr (take n r, drop n r) else if r = [] then Inl EOF else Inl UnexpectedEOF)"

record out_writer =
  written :: "byte list"
  room :: "nat option"
  flush_fails :: bool

definition w_Write :: "byte list \<Rightarrow> out_writer \<Rightarrow> cipher_error option \<times> out_writer" where
  "w_Write b w =
     (case room w of
        None \<Rightarrow> (None, w\<lparr>written := written w @ b\<rparr>)
      | Some k \<Rightarrow>
          if length b \<le> k then (None, w\<lparr>written := written w @ b, room := Some (k - length b)\<rparr>)
          else (Some WriteFailed, w\<lparr>written := written w @ take k b, room := Some 0\<rparr>))"

fun w_Writes :: "byte list list \<Rightarrow> out_writer \<Rightarrow> cipher_error option \<times> out_writer" where
  "w_Writes [] w = (None, w)"
| "w_Writes (b # bs) w = (case w_Write b w of (None, w') \<Rightarrow> w_Writes bs w' | (Some e, w') \<Rightarrow> (Some e, w'))"

type_synonym 'c read_result = "(cipher_error + byte list) \<times> byte list \<times> 'c"
type_synonym 'c write_result = "cipher_error option \<times> out_writer \<times> byte list \<times> 'c"

text \<open>A MAC: its size and the digest of all that was written to it since the reset.\<close>

type_synonym mac_fun = "nat \<times> (byte list \<Rightarrow> byte list)"

section \<open>Stream ciphers\<close>

definition packetSizeMultiple :: nat where
  "packetSizeMultiple = 16"

definition maxPacket :: nat where
  "maxPacket = 262144"

definition prefixLen :: nat where
  "prefixLen = 5"

datatype cipher_stream = NoneCipher | KeyStream "nat \<Rightarrow> byte"

fun XORKeyStream :: "cipher_stream \<Rightarrow> byte list \<Rightarrow> byte list \<times> cipher_stream" where
  "XORKeyStream NoneCipher src = (src, NoneCipher)"
| "XORKeyStream (KeyStream ks) src =
     (map2 (XOR) src (map ks [0..<length src]), KeyStream (\<lambda>i. ks (i + length src)))"

record streamPacketCipher =
  spc_mac :: "mac_fun option"
  spc_cipher :: cipher_stream

definition spc_readPacket :: "u32 \<Rightarrow> byte list \<Rightarrow> streamPacketCipher \<Rightarrow> streamPacketCipher read_result" where
  "spc_readPacket seqNum r s =
     (case ReadFull prefixLen r of
        Inl e \<Rightarrow> (Inl e, [], s)
      | Inr (cprefix, r1) \<Rightarrow>
          (let (pre, c1) = XORKeyStream (spc_cipher s) cprefix;
               s1 = s\<lparr>spc_cipher := c1\<rparr>;
               len = getUint32 pre;
               paddingLength = (ucast (pre ! 4) :: u32);
               macSize = (case spc_mac s of None \<Rightarrow> 0 | Some (n, f) \<Rightarrow> (of_nat n :: u32))
           in if len \<le> paddingLength + 1 then (Inl PacketTooSmall, r1, s1)
              else if len > of_nat maxPacket then (Inl PacketTooLarge, r1, s1)
              else
                (case ReadFull (unat (len - 1 + macSize)) r1 of
                   Inl e \<Rightarrow> (Inl e, [], s1)
                 | Inr (packetData, r2) \<Rightarrow>
                     (let mac = drop (unat (len - 1)) packetData;
                          (data, c2) = XORKeyStream c1 (take (unat (len - 1)) packetData);
                          s2 = s\<lparr>spc_cipher := c2\<rparr>
                      in if (case spc_mac s of
                               None \<Rightarrow> True
                             | Some (n, f) \<Rightarrow> f (putUint32 seqNum @ pre @ data) = mac)
                         then (Inr (take (unat (len - paddingLength - 1)) data), r2, s2)
                         else (Inl MACFailure, r2, s2)))))"

definition spc_padding :: "nat \<Rightarrow> nat" where
  "spc_padding n =
     (let p = packetSizeMultiple - (prefixLen + n) mod packetSizeMultiple
      in if p < 4 then p + packetSizeMultiple else p)"

definition spc_writePacket ::
  "u32 \<Rightarrow> out_writer \<Rightarrow> byte list \<Rightarrow> byte list \<Rightarrow> streamPacketCipher \<Rightarrow> streamPacketCipher write_result" where
  "spc_writePacket seqNum w rand packet s =
     (if length packet > maxPacket then (Some PacketTooLarge, w, rand, s)
      else
        (let paddingLength = spc_padding (length packet);
             len = length packet + 1 + paddingLength;
             pre = putUint32 (of_nat len) @ [of_nat paddingLength]
         in case ReadFull paddingLength rand of
              Inl e \<Rightarrow> (Some e, w, [], s)
            | Inr (padding, rand') \<Rightarrow>
                (let mac = (case spc_mac s of
                              None \<Rightarrow> []
                            | Some (n, f) \<Rightarrow> [f (putUint32 seqNum @ pre @ packet @ padding)]);
                     (pre', c1) = XORKeyStream (spc_cipher s) pre;
                     (packet', c2) = XORKeyStream c1 packet;
                     (padding', c3) = XORKeyStream c2 padding;
                     (e, w') = w_Writes ([pre', packet', padding'] @ mac) w
                 in (e, w', rand', s\<lparr>spc_cipher := c3\<rparr>))))"

section \<open>AES-GCM\<close>

record gcmCipher =
  aead_Seal :: "byte list \<Rightarrow> byte list \<Rightarrow> byte list \<Rightarrow> byte list"
  aead_Open :: "byte list \<Rightarrow> byte list \<Rightarrow> byte list \<Rightarrow> byte list option"
  gcm_iv :: "byte list"

definition gcmTagSize :: nat where
  "gcmTagSize = 16"

fun incIV_loop :: "nat \<Rightarrow> byte list \<Rightarrow> byte list" where
  "incIV_loop 0 iv = iv"
| "incIV_loop (Suc n) iv =
     (let iv' = iv[4 + n := iv ! (4 + n) + 1]
      in if iv' ! (4 + n) \<noteq> 0 then iv' else incIV_loop n iv')"

definition incIV :: "byte list \<Rightarrow> byte list" where
  "incIV iv = incIV_loop 8 iv"

definition gcm_padding :: "nat \<Rightarrow> byte" where
  "gcm_padding n =
     (let p = (of_nat (packetSizeMultiple - (1 + n) mod packetSizeMultiple) :: byte)
      in if p < 4 then p + of_nat packetSizeMultiple else p)"

definition gcm_writePacket ::
  "u32 \<Rightarrow> out_writer \<Rightarrow> byte list \<Rightarrow> byte list \<Rightarrow> gcmCipher \<Rightarrow> gcmCipher write_result" where
  "gcm_writePacket seqNum w rand packet c =
     (let padding = gcm_padding (length packet);
          pre = putUint32 (of_nat (length packet + unat padding + 1))
      in case w_Write pre w of
           (Some e, w1) \<Rightarrow> (Some e, w1, rand, c)
         | (None, w1) \<Rightarrow>
             (case ReadFull (unat padding) rand of
                Inl e \<Rightarrow> (Some e, w1, [], c)
              | Inr (pad, rand') \<Rightarrow>
                  (let buf = aead_Seal c (gcm_iv c) (padding # packet @ pad) pre
                   in case w_Write buf w1 of
                        (Some e, w2) \<Rightarrow> (Some e, w2, rand', c)
                      | (None, w2) \<Rightarrow> (None, w2, rand', c\<lparr>gcm_iv := incIV (gcm_iv c)\<rparr>))))"

definition gcm_readPacket :: "u32 \<Rightarrow> byte list \<Rightarrow> gcmCipher \<Rightarrow> gcmCipher read_result" where
  "gcm_readPacket seqNum r c =
     (case ReadFull 4 r of
        Inl e \<Rightarrow> (Inl e, [], c)
      | Inr (pre, r1) \<Rightarrow>
          (let len = getUint32 pre
           in if len > of_nat maxPacket then (Inl PacketTooLarge, r1, c)
              else
                (case ReadFull (unat (len + of_nat gcmTagSize)) r1 of
                   Inl e \<Rightarrow> (Inl e, [], c)
                 | Inr (buf, r2) \<Rightarrow>
                     (case aead_Open c (gcm_iv c) buf pre of
                        None \<Rightarrow> (Inl AuthFailed, r2, c)
                      | Some plain \<Rightarrow>
                          (let c' = c\<lparr>gcm_iv := incIV (gcm_iv c)\<rparr>
                           in case plain of
                                [] \<Rightarrow> (Inl IndexPanic, r2, c')
                              | padding # _ \<Rightarrow>
                                  if padding < 4 \<or> padding \<ge> 20 then (Inl (IllegalPadding padding), r2, c')
                                  else if unat (padding + 1) \<ge> length plain then (Inl (PaddingTooLarge padding), r2, c')
                                  else (Inr (drop 1 (take (unat (len - ucast padding)) plain)), r2, c'))))))"

section \<open>AES-CBC\<close>

definition aes_BlockSize :: nat where
  "aes_BlockSize = 16"

definition xor_bytes :: "byte list \<Rightarrow> byte list \<Rightarrow> byte list" where
  "xor_bytes a b = map2 (XOR) a b"

text \<open>\<^verbatim>\<open>CryptBlocks\<close> of both directions, on a whole number of blocks; \<open>iv\<close> is the last block of cipher text.\<close>

function cbc_encrypt :: "(byte list \<Rightarrow> byte list) \<Rightarrow> byte list \<Rightarrow> byte list \<Rightarrow> byte list \<times> byte list" where
  "cbc_encrypt E iv data =
     (if length data < aes_BlockSize then ([], iv)
      else (let c = E (xor_bytes (take aes_BlockSize data) iv);
                (cs, iv') = cbc_encrypt E c (drop aes_BlockSize data)
            in (c @ cs, iv')))"
  by pat_completeness auto
termination
  by (relation "measure (\<lambda>(E, iv, data). length data)") (auto simp: aes_BlockSize_def)

function cbc_decrypt :: "(byte list \<Rightarrow> byte list) \<Rightarrow> byte list \<Rightarrow> byte list \<Rightarrow> byte list \<times> byte list" where
  "cbc_decrypt D iv data =
     (if length data < aes_BlockSize then ([], iv)
      else (let c = take aes_BlockSize data;
                (ps, iv') = cbc_decrypt D c (drop aes_BlockSize data)
            in (xor_bytes (D c) iv @ ps, iv')))"
  by pat_completeness auto
termination
  by (relation "measure (\<lambda>(D, iv, data). length data)") (auto simp: aes_BlockSize_def)

declare cbc_encrypt.simps [simp del] cbc_decrypt.simps [simp del]

record cbcCipher =
  cbc_mac :: "mac_fun option"
  cbc_E :: "byte list \<Rightarrow> byte list"
  cbc_D :: "byte list \<Rightarrow> byte list"
  enc_iv :: "byte list"
  dec_iv :: "byte list"
  oracleCamouflage :: u32

definition cbc_macSize :: "cbcCipher \<Rightarrow> u32" where
  "cbc_macSize c = (case cbc_mac c of None \<Rightarrow> 0 | Some (n, f) \<Rightarrow> of_nat n)"

definition maxUInt32 :: "nat \<Rightarrow> nat \<Rightarrow> u32" where
  "maxUInt32 a b = (if a > b then of_nat a else of_nat b)"

definition cbcMinPacketSizeMultiple :: nat where
  "cbcMinPacketSizeMultiple = 8"

definition cbcMinPacketSize :: nat where
  "cbcMinPacketSize = 16"

definition cbcMinPaddingSize :: nat where
  "cbcMinPaddingSize = 4"

definition firstBlockLength :: nat where
  "firstBlockLength = (prefixLen + aes_BlockSize - 1) div aes_BlockSize * aes_BlockSize"

text \<open>The checks on the decrypted first block.\<close>

definition cbc_check :: "byte list \<Rightarrow> cbc_reason option" where
  "cbc_check firstBlock =
     (let len = getUint32 firstBlock; paddingLength = (ucast (firstBlock ! 4) :: u32)
      in if len > of_nat maxPacket then Some CbcTooLarge
         else if len + 4 < maxUInt32 cbcMinPacketSize aes_BlockSize then Some CbcTooSmall
         else if (len + 4) mod maxUInt32 cbcMinPacketSizeMultiple aes_BlockSize \<noteq> 0 then Some CbcMultiple
         else if paddingLength < of_nat cbcMinPaddingSize \<or> len \<le> paddingLength + 1 then Some CbcLength
         else None)"

definition cbc_readPacketLeaky :: "u32 \<Rightarrow> byte list \<Rightarrow> cbcCipher \<Rightarrow> cbcCipher read_result" where
  "cbc_readPacketLeaky seqNum r c =
     (case ReadFull firstBlockLength r of
        Inl e \<Rightarrow> (Inl e, [], c)
      | Inr (block, r1) \<Rightarrow>
          (let (firstBlock, iv1) = cbc_decrypt (cbc_D c) (dec_iv c) block;
               c1 = c\<lparr>dec_iv := iv1, oracleCamouflage := of_nat maxPacket + 4 + cbc_macSize c - of_nat firstBlockLength\<rparr>
           in case cbc_check firstBlock of
                Some reason \<Rightarrow> (Inl (CbcError reason), r1, c1)
              | None \<Rightarrow>
                  (let len = getUint32 firstBlock;
                       paddingLength = (ucast (firstBlock ! 4) :: u32);
                       macStart = 4 + len;
                       paddingStart = macStart - paddingLength;
                       entirePacketSize = macStart + cbc_macSize c;
                       n = unat entirePacketSize - firstBlockLength
                   in case ReadFull n r1 of
                        Inl e \<Rightarrow> (Inl e, [], c1)
                      | Inr (tail, r2) \<Rightarrow>
                          (let (crypted, mac) = (take (unat macStart - firstBlockLength) tail, drop (unat macStart - firstBlockLength) tail);
                               (plain, iv2) = cbc_decrypt (cbc_D c) iv1 crypted;
                               c2 = c1\<lparr>dec_iv := iv2, oracleCamouflage := oracleCamouflage c1 - of_nat n\<rparr>;
                               packetData = firstBlock @ plain
                           in if (case cbc_mac c of None \<Rightarrow> True | Some (k, f) \<Rightarrow> f (putUint32 seqNum @ packetData) = mac)
                              then (Inr (drop prefixLen (take (unat paddingStart) packetData)), r2, c2)
                              else (Inl (CbcError CbcMac), r2, c2)))))"

definition cbc_readPacket :: "u32 \<Rightarrow> byte list \<Rightarrow> cbcCipher \<Rightarrow> cbcCipher read_result" where
  "cbc_readPacket seqNum r c =
     (case cbc_readPacketLeaky seqNum r c of
        (Inl (CbcError reason), r', c') \<Rightarrow> (Inl (CbcError reason), drop (unat (oracleCamouflage c')) r', c')
      | res \<Rightarrow> res)"

definition cbc_encLength :: "nat \<Rightarrow> u32" where
  "cbc_encLength n =
     (let effectiveBlockSize = maxUInt32 cbcMinPacketSizeMultiple aes_BlockSize;
          encLength = maxUInt32 (prefixLen + n + cbcMinPaddingSize) cbcMinPaddingSize
      in (encLength + effectiveBlockSize - 1) div effectiveBlockSize * effectiveBlockSize)"

definition cbc_writePacket ::
  "u32 \<Rightarrow> out_writer \<Rightarrow> byte list \<Rightarrow> byte list \<Rightarrow> cbcCipher \<Rightarrow> cbcCipher write_result" where
  "cbc_writePacket seqNum w rand packet c =
     (let encLength = cbc_encLength (length packet);
          len = encLength - 4;
          paddingLength = unat len - (1 + length packet)
      in case ReadFull paddingLength rand of
           Inl e \<Rightarrow> (Some e, w, [], c)
         | Inr (padding, rand') \<Rightarrow>
             (let packetData = putUint32 len @ [of_nat paddingLength] @ packet @ padding;
                  mac = (case cbc_mac c of None \<Rightarrow> [] | Some (k, f) \<Rightarrow> f (putUint32 seqNum @ packetData));
                  (crypted, iv') = cbc_encrypt (cbc_E c) (enc_iv c) packetData;
                  (e, w') = w_Write (crypted @ mac) w
              in (e, w', rand', c\<lparr>enc_iv := iv'\<rparr>)))"

end
