(* ===== verification/Ssh_Cipher_Link.thy ===== *)
theory Ssh_Cipher_Link
  imports Ssh_Cipher
begin

text \<open>
  Both ends of a protected connection. Every cipher is a link: what one end writes the other end
  reads, byte for byte, and both ends stay in step, so that the next packet can follow. The stream ciphers, AES-GCM
  and AES-CBC are shown to be such links for all primitives with the laws of their kind. At the
  end, that a failure of the CBC cipher shows nothing of its reason in how much was read.
\<close>

section \<open>Round trips\<close>

text \<open>What a link of two ends promises: what one end writes the other reads, and both go on together.\<close>

locale packet_link =
  fixes pc_write :: "u32 \<Rightarrow> out_writer \<Rightarrow> byte list \<Rightarrow> byte list \<Rightarrow> 'c \<Rightarrow> 'c write_result"
    and pc_read :: "u32 \<Rightarrow> byte list \<Rightarrow> 'c \<Rightarrow> 'c read_result"
    and paired :: "'c \<Rightarrow> 'c \<Rightarrow> bool"
  assumes link: "paired a b \<Longrightarrow> packet \<noteq> [] \<Longrightarrow> length packet + 20 \<le> maxPacket \<Longrightarrow> 32 \<le> length rand \<Longrightarrow> room w = None \<Longrightarrow>
      \<exists>bytes n a' b'. pc_write seqNum w rand packet a = (None, w\<lparr>written := written w @ bytes\<rparr>, drop n rand, a')
        \<and> n \<le> 32 \<and> (\<forall>rest. pc_read seqNum (bytes @ rest) b = (Inr packet, rest, b')) \<and> paired a' b'"

lemma length_XORKeyStream [simp]: "length (fst (XORKeyStream c d)) = length d"
  by (cases c) auto

lemma XORKeyStream_append:
  "XORKeyStream c (d @ e) =
    (fst (XORKeyStream c d) @ fst (XORKeyStream (snd (XORKeyStream c d)) e), snd (XORKeyStream (snd (XORKeyStream c d)) e))"
proof (cases c)
  case (KeyStream ks)
  have "map ks [0..<length d + length e] = map ks [0..<length d] @ map (\<lambda>i. ks (i + length d)) [0..<length e]"
    by (rule nth_equalityI) (auto simp: nth_append add.commute)
  then show ?thesis using KeyStream by (simp add: ac_simps)
qed simp

lemma XORKeyStream_twice: "XORKeyStream c (fst (XORKeyStream c d)) = (d, snd (XORKeyStream c d))"
proof (cases c)
  case (KeyStream ks)
  then show ?thesis by (auto intro!: nth_equalityI simp: xor.assoc)
qed simp

lemma ReadFull_append: "length a = n \<Longrightarrow> ReadFull n (a @ b) = Inr (a, b)"
  by (auto simp: ReadFull_def)

lemma ReadFull_error: "ReadFull n r = Inl e \<Longrightarrow> e = EOF \<or> e = UnexpectedEOF"
  by (auto simp: ReadFull_def split: if_splits)

lemma firstBlockLength_16: "firstBlockLength = 16"
  by (simp add: firstBlockLength_def prefixLen_def aes_BlockSize_def)

lemma w_Writes_unlimited: "room w = None \<Longrightarrow> w_Writes bs w = (None, w\<lparr>written := written w @ concat bs\<rparr>)"
  by (induction bs arbitrary: w) (auto simp: w_Write_def)

lemma unat_u32: "n < 4294967296 \<Longrightarrow> unat (of_nat n :: u32) = n"
  by (simp add: unat_of_nat)

lemma unat_byte: "n < 256 \<Longrightarrow> unat (of_nat n :: byte) = n"
  by (simp add: unat_of_nat)

lemma ucast_small: "n < 256 \<Longrightarrow> (ucast (of_nat n :: byte) :: u32) = of_nat n"
  by (simp add: word_unat_eq_iff unsigned_ucast_eq unat_of_nat take_bit_eq_mod)

definition mac_ok :: "mac_fun option \<Rightarrow> bool" where
  "mac_ok m \<longleftrightarrow> (case m of None \<Rightarrow> True | Some (n, f) \<Rightarrow> n < 65536 \<and> (\<forall>x. length (f x) = n))"

definition spc_paired :: "streamPacketCipher \<Rightarrow> streamPacketCipher \<Rightarrow> bool" where
  "spc_paired a b \<longleftrightarrow> a = b \<and> mac_ok (spc_mac a)"

lemma spc_padding_bounds: "4 \<le> spc_padding n \<and> spc_padding n < 20"
  by (auto simp: spc_padding_def packetSizeMultiple_def Let_def)

lemma u32_le: "m < 4294967296 \<Longrightarrow> n < 4294967296 \<Longrightarrow> (of_nat m :: u32) \<le> of_nat n \<longleftrightarrow> m \<le> n"
  by (simp add: word_le_nat_alt unat_u32)

lemma u32_less: "m < 4294967296 \<Longrightarrow> n < 4294967296 \<Longrightarrow> (of_nat m :: u32) < of_nat n \<longleftrightarrow> m < n"
  by (simp add: word_less_nat_alt unat_u32)

text \<open>The header of a packet, and the numbers the reader computes from it.\<close>

lemma header_fields:
  assumes "pad < 256"
  shows "getUint32 (putUint32 n @ of_nat pad # xs) = n" "ucast ((putUint32 n @ of_nat pad # xs) ! 4) = (of_nat pad :: u32)"
  using ucast_small [OF assms] getUint32_putUint32 [of n "of_nat pad # xs"] by (simp_all add: putUint32_def)

lemma spc_link:
  assumes "spc_paired a b" and "packet \<noteq> []" and "length packet + 20 \<le> maxPacket" and "32 \<le> length rand" and "room w = None"
  shows "\<exists>bytes n a' b'. spc_writePacket seqNum w rand packet a = (None, w\<lparr>written := written w @ bytes\<rparr>, drop n rand, a')
        \<and> n \<le> 32 \<and> (\<forall>rest. spc_readPacket seqNum (bytes @ rest) b = (Inr packet, rest, b')) \<and> spc_paired a' b'"
proof -
  define pad where "pad = spc_padding (length packet)"
  have pad: "4 \<le> pad" "pad < 20" using spc_padding_bounds by (auto simp: pad_def)
  define len where "len = length packet + 1 + pad"
  define P where "P = putUint32 (of_nat len) @ [of_nat pad]"
  define D where "D = take pad rand"
  define M where "M = (case spc_mac a of None \<Rightarrow> [] | Some (n, f) \<Rightarrow> f (putUint32 seqNum @ P @ packet @ D))"
  define k where "k = (case spc_mac a of None \<Rightarrow> 0 | Some (n, f) \<Rightarrow> n)"
  have len: "len \<le> 262144" "1 < len" "pad + 1 < len" "length packet > 0"
    using assms(2,3) pad by (auto simp: len_def maxPacket_def)
  have mac: "length M = k" "k < 65536"
    using assms(1) by (auto simp: M_def k_def spc_paired_def mac_ok_def split: option.splits)
  have [simp]: "length D = pad" "length P = 5" using pad assms(4) by (simp_all add: D_def P_def)
  define X where "X = XORKeyStream (spc_cipher a) (P @ packet @ D)"
  let ?c1 = "snd (XORKeyStream (spc_cipher a) P)"
  have X: "fst X = fst (XORKeyStream (spc_cipher a) P) @ fst (XORKeyStream ?c1 (packet @ D))"
    "snd X = snd (XORKeyStream ?c1 (packet @ D))"
    by (simp_all add: X_def XORKeyStream_append)
  have "spc_writePacket seqNum w rand packet a =
      (None, w\<lparr>written := written w @ fst X @ M\<rparr>, drop pad rand, a\<lparr>spc_cipher := snd X\<rparr>)"
  proof -
    have rf: "ReadFull pad rand = Inr (D, drop pad rand)" using pad assms(4) by (simp add: ReadFull_def D_def)
    have "w_Writes ([a1, a2, a3] @ (case spc_mac a of None \<Rightarrow> [] | Some (n, f) \<Rightarrow> [f (putUint32 seqNum @ P @ packet @ D)])) w =
        (None, w\<lparr>written := written w @ a1 @ a2 @ a3 @ M\<rparr>)" for a1 a2 a3
      using assms(5) unfolding w_Writes_unlimited [OF assms(5)] by (cases "spc_mac a") (auto simp: M_def)
    then show ?thesis
      unfolding spc_writePacket_def Let_def pad_def [symmetric] len_def [symmetric] P_def [symmetric] rf sum.case prod.case
      using assms(3) by (simp add: case_prod_beta X XORKeyStream_append)
  qed
  moreover have "spc_readPacket seqNum ((fst X @ M) @ rest) b = (Inr packet, rest, a\<lparr>spc_cipher := snd X\<rparr>)" for rest
  proof -
    have b: "b = a" using assms(1) by (simp add: spc_paired_def)
    have r1: "ReadFull prefixLen ((fst X @ M) @ rest) =
        Inr (fst (XORKeyStream (spc_cipher a) P), fst (XORKeyStream ?c1 (packet @ D)) @ M @ rest)"
      using ReadFull_append [of "fst (XORKeyStream (spc_cipher a) P)" prefixLen] by (simp add: X(1) prefixLen_def)
    have L: "getUint32 P = of_nat len" "ucast (P ! 4) = (of_nat pad :: u32)"
      using header_fields [of pad "of_nat len" "[]"] pad by (simp_all add: P_def)
    have n1: "of_nat len - 1 = (of_nat (len - 1) :: u32)" using len by (simp add: of_nat_diff)
    have n2: "of_nat pad + 1 = (of_nat (pad + 1) :: u32)" by simp
    have n3: "of_nat len - of_nat pad - 1 = (of_nat (length packet) :: u32)" by (simp add: len_def)
    have ms: "(case spc_mac a of None \<Rightarrow> 0 | Some (n, f) \<Rightarrow> (of_nat n :: u32)) = of_nat k"
      by (simp add: k_def split: option.splits prod.splits)
    have n4: "unat (of_nat (len - 1) + of_nat k :: u32) = len - 1 + k"
      unfolding of_nat_add [symmetric] using len(1) mac(2) by (intro unat_u32) linarith
    have r2: "ReadFull (len - 1 + k) (fst (XORKeyStream ?c1 (packet @ D)) @ M @ rest) =
        Inr (fst (XORKeyStream ?c1 (packet @ D)) @ M, rest)"
      using ReadFull_append [of "fst (XORKeyStream ?c1 (packet @ D)) @ M" "len - 1 + k" rest] mac by (simp add: len_def)
    have tk: "unat (of_nat (len - 1) :: u32) = length (packet @ D)" using len unat_u32 [of "len - 1"] by (simp add: len_def)
    have np: "unat (of_nat (length packet) :: u32) = length packet" using len by (intro unat_u32) (simp add: len_def)
    have small: "\<not> (of_nat len :: u32) \<le> of_nat (pad + 1)" using len pad by (simp add: u32_le del: of_nat_Suc of_nat_add)
    have large: "\<not> (of_nat maxPacket :: u32) < of_nat len" using len u32_less [of maxPacket len] by (simp add: maxPacket_def)
    have mok: "case spc_mac a of None \<Rightarrow> True | Some (n, f) \<Rightarrow> f (putUint32 seqNum @ P @ packet @ D) = M"
      by (simp add: M_def split: option.splits prod.splits)
    show ?thesis
      unfolding spc_readPacket_def b r1 sum.case prod.case XORKeyStream_twice Let_def L ms n1 n2 n3 n4 r2 tk np
      using small large mok X(2) by (simp add: XORKeyStream_twice split: option.splits prod.splits)
  qed
  moreover have "spc_paired (a\<lparr>spc_cipher := snd X\<rparr>) (a\<lparr>spc_cipher := snd X\<rparr>)"
    using assms(1) by (auto simp: spc_paired_def)
  ultimately show ?thesis using pad by (intro exI conjI) auto
qed

interpretation spc: packet_link spc_writePacket spc_readPacket spc_paired
  by unfold_locales (rule spc_link)

text \<open>AES-GCM, for every AEAD whose \<^verbatim>\<open>Open\<close> inverts its \<^verbatim>\<open>Seal\<close> and whose tag has 16 bytes.\<close>

definition aead_ok :: "gcmCipher \<Rightarrow> bool" where
  "aead_ok c \<longleftrightarrow> (\<forall>iv p ad. aead_Open c iv (aead_Seal c iv p ad) ad = Some p
     \<and> length (aead_Seal c iv p ad) = length p + gcmTagSize)"

definition gcm_paired :: "gcmCipher \<Rightarrow> gcmCipher \<Rightarrow> bool" where
  "gcm_paired a b \<longleftrightarrow> a = b \<and> aead_ok a"

lemma gcm_padding_bounds:
  obtains pad where "gcm_padding n = of_nat pad" "4 \<le> pad" "pad < 20"
proof -
  define p where "p = packetSizeMultiple - (1 + n) mod packetSizeMultiple"
  have p: "0 < p" "p \<le> 16" by (auto simp: p_def packetSizeMultiple_def)
  have "(of_nat p :: byte) < 4 \<longleftrightarrow> p < 4" using p by (simp add: word_less_nat_alt unat_byte)
  then have "gcm_padding n = of_nat (if p < 4 then p + 16 else p)"
    unfolding gcm_padding_def Let_def p_def [symmetric] by (simp add: packetSizeMultiple_def)
  then show ?thesis using that [of "if p < 4 then p + 16 else p"] p by auto
qed

lemma gcm_link:
  assumes "gcm_paired a b" and "packet \<noteq> []" and "length packet + 20 \<le> maxPacket" and "32 \<le> length rand" and "room w = None"
  shows "\<exists>bytes n a' b'. gcm_writePacket seqNum w rand packet a = (None, w\<lparr>written := written w @ bytes\<rparr>, drop n rand, a')
        \<and> n \<le> 32 \<and> (\<forall>rest. gcm_readPacket seqNum (bytes @ rest) b = (Inr packet, rest, b')) \<and> gcm_paired a' b'"
proof -
  obtain pad where pad: "gcm_padding (length packet) = of_nat pad" "4 \<le> pad" "pad < 20" by (rule gcm_padding_bounds)
  have up: "unat (of_nat pad :: byte) = pad" using pad by (simp add: unat_byte)
  define len where "len = length packet + pad + 1"
  define P where "P = putUint32 (of_nat len)"
  define D where "D = take pad rand"
  define C where "C = aead_Seal a (gcm_iv a) (of_nat pad # packet @ D) P"
  let ?a = "a\<lparr>gcm_iv := incIV (gcm_iv a)\<rparr>"
  have len: "len \<le> 262144" "length packet > 0" using assms(2,3) pad by (auto simp: len_def maxPacket_def)
  have lD: "length D = pad" using pad assms(4) by (simp add: D_def)
  have ok: "aead_Open a (gcm_iv a) C P = Some (of_nat pad # packet @ D)" "length C = len + gcmTagSize"
    using assms(1) lD by (auto simp: gcm_paired_def aead_ok_def C_def len_def)
  have rf: "ReadFull pad rand = Inr (D, drop pad rand)" using pad assms(4) by (simp add: ReadFull_def D_def)
  have "gcm_writePacket seqNum w rand packet a = (None, w\<lparr>written := written w @ P @ C\<rparr>, drop pad rand, ?a)"
    unfolding gcm_writePacket_def Let_def pad(1) up len_def [symmetric] P_def [symmetric] rf sum.case prod.case
    using assms(5) by (simp add: w_Write_def rf C_def)
  moreover have "gcm_readPacket seqNum ((P @ C) @ rest) b = (Inr packet, rest, ?a)" for rest
  proof -
    have b: "b = a" using assms(1) by (simp add: gcm_paired_def)
    have r1: "ReadFull 4 ((P @ C) @ rest) = Inr (P, C @ rest)"
      using ReadFull_append [of P 4 "C @ rest"] by (simp add: P_def)
    have L: "getUint32 P = of_nat len" using getUint32_putUint32 [of "of_nat len" "[]"] by (simp add: P_def)
    have n1: "unat (of_nat len + of_nat gcmTagSize :: u32) = len + gcmTagSize"
      unfolding of_nat_add [symmetric] using len(1) by (intro unat_u32) (simp add: gcmTagSize_def)
    have r2: "ReadFull (len + gcmTagSize) (C @ rest) = Inr (C, rest)" using ok(2) by (rule ReadFull_append)
    have large: "\<not> (of_nat maxPacket :: u32) < of_nat len" using len u32_less [of maxPacket len] by (simp add: maxPacket_def)
    have ill: "\<not> ((of_nat pad :: byte) < 4 \<or> (of_nat pad :: byte) \<ge> 20)"
      using pad up by (simp add: word_less_nat_alt word_le_nat_alt)
    have p1: "unat (of_nat pad + 1 :: byte) = pad + 1" using unat_byte [of "pad + 1"] pad by (simp add: add.commute)
    have "(of_nat len - ucast (of_nat pad :: byte) :: u32) = of_nat (length packet + 1)"
      using ucast_small [of pad] pad by (simp add: len_def)
    then have n2: "unat (of_nat len - ucast (of_nat pad :: byte) :: u32) = length packet + 1"
      using len by (simp only:) (rule unat_u32, simp add: len_def)
    show ?thesis
      unfolding gcm_readPacket_def b r1 sum.case prod.case Let_def L n1 r2 ok(1) option.case list.case p1 n2
      using large ill len(2) lD by simp
  qed
  moreover have "gcm_paired ?a ?a" using assms(1) by (auto simp: gcm_paired_def aead_ok_def)
  ultimately show ?thesis using pad by (intro exI conjI) auto
qed

interpretation gcm: packet_link gcm_writePacket gcm_readPacket gcm_paired
  by unfold_locales (rule gcm_link)

text \<open>The counter of AES-GCM: bytes 4 to 11 of the nonce are a number that goes up by one, modulo $2^{64}$.\<close>

lemma bigSetBytes_bound: "bigSetBytes xs < 256 ^ length xs"
proof (induction xs rule: rev_induct)
  case (snoc b xs)
  have "unat b < 256" using unsigned_less [of b, where 'a = nat] by simp
  then show ?case using snoc by (simp add: bigSetBytes_snoc)
qed (simp add: bigSetBytes_def)

lemma incIV_loop_counts:
  assumes "4 + n \<le> length iv"
  shows "length (incIV_loop n iv) = length iv \<and> take 4 (incIV_loop n iv) = take 4 iv
    \<and> drop (4 + n) (incIV_loop n iv) = drop (4 + n) iv
    \<and> bigSetBytes (take n (drop 4 (incIV_loop n iv))) = (bigSetBytes (take n (drop 4 iv)) + 1) mod 256 ^ n"
  using assms
proof (induction n arbitrary: iv)
  case 0
  then show ?case by (simp add: bigSetBytes_def)
next
  case (Suc n)
  define b where "b = iv ! (4 + n)"
  define iv' where "iv' = iv[4 + n := b + 1]"
  define V where "V = bigSetBytes (take n (drop 4 iv))"
  have len: "4 + n < length iv" "length iv' = length iv" using Suc.prems by (auto simp: iv'_def)
  have snoc: "take (Suc n) (drop 4 l) = take n (drop 4 l) @ [l ! (4 + n)]" if "4 + n < length l" for l :: "byte list"
    using that by (simp add: take_Suc_conv_app_nth)
  have keep: "take 4 iv' = take 4 iv" "take n (drop 4 iv') = take n (drop 4 iv)" "drop (4 + Suc n) iv' = drop (4 + Suc n) iv"
    by (auto simp: iv'_def drop_update_swap)
  have V: "V < 256 ^ n" using bigSetBytes_bound [of "take n (drop 4 iv)"] len(1) by (simp add: V_def min_absorb2)
  have old: "bigSetBytes (take (Suc n) (drop 4 iv)) = 256 * V + unat b"
    using snoc [OF len(1)] by (simp add: bigSetBytes_snoc V_def b_def)
  have ub: "unat b < 256" using unsigned_less [of b, where 'a = nat] by simp
  show ?case
  proof (cases "b + 1 = 0")
    case False
    then have "unat (b + 1) = unat b + 1" using unatSuc [of b] by (simp add: add.commute)
    moreover from False have l: "incIV_loop (Suc n) iv = iv'" using len by (simp add: Let_def b_def [symmetric] iv'_def)
    moreover have "bigSetBytes (take (Suc n) (drop 4 iv')) = 256 * V + unat (b + 1)"
      using snoc [of iv'] len keep by (simp add: bigSetBytes_snoc V_def iv'_def)
    moreover have "256 * V + unat b + 1 < 256 ^ Suc n"
      using \<open>unat (b + 1) = unat b + 1\<close> unsigned_less [of "b + 1", where 'a = nat] V by simp
    ultimately show ?thesis using keep len old by simp
  next
    case True
    then have "b = - 1" by (simp add: eq_neg_iff_add_eq_0)
    then have "unat b = 255" by (simp add: unsigned_minus_1_eq_mask mask_eq_exp_minus_1)
    have l: "incIV_loop (Suc n) iv = incIV_loop n iv'" using True len by (simp add: Let_def b_def [symmetric] iv'_def)
    have ih: "length (incIV_loop n iv') = length iv'" "take 4 (incIV_loop n iv') = take 4 iv'"
      "drop (4 + n) (incIV_loop n iv') = drop (4 + n) iv'"
      "bigSetBytes (take n (drop 4 (incIV_loop n iv'))) = (V + 1) mod 256 ^ n"
      using Suc.IH [of iv'] len keep by (auto simp: V_def)
    have z: "incIV_loop n iv' ! (4 + n) = 0"
    proof -
      have "drop (4 + n) (incIV_loop n iv') ! 0 = drop (4 + n) iv' ! 0" using ih(3) by simp
      then show ?thesis using len ih(1) True by (simp add: iv'_def)
    qed
    have "drop (4 + Suc n) (incIV_loop n iv') = drop (4 + Suc n) iv'"
      using arg_cong [OF ih(3), of "drop 1"] by (simp add: drop_drop)
    moreover have "bigSetBytes (take (Suc n) (drop 4 (incIV_loop n iv'))) = 256 * ((V + 1) mod 256 ^ n)"
      using snoc [of "incIV_loop n iv'"] len ih z by (simp add: bigSetBytes_snoc)
    moreover have "256 * ((V + 1) mod 256 ^ n) = (256 * V + unat b + 1) mod 256 ^ Suc n"
      using \<open>unat b = 255\<close> mult_mod_right [of 256 "V + 1" "256 ^ n"] by simp
    ultimately show ?thesis using l ih keep len old by simp
  qed
qed

lemma incIV_counts:
  assumes "length iv = 12"
  shows "take 4 (incIV iv) = take 4 iv \<and> length (incIV iv) = 12
    \<and> bigSetBytes (drop 4 (incIV iv)) = (bigSetBytes (drop 4 iv) + 1) mod 2 ^ 64"
  using incIV_loop_counts [of 8 iv] assms by (auto simp: incIV_def)

text \<open>CBC, for every block permutation.\<close>

definition block_ok :: "(byte list \<Rightarrow> byte list) \<Rightarrow> (byte list \<Rightarrow> byte list) \<Rightarrow> bool" where
  "block_ok E D \<longleftrightarrow> (\<forall>b. length b = aes_BlockSize \<longrightarrow>
     length (E b) = aes_BlockSize \<and> length (D b) = aes_BlockSize \<and> D (E b) = b)"

lemma xor_bytes_twice: "length a = length b \<Longrightarrow> xor_bytes (xor_bytes a b) b = a"
  by (auto intro!: nth_equalityI simp: xor_bytes_def xor.assoc)

lemma cbc_roundtrip:
  assumes "block_ok E D" and "length iv = aes_BlockSize" and "aes_BlockSize dvd length d"
  shows "cbc_decrypt D iv (fst (cbc_encrypt E iv d)) = (d, snd (cbc_encrypt E iv d))
    \<and> length (fst (cbc_encrypt E iv d)) = length d \<and> length (snd (cbc_encrypt E iv d)) = aes_BlockSize"
  using assms
proof (induction E iv d rule: cbc_encrypt.induct)
  case (1 E iv d)
  show ?case
  proof (cases "length d < aes_BlockSize")
    case True
    then have "d = []" using 1(4) by (auto dest: dvd_imp_le)
    then show ?thesis using 1 by (simp add: cbc_encrypt.simps cbc_decrypt.simps aes_BlockSize_def)
  next
    case False
    define b where "b = take aes_BlockSize d"
    define c where "c = E (xor_bytes b iv)"
    have lb: "length b = aes_BlockSize" using False by (simp add: b_def)
    then have lx: "length (xor_bytes b iv) = aes_BlockSize" using 1(3) by (simp add: xor_bytes_def)
    have c: "length c = aes_BlockSize" "D c = xor_bytes b iv" using 1(2) lx by (auto simp: block_ok_def c_def)
    obtain cs iv' where e: "cbc_encrypt E c (drop aes_BlockSize d) = (cs, iv')" by force
    have dv: "aes_BlockSize dvd length (drop aes_BlockSize d)" using 1(4) by (simp add: dvd_diff_nat)
    note ih = "1.IH" [OF False, of c, unfolded c_def [symmetric] b_def [symmetric], OF _ "1.prems"(1) c(1) dv, unfolded e fst_conv snd_conv]
    have enc: "cbc_encrypt E iv d = (c @ cs, iv')"
      using False e by (subst cbc_encrypt.simps) (simp add: Let_def b_def [symmetric] c_def [symmetric])
    have "cbc_decrypt D iv (c @ cs) = (xor_bytes (D c) iv @ drop aes_BlockSize d, iv')"
      using ih c by (subst cbc_decrypt.simps) (simp add: c_def b_def)
    then show ?thesis
      using enc ih c lb xor_bytes_twice [of b iv] 1(3) False by (simp add: b_def c_def)
  qed
qed

lemma cbc_decrypt_append:
  assumes "aes_BlockSize dvd length x"
  shows "cbc_decrypt D iv (x @ y) =
    (fst (cbc_decrypt D iv x) @ fst (cbc_decrypt D (snd (cbc_decrypt D iv x)) y), snd (cbc_decrypt D (snd (cbc_decrypt D iv x)) y))"
  using assms
proof (induction D iv x rule: cbc_decrypt.induct)
  case (1 D iv x)
  show ?case
  proof (cases "length x < aes_BlockSize")
    case True
    then have "x = []" using 1(2) by (auto dest: dvd_imp_le)
    then show ?thesis by (simp add: cbc_decrypt.simps [of D iv "[]"] aes_BlockSize_def)
  next
    case False
    then have "aes_BlockSize dvd length (drop aes_BlockSize x)" using 1(2) by (simp add: dvd_diff_nat)
    note ih = "1.IH" [OF False refl this]
    show ?thesis
      using False ih by (simp add: cbc_decrypt.simps [of D iv x] cbc_decrypt.simps [of D iv "x @ y"] case_prod_beta Let_def)
  qed
qed

lemma length_cbc_decrypt:
  assumes "\<And>b. length b = aes_BlockSize \<Longrightarrow> length (D b) = aes_BlockSize" "length iv = aes_BlockSize" "aes_BlockSize dvd length d"
  shows "length (fst (cbc_decrypt D iv d)) = length d"
  using assms
proof (induction D iv d rule: cbc_decrypt.induct)
  case (1 D iv x)
  show ?case
  proof (cases "length x < aes_BlockSize")
    case True
    then show ?thesis using 1(4) by (auto simp: cbc_decrypt.simps dest: dvd_imp_le)
  next
    case False
    then have "aes_BlockSize dvd length (drop aes_BlockSize x)" using 1(4) by (simp add: dvd_diff_nat)
    then show ?thesis
      using False "1.IH" [OF False refl "1.prems"(1)] 1(2,3) by (simp add: cbc_decrypt.simps [of D iv x] case_prod_beta Let_def xor_bytes_def)
  qed
qed

definition cbc_paired :: "cbcCipher \<Rightarrow> cbcCipher \<Rightarrow> bool" where
  "cbc_paired a b \<longleftrightarrow> cbc_mac a = cbc_mac b \<and> mac_ok (cbc_mac a) \<and> block_ok (cbc_E a) (cbc_D b)
     \<and> enc_iv a = dec_iv b \<and> length (enc_iv a) = aes_BlockSize"

lemma cbc_encLength_eq:
  assumes "n \<le> 262144"
  shows "cbc_encLength n = of_nat ((n + 24) div 16 * 16)"
proof -
  have m: "maxUInt32 cbcMinPacketSizeMultiple aes_BlockSize = of_nat 16"
    "maxUInt32 (prefixLen + n + cbcMinPaddingSize) cbcMinPaddingSize = of_nat (n + 9)"
    by (simp_all add: maxUInt32_def cbcMinPacketSizeMultiple_def aes_BlockSize_def prefixLen_def cbcMinPaddingSize_def)
  have s: "of_nat (n + 9) + of_nat 16 - 1 = (of_nat (n + 24) :: u32)" by simp
  have d: "(of_nat (n + 24) :: u32) div of_nat 16 = of_nat ((n + 24) div 16)"
    using assms by (simp only: word_unat_eq_iff unat_div_distrib) (simp add: unat_u32 del: of_nat_add)
  show ?thesis unfolding cbc_encLength_def Let_def m s d by simp
qed

text \<open>A header the writer makes passes the checks of the reader.\<close>

lemma cbc_check_header:
  assumes "len \<le> 262144" "12 \<le> len" "(len + 4) mod 16 = 0" "4 \<le> pad" "pad < 256" "pad + 1 < len"
  shows "cbc_check (putUint32 (of_nat len) @ of_nat pad # xs) = None"
proof -
  note h = header_fields [OF assms(5), of "of_nat len" xs]
  have a: "of_nat len + 4 = (of_nat (len + 4) :: u32)" "of_nat pad + 1 = (of_nat (pad + 1) :: u32)" by simp_all
  have m: "maxUInt32 cbcMinPacketSize aes_BlockSize = of_nat 16" "maxUInt32 cbcMinPacketSizeMultiple aes_BlockSize = of_nat 16"
    by (simp_all add: maxUInt32_def cbcMinPacketSizeMultiple_def cbcMinPacketSize_def aes_BlockSize_def)
  have "(of_nat (len + 4) :: u32) mod of_nat 16 = of_nat ((len + 4) mod 16)"
    using assms(1) by (simp only: word_unat_eq_iff unat_mod_distrib) (simp add: unat_u32 del: of_nat_add)
  then have r: "(of_nat (len + 4) :: u32) mod of_nat 16 = 0" using assms(3) by simp
  have "\<not> (of_nat maxPacket :: u32) < of_nat len" "\<not> (of_nat (len + 4) :: u32) < of_nat 16"
    "\<not> (of_nat pad :: u32) < of_nat cbcMinPaddingSize" "\<not> (of_nat len :: u32) \<le> of_nat (pad + 1)"
    using assms u32_less [of maxPacket len] u32_less [of "len + 4" 16] u32_less [of pad cbcMinPaddingSize] u32_le [of len "pad + 1"]
    by (simp_all add: maxPacket_def cbcMinPaddingSize_def)
  then show ?thesis unfolding cbc_check_def Let_def h a m r by simp
qed

text \<open>Decrypting the first block and the rest one after the other.\<close>

lemma cbc_two_reads:
  assumes "block_ok E D" "length iv = aes_BlockSize" "aes_BlockSize dvd length d" "d \<noteq> []"
    and "X = fst (cbc_encrypt E iv d)" and "iv1 = snd (cbc_decrypt D iv (take aes_BlockSize X))"
  shows "fst (cbc_decrypt D iv (take aes_BlockSize X)) = take aes_BlockSize d"
    and "cbc_decrypt D iv1 (drop aes_BlockSize X) = (drop aes_BlockSize d, snd (cbc_encrypt E iv d))"
proof -
  note rt = cbc_roundtrip [OF assms(1-3)]
  have len: "aes_BlockSize \<le> length X" using rt assms(3,4,5) by (auto dest: dvd_imp_le)
  have "cbc_decrypt D iv (take aes_BlockSize X @ drop aes_BlockSize X) = (d, snd (cbc_encrypt E iv d))"
    using rt assms(5) by simp
  moreover have l1: "aes_BlockSize dvd length (take aes_BlockSize X)" using len by simp
  ultimately have all: "fst (cbc_decrypt D iv (take aes_BlockSize X)) @ fst (cbc_decrypt D iv1 (drop aes_BlockSize X)) = d"
    "snd (cbc_decrypt D iv1 (drop aes_BlockSize X)) = snd (cbc_encrypt E iv d)"
    using cbc_decrypt_append [OF l1, of D iv "drop aes_BlockSize X"] assms(6) by auto
  have "length (fst (cbc_decrypt D iv (take aes_BlockSize X))) = aes_BlockSize"
    using length_cbc_decrypt [OF _ assms(2) l1, of D] assms(1) len by (simp add: block_ok_def)
  with all show "fst (cbc_decrypt D iv (take aes_BlockSize X)) = take aes_BlockSize d"
    "cbc_decrypt D iv1 (drop aes_BlockSize X) = (drop aes_BlockSize d, snd (cbc_encrypt E iv d))"
    by (auto simp: append_eq_conv_conj prod_eq_iff)
qed

lemma cbc_write_bytes:
  assumes "length packet \<le> 262124" "32 \<le> length rand" "room w = None"
    and "N = (length packet + 24) div 16 * 16" and "pad = N - 5 - length packet"
    and "d = putUint32 (of_nat (N - 4)) @ of_nat pad # packet @ take pad rand"
  shows "cbc_writePacket seqNum w rand packet c =
      (None, w\<lparr>written := written w @ fst (cbc_encrypt (cbc_E c) (enc_iv c) d)
          @ (case cbc_mac c of None \<Rightarrow> [] | Some (k, f) \<Rightarrow> f (putUint32 seqNum @ d))\<rparr>,
       drop pad rand, c\<lparr>enc_iv := snd (cbc_encrypt (cbc_E c) (enc_iv c) d)\<rparr>)"
    and "4 \<le> pad" "pad < 20" "length d = N" "N mod 16 = 0" "length packet + 9 \<le> N" "N \<le> length packet + 24"
proof -
  show pad: "4 \<le> pad" "pad < 20" "N mod 16 = 0" "length packet + 9 \<le> N" "N \<le> length packet + 24"
  proof -
    have q: "N + (length packet + 24) mod 16 = length packet + 24" using assms(4) by simp
    moreover have "(length packet + 24) mod 16 < 16" by simp
    ultimately show "length packet + 9 \<le> N" "N \<le> length packet + 24" by linarith+
    then show "4 \<le> pad" "pad < 20" using assms(5) by linarith+
    show "N mod 16 = 0" using assms(4) by simp
  qed
  have e: "cbc_encLength (length packet) = of_nat N" using cbc_encLength_eq [of "length packet"] assms(1,4) by simp
  have l: "(of_nat N - 4 :: u32) = of_nat (N - 4)" using pad by (simp add: of_nat_diff)
  have u: "unat (of_nat (N - 4) :: u32) - (1 + length packet) = pad"
    using pad assms(1,5) unat_u32 [of "N - 4"] by simp
  have rf: "ReadFull pad rand = Inr (take pad rand, drop pad rand)" using pad assms(2) by (simp add: ReadFull_def)
  show "length d = N" using assms(2,5,6) pad by simp
  show "cbc_writePacket seqNum w rand packet c =
      (None, w\<lparr>written := written w @ fst (cbc_encrypt (cbc_E c) (enc_iv c) d)
          @ (case cbc_mac c of None \<Rightarrow> [] | Some (k, f) \<Rightarrow> f (putUint32 seqNum @ d))\<rparr>,
       drop pad rand, c\<lparr>enc_iv := snd (cbc_encrypt (cbc_E c) (enc_iv c) d)\<rparr>)"
    unfolding cbc_writePacket_def Let_def e l u rf sum.case prod.case
    using assms(3,6) by (simp add: w_Write_def case_prod_beta split: option.splits)
qed

lemma cbc_link:
  assumes "cbc_paired a b" and "packet \<noteq> []" and "length packet + 20 \<le> maxPacket" and "32 \<le> length rand" and "room w = None"
  shows "\<exists>bytes n a' b'. cbc_writePacket seqNum w rand packet a = (None, w\<lparr>written := written w @ bytes\<rparr>, drop n rand, a')
        \<and> n \<le> 32 \<and> (\<forall>rest. cbc_readPacket seqNum (bytes @ rest) b = (Inr packet, rest, b')) \<and> cbc_paired a' b'"
proof -
  define N where "N = (length packet + 24) div 16 * 16"
  define pad where "pad = N - 5 - length packet"
  define d where "d = putUint32 (of_nat (N - 4)) @ of_nat pad # packet @ take pad rand"
  have lp: "length packet \<le> 262124" "0 < length packet" using assms(2,3) by (auto simp: maxPacket_def)
  note w = cbc_write_bytes [OF lp(1) assms(4,5) N_def pad_def d_def]
  define M where "M = (case cbc_mac a of None \<Rightarrow> [] | Some (k, f) \<Rightarrow> f (putUint32 seqNum @ d))"
  define k where "k = (case cbc_mac a of None \<Rightarrow> 0 | Some (n, f) \<Rightarrow> n)"
  obtain X iv' where X: "cbc_encrypt (cbc_E a) (enc_iv a) d = (X, iv')" by force
  have pr: "cbc_mac b = cbc_mac a" "block_ok (cbc_E a) (cbc_D b)" "dec_iv b = enc_iv a" "length (enc_iv a) = aes_BlockSize"
    and mac: "length M = k" "k < 65536"
    using assms(1) by (auto simp: cbc_paired_def mac_ok_def M_def k_def split: option.splits)
  have dv: "aes_BlockSize dvd length d" "d \<noteq> []" using w(4,5) by (auto simp: aes_BlockSize_def d_def dvd_eq_mod_eq_0)
  have N: "16 \<le> N" "N \<le> 262148" "4 \<le> N" using w(5-7) lp by auto
  have lX: "length X = N" "length iv' = aes_BlockSize" using cbc_roundtrip [OF pr(2,4) dv(1)] X w(4) by auto
  define iv1 where "iv1 = snd (cbc_decrypt (cbc_D b) (enc_iv a) (take aes_BlockSize X))"
  note tr = cbc_two_reads [OF pr(2,4) dv, of X iv1, unfolded X fst_conv snd_conv, OF refl iv1_def]
  define F where "F = take 16 d"
  have dec1: "cbc_decrypt (cbc_D b) (dec_iv b) (take 16 X) = (F, iv1)"
    using tr(1) by (simp add: prod_eq_iff iv1_def F_def pr(3) aes_BlockSize_def)
  have F: "F = putUint32 (of_nat (N - 4)) @ of_nat pad # take 11 (packet @ take pad rand)"
    by (simp add: F_def d_def)
  have chk: "cbc_check F = None"
  proof -
    have "pad + 1 < N - 4" using w(6) lp(2) pad_def by linarith
    then show ?thesis unfolding F using N w(2,3,5) by (intro cbc_check_header) auto
  qed
  have L: "getUint32 F = of_nat (N - 4)" "ucast (F ! 4) = (of_nat pad :: u32)"
    using header_fields [of pad] w(3) by (simp_all add: F)
  have ms: "cbc_macSize b = of_nat k" by (simp add: cbc_macSize_def pr(1) k_def split: option.splits)
  have n1: "4 + of_nat (N - 4) = (of_nat N :: u32)" using N by (simp add: of_nat_diff)
  have n2: "unat (of_nat N + of_nat k :: u32) = N + k"
    unfolding of_nat_add [symmetric] using N mac by (intro unat_u32) linarith
  have n3: "unat (of_nat N :: u32) = N" using N by (intro unat_u32) linarith
  have "(of_nat N - of_nat pad :: u32) = of_nat (5 + length packet)" using w(2,6) pad_def by (simp add: of_nat_diff)
  then have n4: "unat (of_nat N - of_nat pad :: u32) = 5 + length packet"
    using lp by (simp only:) (rule unat_u32, simp)
  have pd: "F @ drop 16 d = d" by (simp add: F_def)
  have out: "drop prefixLen (take (5 + length packet) d) = packet" by (simp add: d_def prefixLen_def)
  define b' where "b' = b\<lparr>dec_iv := iv', oracleCamouflage := of_nat maxPacket + 4 + of_nat k - of_nat 16 - of_nat (N + k - 16)\<rparr>"
  have "cbc_readPacket seqNum ((X @ M) @ rest) b = (Inr packet, rest, b')" for rest
  proof -
    have r1: "ReadFull 16 ((X @ M) @ rest) = Inr (take 16 X, drop 16 X @ M @ rest)"
      using lX N by (simp add: ReadFull_def)
    have r2: "ReadFull (N + k - 16) (drop 16 X @ M @ rest) = Inr (drop 16 X @ M, rest)"
      using ReadFull_append [of "drop 16 X @ M" "N + k - 16" rest] lX mac N by simp
    have tk: "take (N - 16) (drop 16 X @ M) = drop 16 X" "drop (N - 16) (drop 16 X @ M) = M" using lX by auto
    have dec2: "cbc_decrypt (cbc_D b) iv1 (drop 16 X) = (drop 16 d, iv')" using tr(2) by (simp add: aes_BlockSize_def)
    have mok: "case cbc_mac a of None \<Rightarrow> True | Some (n, f) \<Rightarrow> f (putUint32 seqNum @ d) = M"
      by (simp add: M_def split: option.splits prod.splits)
    have "cbc_readPacketLeaky seqNum ((X @ M) @ rest) b = (Inr packet, rest, b')"
      unfolding cbc_readPacketLeaky_def r1 sum.case prod.case dec1 Let_def chk option.case L ms n1 n2 n3 n4 firstBlockLength_16 r1 r2 tk dec2 pd out pr(1)
      using mok by (simp add: b'_def split: option.splits prod.splits)
    then show ?thesis by (simp add: cbc_readPacket_def)
  qed
  moreover have "cbc_paired (a\<lparr>enc_iv := iv'\<rparr>) b'"
    using assms(1) lX by (auto simp: cbc_paired_def b'_def)
  ultimately show ?thesis
    using w(1,3) by (intro exI [of _ "X @ M"] exI [of _ pad] exI [of _ "a\<lparr>enc_iv := iv'\<rparr>"] exI [of _ b']) (simp add: X M_def)
qed

interpretation cbc: packet_link cbc_writePacket cbc_readPacket cbc_paired
  by unfold_locales (rule cbc_link)

section \<open>The reading end of a CBC cipher that fails\<close>

lemma cbc_check_bounds:
  assumes "cbc_check F = None"
  shows "16 \<le> unat (4 + getUint32 F) \<and> unat (4 + getUint32 F) \<le> 262148"
proof -
  have m: "maxUInt32 cbcMinPacketSize aes_BlockSize = 16"
    by (simp add: maxUInt32_def cbcMinPacketSize_def aes_BlockSize_def)
  have "\<not> getUint32 F > of_nat maxPacket" "\<not> getUint32 F + 4 < 16"
    using assms unfolding cbc_check_def Let_def m by (auto split: if_splits)
  then have l: "unat (getUint32 F) \<le> 262144" "16 \<le> unat (getUint32 F + 4)"
    by (simp_all add: word_less_nat_alt maxPacket_def)
  moreover have "unat (getUint32 F + 4) = unat (getUint32 F) + 4"
    using l(1) unat_u32 [of "unat (getUint32 F) + 4"] by simp
  ultimately show ?thesis by (simp add: add.commute)
qed

definition mac_length :: "mac_fun option \<Rightarrow> nat" where
  "mac_length m = (case m of None \<Rightarrow> 0 | Some (n, f) \<Rightarrow> n)"

lemma cbc_camouflage:
  assumes "mac_length (cbc_mac c) < 65536"
  shows "of_nat maxPacket + 4 + cbc_macSize c - of_nat firstBlockLength = (of_nat (262132 + mac_length (cbc_mac c)) :: u32)"
proof -
  have m: "cbc_macSize c = of_nat (mac_length (cbc_mac c))"
    by (simp add: cbc_macSize_def mac_length_def split: option.splits)
  show ?thesis unfolding firstBlockLength_16 m by (simp add: maxPacket_def)
qed

lemma cbc_leaky_failure:
  assumes "mac_length (cbc_mac c) < 65536" and "cbc_readPacketLeaky seqNum r c = (Inl (CbcError reason), r', c')"
  shows "\<exists>n. r' = drop n r \<and> n + unat (oracleCamouflage c') = 262148 + mac_length (cbc_mac c)"
proof -
  define k where "k = mac_length (cbc_mac c)"
  note cam = cbc_camouflage [OF assms(1), folded k_def]
  have ms: "cbc_macSize c = of_nat k"
    by (simp add: cbc_macSize_def k_def mac_length_def split: option.splits)
  have uk: "unat (of_nat (262132 + k) :: u32) = 262132 + k" using assms(1) by (intro unat_u32) (simp add: k_def)
  obtain block r1 where r1: "ReadFull 16 r = Inr (block, r1)"
    using assms(2) ReadFull_error [of 16 r] by (cases "ReadFull 16 r") (auto simp: cbc_readPacketLeaky_def firstBlockLength_16)
  then have rr: "r1 = drop 16 r" by (auto simp: ReadFull_def split: if_splits)
  obtain F iv1 where F: "cbc_decrypt (cbc_D c) (dec_iv c) block = (F, iv1)" by force
  note u = assms(2) [unfolded cbc_readPacketLeaky_def firstBlockLength_16 r1 sum.case prod.case F Let_def cam [unfolded firstBlockLength_16]]
  show ?thesis
  proof (cases "cbc_check F")
    case (Some x)
    then have "r' = drop 16 r" "oracleCamouflage c' = of_nat (262132 + k)" using u rr by auto
    then show ?thesis using uk by (intro exI [of _ 16]) (simp add: k_def)
  next
    case None
    define N where "N = unat (4 + getUint32 F)"
    have N: "16 \<le> N" "N \<le> 262148" using cbc_check_bounds [OF None] by (auto simp: N_def)
    have nk: "unat (4 + getUint32 F + of_nat k) = N + k"
    proof -
      have "4 + getUint32 F + of_nat k = (of_nat (N + k) :: u32)" by (simp add: N_def)
      then show ?thesis using N assms(1) by (simp only:) (rule unat_u32, simp add: k_def)
    qed
    from u None ms nk obtain buf r2 where r2: "ReadFull (N + k - 16) r1 = Inr (buf, r2)"
      using ReadFull_error [of "N + k - 16" r1] by (cases "ReadFull (N + k - 16) r1") auto
    then have "r2 = drop (N + k - 16) r1" by (auto simp: ReadFull_def split: if_splits)
    moreover have "r' = r2 \<and> oracleCamouflage c' = of_nat (262132 + k) - of_nat (N + k - 16)"
      using u None ms nk r2 by (auto simp: case_prod_beta split: if_splits)
    moreover have "(of_nat (262132 + k) - of_nat (N + k - 16) :: u32) = of_nat (262148 - N)"
      using N by (simp add: of_nat_diff)
    moreover have "unat (of_nat (262148 - N) :: u32) = 262148 - N" using N by (intro unat_u32) linarith
    ultimately show ?thesis using rr N by (intro exI [of _ "N + k"]) (simp add: k_def)
  qed
qed

text \<open>
  C34. A CBC packet that fails a check gives no hint which check it failed by how much of the
  stream is read: whatever the reason (length, block multiple, padding or MAC), the reader has
  then taken exactly the size of the largest packet and its MAC from the stream, or all that
  there is.
\<close>

theorem cbc_failure_reads_the_same:
  assumes "mac_length (cbc_mac c) < 65536"
    and "cbc_readPacket seqNum r c = (Inl (CbcError reason), r', c')"
  shows "r' = drop (maxPacket + 4 + mac_length (cbc_mac c)) r"
proof -
  obtain r1 where r1: "cbc_readPacketLeaky seqNum r c = (Inl (CbcError reason), r1, c')" "r' = drop (unat (oracleCamouflage c')) r1"
    using assms(2) by (auto simp: cbc_readPacket_def split: prod.splits sum.splits cipher_error.splits)
  obtain n where "r1 = drop n r" "n + unat (oracleCamouflage c') = 262148 + mac_length (cbc_mac c)"
    using cbc_leaky_failure [OF assms(1) r1(1)] by blast
  then show ?thesis using r1(2) by (simp add: maxPacket_def add.commute)
qed

definition demo_cbc :: cbcCipher where
  "demo_cbc = \<lparr>cbc_mac = Some (2, \<lambda>x. [1, 2]), cbc_E = rev, cbc_D = rev, enc_iv = replicate 16 7, dec_iv = replicate 16 7,
     oracleCamouflage = 0\<rparr>"

theorem cbc_failure_reads_the_same_witness:
  "fst (snd (cbc_readPacket 0 (replicate 262160 7) demo_cbc)) = replicate 10 7"
proof -
  have d: "cbc_decrypt (cbc_D demo_cbc) (dec_iv demo_cbc) (replicate 16 7) = (replicate 16 0, replicate 16 7)" by code_simp
  have "cbc_check (0 # 0 # 0 # 0 # 0 # xs) = Some CbcTooSmall" for xs
    by (simp add: cbc_check_def maxUInt32_def cbcMinPacketSize_def aes_BlockSize_def)
  then have c: "cbc_check (replicate 16 0) = Some CbcTooSmall" by (simp add: numeral_eq_Suc)
  have r: "ReadFull 16 (replicate 262160 7) = Inr (replicate 16 7, replicate 262144 7)" by (simp add: ReadFull_def)
  have "fst (cbc_readPacketLeaky 0 (replicate 262160 7) demo_cbc) = Inl (CbcError CbcTooSmall)"
    unfolding cbc_readPacketLeaky_def firstBlockLength_16 r sum.case prod.case d Let_def c by simp
  then obtain r' c' where "cbc_readPacket 0 (replicate 262160 7) demo_cbc = (Inl (CbcError CbcTooSmall), r', c')"
    by (cases "cbc_readPacketLeaky 0 (replicate 262160 7) demo_cbc") (auto simp: cbc_readPacket_def)
  moreover have "mac_length (cbc_mac demo_cbc) = 2" by (simp add: demo_cbc_def mac_length_def)
  ultimately show ?thesis
    using cbc_failure_reads_the_same [of demo_cbc 0 "replicate 262160 7" CbcTooSmall r' c'] by (simp add: maxPacket_def)
qed

end
