(* ===== verification/Ssh_Transport.thy ===== *)
theory Ssh_Transport
  imports Ssh_Cipher_Link Ssh_Algorithms
begin

text \<open>
  The packet transport of \<^verbatim>\<open>src/golang.org/x/crypto/ssh/transport.go\<close>, with the cipher and MAC tables of
  \<^verbatim>\<open>cipher.go\<close> and \<^verbatim>\<open>mac.go\<close>: key derivation, the ciphers of both directions, sequence numbers, the
  change of keys and the version lines. The primitives of Go's \<^verbatim>\<open>crypto\<close> packages are the fields of
  a record \<open>crypto\<close>. The channel of pending ciphers holds one.
\<close>

section \<open>Tables\<close>

record crypto =
  c_ctr :: "byte list \<Rightarrow> byte list \<Rightarrow> nat \<Rightarrow> byte"
  c_rc4 :: "byte list \<Rightarrow> nat \<Rightarrow> byte"
  c_aes :: "byte list \<Rightarrow> byte list \<Rightarrow> byte list"
  c_aes_inv :: "byte list \<Rightarrow> byte list \<Rightarrow> byte list"
  c_seal :: "byte list \<Rightarrow> byte list \<Rightarrow> byte list \<Rightarrow> byte list \<Rightarrow> byte list"
  c_open :: "byte list \<Rightarrow> byte list \<Rightarrow> byte list \<Rightarrow> byte list \<Rightarrow> byte list option"
  c_hmac_sha1 :: "byte list \<Rightarrow> byte list \<Rightarrow> byte list"
  c_hmac_sha256 :: "byte list \<Rightarrow> byte list \<Rightarrow> byte list"

datatype transport_error =
  CipherFailure cipher_error
| ZeroLengthPacket
| BogusNewKeys
| NoKeyMaterial
| KeySizeError
| NilTableEntry
| KeyTooSmall
| IvTooSmall

text \<open>\<^verbatim>\<open>aes.NewCipher\<close> and \<^verbatim>\<open>rc4.NewCipher\<close> refuse keys of a wrong size.\<close>

definition aes_key :: "byte list \<Rightarrow> bool" where
  "aes_key k \<longleftrightarrow> length k \<in> {16, 24, 32}"

definition newAESCTR :: "crypto \<Rightarrow> byte list \<Rightarrow> byte list \<Rightarrow> transport_error + cipher_stream" where
  "newAESCTR cr key iv = (if aes_key key then Inr (KeyStream (c_ctr cr key iv)) else Inl KeySizeError)"

definition newRC4 :: "crypto \<Rightarrow> byte list \<Rightarrow> byte list \<Rightarrow> transport_error + cipher_stream" where
  "newRC4 cr key iv =
     (if 1 \<le> length key \<and> length key \<le> 256 then Inr (KeyStream (c_rc4 cr key)) else Inl KeySizeError)"

record streamCipherMode =
  keySize :: nat
  ivSize :: nat
  skip :: nat
  createFunc :: "(crypto \<Rightarrow> byte list \<Rightarrow> byte list \<Rightarrow> transport_error + cipher_stream) option"

definition gcmCipherID :: "byte list" where
  "gcmCipherID = ascii ''aes128-gcm@openssh.com''"

definition aes128cbcID :: "byte list" where
  "aes128cbcID = ascii ''aes128-cbc''"

definition cipherModes :: "(byte list \<times> streamCipherMode) list" where
  "cipherModes =
     [(ascii ''aes128-ctr'', \<lparr>keySize = 16, ivSize = aes_BlockSize, skip = 0, createFunc = Some newAESCTR\<rparr>),
      (ascii ''aes192-ctr'', \<lparr>keySize = 24, ivSize = aes_BlockSize, skip = 0, createFunc = Some newAESCTR\<rparr>),
      (ascii ''aes256-ctr'', \<lparr>keySize = 32, ivSize = aes_BlockSize, skip = 0, createFunc = Some newAESCTR\<rparr>),
      (ascii ''arcfour128'', \<lparr>keySize = 16, ivSize = 0, skip = 1536, createFunc = Some newRC4\<rparr>),
      (ascii ''arcfour256'', \<lparr>keySize = 32, ivSize = 0, skip = 1536, createFunc = Some newRC4\<rparr>),
      (ascii ''arcfour'', \<lparr>keySize = 16, ivSize = 0, skip = 0, createFunc = Some newRC4\<rparr>),
      (gcmCipherID, \<lparr>keySize = 16, ivSize = 12, skip = 0, createFunc = None\<rparr>),
      (aes128cbcID, \<lparr>keySize = 16, ivSize = aes_BlockSize, skip = 0, createFunc = None\<rparr>)]"

text \<open>The first bytes of the key stream are thrown away in pieces of 512.\<close>

function dump_loop :: "nat \<Rightarrow> cipher_stream \<Rightarrow> cipher_stream" where
  "dump_loop remainingToDump stream =
     (if remainingToDump = 0 then stream
      else (let dumpThisTime = min remainingToDump 512
            in dump_loop (remainingToDump - dumpThisTime) (snd (XORKeyStream stream (replicate dumpThisTime 0)))))"
  by pat_completeness auto
termination
  by (relation "measure fst") auto

declare dump_loop.simps [simp del]

definition createStream :: "crypto \<Rightarrow> streamCipherMode \<Rightarrow> byte list \<Rightarrow> byte list \<Rightarrow> transport_error + cipher_stream" where
  "createStream cr c key iv =
     (if length key < keySize c then Inl KeyTooSmall
      else if length iv < ivSize c then Inl IvTooSmall
      else (case createFunc c of
              None \<Rightarrow> Inl NilTableEntry
            | Some f \<Rightarrow>
                (case f cr (take (keySize c) key) (take (ivSize c) iv) of
                   Inl e \<Rightarrow> Inl e | Inr stream \<Rightarrow> Inr (dump_loop (skip c) stream))))"

text \<open>MACs: a \<^verbatim>\<open>truncatingMAC\<close> keeps the first bytes of the digest.\<close>

definition truncatingMAC :: "nat \<Rightarrow> mac_fun \<Rightarrow> mac_fun" where
  "truncatingMAC n h = (n, \<lambda>x. take n (snd h x))"

record macMode =
  mac_keySize :: nat
  mac_new :: "crypto \<Rightarrow> byte list \<Rightarrow> mac_fun"

definition macModes :: "(byte list \<times> macMode) list" where
  "macModes =
     [(ascii ''hmac-sha2-256'', \<lparr>mac_keySize = 32, mac_new = (\<lambda>cr key. (32, c_hmac_sha256 cr key))\<rparr>),
      (ascii ''hmac-sha1'', \<lparr>mac_keySize = 20, mac_new = (\<lambda>cr key. (20, c_hmac_sha1 cr key))\<rparr>),
      (ascii ''hmac-sha1-96'', \<lparr>mac_keySize = 20, mac_new = (\<lambda>cr key. truncatingMAC 12 (20, c_hmac_sha1 cr key))\<rparr>)]"

section \<open>Key derivation\<close>

record kexResult =
  kex_H :: "byte list"
  kex_K :: "byte list"
  kex_Hash :: "byte list \<Rightarrow> byte list"
  SessionID :: "byte list"

record direction =
  ivTag :: "byte list"
  keyTag :: "byte list"
  macKeyTag :: "byte list"

definition serverKeys :: direction where
  "serverKeys = \<lparr>ivTag = ascii ''B'', keyTag = ascii ''D'', macKeyTag = ascii ''F''\<rparr>"

definition clientKeys :: direction where
  "clientKeys = \<lparr>ivTag = ascii ''A'', keyTag = ascii ''C'', macKeyTag = ascii ''E''\<rparr>"

text \<open>The loop runs until \<open>n\<close> bytes are filled; with a hash of no bytes it would not end.\<close>

partial_function (option) key_material ::
  "kexResult \<Rightarrow> byte list \<Rightarrow> nat \<Rightarrow> byte list \<Rightarrow> byte list option" where
  "key_material r tag n digestsSoFar =
     (if n = 0 then Some []
      else
        (let digest = kex_Hash r (kex_K r @ kex_H r @ (if digestsSoFar = [] then tag @ SessionID r else digestsSoFar));
             got = take n digest;
             n' = n - length got
         in Option.bind (key_material r tag n' (if n' > 0 then digestsSoFar @ digest else digestsSoFar))
              (\<lambda>out. Some (got @ out))))"

definition generateKeyMaterial :: "nat \<Rightarrow> byte list \<Rightarrow> kexResult \<Rightarrow> byte list option" where
  "generateKeyMaterial n tag r = key_material r tag n []"

text \<open>\<^verbatim>\<open>generateKeys\<close>; a name that is not in a table gives a nil pointer.\<close>

definition generateKeys ::
  "direction \<Rightarrow> directionAlgorithms \<Rightarrow> kexResult \<Rightarrow> (transport_error + byte list \<times> byte list \<times> byte list) option" where
  "generateKeys d algs r =
     (case (map_of cipherModes (Cipher algs), map_of macModes (MAC algs)) of
        (Some cm, Some mm) \<Rightarrow>
          Option.bind (generateKeyMaterial (ivSize cm) (ivTag d) r) (\<lambda>iv.
          Option.bind (generateKeyMaterial (keySize cm) (keyTag d) r) (\<lambda>key.
          Option.bind (generateKeyMaterial (mac_keySize mm) (macKeyTag d) r) (\<lambda>macKey.
            Some (Inr (iv, key, macKey)))))
      | _ \<Rightarrow> Some (Inl NilTableEntry))"

section \<open>Packet ciphers\<close>

datatype packetCipher = PcStream streamPacketCipher | PcGcm gcmCipher | PcCbc cbcCipher

definition newGCMCipher :: "crypto \<Rightarrow> byte list \<Rightarrow> byte list \<Rightarrow> transport_error + packetCipher" where
  "newGCMCipher cr iv key =
     (if aes_key key then Inr (PcGcm \<lparr>aead_Seal = c_seal cr key, aead_Open = c_open cr key, gcm_iv = iv\<rparr>)
      else Inl KeySizeError)"

definition newAESCBCCipher :: "crypto \<Rightarrow> byte list \<Rightarrow> byte list \<Rightarrow> mac_fun \<Rightarrow> transport_error + packetCipher" where
  "newAESCBCCipher cr iv key mac =
     (if aes_key key
      then Inr (PcCbc \<lparr>cbc_mac = Some mac, cbc_E = c_aes cr key, cbc_D = c_aes_inv cr key, enc_iv = iv, dec_iv = iv,
                       oracleCamouflage = 0\<rparr>)
      else Inl KeySizeError)"

definition newPacketCipher ::
  "crypto \<Rightarrow> direction \<Rightarrow> directionAlgorithms \<Rightarrow> kexResult \<Rightarrow> (transport_error + packetCipher) option" where
  "newPacketCipher cr d algs r =
     (case generateKeys d algs r of
        None \<Rightarrow> None
      | Some (Inl e) \<Rightarrow> Some (Inl e)
      | Some (Inr (iv, key, macKey)) \<Rightarrow>
          Some
            (let mac = mac_new (the (map_of macModes (MAC algs))) cr macKey
             in if Cipher algs = gcmCipherID then newGCMCipher cr iv key
                else if Cipher algs = aes128cbcID then newAESCBCCipher cr iv key mac
                else (case createStream cr (the (map_of cipherModes (Cipher algs))) key iv of
                        Inl e \<Rightarrow> Inl e
                      | Inr stream \<Rightarrow> Inr (PcStream \<lparr>spc_mac = Some mac, spc_cipher = stream\<rparr>))))"

text \<open>The methods of the interface \<^verbatim>\<open>packetCipher\<close>.\<close>

definition wrap_read :: "('c \<Rightarrow> packetCipher) \<Rightarrow> 'c read_result \<Rightarrow> packetCipher read_result" where
  "wrap_read f x = (case x of (res, r, c) \<Rightarrow> (res, r, f c))"

definition wrap_write :: "('c \<Rightarrow> packetCipher) \<Rightarrow> 'c write_result \<Rightarrow> packetCipher write_result" where
  "wrap_write f x = (case x of (e, w, rand, c) \<Rightarrow> (e, w, rand, f c))"

fun pc_readPacket :: "u32 \<Rightarrow> byte list \<Rightarrow> packetCipher \<Rightarrow> packetCipher read_result" where
  "pc_readPacket seqNum r (PcStream c) = wrap_read PcStream (spc_readPacket seqNum r c)"
| "pc_readPacket seqNum r (PcGcm c) = wrap_read PcGcm (gcm_readPacket seqNum r c)"
| "pc_readPacket seqNum r (PcCbc c) = wrap_read PcCbc (cbc_readPacket seqNum r c)"

fun pc_writePacket :: "u32 \<Rightarrow> out_writer \<Rightarrow> byte list \<Rightarrow> byte list \<Rightarrow> packetCipher \<Rightarrow> packetCipher write_result" where
  "pc_writePacket seqNum w rand packet (PcStream c) = wrap_write PcStream (spc_writePacket seqNum w rand packet c)"
| "pc_writePacket seqNum w rand packet (PcGcm c) = wrap_write PcGcm (gcm_writePacket seqNum w rand packet c)"
| "pc_writePacket seqNum w rand packet (PcCbc c) = wrap_write PcCbc (cbc_writePacket seqNum w rand packet c)"

section \<open>One direction of a connection\<close>

definition msgNewKeys :: byte where
  "msgNewKeys = 21"

record 'c connectionState =
  cs_packetCipher :: 'c
  cs_seqNum :: u32
  cs_dir :: direction
  pendingKeyChange :: "'c option"

definition cs_readPacket ::
  "(u32 \<Rightarrow> byte list \<Rightarrow> 'c \<Rightarrow> 'c read_result) \<Rightarrow> byte list \<Rightarrow> 'c connectionState \<Rightarrow>
   (transport_error + byte list) \<times> byte list \<times> 'c connectionState" where
  "cs_readPacket pc_read r s =
     (case pc_read (cs_seqNum s) r (cs_packetCipher s) of
        (res, r', c) \<Rightarrow>
          (let s1 = s\<lparr>cs_packetCipher := c, cs_seqNum := cs_seqNum s + 1\<rparr>
           in case res of
                Inl e \<Rightarrow> (Inl (CipherFailure e), r', s1)
              | Inr [] \<Rightarrow> (Inl ZeroLengthPacket, r', s1)
              | Inr (b # bs) \<Rightarrow>
                  if b = msgNewKeys then
                    (case pendingKeyChange s of
                       Some c' \<Rightarrow> (Inr (b # bs), r', s1\<lparr>cs_packetCipher := c', pendingKeyChange := None\<rparr>)
                     | None \<Rightarrow> (Inl BogusNewKeys, r', s1))
                  else (Inr (b # bs), r', s1)))"

definition cs_writePacket ::
  "(u32 \<Rightarrow> out_writer \<Rightarrow> byte list \<Rightarrow> byte list \<Rightarrow> 'c \<Rightarrow> 'c write_result) \<Rightarrow> out_writer \<Rightarrow> byte list \<Rightarrow> byte list \<Rightarrow>
   'c connectionState \<Rightarrow> transport_error option \<times> out_writer \<times> byte list \<times> 'c connectionState" where
  "cs_writePacket pc_write w rand packet s =
     (case pc_write (cs_seqNum s) w rand packet (cs_packetCipher s) of
        (e, w', rand', c) \<Rightarrow>
          (let s1 = s\<lparr>cs_packetCipher := c\<rparr>
           in case e of
                Some x \<Rightarrow> (Some (CipherFailure x), w', rand', s1)
              | None \<Rightarrow>
                  if flush_fails w' then (Some (CipherFailure WriteFailed), w', rand', s1)
                  else
                    (let s2 = s1\<lparr>cs_seqNum := cs_seqNum s + 1\<rparr>
                     in if packet \<noteq> [] \<and> hd packet = msgNewKeys then
                          (case pendingKeyChange s of
                             Some c' \<Rightarrow> (None, w', rand', s2\<lparr>cs_packetCipher := c', pendingKeyChange := None\<rparr>)
                           | None \<Rightarrow> (Some NoKeyMaterial, w', rand', s2))
                        else (None, w', rand', s2))))"

section \<open>The transport\<close>

record transport =
  t_reader :: "packetCipher connectionState"
  t_writer :: "packetCipher connectionState"
  sessionID :: "byte list option"

definition plain_cipher :: packetCipher where
  "plain_cipher = PcStream \<lparr>spc_mac = None, spc_cipher = NoneCipher\<rparr>"

definition newTransport :: "bool \<Rightarrow> transport" where
  "newTransport isClient =
     (let cs = (\<lambda>d. \<lparr>cs_packetCipher = plain_cipher, cs_seqNum = 0, cs_dir = d, pendingKeyChange = None\<rparr>)
      in \<lparr>t_reader = cs (if isClient then serverKeys else clientKeys),
          t_writer = cs (if isClient then clientKeys else serverKeys), sessionID = None\<rparr>)"

definition transport_readPacket :: "byte list \<Rightarrow> transport \<Rightarrow> (transport_error + byte list) \<times> byte list \<times> transport" where
  "transport_readPacket r t =
     (case cs_readPacket pc_readPacket r (t_reader t) of (res, r', s) \<Rightarrow> (res, r', t\<lparr>t_reader := s\<rparr>))"

definition transport_writePacket ::
  "out_writer \<Rightarrow> byte list \<Rightarrow> byte list \<Rightarrow> transport \<Rightarrow> transport_error option \<times> out_writer \<times> byte list \<times> transport" where
  "transport_writePacket w rand packet t =
     (case cs_writePacket pc_writePacket w rand packet (t_writer t) of
        (e, w', rand', s) \<Rightarrow> (e, w', rand', t\<lparr>t_writer := s\<rparr>))"

text \<open>
  \<^verbatim>\<open>prepareKeyChange\<close>. A cipher still pending blocks the sender, which with a
  hash of no bytes is the other way not to return.
\<close>

definition put_pending :: "packetCipher \<Rightarrow> packetCipher connectionState \<Rightarrow> packetCipher connectionState option" where
  "put_pending c s = (if pendingKeyChange s = None then Some (s\<lparr>pendingKeyChange := Some c\<rparr>) else None)"

definition prepareKeyChange ::
  "crypto \<Rightarrow> algorithms \<Rightarrow> kexResult \<Rightarrow> transport \<Rightarrow> (transport_error option \<times> transport) option" where
  "prepareKeyChange cr algs r t =
     (let sid = (case sessionID t of None \<Rightarrow> kex_H r | Some s \<Rightarrow> s);
          t0 = t\<lparr>sessionID := Some sid\<rparr>;
          r' = r\<lparr>SessionID := sid\<rparr>
      in Option.bind (newPacketCipher cr (cs_dir (t_reader t)) (alg_r algs) r') (\<lambda>x.
           case x of
             Inl e \<Rightarrow> Some (Some e, t0)
           | Inr c \<Rightarrow>
               Option.bind (put_pending c (t_reader t)) (\<lambda>rd.
                 let t1 = t0\<lparr>t_reader := rd\<rparr>
                 in Option.bind (newPacketCipher cr (cs_dir (t_writer t)) (alg_w algs) r') (\<lambda>y.
                      case y of
                        Inl e \<Rightarrow> Some (Some e, t1)
                      | Inr c' \<Rightarrow>
                          Option.bind (put_pending c' (t_writer t)) (\<lambda>wr. Some (None, t1\<lparr>t_writer := wr\<rparr>))))))"

section \<open>Version lines\<close>

definition maxVersionStringBytes :: nat where
  "maxVersionStringBytes = 255"

datatype version_error = VersionRead cipher_error | VersionOverflow | JunkCharacter | VersionWrite

text \<open>\<open>k\<close> bytes may still be added to the version string.\<close>

fun readVersion_loop :: "nat \<Rightarrow> byte list \<Rightarrow> byte list \<Rightarrow> (version_error + byte list) \<times> byte list" where
  "readVersion_loop 0 acc r = (Inl VersionOverflow, r)"
| "readVersion_loop (Suc k) acc [] = (Inl (VersionRead EOF), [])"
| "readVersion_loop (Suc k) acc (b # r) =
     (if b = 10 then (Inr acc, r) else readVersion_loop k (acc @ [b]) r)"

definition readVersion :: "byte list \<Rightarrow> (version_error + byte list) \<times> byte list" where
  "readVersion r =
     (case readVersion_loop maxVersionStringBytes [] r of
        (Inr v, r') \<Rightarrow> (Inr (if v \<noteq> [] \<and> last v = 13 then butlast v else v), r')
      | (Inl e, r') \<Rightarrow> (Inl e, r'))"

definition exchangeVersions ::
  "byte list \<Rightarrow> out_writer \<Rightarrow> byte list \<Rightarrow> (version_error + byte list) \<times> out_writer \<times> byte list" where
  "exchangeVersions r w versionLine =
     (if list_ex (\<lambda>c. c < 32) versionLine then (Inl JunkCharacter, w, r)
      else (case w_Write (versionLine @ [13, 10]) w of
              (Some e, w') \<Rightarrow> (Inl VersionWrite, w', r)
            | (None, w') \<Rightarrow> (case readVersion r of (res, r') \<Rightarrow> (res, w', r'))))"

end
