(* ===== verification/Ssh_Kex.thy ===== *)
theory Ssh_Kex
  imports Ssh_Keys_Wire Ssh_Transport
begin

text \<open>
  The key exchange methods of \<^verbatim>\<open>src/golang.org/x/crypto/ssh/kex.go\<close>: Diffie-Hellman in the two fixed groups, over
  the NIST curves and over Curve25519. A connection is a state with a reading and a writing function. The curves and
  the hashes are parameters, the integers of \<^verbatim>\<open>math/big\<close> are integers. What was drawn at random is a record, so
  that a run is a function.
\<close>

section \<open>Connections, randomness and signers\<close>

record 'c packetConn =
  conn_read :: "'c \<Rightarrow> (ssh_error + byte list) \<times> 'c"
  conn_write :: "byte list \<Rightarrow> 'c \<Rightarrow> ssh_error option \<times> 'c"

record kex_crypto = key_crypto +
  ec_P :: "ec_curve \<Rightarrow> int"
  ec_IsOnCurve :: "ec_curve \<Rightarrow> int \<Rightarrow> int \<Rightarrow> bool"
  ec_ScalarMult :: "ec_curve \<Rightarrow> int \<Rightarrow> int \<Rightarrow> byte list \<Rightarrow> int \<times> int"
  x25519_base :: "byte list \<Rightarrow> byte list"
  x25519 :: "byte list \<Rightarrow> byte list \<Rightarrow> byte list"

text \<open>\<^verbatim>\<open>rand.Int\<close> below a bound, \<^verbatim>\<open>ecdsa.GenerateKey\<close> and 32 bytes of \<^verbatim>\<open>io.ReadFull\<close>.\<close>

record kex_rand =
  rand_Int :: "int \<Rightarrow> ssh_error + int"
  ecdsa_GenerateKey :: "ec_curve \<Rightarrow> ssh_error + int \<times> int \<times> int"
  rand_32 :: "ssh_error + byte list"

record host_signer =
  PublicKey :: public_key
  host_Sign :: "byte list \<Rightarrow> ssh_error + signature"

definition signAndMarshal :: "host_signer \<Rightarrow> byte list \<Rightarrow> ssh_error + byte list" where
  "signAndMarshal k data = (case host_Sign k data of Inl e \<Rightarrow> Inl e | Inr sig \<Rightarrow> Inr (marshal_Signature sig))"

record kexOutcome = kexResult +
  kr_HostKey :: "byte list"
  kr_Signature :: "byte list"

record handshakeMagics =
  hm_clientVersion :: "byte list"
  hm_serverVersion :: "byte list"
  hm_clientKexInit :: "byte list"
  hm_serverKexInit :: "byte list"

definition magics_write :: "handshakeMagics \<Rightarrow> byte list" where
  "magics_write m =
     writeString (hm_clientVersion m) @ writeString (hm_serverVersion m) @ writeString (hm_clientKexInit m)
     @ writeString (hm_serverKexInit m)"

text \<open>\<^verbatim>\<open>writeInt\<close> and \<^verbatim>\<open>Marshal\<close> have a result for every argument.\<close>

definition int_bytes :: "int \<Rightarrow> byte list" where
  "int_bytes n = the (writeInt n)"

definition msg_bytes :: "message \<Rightarrow> byte list" where
  "msg_bytes m = the (marshal_msg m)"

type_synonym 'c kex_run = "'c \<Rightarrow> (ssh_error + kexOutcome) \<times> 'c"

section \<open>Diffie-Hellman in a group modulo a prime\<close>

record dhGroup =
  dh_g :: int
  dh_p :: int

definition big_Exp :: "int \<Rightarrow> int \<Rightarrow> int \<Rightarrow> int" where
  "big_Exp x y m = (if y \<le> 0 then 1 else x ^ nat y mod m)"

definition diffieHellman :: "dhGroup \<Rightarrow> int \<Rightarrow> int \<Rightarrow> ssh_error + int" where
  "diffieHellman grp theirPublic myPrivate =
     (if theirPublic \<le> 0 \<or> theirPublic \<ge> dh_p grp then Inl (bad_key ''DH parameter out of bounds'')
      else Inr (big_Exp theirPublic myPrivate (dh_p grp)))"

definition dh_Client :: "kex_crypto \<Rightarrow> dhGroup \<Rightarrow> 'c packetConn \<Rightarrow> kex_rand \<Rightarrow> handshakeMagics \<Rightarrow> 'c kex_run" where
  "dh_Client cr grp io rand magics c =
     (case rand_Int rand (dh_p grp) of
        Inl err \<Rightarrow> (Inl err, c)
      | Inr x \<Rightarrow>
          (let X = big_Exp (dh_g grp) x (dh_p grp)
           in case conn_write io (msg_bytes (KexDHInitMsg X)) c of
                (Some err, c1) \<Rightarrow> (Inl err, c1)
              | (None, c1) \<Rightarrow>
                  (case conn_read io c1 of
                     (Inl err, c2) \<Rightarrow> (Inl err, c2)
                   | (Inr packet, c2) \<Rightarrow>
                       (case unmarshal_msg packet N_kexDHReplyMsg of
                          Inr (KexDHReplyMsg hkey Y sig) \<Rightarrow>
                            (case diffieHellman grp Y x of
                               Inl err \<Rightarrow> (Inl err, c2)
                             | Inr kInt \<Rightarrow>
                                 (let K = int_bytes kInt;
                                      H = k_sha1 cr (magics_write magics @ writeString hkey @ int_bytes X @ int_bytes Y @ K)
                                  in (Inr \<lparr>kex_H = H, kex_K = K, kex_Hash = k_sha1 cr, SessionID = [], kr_HostKey = hkey,
                                           kr_Signature = sig\<rparr>, c2)))
                        | Inl err \<Rightarrow> (Inl err, c2)
                        | Inr _ \<Rightarrow> (Inl index_panic, c2)))))"

text \<open>The error of writing the reply is dropped. A host key whose type has no name panics.\<close>

definition dh_Server :: "kex_crypto \<Rightarrow> dhGroup \<Rightarrow> 'c packetConn \<Rightarrow> kex_rand \<Rightarrow> handshakeMagics \<Rightarrow> host_signer \<Rightarrow> 'c kex_run" where
  "dh_Server cr grp io rand magics priv c =
     (case conn_read io c of
        (Inl err, c1) \<Rightarrow> (Inl err, c1)
      | (Inr packet, c1) \<Rightarrow>
          (case unmarshal_msg packet N_kexDHInitMsg of
             Inr (KexDHInitMsg X) \<Rightarrow>
               (case rand_Int rand (dh_p grp) of
                  Inl err \<Rightarrow> (Inl err, c1)
                | Inr y \<Rightarrow>
                    (let Y = big_Exp (dh_g grp) y (dh_p grp)
                     in case diffieHellman grp X y of
                          Inl err \<Rightarrow> (Inl err, c1)
                        | Inr kInt \<Rightarrow>
                            (case key_Marshal (key_crypto.truncate cr) (PublicKey priv) of
                               None \<Rightarrow> (Inl index_panic, c1)
                             | Some hostKeyBytes \<Rightarrow>
                                 (let K = int_bytes kInt;
                                      H = k_sha1 cr (magics_write magics @ writeString hostKeyBytes @ int_bytes X @ int_bytes Y @ K)
                                  in case signAndMarshal priv H of
                                       Inl err \<Rightarrow> (Inl err, c1)
                                     | Inr sig \<Rightarrow>
                                         (let (_, c2) = conn_write io (msg_bytes (KexDHReplyMsg hostKeyBytes Y sig)) c1
                                          in (Inr \<lparr>kex_H = H, kex_K = K, kex_Hash = k_sha1 cr, SessionID = [],
                                                   kr_HostKey = hostKeyBytes, kr_Signature = sig\<rparr>, c2))))))
           | Inl err \<Rightarrow> (Inl err, c1)
           | Inr _ \<Rightarrow> (Inl index_panic, c1)))"

section \<open>Diffie-Hellman over a NIST curve\<close>

definition validateECPublicKey :: "kex_crypto \<Rightarrow> ec_curve \<Rightarrow> int \<Rightarrow> int \<Rightarrow> bool" where
  "validateECPublicKey cr curve x y =
     (if x = 0 \<and> y = 0 then False
      else if x \<ge> ec_P cr curve then False
      else if y \<ge> ec_P cr curve then False
      else ec_IsOnCurve cr curve x y)"

definition unmarshalECKey :: "kex_crypto \<Rightarrow> ec_curve \<Rightarrow> byte list \<Rightarrow> ssh_error + int \<times> int" where
  "unmarshalECKey cr curve pubkey =
     (case ec_Unmarshal cr curve pubkey of
        None \<Rightarrow> Inl (bad_key ''elliptic.Unmarshal failure'')
      | Some (x, y) \<Rightarrow> if validateECPublicKey cr curve x y then Inr (x, y) else Inl (bad_key ''public key not on curve''))"

definition big_Bytes :: "int \<Rightarrow> byte list" where
  "big_Bytes n = bigBytes (nat \<bar>n\<bar>)"

definition ecdh_Client :: "kex_crypto \<Rightarrow> ec_curve \<Rightarrow> 'c packetConn \<Rightarrow> kex_rand \<Rightarrow> handshakeMagics \<Rightarrow> 'c kex_run" where
  "ecdh_Client cr curve io rand magics c =
     (case ecdsa_GenerateKey rand curve of
        Inl err \<Rightarrow> (Inl err, c)
      | Inr (D, pubX, pubY) \<Rightarrow>
          (let clientPubKey = ec_Marshal cr curve pubX pubY
           in case conn_write io (msg_bytes (KexECDHInitMsg clientPubKey)) c of
                (Some err, c1) \<Rightarrow> (Inl err, c1)
              | (None, c1) \<Rightarrow>
                  (case conn_read io c1 of
                     (Inl err, c2) \<Rightarrow> (Inl err, c2)
                   | (Inr packet, c2) \<Rightarrow>
                       (case unmarshal_msg packet N_kexECDHReplyMsg of
                          Inr (KexECDHReplyMsg hkey ephemeral sig) \<Rightarrow>
                            (case unmarshalECKey cr curve ephemeral of
                               Inl err \<Rightarrow> (Inl err, c2)
                             | Inr (x, y) \<Rightarrow>
                                 (let secret = fst (ec_ScalarMult cr curve x y (big_Bytes D));
                                      K = int_bytes secret;
                                      H = ecHash (key_crypto.truncate cr) curve
                                            (magics_write magics @ writeString hkey @ writeString clientPubKey @ writeString ephemeral @ K)
                                  in (Inr \<lparr>kex_H = H, kex_K = K, kex_Hash = ecHash (key_crypto.truncate cr) curve, SessionID = [],
                                           kr_HostKey = hkey, kr_Signature = sig\<rparr>, c2)))
                        | Inl err \<Rightarrow> (Inl err, c2)
                        | Inr _ \<Rightarrow> (Inl index_panic, c2)))))"

definition ecdh_Server :: "kex_crypto \<Rightarrow> ec_curve \<Rightarrow> 'c packetConn \<Rightarrow> kex_rand \<Rightarrow> handshakeMagics \<Rightarrow> host_signer \<Rightarrow> 'c kex_run" where
  "ecdh_Server cr curve io rand magics priv c =
     (case conn_read io c of
        (Inl err, c1) \<Rightarrow> (Inl err, c1)
      | (Inr packet, c1) \<Rightarrow>
          (case unmarshal_msg packet N_kexECDHInitMsg of
             Inr (KexECDHInitMsg clientPubKey) \<Rightarrow>
               (case unmarshalECKey cr curve clientPubKey of
                  Inl err \<Rightarrow> (Inl err, c1)
                | Inr (clientX, clientY) \<Rightarrow>
                    (case ecdsa_GenerateKey rand curve of
                       Inl err \<Rightarrow> (Inl err, c1)
                     | Inr (D, pubX, pubY) \<Rightarrow>
                         (case key_Marshal (key_crypto.truncate cr) (PublicKey priv) of
                            None \<Rightarrow> (Inl index_panic, c1)
                          | Some hostKeyBytes \<Rightarrow>
                              (let serializedEphKey = ec_Marshal cr curve pubX pubY;
                                   secret = fst (ec_ScalarMult cr curve clientX clientY (big_Bytes D));
                                   K = int_bytes secret;
                                   H = ecHash (key_crypto.truncate cr) curve
                                         (magics_write magics @ writeString hostKeyBytes @ writeString clientPubKey
                                          @ writeString serializedEphKey @ K)
                               in case signAndMarshal priv H of
                                    Inl err \<Rightarrow> (Inl err, c1)
                                  | Inr sig \<Rightarrow>
                                      (case conn_write io (msg_bytes (KexECDHReplyMsg hostKeyBytes serializedEphKey sig)) c1 of
                                         (Some err, c2) \<Rightarrow> (Inl err, c2)
                                       | (None, c2) \<Rightarrow>
                                           (Inr \<lparr>kex_H = H, kex_K = K, kex_Hash = ecHash (key_crypto.truncate cr) curve, SessionID = [],
                                                 kr_HostKey = hostKeyBytes, kr_Signature = sig\<rparr>, c2))))))
           | Inl err \<Rightarrow> (Inl err, c1)
           | Inr _ \<Rightarrow> (Inl index_panic, c1)))"

section \<open>Diffie-Hellman over Curve25519\<close>

definition curve25519Zeros :: "byte list" where
  "curve25519Zeros = replicate 32 0"

text \<open>\<^verbatim>\<open>generate\<close>: the private and the public part.\<close>

definition kp_generate :: "kex_crypto \<Rightarrow> kex_rand \<Rightarrow> ssh_error + byte list \<times> byte list" where
  "kp_generate cr rand = (case rand_32 rand of Inl e \<Rightarrow> Inl e | Inr priv \<Rightarrow> Inr (priv, x25519_base cr priv))"

definition wrong_length :: ssh_error where
  "wrong_length = bad_key ''peer's curve25519 public value has wrong length''"

definition wrong_order :: ssh_error where
  "wrong_order = bad_key ''peer's curve25519 public value has wrong order''"

definition c25519_Client :: "kex_crypto \<Rightarrow> 'c packetConn \<Rightarrow> kex_rand \<Rightarrow> handshakeMagics \<Rightarrow> 'c kex_run" where
  "c25519_Client cr io rand magics c =
     (case kp_generate cr rand of
        Inl err \<Rightarrow> (Inl err, c)
      | Inr (priv, pub) \<Rightarrow>
          (case conn_write io (msg_bytes (KexECDHInitMsg pub)) c of
             (Some err, c1) \<Rightarrow> (Inl err, c1)
           | (None, c1) \<Rightarrow>
               (case conn_read io c1 of
                  (Inl err, c2) \<Rightarrow> (Inl err, c2)
                | (Inr packet, c2) \<Rightarrow>
                    (case unmarshal_msg packet N_kexECDHReplyMsg of
                       Inr (KexECDHReplyMsg hkey ephemeral sig) \<Rightarrow>
                         if length ephemeral \<noteq> 32 then (Inl wrong_length, c2)
                         else (let secret = x25519 cr priv ephemeral
                               in if secret = curve25519Zeros then (Inl wrong_order, c2)
                                  else (let K = int_bytes (int (bigSetBytes secret));
                                            H = k_sha256 cr (magics_write magics @ writeString hkey @ writeString pub @ writeString ephemeral @ K)
                                        in (Inr \<lparr>kex_H = H, kex_K = K, kex_Hash = k_sha256 cr, SessionID = [], kr_HostKey = hkey,
                                                 kr_Signature = sig\<rparr>, c2)))
                     | Inl err \<Rightarrow> (Inl err, c2)
                     | Inr _ \<Rightarrow> (Inl index_panic, c2)))))"

definition c25519_Server :: "kex_crypto \<Rightarrow> 'c packetConn \<Rightarrow> kex_rand \<Rightarrow> handshakeMagics \<Rightarrow> host_signer \<Rightarrow> 'c kex_run" where
  "c25519_Server cr io rand magics signer0 c =
     (case conn_read io c of
        (Inl err, c1) \<Rightarrow> (Inl err, c1)
      | (Inr packet, c1) \<Rightarrow>
          (case unmarshal_msg packet N_kexECDHInitMsg of
             Inr (KexECDHInitMsg clientPubKey) \<Rightarrow>
               if length clientPubKey \<noteq> 32 then (Inl wrong_length, c1)
               else (case kp_generate cr rand of
                       Inl err \<Rightarrow> (Inl err, c1)
                     | Inr (priv, pub) \<Rightarrow>
                         (let secret = x25519 cr priv clientPubKey
                          in if secret = curve25519Zeros then (Inl wrong_order, c1)
                             else (case key_Marshal (key_crypto.truncate cr) (PublicKey signer0) of
                                     None \<Rightarrow> (Inl index_panic, c1)
                                   | Some hostKeyBytes \<Rightarrow>
                                       (let K = int_bytes (int (bigSetBytes secret));
                                            H = k_sha256 cr (magics_write magics @ writeString hostKeyBytes @ writeString clientPubKey
                                                  @ writeString pub @ K)
                                        in case signAndMarshal signer0 H of
                                             Inl err \<Rightarrow> (Inl err, c1)
                                           | Inr sig \<Rightarrow>
                                               (case conn_write io (msg_bytes (KexECDHReplyMsg hostKeyBytes pub sig)) c1 of
                                                  (Some err, c2) \<Rightarrow> (Inl err, c2)
                                                | (None, c2) \<Rightarrow>
                                                    (Inr \<lparr>kex_H = H, kex_K = K, kex_Hash = k_sha256 cr, SessionID = [],
                                                          kr_HostKey = hostKeyBytes, kr_Signature = sig\<rparr>, c2))))))
           | Inl err \<Rightarrow> (Inl err, c1)
           | Inr _ \<Rightarrow> (Inl index_panic, c1)))"

section \<open>The table of methods\<close>

datatype kexAlgorithm = DhGroup dhGroup | Ecdh ec_curve | Curve25519Sha256

fun kex_Client :: "kex_crypto \<Rightarrow> kexAlgorithm \<Rightarrow> 'c packetConn \<Rightarrow> kex_rand \<Rightarrow> handshakeMagics \<Rightarrow> 'c kex_run" where
  "kex_Client cr (DhGroup g) = dh_Client cr g"
| "kex_Client cr (Ecdh curve) = ecdh_Client cr curve"
| "kex_Client cr Curve25519Sha256 = c25519_Client cr"

fun kex_Server :: "kex_crypto \<Rightarrow> kexAlgorithm \<Rightarrow> 'c packetConn \<Rightarrow> kex_rand \<Rightarrow> handshakeMagics \<Rightarrow> host_signer \<Rightarrow> 'c kex_run" where
  "kex_Server cr (DhGroup g) = dh_Server cr g"
| "kex_Server cr (Ecdh curve) = ecdh_Server cr curve"
| "kex_Server cr Curve25519Sha256 = c25519_Server cr"

definition group1_p :: int where
  "group1_p = 0xFFFFFFFFFFFFFFFFC90FDAA22168C234C4C6628B80DC1CD129024E088A67CC74020BBEA63B139B22514A08798E3404DDEF9519B3CD3A431B302B0A6DF25F14374FE1356D6D51C245E485B576625E7EC6F44C42E9A637ED6B0BFF5CB6F406B7EDEE386BFB5A899FA5AE9F24117C4B1FE649286651ECE65381FFFFFFFFFFFFFFFF"

definition group14_p :: int where
  "group14_p = 0xFFFFFFFFFFFFFFFFC90FDAA22168C234C4C6628B80DC1CD129024E088A67CC74020BBEA63B139B22514A08798E3404DDEF9519B3CD3A431B302B0A6DF25F14374FE1356D6D51C245E485B576625E7EC6F44C42E9A637ED6B0BFF5CB6F406B7EDEE386BFB5A899FA5AE9F24117C4B1FE649286651ECE45B3DC2007CB8A163BF0598DA48361C55D39A69163FA8FD24CF5F83655D23DCA3AD961C62F356208552BB9ED529077096966D670C354E4ABC9804F1746C08CA18217C32905E462E36CE3BE39E772C180E86039B2783A2EC07A28FB5C55DF06F4C52C9DE2BCBF6955817183995497CEA956AE515D2261898FA051015728E5A8AACAA68FFFFFFFFFFFFFFFF"

definition kexAlgoMap :: "(byte list \<times> kexAlgorithm) list" where
  "kexAlgoMap =
     [(ascii ''diffie-hellman-group1-sha1'', DhGroup \<lparr>dh_g = 2, dh_p = group1_p\<rparr>),
      (ascii ''diffie-hellman-group14-sha1'', DhGroup \<lparr>dh_g = 2, dh_p = group14_p\<rparr>),
      (ascii ''ecdh-sha2-nistp521'', Ecdh P521), (ascii ''ecdh-sha2-nistp384'', Ecdh P384),
      (ascii ''ecdh-sha2-nistp256'', Ecdh P256), (ascii ''curve25519-sha256@libssh.org'', Curve25519Sha256)]"

end
