(* ===== verification/Ssh_Kex_Agree.thy ===== *)
theory Ssh_Kex_Agree
  imports Ssh_Kex
begin

text \<open>
  Both sides of a key exchange compute the same hash and the same secret, and the client accepts the host key and the
  signature the server sends. The contract of the interface \<^verbatim>\<open>kexAlgorithm\<close> is a locale with an interpretation
  for every method.
\<close>

section \<open>A run of both sides\<close>

text \<open>A connection of which the packets that arrive are known, and the packets sent are kept.\<close>

record script =
  inbox :: "byte list list"
  outbox :: "byte list list"

definition script_conn :: "script packetConn" where
  "script_conn =
     \<lparr>conn_read = (\<lambda>s. case inbox s of [] \<Rightarrow> (Inl ssh_error.EOF, s) | p # r \<Rightarrow> (Inr p, s\<lparr>inbox := r\<rparr>)),
      conn_write = (\<lambda>p s. (None, s\<lparr>outbox := outbox s @ [p]\<rparr>))\<rparr>"

lemma script_conn_read [simp]:
  "conn_read script_conn \<lparr>inbox = [], outbox = ws\<rparr> = (Inl ssh_error.EOF, \<lparr>inbox = [], outbox = ws\<rparr>)"
  "conn_read script_conn \<lparr>inbox = p # ps, outbox = ws\<rparr> = (Inr p, \<lparr>inbox = ps, outbox = ws\<rparr>)"
  by (simp_all add: script_conn_def)

lemma script_conn_write [simp]:
  "conn_write script_conn p \<lparr>inbox = ps, outbox = ws\<rparr> = (None, \<lparr>inbox = ps, outbox = ws @ [p]\<rparr>)"
  by (simp add: script_conn_def)

text \<open>The client sends first; the server answers what it sent; the client reads the answer.\<close>

definition kex_exchange :: "script kex_run \<Rightarrow> script kex_run \<Rightarrow> (ssh_error + kexOutcome) \<times> (ssh_error + kexOutcome)" where
  "kex_exchange client server =
     (let (_, c0) = client \<lparr>inbox = [], outbox = []\<rparr>;
          (rs, s1) = server \<lparr>inbox = outbox c0, outbox = []\<rparr>;
          (rc, c1) = client \<lparr>inbox = outbox s1, outbox = []\<rparr>
      in (rc, rs))"

definition verifyHostKeySignature :: "key_crypto \<Rightarrow> public_key \<Rightarrow> kexOutcome \<Rightarrow> ssh_error option" where
  "verifyHostKeySignature cr hkey result =
     (case parseSignatureBody (kr_Signature result) of
        Some (sig, []) \<Rightarrow> key_Verify cr hkey (kex_H result) sig
      | _ \<Rightarrow> Some (bad_key ''signature parse error''))"

section \<open>The contract\<close>

definition host_ok :: "key_crypto \<Rightarrow> host_signer \<Rightarrow> bool" where
  "host_ok cr sg \<longleftrightarrow>
     wf_key cr (PublicKey sg) \<and> (\<exists>b. key_Marshal cr (PublicKey sg) = Some b \<and> length b < 2 ^ 15)
     \<and> (\<forall>H. \<exists>sig. host_Sign sg H = Inr sig \<and> length (marshal_Signature sig) < 2 ^ 15 \<and> key_Verify cr (PublicKey sg) H sig = None)"

lemma host_ok_sign:
  assumes "host_ok cr sg"
  shows "\<exists>sig. host_Sign sg H = Inr sig \<and> length (marshal_Signature sig) < 2 ^ 15 \<and> key_Verify cr (PublicKey sg) H sig = None"
  using assms unfolding host_ok_def by blast

text \<open>
  The client sends \<open>init\<close> and then reads; when it reads \<open>reply\<close>, which the server answers to \<open>init\<close>, both have the same result, with the
  key and a signature of the server over the hash.
\<close>

definition client_talks :: "('c packetConn \<Rightarrow> 'c kex_run) \<Rightarrow> byte list \<Rightarrow> byte list \<Rightarrow> kexOutcome \<Rightarrow> bool" where
  "client_talks client init reply r \<longleftrightarrow>
     (\<forall>io c c1. conn_write io init c = (None, c1) \<longrightarrow>
        (\<forall>c2. conn_read io c1 = (Inr reply, c2) \<longrightarrow> client io c = (Inr r, c2))
        \<and> (\<forall>e c2. conn_read io c1 = (Inl e, c2) \<longrightarrow> client io c = (Inl e, c2)))"

definition server_talks :: "('c packetConn \<Rightarrow> 'c kex_run) \<Rightarrow> byte list \<Rightarrow> byte list \<Rightarrow> kexOutcome \<Rightarrow> bool" where
  "server_talks server init reply r \<longleftrightarrow>
     (\<forall>io c c1 c2. conn_read io c = (Inr init, c1) \<longrightarrow> conn_write io reply c1 = (None, c2) \<longrightarrow> server io c = (Inr r, c2))"

definition agreed_result :: "key_crypto \<Rightarrow> host_signer \<Rightarrow> kexOutcome \<Rightarrow> bool" where
  "agreed_result cr sg r \<longleftrightarrow>
     key_Marshal cr (PublicKey sg) = Some (kr_HostKey r) \<and> signAndMarshal sg (kex_H r) = Inr (kr_Signature r)
     \<and> kex_Hash r \<in> {k_sha1 cr, k_sha256 cr, k_sha384 cr, k_sha512 cr}"

text \<open>Both packets fit into one packet of the transport.\<close>

definition kex_msgs :: "byte list \<Rightarrow> byte list \<Rightarrow> bool" where
  "kex_msgs init reply \<longleftrightarrow> (\<exists>is. init = 30 # is) \<and> (\<exists>rs. reply = 31 # rs) \<and> length init < 2 ^ 17 \<and> length reply < 2 ^ 17"

locale kex_method =
  fixes cr :: key_crypto
    and client :: "'c packetConn \<Rightarrow> kex_rand \<Rightarrow> handshakeMagics \<Rightarrow> 'c kex_run"
    and server :: "'c packetConn \<Rightarrow> kex_rand \<Rightarrow> handshakeMagics \<Rightarrow> host_signer \<Rightarrow> 'c kex_run"
    and drawn :: "kex_rand \<Rightarrow> bool"
  assumes agree: "drawn a \<Longrightarrow> drawn b \<Longrightarrow> host_ok cr sg \<Longrightarrow>
    \<exists>init reply r. client_talks (\<lambda>io. client io a m) init reply r \<and> server_talks (\<lambda>io. server io b m sg) init reply r
      \<and> kex_msgs init reply \<and> agreed_result cr sg r"
begin

lemma verified:
  assumes "drawn a" and "drawn b" and "host_ok cr sg"
  shows "\<exists>init reply r. client_talks (\<lambda>io. client io a m) init reply r \<and> server_talks (\<lambda>io. server io b m sg) init reply r
    \<and> kex_msgs init reply \<and> kex_Hash r \<in> {k_sha1 cr, k_sha256 cr, k_sha384 cr, k_sha512 cr}
    \<and> ParsePublicKey cr (kr_HostKey r) = Inr (PublicKey sg) \<and> verifyHostKeySignature cr (PublicKey sg) r = None"
proof -
  obtain init reply r where r: "client_talks (\<lambda>io. client io a m) init reply r" "server_talks (\<lambda>io. server io b m sg) init reply r"
    "key_Marshal cr (PublicKey sg) = Some (kr_HostKey r)" "signAndMarshal sg (kex_H r) = Inr (kr_Signature r)"
    "kex_msgs init reply" "kex_Hash r \<in> {k_sha1 cr, k_sha256 cr, k_sha384 cr, k_sha512 cr}"
    using agree [OF assms] unfolding agreed_result_def by blast
  obtain sig where sig: "host_Sign sg (kex_H r) = Inr sig" "length (marshal_Signature sig) < 2 ^ 15" "key_Verify cr (PublicKey sg) (kex_H r) sig = None"
    using host_ok_sign [OF assms(3)] by metis
  then have "kr_Signature r = marshal_Signature sig" using r(4) by (simp add: signAndMarshal_def)
  then have "verifyHostKeySignature cr (PublicKey sg) r = None"
    using sig parseSignatureBody_marshal [of sig] by (simp add: verifyHostKeySignature_def)
  moreover have "ParsePublicKey cr (kr_HostKey r) = Inr (PublicKey sg)"
    using ParsePublicKey_Marshal [OF _ r(3)] assms(3) r(3) by (auto simp: host_ok_def)
  ultimately show ?thesis using r(1,2,5,6) by blast
qed

end

lemma kex_exchange_talks:
  assumes "client_talks client init reply r" and "server_talks server init reply r"
  shows "kex_exchange (client script_conn) (server script_conn) = (Inr r, Inr r)"
proof -
  have "client script_conn \<lparr>inbox = [], outbox = []\<rparr> = (Inl ssh_error.EOF, \<lparr>inbox = [], outbox = [init]\<rparr>)"
    using assms(1) unfolding client_talks_def by (metis append_Nil script_conn_read(1) script_conn_write)
  moreover have "server script_conn \<lparr>inbox = [init], outbox = []\<rparr> = (Inr r, \<lparr>inbox = [], outbox = [reply]\<rparr>)"
    using assms(2) unfolding server_talks_def by (metis append_Nil script_conn_read(2) script_conn_write)
  moreover have "client script_conn \<lparr>inbox = [reply], outbox = []\<rparr> = (Inr r, \<lparr>inbox = [], outbox = [init]\<rparr>)"
    using assms(1) unfolding client_talks_def by (metis append_Nil script_conn_read(2) script_conn_write)
  ultimately show ?thesis by (simp add: kex_exchange_def)
qed

section \<open>Messages arrive as they were sent\<close>

lemma msg_bytes_eq: "msg_bytes m = msg_tag m # concat (map field_bytes (fields_of m))"
  by (simp add: msg_bytes_def marshal_msg_bytes)

lemma unmarshal_msg_bytes: "wf_msg m \<Longrightarrow> length (msg_bytes m) < 2 ^ 32 \<Longrightarrow> unmarshal_msg (msg_bytes m) (name_of m) = Inr m"
  using unmarshal_marshal_msg [of m "msg_bytes m"] by (simp add: msg_bytes_def marshal_msg_bytes)

lemmas unmarshal_kex =
  unmarshal_msg_bytes [of "KexDHInitMsg X" for X, simplified]
  unmarshal_msg_bytes [of "KexDHReplyMsg k Y s" for k Y s, simplified]
  unmarshal_msg_bytes [of "KexECDHInitMsg q" for q, simplified]
  unmarshal_msg_bytes [of "KexECDHReplyMsg k q s" for k q s, simplified]

lemma wf_kex: "wf_msg (KexDHInitMsg X)" "wf_msg (KexDHReplyMsg k Y s)" "wf_msg (KexECDHInitMsg q)" "wf_msg (KexECDHReplyMsg k q s)"
  by (simp_all add: wf_msg_def)

lemma bigBitLen_le: "n < 2 ^ k \<Longrightarrow> bigBitLen n \<le> k"
proof (rule ccontr)
  assume a: "n < 2 ^ k" "\<not> bigBitLen n \<le> k"
  then have "0 < n" by (cases n) auto
  then have "2 ^ (bigBitLen n - 1) \<le> n" using bigBitLen_bounds by blast
  moreover have "(2::nat) ^ k \<le> 2 ^ (bigBitLen n - 1)" using a(2) by (intro power_increasing) auto
  ultimately show False using a(1) by linarith
qed

lemma mpint_contents_length: "0 \<le> n \<Longrightarrow> n < 2 ^ k \<Longrightarrow> length (mpint_contents n) \<le> k + 9"
proof -
  assume "0 \<le> n" "n < 2 ^ k"
  then have "nat n < 2 ^ k" by (simp add: nat_less_iff)
  then have "bigBitLen (nat n) \<le> k" by (rule bigBitLen_le)
  then show ?thesis using \<open>0 \<le> n\<close> length_mpint_contents [of n] by (auto simp: intLength_def Let_def split: if_splits)
qed

section \<open>Groups modulo a prime\<close>

definition group_ok :: "dhGroup \<Rightarrow> bool" where
  "group_ok g \<longleftrightarrow> 1 < dh_p g \<and> dh_p g < 2 ^ 4096 \<and> coprime (dh_g g) (dh_p g)"

text \<open>\<^verbatim>\<open>rand.Int\<close> draws a number from 0 up to the bound.\<close>

definition dh_drawn :: "dhGroup \<Rightarrow> kex_rand \<Rightarrow> bool" where
  "dh_drawn g rand \<longleftrightarrow> (\<exists>x. rand_Int rand (dh_p g) = Inr x \<and> 0 \<le> x \<and> x < dh_p g)"

lemma group_okD: "group_ok g \<Longrightarrow> 1 < dh_p g" "group_ok g \<Longrightarrow> coprime (dh_g g) (dh_p g)"
  unfolding group_ok_def by blast+

lemma big_Exp_mod: "1 < p \<Longrightarrow> 0 \<le> y \<Longrightarrow> big_Exp x y p = x ^ nat y mod p"
  by (auto simp: big_Exp_def)

lemma big_Exp_range:
  assumes "group_ok g" and "0 \<le> y"
  shows "0 < big_Exp (dh_g g) y (dh_p g)" "big_Exp (dh_g g) y (dh_p g) < dh_p g"
proof -
  note p = group_okD [OF assms(1)]
  then have "coprime (dh_p g) (dh_g g ^ nat y)" by (simp add: coprime_commute)
  then have "\<not> dh_p g dvd dh_g g ^ nat y" using p(1) coprime_absorb_left [of "dh_p g" "dh_g g ^ nat y"] by auto
  then show "0 < big_Exp (dh_g g) y (dh_p g)" "big_Exp (dh_g g) y (dh_p g) < dh_p g"
    using p(1) assms(2) by (simp_all add: big_Exp_mod dvd_eq_mod_eq_0 order_le_neq_trans)
qed

lemma big_Exp_twice: "1 < p \<Longrightarrow> 0 \<le> x \<Longrightarrow> 0 \<le> y \<Longrightarrow> big_Exp (big_Exp g y p) x p = g ^ (nat x * nat y) mod p"
  by (simp add: big_Exp_mod power_mod mult.commute flip: power_mult)

text \<open>The secret is the same whoever's number is raised.\<close>

lemma diffieHellman_agree:
  assumes "group_ok g" and "0 \<le> x" and "0 \<le> y"
  shows "diffieHellman g (big_Exp (dh_g g) y (dh_p g)) x = Inr (dh_g g ^ (nat x * nat y) mod dh_p g)"
    "diffieHellman g (big_Exp (dh_g g) x (dh_p g)) y = Inr (dh_g g ^ (nat x * nat y) mod dh_p g)"
proof -
  have "diffieHellman g (big_Exp (dh_g g) v (dh_p g)) u = Inr (dh_g g ^ (nat u * nat v) mod dh_p g)" if "0 \<le> u" "0 \<le> v" for u v
    using big_Exp_range [OF assms(1) that(2)] big_Exp_twice [OF group_okD(1) [OF assms(1)] that] by (simp add: diffieHellman_def)
  from this [OF assms(2,3)] this [OF assms(3,2)]
  show "diffieHellman g (big_Exp (dh_g g) y (dh_p g)) x = Inr (dh_g g ^ (nat x * nat y) mod dh_p g)"
    "diffieHellman g (big_Exp (dh_g g) x (dh_p g)) y = Inr (dh_g g ^ (nat x * nat y) mod dh_p g)"
    by (simp_all add: mult.commute)
qed

lemma kex_msgs_bytes:
  "kex_msgs (msg_bytes (KexDHInitMsg X)) (msg_bytes (KexDHReplyMsg k Y s)) \<longleftrightarrow>
     length (msg_bytes (KexDHInitMsg X)) < 2 ^ 17 \<and> length (msg_bytes (KexDHReplyMsg k Y s)) < 2 ^ 17"
  "kex_msgs (msg_bytes (KexECDHInitMsg p)) (msg_bytes (KexECDHReplyMsg k q s)) \<longleftrightarrow>
     length (msg_bytes (KexECDHInitMsg p)) < 2 ^ 17 \<and> length (msg_bytes (KexECDHReplyMsg k q s)) < 2 ^ 17"
  by (simp_all add: kex_msgs_def msg_bytes_eq msg_tag_def typeTag_type_of del: type_of.simps)

lemma dh_packets:
  assumes "group_ok g" and "0 \<le> y" and "length k < 2 ^ 15" and "length s < 2 ^ 15"
  shows "length (msg_bytes (KexDHReplyMsg k (big_Exp (dh_g g) y (dh_p g)) s)) < 2 ^ 17"
    "length (msg_bytes (KexDHInitMsg (big_Exp (dh_g g) y (dh_p g)))) < 2 ^ 17"
proof -
  have "big_Exp (dh_g g) y (dh_p g) < 2 ^ 4096" using big_Exp_range(2) [OF assms(1,2)] assms(1) unfolding group_ok_def by (elim conjE) (rule less_trans)
  then have "length (mpint_contents (big_Exp (dh_g g) y (dh_p g))) \<le> 4096 + 9"
    using big_Exp_range(1) [OF assms(1,2)] by (intro mpint_contents_length) simp_all
  then show "length (msg_bytes (KexDHReplyMsg k (big_Exp (dh_g g) y (dh_p g)) s)) < 2 ^ 17"
    "length (msg_bytes (KexDHInitMsg (big_Exp (dh_g g) y (dh_p g)))) < 2 ^ 17"
    using assms(3,4) by (simp_all add: msg_bytes_eq)
qed

lemma dh_agree:
  assumes "group_ok g" and "dh_drawn g a" and "dh_drawn g b" and "host_ok (key_crypto.truncate cr) sg"
  shows "\<exists>init reply r. client_talks (\<lambda>io :: 'c packetConn. dh_Client cr g io a m) init reply r \<and> server_talks (\<lambda>io :: 'c packetConn. dh_Server cr g io b m sg) init reply r
    \<and> kex_msgs init reply \<and> agreed_result (key_crypto.truncate cr) sg r"
proof -
  obtain x y where x: "rand_Int a (dh_p g) = Inr x" "0 \<le> x" and y: "rand_Int b (dh_p g) = Inr y" "0 \<le> y"
    using assms(2,3) by (auto simp: dh_drawn_def)
  let ?X = "big_Exp (dh_g g) x (dh_p g)" and ?Y = "big_Exp (dh_g g) y (dh_p g)"
  obtain k where k: "key_Marshal (key_crypto.truncate cr) (PublicKey sg) = Some k" "length k < 2 ^ 15" using assms(4) by (auto simp: host_ok_def)
  let ?K = "int_bytes (dh_g g ^ (nat x * nat y) mod dh_p g)"
  let ?H = "k_sha1 cr (magics_write m @ writeString k @ int_bytes ?X @ int_bytes ?Y @ ?K)"
  obtain sig where sig: "host_Sign sg ?H = Inr sig" "length (marshal_Signature sig) < 2 ^ 15"
    using host_ok_sign [OF assms(4)] by metis
  then have s: "signAndMarshal sg ?H = Inr (marshal_Signature sig)" by (simp add: signAndMarshal_def)
  note l = dh_packets(2) [OF assms(1) x(2) k(2) sig(2)] dh_packets(1) [OF assms(1) y(2) k(2) sig(2)]
  have i: "unmarshal_msg (msg_bytes (KexDHInitMsg ?X)) N_kexDHInitMsg = Inr (KexDHInitMsg ?X)"
    using unmarshal_msg_bytes [OF wf_kex(1), of ?X] l(1) by simp
  have r: "unmarshal_msg (msg_bytes (KexDHReplyMsg k ?Y (marshal_Signature sig))) N_kexDHReplyMsg = Inr (KexDHReplyMsg k ?Y (marshal_Signature sig))"
    using unmarshal_msg_bytes [OF wf_kex(2), of k ?Y] l(2) by simp
  let ?r = "\<lparr>kex_H = ?H, kex_K = ?K, kex_Hash = k_sha1 cr, SessionID = [], kr_HostKey = k, kr_Signature = marshal_Signature sig\<rparr>"
  have "client_talks (\<lambda>io. dh_Client cr g io a m) (msg_bytes (KexDHInitMsg ?X)) (msg_bytes (KexDHReplyMsg k ?Y (marshal_Signature sig))) ?r"
    by (simp add: client_talks_def Let_def dh_Client_def x(1) r diffieHellman_agree [OF assms(1) x(2) y(2)])
  moreover have "server_talks (\<lambda>io. dh_Server cr g io b m sg) (msg_bytes (KexDHInitMsg ?X)) (msg_bytes (KexDHReplyMsg k ?Y (marshal_Signature sig))) ?r"
    by (simp add: server_talks_def Let_def dh_Server_def y(1) i k(1) s diffieHellman_agree [OF assms(1) x(2) y(2)])
  moreover have "kex_msgs (msg_bytes (KexDHInitMsg ?X)) (msg_bytes (KexDHReplyMsg k ?Y (marshal_Signature sig)))"
    using l by (simp only: kex_msgs_bytes)
  moreover have "agreed_result (key_crypto.truncate cr) sg ?r" using k(1) s by (simp add: agreed_result_def key_crypto.defs)
  ultimately show ?thesis by blast
qed

interpretation dh: kex_method "key_crypto.truncate cr" "dh_Client cr g" "dh_Server cr g"
  "\<lambda>rand. group_ok g \<and> dh_drawn g rand" for cr g
  by unfold_locales (rule dh_agree; blast)

section \<open>NIST curves\<close>

text \<open>
  What the code relies on of \<^verbatim>\<open>crypto/elliptic\<close>: a generated point is encoded, read back and valid, and multiplying
  the points of two private keys by the other key gives the same point. \<open>base\<close> is \<^verbatim>\<open>ScalarBaseMult\<close>.
\<close>

definition curve_ok :: "kex_crypto \<Rightarrow> (byte list \<Rightarrow> int \<times> int) \<Rightarrow> ec_curve \<Rightarrow> bool" where
  "curve_ok cr base curve \<longleftrightarrow>
     (\<forall>d x y. base d = (x, y) \<longrightarrow>
        length (ec_Marshal cr curve x y) < 2 ^ 15 \<and> ec_Unmarshal cr curve (ec_Marshal cr curve x y) = Some (x, y)
        \<and> validateECPublicKey cr curve x y)
     \<and> (\<forall>d e. ec_ScalarMult cr curve (fst (base d)) (snd (base d)) e = ec_ScalarMult cr curve (fst (base e)) (snd (base e)) d)"

definition ec_drawn :: "(byte list \<Rightarrow> int \<times> int) \<Rightarrow> ec_curve \<Rightarrow> kex_rand \<Rightarrow> bool" where
  "ec_drawn base curve rand \<longleftrightarrow> (\<exists>D. ecdsa_GenerateKey rand curve = Inr (D, base (big_Bytes D)))"

lemma ec_packets:
  assumes "length q < 2 ^ 15" and "length k < 2 ^ 15" and "length s < 2 ^ 15"
  shows "unmarshal_msg (msg_bytes (KexECDHInitMsg q)) N_kexECDHInitMsg = Inr (KexECDHInitMsg q)"
    "unmarshal_msg (msg_bytes (KexECDHReplyMsg k q s)) N_kexECDHReplyMsg = Inr (KexECDHReplyMsg k q s)"
  using assms unmarshal_msg_bytes [OF wf_kex(3)] unmarshal_msg_bytes [OF wf_kex(4)] by (simp_all add: msg_bytes_eq)

lemma ec_agree:
  assumes "curve_ok cr base curve" and "ec_drawn base curve a" and "ec_drawn base curve b" and "host_ok (key_crypto.truncate cr) sg"
  shows "\<exists>init reply r. client_talks (\<lambda>io :: 'c packetConn. ecdh_Client cr curve io a m) init reply r
    \<and> server_talks (\<lambda>io :: 'c packetConn. ecdh_Server cr curve io b m sg) init reply r \<and> kex_msgs init reply
    \<and> agreed_result (key_crypto.truncate cr) sg r"
proof -
  obtain D x y E u v where g: "ecdsa_GenerateKey a curve = Inr (D, x, y)" "ecdsa_GenerateKey b curve = Inr (E, u, v)"
    and p: "base (big_Bytes D) = (x, y)" "base (big_Bytes E) = (u, v)"
    using assms(2,3) by (auto simp: ec_drawn_def) (metis surj_pair)
  let ?X = "ec_Marshal cr curve x y" and ?Y = "ec_Marshal cr curve u v"
  have q: "length ?X < 2 ^ 15" "length ?Y < 2 ^ 15" "unmarshalECKey cr curve ?X = Inr (x, y)" "unmarshalECKey cr curve ?Y = Inr (u, v)"
    using assms(1) p by (auto simp: curve_ok_def unmarshalECKey_def)
  have c: "ec_ScalarMult cr curve u v (big_Bytes D) = ec_ScalarMult cr curve x y (big_Bytes E)"
    using assms(1) p unfolding curve_ok_def by (metis fst_conv snd_conv)
  obtain k where k: "key_Marshal (key_crypto.truncate cr) (PublicKey sg) = Some k" "length k < 2 ^ 15" using assms(4) by (auto simp: host_ok_def)
  let ?K = "int_bytes (fst (ec_ScalarMult cr curve x y (big_Bytes E)))"
  let ?H = "ecHash (key_crypto.truncate cr) curve (magics_write m @ writeString k @ writeString ?X @ writeString ?Y @ ?K)"
  obtain sig where sig: "host_Sign sg ?H = Inr sig" "length (marshal_Signature sig) < 2 ^ 15"
    using host_ok_sign [OF assms(4)] by metis
  then have s: "signAndMarshal sg ?H = Inr (marshal_Signature sig)" by (simp add: signAndMarshal_def)
  note ms = ec_packets(1) [OF q(1) k(2) sig(2)] ec_packets(2) [OF q(2) k(2) sig(2)]
  let ?r = "\<lparr>kex_H = ?H, kex_K = ?K, kex_Hash = ecHash (key_crypto.truncate cr) curve, SessionID = [], kr_HostKey = k,
    kr_Signature = marshal_Signature sig\<rparr>"
  let ?i = "msg_bytes (KexECDHInitMsg ?X)" and ?m = "msg_bytes (KexECDHReplyMsg k ?Y (marshal_Signature sig))"
  have "client_talks (\<lambda>io. ecdh_Client cr curve io a m) ?i ?m ?r"
    by (simp add: client_talks_def Let_def ecdh_Client_def g q(3,4) c ms)
  moreover have "server_talks (\<lambda>io. ecdh_Server cr curve io b m sg) ?i ?m ?r"
    by (simp add: server_talks_def Let_def ecdh_Server_def g q(3,4) c ms k(1) s)
  moreover have "kex_msgs ?i ?m" using q(1,2) k(2) sig(2) by (simp add: kex_msgs_bytes) (simp add: msg_bytes_eq)
  moreover have "agreed_result (key_crypto.truncate cr) sg ?r"
    using k(1) s by (cases curve) (simp_all add: agreed_result_def key_crypto.defs)
  ultimately show ?thesis by blast
qed

interpretation ec: kex_method "key_crypto.truncate cr" "ecdh_Client cr curve" "ecdh_Server cr curve"
  "\<lambda>rand. curve_ok cr base curve \<and> ec_drawn base curve rand" for cr curve base
  by unfold_locales (rule ec_agree; blast)

section \<open>Curve25519\<close>

definition x25519_ok :: "kex_crypto \<Rightarrow> bool" where
  "x25519_ok cr \<longleftrightarrow>
     (\<forall>a. length a = 32 \<longrightarrow> length (x25519_base cr a) = 32)
     \<and> (\<forall>a b. length a = 32 \<and> length b = 32 \<longrightarrow>
          x25519 cr a (x25519_base cr b) = x25519 cr b (x25519_base cr a) \<and> x25519 cr a (x25519_base cr b) \<noteq> curve25519Zeros)"

definition x_drawn :: "kex_rand \<Rightarrow> bool" where
  "x_drawn rand \<longleftrightarrow> (\<exists>a. rand_32 rand = Inr a \<and> length a = 32)"

lemma x25519_agree:
  assumes "x25519_ok cr" and "x_drawn a" and "x_drawn b" and "host_ok (key_crypto.truncate cr) sg"
  shows "\<exists>init reply r. client_talks (\<lambda>io :: 'c packetConn. c25519_Client cr io a m) init reply r \<and> server_talks (\<lambda>io :: 'c packetConn. c25519_Server cr io b m sg) init reply r
    \<and> kex_msgs init reply \<and> agreed_result (key_crypto.truncate cr) sg r"
proof -
  obtain x y where g: "rand_32 a = Inr x" "rand_32 b = Inr y" "length x = 32" "length y = 32"
    using assms(2,3) by (auto simp: x_drawn_def)
  let ?X = "x25519_base cr x" and ?Y = "x25519_base cr y"
  have q: "length ?X = 32" "length ?Y = 32" "x25519 cr x ?Y = x25519 cr y ?X" "x25519 cr y ?X \<noteq> curve25519Zeros"
    using assms(1) g(3,4) by (auto simp: x25519_ok_def)
  obtain k where k: "key_Marshal (key_crypto.truncate cr) (PublicKey sg) = Some k" "length k < 2 ^ 15" using assms(4) by (auto simp: host_ok_def)
  let ?K = "int_bytes (int (bigSetBytes (x25519 cr y ?X)))"
  let ?H = "k_sha256 cr (magics_write m @ writeString k @ writeString ?X @ writeString ?Y @ ?K)"
  obtain sig where sig: "host_Sign sg ?H = Inr sig" "length (marshal_Signature sig) < 2 ^ 15"
    using host_ok_sign [OF assms(4)] by metis
  then have s: "signAndMarshal sg ?H = Inr (marshal_Signature sig)" by (simp add: signAndMarshal_def)
  have l: "length ?X < 2 ^ 15" "length ?Y < 2 ^ 15" using q(1,2) by simp_all
  note ms = ec_packets(1) [OF l(1) k(2) sig(2)] ec_packets(2) [OF l(2) k(2) sig(2)]
  let ?r = "\<lparr>kex_H = ?H, kex_K = ?K, kex_Hash = k_sha256 cr, SessionID = [], kr_HostKey = k, kr_Signature = marshal_Signature sig\<rparr>"
  let ?i = "msg_bytes (KexECDHInitMsg ?X)" and ?m = "msg_bytes (KexECDHReplyMsg k ?Y (marshal_Signature sig))"
  have "client_talks (\<lambda>io. c25519_Client cr io a m) ?i ?m ?r"
    by (simp add: client_talks_def Let_def c25519_Client_def kp_generate_def g q ms)
  moreover have "server_talks (\<lambda>io. c25519_Server cr io b m sg) ?i ?m ?r"
    by (simp add: server_talks_def Let_def c25519_Server_def kp_generate_def g q ms k(1) s)
  moreover have "kex_msgs ?i ?m" using q(1,2) k(2) sig(2) by (simp add: kex_msgs_bytes) (simp add: msg_bytes_eq)
  moreover have "agreed_result (key_crypto.truncate cr) sg ?r"
    using k(1) s by (simp add: agreed_result_def key_crypto.defs)
  ultimately show ?thesis by blast
qed

interpretation x25519: kex_method "key_crypto.truncate cr" "c25519_Client cr" "c25519_Server cr"
  "\<lambda>rand. x25519_ok cr \<and> x_drawn rand" for cr
  by unfold_locales (rule x25519_agree; blast)

section \<open>Every method of the table\<close>

definition kex_crypto_ok :: "kex_crypto \<Rightarrow> (ec_curve \<Rightarrow> byte list \<Rightarrow> int \<times> int) \<Rightarrow> bool" where
  "kex_crypto_ok cr base \<longleftrightarrow> (\<forall>c. curve_ok cr (base c) c) \<and> x25519_ok cr"

fun kex_drawn :: "(ec_curve \<Rightarrow> byte list \<Rightarrow> int \<times> int) \<Rightarrow> kexAlgorithm \<Rightarrow> kex_rand \<Rightarrow> bool" where
  "kex_drawn base (DhGroup g) rand \<longleftrightarrow> dh_drawn g rand"
| "kex_drawn base (Ecdh c) rand \<longleftrightarrow> ec_drawn (base c) c rand"
| "kex_drawn base Curve25519Sha256 rand \<longleftrightarrow> x_drawn rand"

lemma groups_ok: "group_ok \<lparr>dh_g = 2, dh_p = group1_p\<rparr>" "group_ok \<lparr>dh_g = 2, dh_p = group14_p\<rparr>"
  unfolding group_ok_def group1_p_def group14_p_def by simp_all

lemma kexAlgoMap_groups: "map_of kexAlgoMap name = Some (DhGroup g) \<Longrightarrow> group_ok g"
  using groups_ok by (auto simp: kexAlgoMap_def split: if_splits)

lemma truncate_hashes: "k_sha1 (key_crypto.truncate cr) = k_sha1 cr" "k_sha256 (key_crypto.truncate cr) = k_sha256 cr"
  "k_sha384 (key_crypto.truncate cr) = k_sha384 cr" "k_sha512 (key_crypto.truncate cr) = k_sha512 cr"
  by (simp_all add: key_crypto.defs)

lemma kex_talks:
  assumes "map_of kexAlgoMap name = Some alg" and "kex_crypto_ok cr base" and "host_ok (key_crypto.truncate cr) sg"
    and "kex_drawn base alg a" and "kex_drawn base alg b"
  shows "\<exists>init reply r. client_talks (\<lambda>io :: 'c packetConn. kex_Client cr alg io a m) init reply r \<and> server_talks (\<lambda>io :: 'c packetConn. kex_Server cr alg io b m sg) init reply r
    \<and> kex_msgs init reply \<and> kex_Hash r \<in> {k_sha1 cr, k_sha256 cr, k_sha384 cr, k_sha512 cr}
    \<and> ParsePublicKey (key_crypto.truncate cr) (kr_HostKey r) = Inr (PublicKey sg)
    \<and> verifyHostKeySignature (key_crypto.truncate cr) (PublicKey sg) r = None"
proof (cases alg)
  case (DhGroup g)
  then show ?thesis using assms kexAlgoMap_groups dh.verified [of g a b cr sg m] by (simp add: truncate_hashes)
next
  case (Ecdh c)
  then show ?thesis using assms ec.verified [of cr "base c" c a b sg m] by (simp add: kex_crypto_ok_def truncate_hashes)
next
  case Curve25519Sha256
  then show ?thesis using assms x25519.verified [of cr a b sg m] by (simp add: kex_crypto_ok_def truncate_hashes)
qed


definition toy_kex :: kex_crypto where
  "toy_kex = key_crypto.extend (toy_keys\<lparr>ec_Unmarshal := \<lambda>_ _. Some (1, 1)\<rparr>)
     (kex_crypto.fields (\<lambda>_. 23) (\<lambda>_ _ _. True) (\<lambda>_ _ _ _. (7, 7)) (\<lambda>a. a) (\<lambda>_ _. replicate 32 9))"

definition toy_host :: host_signer where
  "toy_host = \<lparr>PublicKey = RSAKey 5 35, host_Sign = toy_sign\<rparr>"

definition toy_magics :: handshakeMagics where
  "toy_magics = \<lparr>hm_clientVersion = ascii ''SSH-2.0-Go'', hm_serverVersion = ascii ''SSH-2.0-x'', hm_clientKexInit = [20], hm_serverKexInit = [20, 0]\<rparr>"

definition toy_rand :: "int \<Rightarrow> kex_rand" where
  "toy_rand x = \<lparr>rand_Int = \<lambda>p. Inr x, ecdsa_GenerateKey = \<lambda>_. Inl ssh_error.EOF, rand_32 = Inl ssh_error.EOF\<rparr>"

lemma toy_kex_sel:
  "key_crypto.truncate toy_kex = toy_keys\<lparr>ec_Unmarshal := \<lambda>_ _. Some (1, 1)\<rparr>" "x25519_base toy_kex = (\<lambda>a. a)"
  "x25519 toy_kex = (\<lambda>_ _. replicate 32 9)" "ec_Marshal toy_kex = (\<lambda>_ _ _. [4])" "ec_Unmarshal toy_kex = (\<lambda>_ _. Some (1, 1))"
  "ec_P toy_kex = (\<lambda>_. 23)" "ec_IsOnCurve toy_kex = (\<lambda>_ _ _. True)" "ec_ScalarMult toy_kex = (\<lambda>_ _ _ _. (7, 7))"
  by (simp_all add: toy_kex_def toy_keys_def key_crypto.defs kex_crypto.defs)

lemma toy_kex_ok: "kex_crypto_ok toy_kex (\<lambda>_ _. (1, 1))"
  by (simp add: kex_crypto_ok_def curve_ok_def x25519_ok_def toy_kex_sel validateECPublicKey_def curve25519Zeros_def replicate_eq_replicate)

lemma toy_host_ok: "host_ok (key_crypto.truncate toy_kex) toy_host"
  by (simp add: host_ok_def toy_host_def toy_sign_def toy_kex_sel toy_keys_def marshal_untagged_bytes toy_mpints KeyAlgoRSA_def length_ascii
    marshal_Signature_def min_less_iff_disj)


end
