(* ===== verification/Ssh_Handshake.thy ===== *)
theory Ssh_Handshake
  imports Ssh_Kex_Agree
begin

text \<open>
  The transport that changes keys, \<^verbatim>\<open>src/golang.org/x/crypto/ssh/handshake.go\<close>. The connection below is an interface
  (\<^verbatim>\<open>keyingTransport\<close>), here a record of functions on a state. The fields that the mutex protects are those
  of a record, and what a goroutine does while it holds the mutex is one function. While keys are exchanged no writer uses the connection,
  so the whole of \<^verbatim>\<open>enterKeyExchange\<close> is one step as well. The reader and the writers interleave in \<open>hs_step\<close>.
\<close>

section \<open>The transport\<close>

record 'c keyingTransport = "'c packetConn" +
  kt_prepareKeyChange :: "algorithms \<Rightarrow> kexOutcome \<Rightarrow> 'c \<Rightarrow> ssh_error option \<times> 'c"
  kt_Close :: "'c \<Rightarrow> 'c"
  kt_getSessionID :: "'c \<Rightarrow> byte list"

type_synonym hostKeyCallback = "byte list \<Rightarrow> byte list \<Rightarrow> public_key \<Rightarrow> ssh_error option"

record 'c handshakeTransport =
  ht_conn :: 'c
  ht_config :: config
  ht_serverVersion :: "byte list"
  ht_clientVersion :: "byte list"
  ht_hostKeys :: "host_signer list"
  ht_hostKeyAlgorithms :: "byte list list"
  ht_incoming :: "byte list list"
  ht_incoming_closed :: bool
  readError :: "ssh_error option"
  ht_hostKeyCallback :: "hostKeyCallback option"
  ht_dialAddress :: "byte list"
  ht_remoteAddr :: "byte list"
  readSinceKex :: u64
  sentInit :: "(kexInitMsg \<times> byte list) option"
  writtenSinceKex :: u64
  writeError :: "ssh_error option"

definition newHandshakeTransport :: "'c \<Rightarrow> config \<Rightarrow> byte list \<Rightarrow> byte list \<Rightarrow> 'c handshakeTransport" where
  "newHandshakeTransport conn config0 clientVersion serverVersion =
     \<lparr>ht_conn = conn, ht_config = config0, ht_serverVersion = serverVersion, ht_clientVersion = clientVersion, ht_hostKeys = [],
      ht_hostKeyAlgorithms = [], ht_incoming = [], ht_incoming_closed = False, readError = None, ht_hostKeyCallback = None,
      ht_dialAddress = [], ht_remoteAddr = [], readSinceKex = 0, sentInit = None, writtenSinceKex = 0, writeError = None\<rparr>"

definition supportedHostKeyAlgos :: "byte list list" where
  "supportedHostKeyAlgos =
     map ascii [''ssh-rsa-cert-v01@openssh.com'', ''ssh-dss-cert-v01@openssh.com'', ''ecdsa-sha2-nistp256-cert-v01@openssh.com'',
       ''ecdsa-sha2-nistp384-cert-v01@openssh.com'', ''ecdsa-sha2-nistp521-cert-v01@openssh.com'']
     @ [KeyAlgoECDSA256, KeyAlgoECDSA384, KeyAlgoECDSA521, KeyAlgoRSA, KeyAlgoDSA]"

definition supportedCompressions :: "byte list list" where
  "supportedCompressions = [ascii ''none'']"

definition newClientTransport ::
  "'c \<Rightarrow> byte list \<Rightarrow> byte list \<Rightarrow> config \<Rightarrow> hostKeyCallback option \<Rightarrow> byte list list option \<Rightarrow> byte list \<Rightarrow> byte list \<Rightarrow> 'c handshakeTransport"
where
  "newClientTransport conn clientVersion serverVersion config0 callback hostKeyAlgos dialAddr addr =
     (newHandshakeTransport conn config0 clientVersion serverVersion)
       \<lparr>ht_dialAddress := dialAddr, ht_remoteAddr := addr, ht_hostKeyCallback := callback,
        ht_hostKeyAlgorithms := (case hostKeyAlgos of Some as \<Rightarrow> as | None \<Rightarrow> supportedHostKeyAlgos)\<rparr>"

definition newServerTransport :: "'c \<Rightarrow> byte list \<Rightarrow> byte list \<Rightarrow> config \<Rightarrow> host_signer list \<Rightarrow> 'c handshakeTransport" where
  "newServerTransport conn clientVersion serverVersion config0 keys =
     (newHandshakeTransport conn config0 clientVersion serverVersion)\<lparr>ht_hostKeys := keys\<rparr>"

section \<open>Starting a key exchange\<close>

definition msgKexInit :: byte where "msgKexInit = 20"
definition msgIgnore :: byte where "msgIgnore = 2"
definition msgDebug :: byte where "msgDebug = 4"

text \<open>A nil slice and an empty one are marshalled alike.\<close>

definition names :: "byte list list option \<Rightarrow> byte list list" where
  "names ns = (case ns of None \<Rightarrow> [] | Some ns \<Rightarrow> ns)"

text \<open>The message of this side, with the 16 random bytes of its cookie; the type of a host key may panic.\<close>

definition kexInit_msg :: "byte list \<Rightarrow> 'c handshakeTransport \<Rightarrow> kexInitMsg option" where
  "kexInit_msg cookie t =
     map_option (\<lambda>hostAlgos.
       \<lparr>Cookie = cookie, KexAlgos = names (KeyExchanges (ht_config t)), ServerHostKeyAlgos = hostAlgos,
        CiphersClientServer = names (Ciphers (ht_config t)), CiphersServerClient = names (Ciphers (ht_config t)),
        MACsClientServer = names (MACs (ht_config t)), MACsServerClient = names (MACs (ht_config t)),
        CompressionClientServer = supportedCompressions, CompressionServerClient = supportedCompressions,
        LanguagesClientServer = [], LanguagesServerClient = [], FirstKexFollows = False, Reserved = 0\<rparr>)
       (if ht_hostKeys t \<noteq> [] then those (map (\<lambda>k. key_Type (PublicKey k)) (ht_hostKeys t)) else Some (ht_hostKeyAlgorithms t))"

definition sendKexInitLocked ::
  "'c keyingTransport \<Rightarrow> byte list \<Rightarrow> 'c handshakeTransport \<Rightarrow> (ssh_error + kexInitMsg \<times> byte list) \<times> 'c handshakeTransport" where
  "sendKexInitLocked io cookie t =
     (case sentInit t of
        Some (msg, packet) \<Rightarrow> (Inr (msg, packet), t)
      | None \<Rightarrow>
          (case kexInit_msg cookie t of
             None \<Rightarrow> (Inl index_panic, t)
           | Some msg \<Rightarrow>
               (let packet = msg_bytes (KexInitMsg msg)
                in case conn_write io packet (ht_conn t) of
                     (Some err, c) \<Rightarrow> (Inl err, t\<lparr>ht_conn := c\<rparr>)
                   | (None, c) \<Rightarrow> (Inr (msg, packet), t\<lparr>ht_conn := c, sentInit := Some (msg, packet)\<rparr>))))"

definition requestKeyChange :: "'c keyingTransport \<Rightarrow> byte list \<Rightarrow> 'c handshakeTransport \<Rightarrow> ssh_error option \<times> 'c handshakeTransport" where
  "requestKeyChange io cookie t =
     (case sendKexInitLocked io cookie t of (Inl err, t') \<Rightarrow> (Some err, t') | (Inr _, t') \<Rightarrow> (None, t'))"

section \<open>Exchanging keys\<close>

text \<open>What a key exchange draws at random and relies on.\<close>

record kex_env =
  env_crypto :: kex_crypto
  env_rand :: kex_rand
  env_cookie :: "byte list"

definition hs_server :: "kex_env \<Rightarrow> 'c keyingTransport \<Rightarrow> kexAlgorithm \<Rightarrow> algorithms \<Rightarrow> handshakeMagics \<Rightarrow> 'c handshakeTransport \<Rightarrow>
   (ssh_error + kexOutcome) \<times> 'c handshakeTransport" where
  "hs_server env io alg algs magics t =
     (case fold (\<lambda>k found. if key_Type (PublicKey k) = Some (hostKey algs) then Some k else found) (ht_hostKeys t) None of
        None \<Rightarrow> (Inl (RunTimePanic ''nil pointer''), t)
      | Some key \<Rightarrow>
          (case kex_Server (env_crypto env) alg (packetConn.truncate io) (env_rand env) magics key (ht_conn t) of
             (r, c) \<Rightarrow> (r, t\<lparr>ht_conn := c\<rparr>)))"

definition hs_client :: "kex_env \<Rightarrow> 'c keyingTransport \<Rightarrow> kexAlgorithm \<Rightarrow> algorithms \<Rightarrow> handshakeMagics \<Rightarrow> 'c handshakeTransport \<Rightarrow>
   (ssh_error + kexOutcome) \<times> 'c handshakeTransport" where
  "hs_client env io alg algs magics t =
     (case kex_Client (env_crypto env) alg (packetConn.truncate io) (env_rand env) magics (ht_conn t) of
        (Inl err, c) \<Rightarrow> (Inl err, t\<lparr>ht_conn := c\<rparr>)
      | (Inr result, c) \<Rightarrow>
          (case ParsePublicKey (key_crypto.truncate (env_crypto env)) (kr_HostKey result) of
             Inl err \<Rightarrow> (Inl err, t\<lparr>ht_conn := c\<rparr>)
           | Inr key \<Rightarrow>
               (case verifyHostKeySignature (key_crypto.truncate (env_crypto env)) key result of
                  Some err \<Rightarrow> (Inl err, t\<lparr>ht_conn := c\<rparr>)
                | None \<Rightarrow>
                    (case ht_hostKeyCallback t of
                       None \<Rightarrow> (Inr result, t\<lparr>ht_conn := c\<rparr>)
                     | Some callback \<Rightarrow>
                         (case callback (ht_dialAddress t) (ht_remoteAddr t) key of
                            Some err \<Rightarrow> (Inl err, t\<lparr>ht_conn := c\<rparr>)
                          | None \<Rightarrow> (Inr result, t\<lparr>ht_conn := c\<rparr>))))))"

text \<open>The end of \<^verbatim>\<open>enterKeyExchange\<close>: the new keys are announced on both sides. The error of \<^verbatim>\<open>prepareKeyChange\<close> is dropped.\<close>

definition finish_kex :: "'c keyingTransport \<Rightarrow> algorithms \<Rightarrow> kexOutcome \<Rightarrow> 'c handshakeTransport \<Rightarrow> ssh_error option \<times> 'c handshakeTransport" where
  "finish_kex io algs result t =
     (let (_, c1) = kt_prepareKeyChange io algs result (ht_conn t)
      in case conn_write io [msgNewKeys] c1 of
           (Some err, c2) \<Rightarrow> (Some err, t\<lparr>ht_conn := c2\<rparr>)
         | (None, c2) \<Rightarrow>
             (case conn_read io c2 of
                (Inl err, c3) \<Rightarrow> (Some err, t\<lparr>ht_conn := c3\<rparr>)
              | (Inr packet, c3) \<Rightarrow>
                  ((case packet of
                      [] \<Rightarrow> Some index_panic
                    | b # _ \<Rightarrow> if b \<noteq> msgNewKeys then Some (UnexpectedMessage msgNewKeys b) else None), t\<lparr>ht_conn := c3\<rparr>)))"

text \<open>A first packet that was guessed for another method is skipped; an empty list of methods would panic, but then none is agreed.\<close>

definition skip_guess :: "'c keyingTransport \<Rightarrow> kexInitMsg \<Rightarrow> algorithms \<Rightarrow> 'c handshakeTransport \<Rightarrow> ssh_error option \<times> 'c handshakeTransport" where
  "skip_guess io otherInit algs t =
     (if FirstKexFollows otherInit \<and> kex algs \<noteq> hd (KexAlgos otherInit)
      then (case conn_read io (ht_conn t) of
              (Inl err, c) \<Rightarrow> (Some err, t\<lparr>ht_conn := c\<rparr>) | (Inr _, c) \<Rightarrow> (None, t\<lparr>ht_conn := c\<rparr>))
      else (None, t))"

definition kex_magics :: "'c handshakeTransport \<Rightarrow> byte list \<Rightarrow> byte list \<Rightarrow> handshakeMagics" where
  "kex_magics t myInitPacket otherInitPacket =
     (let (ci, si) = (if ht_hostKeys t = [] then (myInitPacket, otherInitPacket) else (otherInitPacket, myInitPacket))
      in \<lparr>hm_clientVersion = ht_clientVersion t, hm_serverVersion = ht_serverVersion t, hm_clientKexInit = ci, hm_serverKexInit = si\<rparr>)"

definition enterKeyExchange ::
  "kex_env \<Rightarrow> 'c keyingTransport \<Rightarrow> byte list \<Rightarrow> 'c handshakeTransport \<Rightarrow> ssh_error option \<times> 'c handshakeTransport" where
  "enterKeyExchange env io otherInitPacket t0 =
     (case sendKexInitLocked io (env_cookie env) t0 of
        (Inl err, t) \<Rightarrow> (Some err, t)
      | (Inr (myInit, myInitPacket), t) \<Rightarrow>
          (case unmarshal_msg otherInitPacket N_kexInitMsg of
             Inl err \<Rightarrow> (Some err, t)
           | Inr (KexInitMsg otherInit) \<Rightarrow>
               (case (if ht_hostKeys t = [] then findAgreedAlgorithms myInit otherInit else findAgreedAlgorithms otherInit myInit) of
                  Inl what \<Rightarrow> (Some (OtherError (''ssh: no common algorithm for '' @ what)), t)
                | Inr algs \<Rightarrow>
                    (case skip_guess io otherInit algs t of
                       (Some err, t1) \<Rightarrow> (Some err, t1)
                     | (None, t1) \<Rightarrow>
                         (case map_of kexAlgoMap (kex algs) of
                            None \<Rightarrow> (Some (OtherError ''ssh: unexpected key exchange algorithm''), t1)
                          | Some alg \<Rightarrow>
                              (let magics = kex_magics t myInitPacket otherInitPacket
                               in case (if ht_hostKeys t \<noteq> [] then hs_server env io alg algs magics t1 else hs_client env io alg algs magics t1) of
                                    (Inl err, t2) \<Rightarrow> (Some err, t2)
                                  | (Inr result, t2) \<Rightarrow> finish_kex io algs result t2))))
           | Inr _ \<Rightarrow> (Some index_panic, t)))"

section \<open>Reading\<close>

definition after_kex :: "'c keyingTransport \<Rightarrow> ssh_error option \<Rightarrow> 'c handshakeTransport \<Rightarrow> (ssh_error + byte list) \<times> 'c handshakeTransport" where
  "after_kex io err t =
     (let t1 = (case err of Some e \<Rightarrow> t\<lparr>ht_conn := kt_Close io (ht_conn t), writeError := Some e\<rparr> | None \<Rightarrow> t);
          t2 = t1\<lparr>sentInit := None, writtenSinceKex := 0\<rparr>
      in case err of Some e \<Rightarrow> (Inl e, t2) | None \<Rightarrow> (Inr [msgNewKeys], t2\<lparr>readSinceKex := 0\<rparr>))"

definition readOnePacket :: "kex_env \<Rightarrow> 'c keyingTransport \<Rightarrow> 'c handshakeTransport \<Rightarrow> (ssh_error + byte list) \<times> 'c handshakeTransport" where
  "readOnePacket env io t0 =
     (case (if readSinceKex t0 > RekeyThreshold (ht_config t0) then requestKeyChange io (env_cookie env) t0 else (None, t0)) of
        (Some err, t) \<Rightarrow> (Inl err, t)
      | (None, t) \<Rightarrow>
          (case conn_read io (ht_conn t) of
             (Inl err, c) \<Rightarrow> (Inl err, t\<lparr>ht_conn := c\<rparr>)
           | (Inr p, c) \<Rightarrow>
               (let t1 = t\<lparr>ht_conn := c, readSinceKex := readSinceKex t + word_of_nat (length p)\<rparr>
                in case p of
                     [] \<Rightarrow> (Inl index_panic, t1)
                   | b # _ \<Rightarrow>
                       if b \<noteq> msgKexInit then (Inr p, t1)
                       else (case enterKeyExchange env io p t1 of (err, t2) \<Rightarrow> after_kex io err t2))))"

text \<open>One round of \<^verbatim>\<open>readLoop\<close>: a packet to deliver, nothing, or the end of the loop.\<close>

definition readLoop_end :: "ssh_error \<Rightarrow> 'c handshakeTransport \<Rightarrow> 'c handshakeTransport" where
  "readLoop_end err t =
     t\<lparr>readError := Some err, ht_incoming_closed := True, writeError := (case writeError t of None \<Rightarrow> Some err | Some e \<Rightarrow> Some e)\<rparr>"

definition readLoop_round :: "kex_env \<Rightarrow> 'c keyingTransport \<Rightarrow> 'c handshakeTransport \<Rightarrow> byte list option \<times> 'c handshakeTransport" where
  "readLoop_round env io t =
     (case readOnePacket env io t of
        (Inl err, t') \<Rightarrow> (None, readLoop_end err t')
      | (Inr p, t') \<Rightarrow> if p \<noteq> [] \<and> (hd p = msgIgnore \<or> hd p = msgDebug) then (None, t') else (Some p, t'))"

text \<open>\<^verbatim>\<open>readPacket\<close>: \<open>None\<close> when the caller waits.\<close>

definition ht_readPacket :: "'c handshakeTransport \<Rightarrow> ((ssh_error + byte list) \<times> 'c handshakeTransport) option" where
  "ht_readPacket t =
     (case ht_incoming t of
        p # ps \<Rightarrow> Some (Inr p, t\<lparr>ht_incoming := ps\<rparr>)
      | [] \<Rightarrow> if ht_incoming_closed t
              then Some (Inl (case readError t of Some e \<Rightarrow> e | None \<Rightarrow> index_panic), t) else None)"

section \<open>Writing\<close>

text \<open>
  \<^verbatim>\<open>writePacket\<close> up to the wait, and from the wait on. A writer that waits holds no lock; it goes on when the key exchange is
  over or the transport is dead. The error of sending the message that starts a key exchange is dropped.
\<close>

definition write_begin :: "'c keyingTransport \<Rightarrow> byte list \<Rightarrow> 'c handshakeTransport \<Rightarrow> 'c handshakeTransport" where
  "write_begin io cookie t =
     (if writtenSinceKex t > RekeyThreshold (ht_config t) then snd (sendKexInitLocked io cookie t) else t)"

definition write_waits :: "'c handshakeTransport \<Rightarrow> bool" where
  "write_waits t \<longleftrightarrow> sentInit t \<noteq> None \<and> writeError t = None"

definition write_finish :: "'c keyingTransport \<Rightarrow> byte list \<Rightarrow> 'c handshakeTransport \<Rightarrow> ssh_error option \<times> 'c handshakeTransport" where
  "write_finish io p t =
     (case writeError t of
        Some e \<Rightarrow> (Some e, t)
      | None \<Rightarrow>
          (let t1 = t\<lparr>writtenSinceKex := writtenSinceKex t + word_of_nat (length p)\<rparr>
           in case p of
                [] \<Rightarrow> (Some index_panic, t1)
              | b # _ \<Rightarrow>
                  if b = msgKexInit then (Some (OtherError ''ssh: only handshakeTransport can send kexInit''), t1)
                  else if b = msgNewKeys then (Some (OtherError ''ssh: only handshakeTransport can send newKeys''), t1)
                  else (case conn_write io p (ht_conn t1) of (e, c) \<Rightarrow> (e, t1\<lparr>ht_conn := c\<rparr>))))"

end
