(* ===== verification/Ssh_Handshake_Safe.thy ===== *)
theory Ssh_Handshake_Safe
  imports Ssh_Handshake
begin

text \<open>
  The reader and the writers of a handshake transport as a step relation. In every state that can be reached: between this side's
  \<^verbatim>\<open>KEXINIT\<close> and its \<^verbatim>\<open>NEWKEYS\<close> only key exchange messages are sent, a client uses the keys of an
  exchange only if the host key was verified, and no writer waits for a reader that has ended. The
  connection is a locale with an interpretation on the packet transport.
\<close>

section \<open>Goroutines\<close>

record 'c hs_sys =
  sys_t :: "'c handshakeTransport"
  sys_pending :: "byte list option"
  sys_waiting :: "byte list list"

inductive hs_step :: "kex_crypto \<Rightarrow> 'c keyingTransport \<Rightarrow> 'c hs_sys \<Rightarrow> 'c hs_sys \<Rightarrow> bool" for cr io where
  reader: "\<not> ht_incoming_closed (sys_t s) \<Longrightarrow> sys_pending s = None \<Longrightarrow> env_crypto env = cr \<Longrightarrow>
    readLoop_round env io (sys_t s) = (p, t) \<Longrightarrow> hs_step cr io s (s\<lparr>sys_t := t, sys_pending := p\<rparr>)"
| deliver: "sys_pending s = Some p \<Longrightarrow> length (ht_incoming (sys_t s)) < 16 \<Longrightarrow>
    hs_step cr io s (s\<lparr>sys_t := (sys_t s)\<lparr>ht_incoming := ht_incoming (sys_t s) @ [p]\<rparr>, sys_pending := None\<rparr>)"
| user_read: "ht_readPacket (sys_t s) = Some (r, t) \<Longrightarrow> hs_step cr io s (s\<lparr>sys_t := t\<rparr>)"
| write_wait: "write_begin io cookie (sys_t s) = t \<Longrightarrow> write_waits t \<Longrightarrow> hs_step cr io s (s\<lparr>sys_t := t, sys_waiting := sys_waiting s @ [p]\<rparr>)"
| write_now: "write_begin io cookie (sys_t s) = t \<Longrightarrow> \<not> write_waits t \<Longrightarrow> write_finish io p t = (e, t') \<Longrightarrow> hs_step cr io s (s\<lparr>sys_t := t'\<rparr>)"
| write_wake: "sys_waiting s = ws @ p # ws' \<Longrightarrow> \<not> write_waits (sys_t s) \<Longrightarrow> write_finish io p (sys_t s) = (e, t) \<Longrightarrow>
    hs_step cr io s (s\<lparr>sys_t := t, sys_waiting := ws @ ws'\<rparr>)"
| request: "requestKeyChange io cookie (sys_t s) = (e, t) \<Longrightarrow> hs_step cr io s (s\<lparr>sys_t := t\<rparr>)"
| close: "hs_step cr io s (s\<lparr>sys_t := (sys_t s)\<lparr>ht_conn := kt_Close io (ht_conn (sys_t s))\<rparr>\<rparr>)"

definition hs_start :: "'c handshakeTransport \<Rightarrow> 'c hs_sys" where
  "hs_start t = \<lparr>sys_t = t, sys_pending = None, sys_waiting = []\<rparr>"

definition hs_reachable :: "kex_crypto \<Rightarrow> 'c keyingTransport \<Rightarrow> 'c handshakeTransport \<Rightarrow> 'c hs_sys \<Rightarrow> bool" where
  "hs_reachable cr io t0 s \<longleftrightarrow> (hs_step cr io)\<^sup>*\<^sup>* (hs_start t0) s"

lemma hs_reachable_induct [consumes 1, case_names start step]:
  assumes "hs_reachable cr io t0 s" and "P (hs_start t0)"
    and "\<And>s s'. hs_reachable cr io t0 s \<Longrightarrow> P s \<Longrightarrow> hs_step cr io s s' \<Longrightarrow> P s'"
  shows "P s"
  using assms(1) unfolding hs_reachable_def
proof (induction rule: rtranclp_induct)
  case base
  then show ?case using assms(2) .
next
  case (step s s')
  then show ?case using assms(3) by (auto simp: hs_reachable_def)
qed

section \<open>What may be sent when\<close>

datatype kex_phase = Quiet | Exchanging

fun phase_step :: "kex_phase \<Rightarrow> byte list \<Rightarrow> kex_phase option" where
  "phase_step ph [] = None"
| "phase_step Quiet (b # _) = (if b = msgKexInit then Some Exchanging else if b = msgNewKeys then None else Some Quiet)"
| "phase_step Exchanging (b # _) = (if b = msgNewKeys then Some Quiet else if b = 30 \<or> b = 31 then Some Exchanging else None)"

fun phase_run :: "kex_phase \<Rightarrow> byte list list \<Rightarrow> kex_phase option" where
  "phase_run ph [] = Some ph"
| "phase_run ph (p # ps) = Option.bind (phase_step ph p) (\<lambda>ph'. phase_run ph' ps)"

lemma phase_run_append: "phase_run ph (ps @ qs) = Option.bind (phase_run ph ps) (\<lambda>ph'. phase_run ph' qs)"
  by (induction ps arbitrary: ph) (auto split: bind_split)

definition kex_packets :: "byte list list \<Rightarrow> bool" where
  "kex_packets ps \<longleftrightarrow> (\<forall>p \<in> set ps. p \<noteq> [] \<and> (hd p = 30 \<or> hd p = 31))"

lemma kex_packets_simps [simp]: "kex_packets []" "kex_packets (p # ps) \<longleftrightarrow> p \<noteq> [] \<and> (hd p = 30 \<or> hd p = 31) \<and> kex_packets ps"
  by (auto simp: kex_packets_def)

lemma phase_run_kex: "kex_packets ps \<Longrightarrow> phase_run Exchanging ps = Some Exchanging"
proof (induction ps)
  case (Cons p ps)
  then have "phase_step Exchanging p = Some Exchanging" by (cases p) (auto simp: msgNewKeys_def)
  with Cons show ?case by simp
qed simp

lemma kex_msg_tags:
  "hd (msg_bytes (KexDHInitMsg X)) = 30" "hd (msg_bytes (KexECDHInitMsg q)) = 30" "hd (msg_bytes (KexDHReplyMsg k Y s)) = 31"
  "hd (msg_bytes (KexECDHReplyMsg k q s)) = 31" "hd (msg_bytes (KexInitMsg i)) = msgKexInit" "msg_bytes m \<noteq> []"
  by (simp_all add: msg_bytes_eq msg_tag_def typeTag_type_of msgKexInit_def del: type_of.simps)

text \<open>A client uses a result only if the host key it holds signed the hash and the callback accepted it.\<close>

definition settings :: "'c handshakeTransport \<Rightarrow> host_signer list \<times> hostKeyCallback option \<times> byte list \<times> byte list" where
  "settings t = (ht_hostKeys t, ht_hostKeyCallback t, ht_dialAddress t, ht_remoteAddr t)"

definition host_checked ::
  "kex_crypto \<Rightarrow> host_signer list \<times> hostKeyCallback option \<times> byte list \<times> byte list \<Rightarrow> kexOutcome \<Rightarrow> bool" where
  "host_checked cr st r \<longleftrightarrow>
     (case st of (keys, callback, dial, remote) \<Rightarrow>
        keys = [] \<longrightarrow>
        (\<exists>key. ParsePublicKey (key_crypto.truncate cr) (kr_HostKey r) = Inr key \<and> verifyHostKeySignature (key_crypto.truncate cr) key r = None
           \<and> (\<forall>cb. callback = Some cb \<longrightarrow> cb dial remote key = None)))"

lemma settings_simps [simp]:
  "settings (t\<lparr>ht_conn := c\<rparr>) = settings t" "settings (t\<lparr>sentInit := i\<rparr>) = settings t" "settings (t\<lparr>writtenSinceKex := n\<rparr>) = settings t"
  "settings (t\<lparr>readSinceKex := n\<rparr>) = settings t" "settings (t\<lparr>writeError := e\<rparr>) = settings t" "settings (t\<lparr>readError := e\<rparr>) = settings t"
  "settings (t\<lparr>ht_incoming := q\<rparr>) = settings t" "settings (t\<lparr>ht_incoming_closed := b\<rparr>) = settings t"
  by (simp_all add: settings_def)

section \<open>Connections that keep a record\<close>

text \<open>What was sent, which keys were prepared, and whether the connection is closed, after which nothing is sent.\<close>

locale recorded_conn =
  fixes io :: "'c keyingTransport"
    and sent :: "'c \<Rightarrow> byte list list"
    and prepared :: "'c \<Rightarrow> (algorithms \<times> kexOutcome) list"
    and closed :: "'c \<Rightarrow> bool"
  assumes read_keeps: "conn_read io c = (r, c') \<Longrightarrow> sent c' = sent c \<and> prepared c' = prepared c \<and> closed c' = closed c"
    and write_adds: "conn_write io p c = (e, c') \<Longrightarrow>
      sent c' = sent c @ (if e = None then [p] else []) \<and> prepared c' = prepared c \<and> closed c' = closed c \<and> (closed c \<longrightarrow> e \<noteq> None)"
    and prepare_adds: "kt_prepareKeyChange io a res c = (e, c') \<Longrightarrow>
      sent c' = sent c \<and> prepared c' = prepared c @ [(a, res)] \<and> closed c' = closed c"
    and close_closes: "closed (kt_Close io c) \<and> sent (kt_Close io c) = sent c \<and> prepared (kt_Close io c) = prepared c"
begin

text \<open>A step that sends only key exchange packets.\<close>

definition kex_only :: "'c \<Rightarrow> 'c \<Rightarrow> bool" where
  "kex_only c c' \<longleftrightarrow> (\<exists>ps. sent c' = sent c @ ps \<and> kex_packets ps) \<and> prepared c' = prepared c \<and> closed c' = closed c"

lemma kex_only_refl [simp]: "kex_only c c"
  by (auto simp: kex_only_def)

lemma kex_only_trans: "kex_only c c' \<Longrightarrow> kex_only c' c'' \<Longrightarrow> kex_only c c''"
  by (fastforce simp: kex_only_def kex_packets_def)

lemma kex_only_read: "conn_read io c = (r, c') \<Longrightarrow> kex_only c c'"
  using read_keeps [of c r c'] by (auto simp: kex_only_def)

lemma kex_only_write: "conn_write io p c = (e, c') \<Longrightarrow> p \<noteq> [] \<Longrightarrow> hd p = 30 \<or> hd p = 31 \<Longrightarrow> kex_only c c'"
  using write_adds [of p c e c'] by (auto simp: kex_only_def)

lemma truncate_io [simp]: "conn_read (packetConn.truncate io) = conn_read io" "conn_write (packetConn.truncate io) = conn_write io"
  by (simp_all add: packetConn.defs)

lemma kex_only_two: "conn_write io p c = (e, c1) \<Longrightarrow> p \<noteq> [] \<Longrightarrow> hd p = 30 \<or> hd p = 31 \<Longrightarrow> conn_read io c1 = (r, c') \<Longrightarrow> kex_only c c'"
  by (rule kex_only_trans [OF kex_only_write kex_only_read])

lemma kex_only_two': "conn_read io c = (r, c1) \<Longrightarrow> conn_write io p c1 = (e, c') \<Longrightarrow> p \<noteq> [] \<Longrightarrow> hd p = 30 \<or> hd p = 31 \<Longrightarrow> kex_only c c'"
  by (rule kex_only_trans [OF kex_only_read kex_only_write])

lemmas kex_run_simps = Let_def kex_msg_tags

lemmas kex_run_intros = kex_only_read kex_only_write kex_only_two kex_only_two'

lemma Client_kex_only:
  "kex_only c (snd (dh_Client cr g (packetConn.truncate io) rand m c))"
  "kex_only c (snd (ecdh_Client cr curve (packetConn.truncate io) rand m c))"
  "kex_only c (snd (c25519_Client cr (packetConn.truncate io) rand m c))"
  by (auto simp: dh_Client_def ecdh_Client_def c25519_Client_def kex_run_simps intro: kex_run_intros
    split: sum.splits prod.splits option.splits message.splits)

lemma Server_kex_only:
  "kex_only c (snd (dh_Server cr g (packetConn.truncate io) rand m sg c))"
  "kex_only c (snd (ecdh_Server cr curve (packetConn.truncate io) rand m sg c))"
  "kex_only c (snd (c25519_Server cr (packetConn.truncate io) rand m sg c))"
  by (auto simp: dh_Server_def ecdh_Server_def c25519_Server_def kex_run_simps intro: kex_run_intros
    split: sum.splits prod.splits option.splits message.splits)

lemma kex_Client_only: "kex_Client cr alg (packetConn.truncate io) rand m c = (r, c') \<Longrightarrow> kex_only c c'"
  using Client_kex_only [of c cr] by (cases alg) (metis kex_Client.simps snd_conv)+

lemma kex_Server_only: "kex_Server cr alg (packetConn.truncate io) rand m sg c = (r, c') \<Longrightarrow> kex_only c c'"
  using Server_kex_only [of c cr] by (cases alg) (metis kex_Server.simps snd_conv)+

lemma hs_server_only:
  "hs_server env io alg algs m t = (r, t') \<Longrightarrow> \<exists>c. t' = t\<lparr>ht_conn := c\<rparr> \<and> kex_only (ht_conn t) c"
proof (cases "fold (\<lambda>k found. if key_Type (PublicKey k) = Some (hostKey algs) then Some k else found) (ht_hostKeys t) None")
  case None
  then show "hs_server env io alg algs m t = (r, t') \<Longrightarrow> ?thesis" by (intro exI [of _ "ht_conn t"]) (simp add: hs_server_def)
qed (auto simp: hs_server_def dest: kex_Server_only split: prod.splits)

lemma hs_client_only:
  "hs_client env io alg algs m t = (r, t') \<Longrightarrow> \<exists>c. t' = t\<lparr>ht_conn := c\<rparr> \<and> kex_only (ht_conn t) c"
  by (auto simp: hs_client_def dest: kex_Client_only split: option.splits prod.splits sum.splits)

lemma hs_client_checked:
  "hs_client env io alg algs m t = (Inr r, t') \<Longrightarrow> host_checked (env_crypto env) (settings t) r"
  by (auto simp: hs_client_def host_checked_def settings_def split: option.splits prod.splits sum.splits)

definition phase :: "'c \<Rightarrow> kex_phase option" where
  "phase c = phase_run Quiet (sent c)"

lemma phase_kex_only: "kex_only c c' \<Longrightarrow> phase c = Some Exchanging \<Longrightarrow> phase c' = Some Exchanging"
  by (auto simp: kex_only_def phase_def phase_run_append phase_run_kex)

lemma phase_write: "conn_write io p c = (e, c') \<Longrightarrow> phase c' = (if e = None then Option.bind (phase c) (\<lambda>ph. phase_step ph p) else phase c)"
  using write_adds [of p c e c'] by (auto simp: phase_def phase_run_append)

lemma phase_read: "conn_read io c = (r, c') \<Longrightarrow> phase c' = phase c"
  using read_keeps [of c r c'] by (simp add: phase_def)

lemma finish_kex_phase:
  assumes "finish_kex io algs res t = (err, t')" and "phase (ht_conn t) = Some Exchanging"
  shows "\<exists>c. t' = t\<lparr>ht_conn := c\<rparr> \<and> (\<exists>ph. phase c = Some ph \<and> (err = None \<longrightarrow> ph = Quiet)) \<and> closed c = closed (ht_conn t)
    \<and> prepared c = prepared (ht_conn t) @ [(algs, res)]"
proof -
  obtain e0 c1 where p: "kt_prepareKeyChange io algs res (ht_conn t) = (e0, c1)" by fastforce
  have c1: "phase c1 = Some Exchanging" "closed c1 = closed (ht_conn t)" "prepared c1 = prepared (ht_conn t) @ [(algs, res)]"
    using prepare_adds [OF p] assms(2) by (simp_all add: phase_def)
  obtain e1 c2 where w: "conn_write io [msgNewKeys] c1 = (e1, c2)" by fastforce
  have c2: "phase c2 = Some (if e1 = None then Quiet else Exchanging)" "closed c2 = closed c1" "prepared c2 = prepared c1"
    using phase_write [OF w] write_adds [OF w] c1(1) by simp_all
  show ?thesis
  proof (cases e1)
    case (Some e)
    then show ?thesis using assms(1) p w c1 c2 by (auto simp: finish_kex_def)
  next
    case None
    obtain r c3 where rd: "conn_read io c2 = (r, c3)" by fastforce
    then have "t' = t\<lparr>ht_conn := c3\<rparr>" using assms(1) p w None by (auto simp: finish_kex_def split: sum.splits)
    then show ?thesis using phase_read [OF rd] read_keeps [OF rd] c1 c2 None by auto
  qed
qed

lemma sendKexInitLocked_phase:
  assumes "sendKexInitLocked io cookie t = (r, t')"
  shows "case sentInit t of
      Some mp \<Rightarrow> r = Inr mp \<and> t' = t
    | None \<Rightarrow> \<exists>c. closed c = closed (ht_conn t) \<and> prepared c = prepared (ht_conn t)
        \<and> (case r of Inl e \<Rightarrow> t' = t\<lparr>ht_conn := c\<rparr> \<and> phase c = phase (ht_conn t)
           | Inr mp \<Rightarrow> t' = t\<lparr>ht_conn := c, sentInit := Some mp\<rparr> \<and> \<not> closed c
               \<and> (phase (ht_conn t) = Some Quiet \<longrightarrow> phase c = Some Exchanging))"
proof (cases "sentInit t")
  case None
  show ?thesis
  proof (cases "kexInit_msg cookie t")
    case None
    with \<open>sentInit t = None\<close> assms show ?thesis by (auto simp: sendKexInitLocked_def intro!: exI [of _ "ht_conn t"])
  next
    case (Some msg)
    obtain e c where w: "conn_write io (msg_bytes (KexInitMsg msg)) (ht_conn t) = (e, c)" by fastforce
    have k: "phase_step Quiet (msg_bytes (KexInitMsg msg)) = Some Exchanging"
      using kex_msg_tags(5) [of msg] kex_msg_tags(6) [of "KexInitMsg msg"] by (cases "msg_bytes (KexInitMsg msg)") auto
    show ?thesis
      using assms None Some w write_adds [OF w] phase_write [OF w] k
      by (cases e) (auto simp: sendKexInitLocked_def Let_def intro!: exI [of _ c])
  qed
qed (use assms in \<open>auto simp: sendKexInitLocked_def\<close>)

section \<open>The invariant\<close>

definition checked_keys :: "kex_crypto \<Rightarrow> host_signer list \<times> hostKeyCallback option \<times> byte list \<times> byte list \<Rightarrow> 'c \<Rightarrow> bool" where
  "checked_keys cr st c \<longleftrightarrow> list_all (\<lambda>(a, r). host_checked cr st r) (prepared c)"

definition t_inv :: "kex_crypto \<Rightarrow> host_signer list \<times> hostKeyCallback option \<times> byte list \<times> byte list \<Rightarrow> 'c handshakeTransport \<Rightarrow> bool" where
  "t_inv cr st t \<longleftrightarrow>
     settings t = st \<and> checked_keys cr st (ht_conn t)
     \<and> (case sentInit t of
          Some _ \<Rightarrow> phase (ht_conn t) = Some Exchanging
        | None \<Rightarrow> phase (ht_conn t) = Some Quiet \<or> phase (ht_conn t) = Some Exchanging \<and> closed (ht_conn t) \<and> writeError t \<noteq> None)
     \<and> (ht_incoming_closed t \<longrightarrow> writeError t \<noteq> None)"

lemma sendKexInitLocked_inv:
  assumes "t_inv cr st t" and "sendKexInitLocked io cookie t = (r, t')"
  shows "t_inv cr st t'" "r = Inr mp \<Longrightarrow> sentInit t' = Some mp"
    "ht_incoming_closed t' = ht_incoming_closed t" "writeError t' = writeError t"
proof -
  note p = sendKexInitLocked_phase [OF assms(2)]
  have "t_inv cr st t' \<and> (r = Inr mp \<longrightarrow> sentInit t' = Some mp) \<and> ht_incoming_closed t' = ht_incoming_closed t \<and> writeError t' = writeError t"
  proof (cases "sentInit t")
    case (Some i)
    then show ?thesis using p assms(1) by auto
  next
    case None
    then obtain c where c: "closed c = closed (ht_conn t)" "prepared c = prepared (ht_conn t)"
      "case r of Inl e \<Rightarrow> t' = t\<lparr>ht_conn := c\<rparr> \<and> phase c = phase (ht_conn t)
       | Inr mp \<Rightarrow> t' = t\<lparr>ht_conn := c, sentInit := Some mp\<rparr> \<and> \<not> closed c \<and> (phase (ht_conn t) = Some Quiet \<longrightarrow> phase c = Some Exchanging)"
      using p by auto
    then show ?thesis using assms(1) None by (cases r) (auto simp: t_inv_def checked_keys_def)
  qed
  then show "t_inv cr st t'" "r = Inr mp \<Longrightarrow> sentInit t' = Some mp"
    "ht_incoming_closed t' = ht_incoming_closed t" "writeError t' = writeError t" by blast+
qed

lemma skip_guess_only: "skip_guess io i algs t = (e, t') \<Longrightarrow> \<exists>c. t' = t\<lparr>ht_conn := c\<rparr> \<and> kex_only (ht_conn t) c"
proof (cases "FirstKexFollows i \<and> kex algs \<noteq> hd (KexAlgos i)")
  case True
  then show "skip_guess io i algs t = (e, t') \<Longrightarrow> ?thesis" by (auto simp: skip_guess_def dest: kex_only_read split: prod.splits sum.splits)
next
  case False
  then show "skip_guess io i algs t = (e, t') \<Longrightarrow> ?thesis" by (intro exI [of _ "ht_conn t"]) (auto simp: skip_guess_def)
qed

text \<open>The state during a key exchange and after it.\<close>

definition in_kex :: "kex_crypto \<Rightarrow> 'c handshakeTransport \<Rightarrow> 'c handshakeTransport \<Rightarrow> bool" where
  "in_kex cr t t' \<longleftrightarrow>
     (\<exists>c. t' = t\<lparr>ht_conn := c\<rparr> \<and> phase c = Some Exchanging \<and> checked_keys cr (settings t) c)"

lemma in_kex_only: "in_kex cr t t1 \<Longrightarrow> t2 = t1\<lparr>ht_conn := c\<rparr> \<Longrightarrow> kex_only (ht_conn t1) c \<Longrightarrow> in_kex cr t t2"
proof -
  assume a: "in_kex cr t t1" "t2 = t1\<lparr>ht_conn := c\<rparr>" "kex_only (ht_conn t1) c"
  then have "phase c = Some Exchanging" using phase_kex_only [OF a(3)] by (auto simp: in_kex_def)
  moreover have "prepared c = prepared (ht_conn t1)" using a(3) by (simp add: kex_only_def)
  ultimately show ?thesis using a(1,2) by (auto simp: in_kex_def checked_keys_def intro!: exI [of _ c])
qed

definition kex_over :: "kex_crypto \<Rightarrow> 'c handshakeTransport \<Rightarrow> ssh_error option \<times> 'c handshakeTransport \<Rightarrow> bool" where
  "kex_over cr t res \<longleftrightarrow>
     (case res of (err, t') \<Rightarrow>
        \<exists>c. t' = t\<lparr>ht_conn := c\<rparr> \<and> checked_keys cr (settings t) c \<and> (\<exists>ph. phase c = Some ph \<and> (err = None \<longrightarrow> ph = Quiet)))"

lemma kex_over_failed: "in_kex cr t t1 \<Longrightarrow> kex_over cr t (Some e, t1)"
  by (auto simp: in_kex_def kex_over_def)

lemma kex_over_finish:
  assumes "in_kex cr t t1" and "host_checked cr (settings t) res"
  shows "kex_over cr t (finish_kex io algs res t1)"
proof -
  obtain c1 where t1: "t1 = t\<lparr>ht_conn := c1\<rparr>" "phase c1 = Some Exchanging" "checked_keys cr (settings t) c1"
    using assms(1) by (auto simp: in_kex_def)
  obtain err t' where f: "finish_kex io algs res t1 = (err, t')" by fastforce
  show ?thesis
    using finish_kex_phase [OF f] t1 assms(2) unfolding f by (auto simp: kex_over_def checked_keys_def)
qed

lemma enterKeyExchange_over:
  assumes "t_inv cr st t0" and "env_crypto env = cr" and "sendKexInitLocked io (env_cookie env) t0 = (Inr (myInit, myPacket), t)"
  shows "kex_over cr t (enterKeyExchange env io p t0)"
proof -
  have t: "in_kex cr t t" "settings t = st"
    using sendKexInitLocked_inv(1,2) [OF assms(1,3)] by (auto simp: in_kex_def t_inv_def intro!: exI [of _ "ht_conn t"])
  let ?agreed = "\<lambda>i. if ht_hostKeys t = [] then findAgreedAlgorithms myInit i else findAgreedAlgorithms i myInit"
  have "kex_over cr t (case skip_guess io i algs t of
      (Some err, t1) \<Rightarrow> (Some err, t1)
    | (None, t1) \<Rightarrow>
        (case map_of kexAlgoMap (kex algs) of
           None \<Rightarrow> (Some (OtherError ''ssh: unexpected key exchange algorithm''), t1)
         | Some alg \<Rightarrow>
             (let magics = kex_magics t myPacket p
              in case (if ht_hostKeys t \<noteq> [] then hs_server env io alg algs magics t1 else hs_client env io alg algs magics t1) of
                   (Inl err, t2) \<Rightarrow> (Some err, t2)
                 | (Inr result, t2) \<Rightarrow> finish_kex io algs result t2)))" for i algs
  proof -
    obtain e t1 where sg: "skip_guess io i algs t = (e, t1)" by fastforce
    then have t1: "in_kex cr t t1" using skip_guess_only [OF sg] in_kex_only [OF t(1)] by blast
    then have same: "settings t1 = settings t" "ht_hostKeys t1 = ht_hostKeys t" by (auto simp: in_kex_def)
    have m: "kex_over cr t (case x of (Inl err, t2) \<Rightarrow> (Some err, t2) | (Inr result, t2) \<Rightarrow> finish_kex io algs result t2)"
      if x: "x = (if ht_hostKeys t \<noteq> [] then hs_server env io alg algs magics t1 else hs_client env io alg algs magics t1)" for x alg magics
    proof -
      obtain r t2 where r: "x = (r, t2)" by fastforce
      then have "in_kex cr t t2" using x in_kex_only [OF t1] hs_server_only hs_client_only by (metis (full_types))
      moreover have "r = Inr res \<Longrightarrow> host_checked cr (settings t) res" for res
        using x r hs_client_checked [of env alg algs magics t1 res t2] assms(2) same
        by (cases "ht_hostKeys t = []") (auto simp: host_checked_def settings_def)
      ultimately show ?thesis using r by (cases r) (auto intro: kex_over_failed kex_over_finish)
    qed
    show ?thesis
      using sg t1 m [OF refl] by (cases e) (simp_all add: Let_def kex_over_failed split: option.split split del: if_split)
  qed
  then show ?thesis
    using kex_over_failed [OF t(1)] unfolding enterKeyExchange_def assms(3) prod.case sum.case
    by (auto split: sum.split message.split)
qed

lemma after_kex_inv:
  assumes "kex_over cr t (err, t1)" and "settings t = st" and "ht_incoming_closed t \<longrightarrow> writeError t \<noteq> None"
    and "after_kex io err t1 = (r, t')"
  shows "t_inv cr st t'"
proof -
  obtain c ph where c: "t1 = t\<lparr>ht_conn := c\<rparr>" "checked_keys cr st c" "phase c = Some ph" "err = None \<longrightarrow> ph = Quiet"
    using assms(1,2) by (auto simp: kex_over_def)
  show ?thesis
  proof (cases err)
    case None
    then show ?thesis using assms c by (auto simp: after_kex_def t_inv_def)
  next
    case (Some e)
    have "closed (kt_Close io c)" "phase (kt_Close io c) = Some ph" "checked_keys cr st (kt_Close io c)"
      using close_closes [of c] c(2,3) by (simp_all add: phase_def checked_keys_def)
    then show ?thesis using assms(2-4) c(1) Some by (cases ph) (auto simp: after_kex_def t_inv_def)
  qed
qed

lemma enterKeyExchange_inv:
  assumes "t_inv cr st t" and "env_crypto env = cr" and "enterKeyExchange env io p t = (err, t1)" and "after_kex io err t1 = (r, t')"
  shows "t_inv cr st t'"
proof -
  obtain res u where s: "sendKexInitLocked io (env_cookie env) t = (res, u)" by fastforce
  note u = sendKexInitLocked_inv [OF assms(1) s]
  have i: "settings u = st" "ht_incoming_closed u \<longrightarrow> writeError u \<noteq> None" using u(1) by (simp_all add: t_inv_def)
  show ?thesis
  proof (cases res)
    case (Inl e)
    then have e: "err = Some e" "t1 = u" using assms(3) s by (simp_all add: enterKeyExchange_def)
    have "\<exists>ph. phase (ht_conn u) = Some ph" "checked_keys cr st (ht_conn u)" using u(1) by (auto simp: t_inv_def split: option.splits)
    then have "kex_over cr u (err, t1)" using e i(1) by (auto simp: kex_over_def intro!: exI [of _ "ht_conn u"])
    then show ?thesis using after_kex_inv i assms(4) by blast
  next
    case (Inr mp)
    then have "kex_over cr u (err, t1)" using enterKeyExchange_over [OF assms(1,2)] s assms(3) by (metis surj_pair)
    then show ?thesis using after_kex_inv i assms(4) by blast
  qed
qed

lemma t_inv_read: "t_inv cr st t \<Longrightarrow> conn_read io (ht_conn t) = (r, c) \<Longrightarrow> t_inv cr st (t\<lparr>ht_conn := c\<rparr>)"
  using read_keeps [of "ht_conn t" r c] by (auto simp: t_inv_def checked_keys_def phase_def split: option.splits)

lemma t_inv_more [simp]: "t_inv cr st (t\<lparr>readSinceKex := n\<rparr>) = t_inv cr st t" "t_inv cr st (t\<lparr>writtenSinceKex := n\<rparr>) = t_inv cr st t"
  "t_inv cr st (t\<lparr>ht_incoming := q\<rparr>) = t_inv cr st t"
  by (simp_all add: t_inv_def split: option.split)

lemma readOnePacket_inv:
  assumes "t_inv cr st t" and "env_crypto env = cr" and "readOnePacket env io t = (r, t')"
  shows "t_inv cr st t'"
proof -
  obtain e u where q: "(if readSinceKex t > RekeyThreshold (ht_config t) then requestKeyChange io (env_cookie env) t else (None, t)) = (e, u)"
    by fastforce
  have u: "t_inv cr st u"
    using q assms(1) sendKexInitLocked_inv(1) [OF assms(1)]
    by (cases "sendKexInitLocked io (env_cookie env) t") (auto simp: requestKeyChange_def split: if_splits sum.splits)
  obtain p c where c: "conn_read io (ht_conn u) = (p, c)" by fastforce
  note rd = t_inv_read [OF u c]
  show ?thesis
  proof (cases e)
    case (Some x)
    then show ?thesis using u q assms(3) by (simp add: readOnePacket_def)
  next
    case None
    show ?thesis
    proof (cases "\<exists>b bs. p = Inr (b # bs) \<and> b = msgKexInit")
      case True
      let ?u = "u\<lparr>ht_conn := c, readSinceKex := readSinceKex u + word_of_nat (length (projr p))\<rparr>"
      obtain err t1 where k: "enterKeyExchange env io (projr p) ?u = (err, t1)" by fastforce
      have "after_kex io err t1 = (r, t')" using True None q c k assms(3) by (auto simp: readOnePacket_def Let_def)
      moreover have "t_inv cr st ?u" using rd by simp
      ultimately show ?thesis using enterKeyExchange_inv [OF _ assms(2) k] by blast
    next
      case False
      then show ?thesis using None q c rd assms(3) by (auto simp: readOnePacket_def Let_def split: sum.splits list.splits if_splits)
    qed
  qed
qed

lemma readLoop_round_inv:
  assumes "t_inv cr st t" and "env_crypto env = cr" and "readLoop_round env io t = (p, t')"
  shows "t_inv cr st t'"
proof -
  obtain r u where r: "readOnePacket env io t = (r, u)" by fastforce
  note u = readOnePacket_inv [OF assms(1,2) r]
  show ?thesis
  proof (cases r)
    case (Inl e)
    then have "t' = readLoop_end e u" using assms(3) r by (simp add: readLoop_round_def)
    then show ?thesis using u by (auto simp: t_inv_def readLoop_end_def split: option.splits)
  next
    case (Inr q)
    then show ?thesis using assms(3) r u by (auto simp: readLoop_round_def split: if_splits)
  qed
qed

lemma write_begin_inv: "t_inv cr st t \<Longrightarrow> t_inv cr st (write_begin io cookie t)"
  using sendKexInitLocked_inv(1) [of cr st t] by (cases "sendKexInitLocked io cookie t") (auto simp: write_begin_def)

lemma write_finish_inv:
  assumes "t_inv cr st t" and "\<not> write_waits t" and "write_finish io p t = (e, t')"
  shows "t_inv cr st t'"
proof (cases "writeError t")
  case (Some x)
  then show ?thesis using assms(1,3) by (simp add: write_finish_def)
next
  case None
  then have q: "sentInit t = None" using assms(2) unfolding write_waits_def by blast
  then have q: "sentInit t = None" "phase (ht_conn t) = Some Quiet" using assms(1) None by (simp_all add: t_inv_def)
  show ?thesis
  proof (cases "p = [] \<or> hd p = msgKexInit \<or> hd p = msgNewKeys")
    case True
    then show ?thesis using assms(1,3) None by (auto simp: write_finish_def Let_def split: list.splits if_splits)
  next
    case False
    then obtain b bs where p: "p = b # bs" "b \<noteq> msgKexInit" "b \<noteq> msgNewKeys" by (cases p) auto
    obtain c where w: "conn_write io p (ht_conn t) = (e, c)"
      and t': "t' = t\<lparr>writtenSinceKex := writtenSinceKex t + word_of_nat (length p), ht_conn := c\<rparr>"
      using assms(3) None p by (auto simp: write_finish_def Let_def split: prod.splits)
    have "phase c = Some Quiet" using phase_write [OF w] q(2) p by simp
    then show ?thesis using assms(1) q t' write_adds [OF w] None by (auto simp: t_inv_def checked_keys_def)
  qed
qed

lemma hs_step_inv: "hs_step cr io s s' \<Longrightarrow> t_inv cr st (sys_t s) \<Longrightarrow> t_inv cr st (sys_t s')"
proof (induction rule: hs_step.induct)
  case (user_read s r t)
  then show ?case by (auto simp: ht_readPacket_def split: list.splits if_splits)
next
  case (request cookie s e t)
  then show ?case
    using sendKexInitLocked_inv(1) [OF request(2)]
    by (cases "sendKexInitLocked io cookie (sys_t s)") (auto simp: requestKeyChange_def split: sum.splits)
next
  case (close s)
  then show ?case using close_closes [of "ht_conn (sys_t s)"] by (auto simp: t_inv_def checked_keys_def phase_def split: option.splits)
qed (auto intro: readLoop_round_inv write_begin_inv write_finish_inv)

lemma hs_reachable_inv:
  assumes "hs_reachable cr io t0 s" and "t_inv cr st t0"
  shows "t_inv cr st (sys_t s)"
  using assms(1)
proof (induction rule: hs_reachable_induct)
  case start
  then show ?case using assms(2) by (simp add: hs_start_def)
next
  case (step s s')
  then show ?case using hs_step_inv by blast
qed

end

section \<open>The packet transport as connection\<close>

text \<open>
  A packet transport on the bytes that will arrive and a writer; what was sent and prepared is kept
  besides. After \<^verbatim>\<open>Close\<close> reading and writing fail.
\<close>

record net_conn =
  nc_transport :: transport
  nc_in :: "byte list"
  nc_out :: out_writer
  nc_rand :: "byte list"
  nc_closed :: bool
  nc_sent :: "byte list list"
  nc_prepared :: "(algorithms \<times> kexOutcome) list"

fun transport_failure :: "transport_error \<Rightarrow> ssh_error" where
  "transport_failure (CipherFailure cipher_error.EOF) = ssh_error.EOF"
| "transport_failure _ = OtherError ''ssh: transport''"

definition closed_error :: ssh_error where
  "closed_error = OtherError ''use of closed network connection''"

definition net_read :: "net_conn \<Rightarrow> (ssh_error + byte list) \<times> net_conn" where
  "net_read c =
     (if nc_closed c then (Inl closed_error, c)
      else case transport_readPacket (nc_in c) (nc_transport c) of
             (Inl e, r, t) \<Rightarrow> (Inl (transport_failure e), c\<lparr>nc_in := r, nc_transport := t\<rparr>)
           | (Inr p, r, t) \<Rightarrow> (Inr p, c\<lparr>nc_in := r, nc_transport := t\<rparr>))"

definition net_write :: "byte list \<Rightarrow> net_conn \<Rightarrow> ssh_error option \<times> net_conn" where
  "net_write p c =
     (if nc_closed c then (Some closed_error, c)
      else case transport_writePacket (nc_out c) (nc_rand c) p (nc_transport c) of
             (Some e, w, rand, t) \<Rightarrow> (Some (transport_failure e), c\<lparr>nc_out := w, nc_rand := rand, nc_transport := t\<rparr>)
           | (None, w, rand, t) \<Rightarrow> (None, c\<lparr>nc_out := w, nc_rand := rand, nc_transport := t, nc_sent := nc_sent c @ [p]\<rparr>))"

definition net_prepare :: "crypto \<Rightarrow> algorithms \<Rightarrow> kexOutcome \<Rightarrow> net_conn \<Rightarrow> ssh_error option \<times> net_conn" where
  "net_prepare cr algs result c =
     (let c1 = c\<lparr>nc_prepared := nc_prepared c @ [(algs, result)]\<rparr>
      in case prepareKeyChange cr algs (kexResult.truncate result) (nc_transport c) of
           None \<Rightarrow> (Some (OtherError ''blocked''), c1)
         | Some (e, t) \<Rightarrow> (map_option transport_failure e, c1\<lparr>nc_transport := t\<rparr>))"

definition net_io :: "crypto \<Rightarrow> net_conn keyingTransport" where
  "net_io cr = \<lparr>conn_read = net_read, conn_write = net_write, kt_prepareKeyChange = net_prepare cr,
     kt_Close = (\<lambda>c. c\<lparr>nc_closed := True\<rparr>), kt_getSessionID = (\<lambda>c. case sessionID (nc_transport c) of None \<Rightarrow> [] | Some s \<Rightarrow> s)\<rparr>"

interpretation net: recorded_conn "net_io cr" nc_sent nc_prepared nc_closed for cr
proof
  show "conn_read (net_io cr) c = (r, c') \<Longrightarrow> nc_sent c' = nc_sent c \<and> nc_prepared c' = nc_prepared c \<and> nc_closed c' = nc_closed c" for c r c'
    by (auto simp: net_io_def net_read_def split: if_splits prod.splits sum.splits)
  show "conn_write (net_io cr) p c = (e, c') \<Longrightarrow>
    nc_sent c' = nc_sent c @ (if e = None then [p] else []) \<and> nc_prepared c' = nc_prepared c \<and> nc_closed c' = nc_closed c
    \<and> (nc_closed c \<longrightarrow> e \<noteq> None)" for p c e c'
    by (auto simp: net_io_def net_write_def split: if_splits prod.splits option.splits)
  show "kt_prepareKeyChange (net_io cr) a res c = (e, c') \<Longrightarrow>
    nc_sent c' = nc_sent c \<and> nc_prepared c' = nc_prepared c @ [(a, res)] \<and> nc_closed c' = nc_closed c" for a res c e c'
    by (auto simp: net_io_def net_prepare_def Let_def split: prod.splits option.splits)
qed (simp add: net_io_def)

definition new_net :: "bool \<Rightarrow> byte list \<Rightarrow> out_writer \<Rightarrow> byte list \<Rightarrow> net_conn" where
  "new_net isClient r w rand = \<lparr>nc_transport = newTransport isClient, nc_in = r, nc_out = w, nc_rand = rand, nc_closed = False,
     nc_sent = [], nc_prepared = []\<rparr>"

definition fresh_transport :: "net_conn handshakeTransport \<Rightarrow> bool" where
  "fresh_transport t \<longleftrightarrow> nc_sent (ht_conn t) = [] \<and> nc_prepared (ht_conn t) = [] \<and> sentInit t = None \<and> \<not> ht_incoming_closed t"

lemma new_transports_fresh:
  "fresh_transport (newClientTransport (new_net True r w rand) cv sv cf cb algs dial addr)"
  "fresh_transport (newServerTransport (new_net False r w rand) cv sv cf keys)"
  by (simp_all add: fresh_transport_def newClientTransport_def newServerTransport_def newHandshakeTransport_def new_net_def)

lemma fresh_inv: "fresh_transport t \<Longrightarrow> net.t_inv kc (settings t) t"
  by (simp add: fresh_transport_def net.t_inv_def net.phase_def net.checked_keys_def)

lemma net_inv: "fresh_transport t0 \<Longrightarrow> hs_reachable kc (net_io cr) t0 s \<Longrightarrow> net.t_inv kc (settings t0) (sys_t s)"
  using net.hs_reachable_inv fresh_inv by blast

lemma phase_run_between:
  assumes "phase_run Quiet (xs @ k # ys @ p # zs) \<noteq> None" and "hd k = msgKexInit" and "list_all (\<lambda>y. hd y \<noteq> msgNewKeys) ys"
  shows "hd p \<in> {msgNewKeys, 30, 31}"
proof -
  have e: "phase_step Exchanging q = Some ph \<Longrightarrow> hd q \<noteq> msgNewKeys \<Longrightarrow> ph = Exchanging" for q ph
    by (cases q) (auto split: if_splits)
  have run: "phase_run Exchanging (ys @ p # zs) \<noteq> None \<Longrightarrow> list_all (\<lambda>y. hd y \<noteq> msgNewKeys) ys \<Longrightarrow> phase_step Exchanging p \<noteq> None" for ys
  proof (induction ys)
    case (Cons y ys)
    then obtain ph where "phase_step Exchanging y = Some ph" by (auto split: bind_splits)
    with e [OF this] Cons show ?case by simp
  qed (auto split: bind_splits)
  obtain ph where ph: "phase_run Quiet xs = Some ph" "phase_run ph (k # ys @ p # zs) \<noteq> None"
    using assms(1) by (auto simp: phase_run_append split: bind_splits)
  then have "phase_step ph k = Some Exchanging" using assms(2) by (cases ph; cases k) (auto simp: msgKexInit_def msgNewKeys_def split: if_splits)
  then have "phase_step Exchanging p \<noteq> None" using ph(2) run assms(3) by simp
  then show ?thesis by (cases p) (auto split: if_splits)
qed

end
