(* ===== verification/Ssh_Handshake_Agree.thy ===== *)
theory Ssh_Handshake_Agree
  imports Ssh_Handshake_Safe
begin

text \<open>
  A client and a server that run the handshake against each other end it with the same algorithms, the same secret and the same hash, under
  a host key of the server that the client has accepted. The packets of one side are those the other side reads.
\<close>

section \<open>A connection of packets\<close>

record wire_conn = script +
  wc_prepared :: "(algorithms \<times> kexOutcome) list"
  wc_closed :: bool

definition wire_io :: "wire_conn keyingTransport" where
  "wire_io =
     \<lparr>conn_read = (\<lambda>c. if wc_closed c then (Inl closed_error, c)
                       else case inbox c of [] \<Rightarrow> (Inl ssh_error.EOF, c) | p # r \<Rightarrow> (Inr p, c\<lparr>inbox := r\<rparr>)),
      conn_write = (\<lambda>p c. if wc_closed c then (Some closed_error, c) else (None, c\<lparr>outbox := outbox c @ [p]\<rparr>)),
      kt_prepareKeyChange = (\<lambda>a r c. (None, c\<lparr>wc_prepared := wc_prepared c @ [(a, r)]\<rparr>)),
      kt_Close = (\<lambda>c. c\<lparr>wc_closed := True\<rparr>),
      kt_getSessionID = (\<lambda>c. case wc_prepared c of [] \<Rightarrow> [] | (_, r) # _ \<Rightarrow> kex_H r)\<rparr>"

interpretation wire: recorded_conn wire_io outbox wc_prepared wc_closed
  by unfold_locales (auto simp: wire_io_def split: if_splits list.splits)

lemma wire_io_simps:
  "conn_read wire_io \<lparr>inbox = p # ps, outbox = q, wc_prepared = k, wc_closed = False\<rparr> = (Inr p, \<lparr>inbox = ps, outbox = q, wc_prepared = k, wc_closed = False\<rparr>)"
  "conn_write wire_io p \<lparr>inbox = ps, outbox = q, wc_prepared = k, wc_closed = False\<rparr> = (None, \<lparr>inbox = ps, outbox = q @ [p], wc_prepared = k, wc_closed = False\<rparr>)"
  "kt_prepareKeyChange wire_io a r \<lparr>inbox = ps, outbox = q, wc_prepared = k, wc_closed = False\<rparr>
     = (None, \<lparr>inbox = ps, outbox = q, wc_prepared = k @ [(a, r)], wc_closed = False\<rparr>)"
  by (simp_all add: wire_io_def)

definition wire :: "byte list list \<Rightarrow> wire_conn" where
  "wire ps = \<lparr>inbox = ps, outbox = [], wc_prepared = [], wc_closed = False\<rparr>"

section \<open>One key exchange on either side\<close>

text \<open>On any connection: what is read and written in an exchange that succeeds.\<close>

definition finish_talk :: "'c keyingTransport \<Rightarrow> algorithms \<Rightarrow> kexOutcome \<Rightarrow> 'c \<Rightarrow> 'c \<Rightarrow> bool" where
  "finish_talk io algs r c c' \<longleftrightarrow>
     (\<exists>e c1 c2. kt_prepareKeyChange io algs r c = (e, c1) \<and> conn_write io [msgNewKeys] c1 = (None, c2) \<and> conn_read io c2 = (Inr [msgNewKeys], c'))"

lemma finish_kex_talk: "finish_talk io algs r (ht_conn t) c' \<Longrightarrow> finish_kex io algs r t = (None, t\<lparr>ht_conn := c'\<rparr>)"
  by (auto simp: finish_talk_def finish_kex_def)

lemma truncate_conn [simp]: "conn_read (packetConn.truncate io) = conn_read io" "conn_write (packetConn.truncate io) = conn_write io"
  by (simp_all add: packetConn.defs)

lemma client_talks_io:
  "client_talks client init reply r \<Longrightarrow> conn_write io init c = (None, c1) \<Longrightarrow> conn_read io c1 = (Inr reply, c2) \<Longrightarrow>
   client (packetConn.truncate io) c = (Inr r, c2)"
  unfolding client_talks_def by (metis truncate_conn)

lemma server_talks_io:
  "server_talks server init reply r \<Longrightarrow> conn_read io c = (Inr init, c1) \<Longrightarrow> conn_write io reply c1 = (None, c2) \<Longrightarrow>
   server (packetConn.truncate io) c = (Inr r, c2)"
  unfolding server_talks_def by (metis truncate_conn)

text \<open>The client has sent its own message already.\<close>

lemma client_exchange:
  fixes io :: "'c keyingTransport"
  assumes "sentInit t = Some (ci, pci)" and "ht_hostKeys t = []"
    and "conn_write io init (ht_conn t) = (None, c1)" and "conn_read io c1 = (Inr reply, c2)" and "finish_talk io algs r c2 c3"
    and "unmarshal_msg psi N_kexInitMsg = Inr (KexInitMsg si)" and "\<not> FirstKexFollows si" and "findAgreedAlgorithms ci si = Inr algs"
    and "map_of kexAlgoMap (kex algs) = Some alg"
    and "client_talks (\<lambda>io :: 'c packetConn. kex_Client (env_crypto env) alg io (env_rand env) (kex_magics t pci psi)) init reply r"
    and "ParsePublicKey (key_crypto.truncate (env_crypto env)) (kr_HostKey r) = Inr key"
    and "verifyHostKeySignature (key_crypto.truncate (env_crypto env)) key r = None"
    and "case ht_hostKeyCallback t of None \<Rightarrow> True | Some cb \<Rightarrow> cb (ht_dialAddress t) (ht_remoteAddr t) key = None"
  shows "enterKeyExchange env io psi t = (None, t\<lparr>ht_conn := c3\<rparr>)"
proof -
  have "hs_client env io alg algs (kex_magics t pci psi) t = (Inr r, t\<lparr>ht_conn := c2\<rparr>)"
    using assms(11-13) by (cases "ht_hostKeyCallback t") (simp_all add: hs_client_def client_talks_io [OF assms(10,3,4)])
  then show ?thesis
    using assms(1,2,6-9) finish_kex_talk [of io algs r "t\<lparr>ht_conn := c2\<rparr>" c3] assms(5)
    by (simp add: enterKeyExchange_def sendKexInitLocked_def skip_guess_def)
qed

lemma server_exchange:
  fixes io :: "'c keyingTransport"
  assumes "sentInit t = None" and "ht_hostKeys t \<noteq> []" and "kexInit_msg (env_cookie env) t = Some si"
    and "conn_write io (msg_bytes (KexInitMsg si)) (ht_conn t) = (None, c0)" and "conn_read io c0 = (Inr init, c1)"
    and "conn_write io reply c1 = (None, c2)" and "finish_talk io algs r c2 c3"
    and "unmarshal_msg pci N_kexInitMsg = Inr (KexInitMsg ci)" and "\<not> FirstKexFollows ci" and "findAgreedAlgorithms ci si = Inr algs"
    and "map_of kexAlgoMap (kex algs) = Some alg"
    and "fold (\<lambda>k found. if key_Type (PublicKey k) = Some (hostKey algs) then Some k else found) (ht_hostKeys t) None = Some sg"
    and "server_talks (\<lambda>io :: 'c packetConn. kex_Server (env_crypto env) alg io (env_rand env) (kex_magics t (msg_bytes (KexInitMsg si)) pci) sg) init reply r"
  shows "enterKeyExchange env io pci t = (None, t\<lparr>sentInit := Some (si, msg_bytes (KexInitMsg si)), ht_conn := c3\<rparr>)"
proof -
  let ?t = "t\<lparr>ht_conn := c0, sentInit := Some (si, msg_bytes (KexInitMsg si))\<rparr>"
  have "sendKexInitLocked io (env_cookie env) t = (Inr (si, msg_bytes (KexInitMsg si)), ?t)"
    by (simp add: sendKexInitLocked_def Let_def assms(1,3,4))
  moreover have "kex_magics ?t x y = kex_magics t x y" for x y by (simp add: kex_magics_def)
  moreover have "hs_server env io alg algs (kex_magics t (msg_bytes (KexInitMsg si)) pci) ?t = (Inr r, ?t\<lparr>ht_conn := c2\<rparr>)"
    using server_talks_io [OF assms(13,5,6)] by (simp add: hs_server_def assms(12))
  ultimately show ?thesis
    using assms(2,8-11) finish_kex_talk [of io algs r "?t\<lparr>ht_conn := c2\<rparr>" c3] assms(7)
    by (simp add: enterKeyExchange_def skip_guess_def)
qed

section \<open>Both sides\<close>

lemma fold_last_match:
  "fold (\<lambda>k found. if P k then Some k else found) ks None = Some k \<Longrightarrow> k \<in> set ks \<and> P k"
  "(\<exists>k \<in> set ks. P k) \<Longrightarrow> \<exists>k. fold (\<lambda>k found. if P k then Some k else found) ks None = Some k"
proof -
  have "fold (\<lambda>k found. if P k then Some k else found) ks z = (case filter P ks of [] \<Rightarrow> z | _ \<Rightarrow> Some (last (filter P ks)))" for z
    by (induction ks arbitrary: z) (auto split: list.splits)
  then have f: "fold (\<lambda>k found. if P k then Some k else found) ks None = (case filter P ks of [] \<Rightarrow> None | _ \<Rightarrow> Some (last (filter P ks)))" by simp
  show "fold (\<lambda>k found. if P k then Some k else found) ks None = Some k \<Longrightarrow> k \<in> set ks \<and> P k"
    unfolding f using last_in_set [of "filter P ks"] by (auto split: list.splits)
  show "(\<exists>k \<in> set ks. P k) \<Longrightarrow> \<exists>k. fold (\<lambda>k found. if P k then Some k else found) ks None = Some k"
    unfolding f by (auto simp: filter_empty_conv split: list.splits)
qed

text \<open>What the two sides are given: their settings, what they draw, and the messages they start with.\<close>

record session_setup =
  su_clientVersion :: "byte list"
  su_serverVersion :: "byte list"
  su_client_config :: config
  su_server_config :: config
  su_hostKeyAlgorithms :: "byte list list option"
  su_callback :: "hostKeyCallback option"
  su_address :: "byte list"
  su_hostKeys :: "host_signer list"
  su_crypto :: kex_crypto
  su_client_rand :: kex_rand
  su_server_rand :: kex_rand
  su_client_cookie :: "byte list"
  su_server_cookie :: "byte list"

definition su_client :: "session_setup \<Rightarrow> 'c \<Rightarrow> 'c handshakeTransport" where
  "su_client su c = newClientTransport c (su_clientVersion su) (su_serverVersion su) (su_client_config su) (su_callback su)
     (su_hostKeyAlgorithms su) (su_address su) (su_address su)"

definition su_server :: "session_setup \<Rightarrow> 'c \<Rightarrow> 'c handshakeTransport" where
  "su_server su c = newServerTransport c (su_clientVersion su) (su_serverVersion su) (su_server_config su) (su_hostKeys su)"

definition su_client_env :: "session_setup \<Rightarrow> kex_env" where
  "su_client_env su = \<lparr>env_crypto = su_crypto su, env_rand = su_client_rand su, env_cookie = su_client_cookie su\<rparr>"

definition su_server_env :: "session_setup \<Rightarrow> kex_env" where
  "su_server_env su = \<lparr>env_crypto = su_crypto su, env_rand = su_server_rand su, env_cookie = su_server_cookie su\<rparr>"

lemma su_sel [simp]:
  "ht_conn (su_client su c) = c" "sentInit (su_client su c) = None" "ht_hostKeys (su_client su c) = []" "readSinceKex (su_client su c) = 0"
  "ht_hostKeyCallback (su_client su c) = su_callback su" "ht_dialAddress (su_client su c) = su_address su"
  "ht_remoteAddr (su_client su c) = su_address su" "ht_conn (su_server su c) = c" "sentInit (su_server su c) = None"
  "ht_hostKeys (su_server su c) = su_hostKeys su" "readSinceKex (su_server su c) = 0"
  "ht_clientVersion (su_client su c) = su_clientVersion su" "ht_serverVersion (su_client su c) = su_serverVersion su"
  "ht_clientVersion (su_server su c) = su_clientVersion su" "ht_serverVersion (su_server su c) = su_serverVersion su"
  by (simp_all add: su_client_def su_server_def newClientTransport_def newServerTransport_def newHandshakeTransport_def)

lemma kexInit_msg_conn [simp]: "kexInit_msg cookie (t\<lparr>ht_conn := c\<rparr>) = kexInit_msg cookie t" "kexInit_msg cookie (t\<lparr>readSinceKex := n\<rparr>) = kexInit_msg cookie t"
  by (simp_all add: kexInit_msg_def)

lemma su_conn: "su_client su c = (su_client su d)\<lparr>ht_conn := c\<rparr>" "su_server su c = (su_server su d)\<lparr>ht_conn := c\<rparr>"
  by (simp_all add: su_client_def su_server_def newClientTransport_def newServerTransport_def newHandshakeTransport_def)

text \<open>The client asks for a key change and reads; the server reads. Both give what they wrote and prepared, with their answer.\<close>

definition client_side :: "session_setup \<Rightarrow> byte list list \<Rightarrow> (ssh_error + byte list) \<times> byte list list \<times> (algorithms \<times> kexOutcome) list" where
  "client_side su ps =
     (let (_, t) = requestKeyChange wire_io (su_client_cookie su) (su_client su (wire ps));
          (res, t') = readOnePacket (su_client_env su) wire_io t
      in (res, outbox (ht_conn t'), wc_prepared (ht_conn t')))"

definition server_side :: "session_setup \<Rightarrow> byte list list \<Rightarrow> (ssh_error + byte list) \<times> byte list list \<times> (algorithms \<times> kexOutcome) list" where
  "server_side su pc =
     (let (res, t') = readOnePacket (su_server_env su) wire_io (su_server su (wire pc))
      in (res, outbox (ht_conn t'), wc_prepared (ht_conn t')))"

definition kex_init :: "byte list \<Rightarrow> 'c handshakeTransport \<Rightarrow> kexInitMsg \<Rightarrow> bool" where
  "kex_init cookie t i \<longleftrightarrow> kexInit_msg cookie t = Some i \<and> wf_msg (KexInitMsg i) \<and> length (msg_bytes (KexInitMsg i)) < 2 ^ 32"

lemma kex_init_facts:
  assumes "kex_init cookie t i"
  shows "kexInit_msg cookie t = Some i" "unmarshal_msg (msg_bytes (KexInitMsg i)) N_kexInitMsg = Inr (KexInitMsg i)" "\<not> FirstKexFollows i"
    "\<exists>bs. msg_bytes (KexInitMsg i) = msgKexInit # bs"
proof -
  have i: "kexInit_msg cookie t = Some i" "wf_msg (KexInitMsg i)" "length (msg_bytes (KexInitMsg i)) < 2 ^ 32"
    using assms by (simp_all add: kex_init_def)
  show "kexInit_msg cookie t = Some i" by (rule i(1))
  show "unmarshal_msg (msg_bytes (KexInitMsg i)) N_kexInitMsg = Inr (KexInitMsg i)" using unmarshal_msg_bytes [OF i(2,3)] by simp
  show "\<not> FirstKexFollows i" using i(1) by (auto simp: kexInit_msg_def)
  show "\<exists>bs. msg_bytes (KexInitMsg i) = msgKexInit # bs" using kex_msg_tags(5,6) by (metis list.collapse)
qed

lemma agreed_host_key:
  assumes "kexInit_msg cookie t = Some si" and "ht_hostKeys t \<noteq> []" and "findAgreedAlgorithms ci si = Inr algs"
  shows "\<exists>k \<in> set (ht_hostKeys t). key_Type (PublicKey k) = Some (hostKey algs)"
proof -
  have "hostKey algs \<in> set (ServerHostKeyAlgos si)"
    using assms(3) by (auto simp: findAgreedAlgorithms_Inr agreed_algorithms_def agreed_def)
  moreover have "those (map (\<lambda>k. key_Type (PublicKey k)) (ht_hostKeys t)) = Some (ServerHostKeyAlgos si)"
    using assms(1,2) by (auto simp: kexInit_msg_def)
  moreover have "those (map f ks) = Some ns \<Longrightarrow> n \<in> set ns \<Longrightarrow> \<exists>k \<in> set ks. f k = Some n" for f :: "host_signer \<Rightarrow> byte list option" and ks ns n
    by (induction ks arbitrary: ns) (auto split: option.splits)
  ultimately show ?thesis by blast
qed

lemma kex_magics_sel:
  "ht_hostKeys t = [] \<Longrightarrow> kex_magics t a b = \<lparr>hm_clientVersion = ht_clientVersion t, hm_serverVersion = ht_serverVersion t, hm_clientKexInit = a, hm_serverKexInit = b\<rparr>"
  "ht_hostKeys t \<noteq> [] \<Longrightarrow> kex_magics t a b = \<lparr>hm_clientVersion = ht_clientVersion t, hm_serverVersion = ht_serverVersion t, hm_clientKexInit = b, hm_serverKexInit = a\<rparr>"
  by (simp_all add: kex_magics_def)

definition client_run :: "session_setup \<Rightarrow> 'c keyingTransport \<Rightarrow> 'c \<Rightarrow> (ssh_error + byte list) \<times> 'c handshakeTransport" where
  "client_run su io c =
     (let (_, t) = requestKeyChange io (su_client_cookie su) (su_client su c) in readOnePacket (su_client_env su) io t)"

definition server_run :: "session_setup \<Rightarrow> 'c keyingTransport \<Rightarrow> 'c \<Rightarrow> (ssh_error + byte list) \<times> 'c handshakeTransport" where
  "server_run su io c = readOnePacket (su_server_env su) io (su_server su c)"

lemma client_run_talk:
  fixes io :: "'c keyingTransport"
  assumes "kexInit_msg (su_client_cookie su) (su_client su c0) = Some ci"
    and "conn_write io (msg_bytes (KexInitMsg ci)) c0 = (None, c1)" and "conn_read io c1 = (Inr psi, c2)" and "conn_write io i c2 = (None, c3)"
    and "conn_read io c3 = (Inr reply, c4)" and "finish_talk io algs r c4 c5"
    and "unmarshal_msg psi N_kexInitMsg = Inr (KexInitMsg si)" and "\<not> FirstKexFollows si" and "\<exists>bs. psi = msgKexInit # bs"
    and "findAgreedAlgorithms ci si = Inr algs" and "map_of kexAlgoMap (kex algs) = Some alg"
    and "client_talks (\<lambda>io :: 'c packetConn. kex_Client (su_crypto su) alg io (su_client_rand su)
      \<lparr>hm_clientVersion = su_clientVersion su, hm_serverVersion = su_serverVersion su, hm_clientKexInit = msg_bytes (KexInitMsg ci), hm_serverKexInit = psi\<rparr>)
      i reply r"
    and "ParsePublicKey (key_crypto.truncate (su_crypto su)) (kr_HostKey r) = Inr key"
    and "verifyHostKeySignature (key_crypto.truncate (su_crypto su)) key r = None"
    and "case su_callback su of None \<Rightarrow> True | Some cb \<Rightarrow> cb (su_address su) (su_address su) key = None"
  shows "\<exists>t. client_run su io c0 = (Inr [msgNewKeys], t) \<and> ht_conn t = c5"
proof -
  let ?pci = "msg_bytes (KexInitMsg ci)"
  let ?t1 = "(su_client su c0)\<lparr>ht_conn := c1, sentInit := Some (ci, ?pci)\<rparr>"
  let ?t2 = "?t1\<lparr>ht_conn := c2, readSinceKex := word_of_nat (length psi)\<rparr>"
  have q: "requestKeyChange io (su_client_cookie su) (su_client su c0) = (None, ?t1)"
    by (simp add: requestKeyChange_def sendKexInitLocked_def assms(1,2) Let_def)
  have e: "enterKeyExchange (su_client_env su) io psi ?t2 = (None, ?t2\<lparr>ht_conn := c5\<rparr>)"
    by (rule client_exchange [where ?c2.0 = c4 and ?c1.0 = c3 and init = i and reply = reply and ci = ci and pci = ?pci and si = si and alg = alg and key = key])
      (use assms(4-15) in \<open>auto simp: su_client_env_def kex_magics_sel cong: option.case_cong\<close>)
  have "readOnePacket (su_client_env su) io ?t1 = after_kex io None (?t2\<lparr>ht_conn := c5\<rparr>)"
    using e assms(3,9) by (auto simp: readOnePacket_def Let_def)
  then show ?thesis unfolding client_run_def q by (simp add: after_kex_def)
qed

lemma server_run_talk:
  fixes io :: "'c keyingTransport"
  assumes "\<And>c :: 'c. kexInit_msg (su_server_cookie su) (su_server su c) = Some si"
    and "conn_read io c0 = (Inr pci, c1)" and "conn_write io (msg_bytes (KexInitMsg si)) c1 = (None, c2)" and "conn_read io c2 = (Inr i, c3)"
    and "conn_write io reply c3 = (None, c4)" and "finish_talk io algs r c4 c5"
    and "unmarshal_msg pci N_kexInitMsg = Inr (KexInitMsg ci)" and "\<not> FirstKexFollows ci" and "\<exists>bs. pci = msgKexInit # bs"
    and "findAgreedAlgorithms ci si = Inr algs" and "map_of kexAlgoMap (kex algs) = Some alg" and "su_hostKeys su \<noteq> []"
    and "fold (\<lambda>k found. if key_Type (PublicKey k) = Some (hostKey algs) then Some k else found) (su_hostKeys su) None = Some sg"
    and "server_talks (\<lambda>io :: 'c packetConn. kex_Server (su_crypto su) alg io (su_server_rand su)
      \<lparr>hm_clientVersion = su_clientVersion su, hm_serverVersion = su_serverVersion su, hm_clientKexInit = pci, hm_serverKexInit = msg_bytes (KexInitMsg si)\<rparr> sg)
      i reply r"
  shows "\<exists>t. server_run su io c0 = (Inr [msgNewKeys], t) \<and> ht_conn t = c5"
proof -
  let ?t1 = "(su_server su c0)\<lparr>ht_conn := c1, readSinceKex := word_of_nat (length pci)\<rparr>"
  let ?t2 = "?t1\<lparr>sentInit := Some (si, msg_bytes (KexInitMsg si)), ht_conn := c5\<rparr>"
  have e: "enterKeyExchange (su_server_env su) io pci ?t1 = (None, ?t2)"
    by (rule server_exchange [where ?c0.0 = c2 and ?c1.0 = c3 and ?c2.0 = c4 and init = i and reply = reply and ci = ci and alg = alg and sg = sg])
      (use assms in \<open>auto simp: su_server_env_def kex_magics_sel\<close>)
  have "readOnePacket (su_server_env su) io (su_server su c0) = after_kex io None ?t2"
    using e assms(2,9) by (auto simp: readOnePacket_def Let_def)
  then show ?thesis unfolding server_run_def by (simp add: after_kex_def)
qed

lemma client_side_run:
  assumes "\<And>x. kexInit_msg (su_client_cookie su) (su_client su (x :: wire_conn)) = Some ci"
    and "unmarshal_msg psi N_kexInitMsg = Inr (KexInitMsg si)" and "\<not> FirstKexFollows si" and "\<exists>bs. psi = msgKexInit # bs"
    and "findAgreedAlgorithms ci si = Inr algs" and "map_of kexAlgoMap (kex algs) = Some alg"
    and "client_talks (\<lambda>io :: wire_conn packetConn. kex_Client (su_crypto su) alg io (su_client_rand su)
      \<lparr>hm_clientVersion = su_clientVersion su, hm_serverVersion = su_serverVersion su, hm_clientKexInit = msg_bytes (KexInitMsg ci), hm_serverKexInit = psi\<rparr>)
      i reply r"
    and "ParsePublicKey (key_crypto.truncate (su_crypto su)) (kr_HostKey r) = Inr key"
    and "verifyHostKeySignature (key_crypto.truncate (su_crypto su)) key r = None"
    and "case su_callback su of None \<Rightarrow> True | Some cb \<Rightarrow> cb (su_address su) (su_address su) key = None"
  shows "client_side su [psi, reply, [msgNewKeys]] = (Inr [msgNewKeys], [msg_bytes (KexInitMsg ci), i, [msgNewKeys]], [(algs, r)])"
proof -
  let ?c = "\<lambda>ps q. \<lparr>inbox = ps, outbox = q, wc_prepared = [], wc_closed = False\<rparr>" and ?pci = "msg_bytes (KexInitMsg ci)"
  have "\<exists>t. client_run su wire_io (wire [psi, reply, [msgNewKeys]]) = (Inr [msgNewKeys], t)
    \<and> ht_conn t = \<lparr>inbox = [], outbox = [?pci, i, [msgNewKeys]], wc_prepared = [(algs, r)], wc_closed = False\<rparr>"
    by (rule client_run_talk [where ?c1.0 = "?c [psi, reply, [msgNewKeys]] [?pci]" and ?c2.0 = "?c [reply, [msgNewKeys]] [?pci]"
        and ?c3.0 = "?c [reply, [msgNewKeys]] [?pci, i]" and ?c4.0 = "?c [[msgNewKeys]] [?pci, i]" and si = si and alg = alg and key = key])
      (use assms in \<open>auto simp: wire_def wire_io_simps finish_talk_def\<close>)
  then show ?thesis by (auto simp: client_side_def client_run_def split: prod.splits)
qed

lemma server_side_run:
  assumes "\<And>x. kexInit_msg (su_server_cookie su) (su_server su (x :: wire_conn)) = Some si"
    and "unmarshal_msg pci N_kexInitMsg = Inr (KexInitMsg ci)" and "\<not> FirstKexFollows ci" and "\<exists>bs. pci = msgKexInit # bs"
    and "findAgreedAlgorithms ci si = Inr algs" and "map_of kexAlgoMap (kex algs) = Some alg" and "su_hostKeys su \<noteq> []"
    and "fold (\<lambda>k found. if key_Type (PublicKey k) = Some (hostKey algs) then Some k else found) (su_hostKeys su) None = Some sg"
    and "server_talks (\<lambda>io :: wire_conn packetConn. kex_Server (su_crypto su) alg io (su_server_rand su)
      \<lparr>hm_clientVersion = su_clientVersion su, hm_serverVersion = su_serverVersion su, hm_clientKexInit = pci, hm_serverKexInit = msg_bytes (KexInitMsg si)\<rparr> sg)
      i reply r"
  shows "server_side su [pci, i, [msgNewKeys]] = (Inr [msgNewKeys], [msg_bytes (KexInitMsg si), reply, [msgNewKeys]], [(algs, r)])"
proof -
  let ?c = "\<lambda>ps q. \<lparr>inbox = ps, outbox = q, wc_prepared = [], wc_closed = False\<rparr>" and ?psi = "msg_bytes (KexInitMsg si)"
  have "\<exists>t. server_run su wire_io (wire [pci, i, [msgNewKeys]]) = (Inr [msgNewKeys], t)
    \<and> ht_conn t = \<lparr>inbox = [], outbox = [?psi, reply, [msgNewKeys]], wc_prepared = [(algs, r)], wc_closed = False\<rparr>"
    by (rule server_run_talk [where ?c1.0 = "?c [i, [msgNewKeys]] []" and ?c2.0 = "?c [i, [msgNewKeys]] [?psi]"
        and ?c3.0 = "?c [[msgNewKeys]] [?psi]" and ?c4.0 = "?c [[msgNewKeys]] [?psi, reply]" and ci = ci and alg = alg and sg = sg])
      (use assms in \<open>auto simp: wire_def wire_io_simps finish_talk_def\<close>)
  then show ?thesis by (auto simp: server_side_def server_run_def split: prod.splits)
qed

text \<open>
  A client and a server that run their first key exchange against each other, the client asking for it, both read and answer the other's packets
  without an error: there are two sequences of packets, each the output of one side on the other as input, after which both
  sides have prepared the same algorithms and the same keys, and the host key is one of the server's.
\<close>

theorem handshake_agreement:
  assumes "kex_init (su_client_cookie su) (su_client su (wire [])) ci" and "kex_init (su_server_cookie su) (su_server su (wire [])) si"
    and "findAgreedAlgorithms ci si = Inr algs" and "map_of kexAlgoMap (kex algs) = Some alg" and "su_hostKeys su \<noteq> []"
    and "\<And>k. k \<in> set (su_hostKeys su) \<Longrightarrow> host_ok (key_crypto.truncate (su_crypto su)) k"
    and "\<And>k cb. k \<in> set (su_hostKeys su) \<Longrightarrow> su_callback su = Some cb \<Longrightarrow> cb (su_address su) (su_address su) (PublicKey k) = None"
    and "kex_crypto_ok (su_crypto su) base" and "kex_drawn base alg (su_client_rand su)" and "kex_drawn base alg (su_server_rand su)"
  shows "\<exists>pc ps r k. client_side su ps = (Inr [msgNewKeys], pc, [(algs, r)]) \<and> server_side su pc = (Inr [msgNewKeys], ps, [(algs, r)])
    \<and> k \<in> set (su_hostKeys su) \<and> ParsePublicKey (key_crypto.truncate (su_crypto su)) (kr_HostKey r) = Inr (PublicKey k)"
proof -
  let ?pci = "msg_bytes (KexInitMsg ci)" and ?psi = "msg_bytes (KexInitMsg si)"
  note c = kex_init_facts [OF assms(1)] and s = kex_init_facts [OF assms(2)]
  have init: "kexInit_msg (su_client_cookie su) (su_client su x) = Some ci" "kexInit_msg (su_server_cookie su) (su_server su x) = Some si" for x :: wire_conn
    using c(1) s(1) su_conn [of su x "wire []"] kexInit_msg_conn(1) by metis+
  let ?pick = "fold (\<lambda>k found. if key_Type (PublicKey k) = Some (hostKey algs) then Some k else found) (su_hostKeys su) None"
  obtain sg where sg: "?pick = Some sg" "sg \<in> set (su_hostKeys su)"
    using agreed_host_key [OF s(1) _ assms(3)] assms(5) fold_last_match [where P = "\<lambda>k. key_Type (PublicKey k) = Some (hostKey algs)" and ks = "su_hostKeys su"]
    unfolding su_sel by blast
  define m where "m = \<lparr>hm_clientVersion = su_clientVersion su, hm_serverVersion = su_serverVersion su, hm_clientKexInit = ?pci, hm_serverKexInit = ?psi\<rparr>"
  obtain i reply r where t: "client_talks (\<lambda>io :: wire_conn packetConn. kex_Client (su_crypto su) alg io (su_client_rand su) m) i reply r"
    "server_talks (\<lambda>io :: wire_conn packetConn. kex_Server (su_crypto su) alg io (su_server_rand su) m sg) i reply r"
    and v: "ParsePublicKey (key_crypto.truncate (su_crypto su)) (kr_HostKey r) = Inr (PublicKey sg)"
    "verifyHostKeySignature (key_crypto.truncate (su_crypto su)) (PublicKey sg) r = None"
    using kex_talks [OF assms(4,8) assms(6) [OF sg(2)] assms(9,10), of m] by blast
  let ?ps = "[?psi, reply, [msgNewKeys]]" and ?pc = "[?pci, i, [msgNewKeys]]"
  have "client_side su ?ps = (Inr [msgNewKeys], ?pc, [(algs, r)])"
    using c s init(1) t(1) v assms(3,4) assms(7) [OF sg(2)] by (intro client_side_run) (auto simp: m_def split: option.split)
  moreover have "server_side su ?pc = (Inr [msgNewKeys], ?ps, [(algs, r)])"
    using c s init(2) t(2) assms(3-5) sg(1) by (intro server_side_run) (auto simp: m_def)
  ultimately show ?thesis using sg(2) v(1) by blast
qed


section \<open>An example\<close>

definition toy_config :: config where
  "toy_config = \<lparr>Rand = None, RekeyThreshold = 256, KeyExchanges = Some [ascii ''diffie-hellman-group14-sha1''], Ciphers = Some [ascii ''aes128-ctr''],
     MACs = Some [ascii ''hmac-sha1'']\<rparr>"

definition toy_setup :: "byte list list \<Rightarrow> session_setup" where
  "toy_setup algos = \<lparr>su_clientVersion = ascii ''SSH-2.0-Go'', su_serverVersion = ascii ''SSH-2.0-x'', su_client_config = toy_config, su_server_config = toy_config,
     su_hostKeyAlgorithms = Some algos, su_callback = Some (\<lambda>a b k. if k = RSAKey 5 35 then None else Some ssh_error.EOF), su_address = ascii ''h:22'',
     su_hostKeys = [toy_host], su_crypto = toy_kex, su_client_rand = toy_rand 5, su_server_rand = toy_rand 7, su_client_cookie = replicate 16 1,
     su_server_cookie = replicate 16 2\<rparr>"

definition toy_init :: "byte list list \<Rightarrow> byte \<Rightarrow> kexInitMsg" where
  "toy_init algos b = \<lparr>Cookie = replicate 16 b, KexAlgos = [ascii ''diffie-hellman-group14-sha1''], ServerHostKeyAlgos = algos,
     CiphersClientServer = [ascii ''aes128-ctr''], CiphersServerClient = [ascii ''aes128-ctr''], MACsClientServer = [ascii ''hmac-sha1''],
     MACsServerClient = [ascii ''hmac-sha1''], CompressionClientServer = [ascii ''none''], CompressionServerClient = [ascii ''none''],
     LanguagesClientServer = [], LanguagesServerClient = [], FirstKexFollows = False, Reserved = 0\<rparr>"

lemma toy_init_ok:
  assumes "algos = [KeyAlgoRSA] \<or> algos = [KeyAlgoECDSA256]"
  shows "wf_msg (KexInitMsg (toy_init algos b)) \<and> length (msg_bytes (KexInitMsg (toy_init algos b))) < 2 ^ 32"
  using assms by (auto simp: wf_msg_def toy_init_def msg_bytes_eq ascii_def KeyAlgoRSA_def KeyAlgoECDSA256_def comma_def)

lemma toy_client_init: "algos = [KeyAlgoRSA] \<or> algos = [KeyAlgoECDSA256] \<Longrightarrow> kex_init (su_client_cookie (toy_setup algos)) (su_client (toy_setup algos) c) (toy_init algos 1)"
  using toy_init_ok [of algos 1]
  by (simp add: kex_init_def kexInit_msg_def toy_setup_def su_client_def newClientTransport_def newHandshakeTransport_def toy_init_def toy_config_def
    names_def supportedCompressions_def)

lemma toy_server_init: "kex_init (su_server_cookie (toy_setup algos)) (su_server (toy_setup algos) c) (toy_init [KeyAlgoRSA] 2)"
  using toy_init_ok [of "[KeyAlgoRSA]" 2]
  by (simp add: kex_init_def kexInit_msg_def toy_setup_def su_server_def newServerTransport_def newHandshakeTransport_def toy_init_def toy_config_def
    names_def supportedCompressions_def toy_host_def)

definition toy_algs :: "byte list \<Rightarrow> algorithms" where
  "toy_algs h = \<lparr>kex = ascii ''diffie-hellman-group14-sha1'', hostKey = h,
     alg_w = \<lparr>Cipher = ascii ''aes128-ctr'', MAC = ascii ''hmac-sha1'', Compression = ascii ''none''\<rparr>,
     alg_r = \<lparr>Cipher = ascii ''aes128-ctr'', MAC = ascii ''hmac-sha1'', Compression = ascii ''none''\<rparr>\<rparr>"

lemma toy_agreed: "findAgreedAlgorithms (toy_init [h] 1) (toy_init [h] 2) = Inr (toy_algs h)"
  by (simp add: findAgreedAlgorithms_def toy_init_def toy_algs_def)

lemma toy_alg: "map_of kexAlgoMap (kex (toy_algs h)) = Some (DhGroup \<lparr>dh_g = 2, dh_p = group14_p\<rparr>)"
  by (simp add: kexAlgoMap_def toy_algs_def ascii_def)

lemma toy_drawn: "x = 5 \<or> x = 7 \<Longrightarrow> kex_drawn (\<lambda>_ _. (1, 1)) (DhGroup \<lparr>dh_g = 2, dh_p = group14_p\<rparr>) (toy_rand x)"
  by (auto simp: dh_drawn_def toy_rand_def group14_p_def)

lemma toy_setup_sel:
  "su_hostKeys (toy_setup a) = [toy_host]" "su_crypto (toy_setup a) = toy_kex" "su_client_rand (toy_setup a) = toy_rand 5" "su_server_rand (toy_setup a) = toy_rand 7"
  "su_callback (toy_setup a) = Some cb \<Longrightarrow> cb (su_address (toy_setup a)) (su_address (toy_setup a)) (PublicKey toy_host) = None"
  by (auto simp: toy_setup_def toy_host_def)

theorem handshake_agreement_witness:
  "\<exists>pc ps r. client_side (toy_setup [KeyAlgoRSA]) ps = (Inr [msgNewKeys], pc, [(toy_algs KeyAlgoRSA, r)])
    \<and> server_side (toy_setup [KeyAlgoRSA]) pc = (Inr [msgNewKeys], ps, [(toy_algs KeyAlgoRSA, r)])"
proof -
  let ?su = "toy_setup [KeyAlgoRSA]"
  have "\<exists>pc ps r k. client_side ?su ps = (Inr [msgNewKeys], pc, [(toy_algs KeyAlgoRSA, r)])
    \<and> server_side ?su pc = (Inr [msgNewKeys], ps, [(toy_algs KeyAlgoRSA, r)])
    \<and> k \<in> set (su_hostKeys ?su) \<and> ParsePublicKey (key_crypto.truncate (su_crypto ?su)) (kr_HostKey r) = Inr (PublicKey k)"
    by (rule handshake_agreement [OF toy_client_init toy_server_init toy_agreed toy_alg, where base = "\<lambda>_ _. (1, 1)"])
      (simp_all add: toy_setup_sel toy_host_ok toy_kex_ok toy_drawn del: kex_drawn.simps)
  then show ?thesis by blast
qed


end
