(* ===== verification/Ssh_Transport_Link.thy ===== *)
theory Ssh_Transport_Link
  imports Ssh_Transport
begin

text \<open>
  Two transports facing each other. The link of the ciphers lifts to connections with sequence
  numbers and key changes, the keys both ends derive fit together, and so a client and a server
  deliver all packets, in both directions, before, across and after changes of keys.
\<close>

section \<open>Connections\<close>

text \<open>The writing end of one side and the reading end of the other.\<close>

definition cs_paired :: "('c \<Rightarrow> 'c \<Rightarrow> bool) \<Rightarrow> 'c connectionState \<Rightarrow> 'c connectionState \<Rightarrow> bool" where
  "cs_paired paired a b \<longleftrightarrow>
     paired (cs_packetCipher a) (cs_packetCipher b) \<and> cs_seqNum a = cs_seqNum b \<and> cs_dir a = cs_dir b
   \<and> rel_option paired (pendingKeyChange a) (pendingKeyChange b)"

context packet_link
begin

text \<open>One packet over a connection, also one that changes the keys.\<close>

lemma conn_link:
  assumes "cs_paired paired a b" and "packet \<noteq> []" and "length packet + 20 \<le> maxPacket" and "32 \<le> length rand"
    and "room w = None" and "\<not> flush_fails w" and "hd packet = msgNewKeys \<longrightarrow> pendingKeyChange a \<noteq> None"
  shows "\<exists>bytes n a' b'. cs_writePacket pc_write w rand packet a = (None, w\<lparr>written := written w @ bytes\<rparr>, drop n rand, a') \<and> n \<le> 32
    \<and> (\<forall>rest. cs_readPacket pc_read (bytes @ rest) b = (Inr packet, rest, b')) \<and> cs_paired paired a' b'
    \<and> pendingKeyChange a' = (if hd packet = msgNewKeys then None else pendingKeyChange a)"
proof -
  have p: "paired (cs_packetCipher a) (cs_packetCipher b)" "cs_seqNum b = cs_seqNum a"
    using assms(1) by (auto simp: cs_paired_def)
  obtain bytes n c c' where l:
    "pc_write (cs_seqNum a) w rand packet (cs_packetCipher a) = (None, w\<lparr>written := written w @ bytes\<rparr>, drop n rand, c)"
    "\<And>rest. pc_read (cs_seqNum a) (bytes @ rest) (cs_packetCipher b) = (Inr packet, rest, c')" "paired c c'" "n \<le> 32"
    using link [OF p(1) assms(2-5), of "cs_seqNum a"] by blast
  obtain x xs where pk: "packet = x # xs" using assms(2) by (cases packet) auto
  show ?thesis
  proof (cases "x = msgNewKeys")
    case False
    let ?a = "a\<lparr>cs_packetCipher := c, cs_seqNum := cs_seqNum a + 1\<rparr>" and ?b = "b\<lparr>cs_packetCipher := c', cs_seqNum := cs_seqNum b + 1\<rparr>"
    show ?thesis
      using False l p assms(1,6) pk
      by (intro exI [of _ bytes] exI [of _ n] exI [of _ ?a] exI [of _ ?b]) (auto simp: cs_writePacket_def cs_readPacket_def cs_paired_def Let_def)
  next
    case True
    then obtain d d' where d: "pendingKeyChange a = Some d" "pendingKeyChange b = Some d'" "paired d d'"
      using assms(1,7) pk by (auto simp: cs_paired_def option_rel_Some1)
    let ?a = "a\<lparr>cs_packetCipher := d, cs_seqNum := cs_seqNum a + 1, pendingKeyChange := None\<rparr>"
      and ?b = "b\<lparr>cs_packetCipher := d', cs_seqNum := cs_seqNum b + 1, pendingKeyChange := None\<rparr>"
    show ?thesis
      using True d l p assms(1,6) pk
      by (intro exI [of _ bytes] exI [of _ n] exI [of _ ?a] exI [of _ ?b]) (auto simp: cs_writePacket_def cs_readPacket_def cs_paired_def Let_def)
  qed
qed

end

section \<open>All ciphers\<close>

fun pc_paired :: "packetCipher \<Rightarrow> packetCipher \<Rightarrow> bool" where
  "pc_paired (PcStream a) (PcStream b) = spc_paired a b"
| "pc_paired (PcGcm a) (PcGcm b) = gcm_paired a b"
| "pc_paired (PcCbc a) (PcCbc b) = cbc_paired a b"
| "pc_paired _ _ = False"

lemma pc_link:
  assumes "pc_paired a b" and "packet \<noteq> []" and "length packet + 20 \<le> maxPacket" and "32 \<le> length rand" and "room w = None"
  shows "\<exists>bytes n a' b'. pc_writePacket seqNum w rand packet a = (None, w\<lparr>written := written w @ bytes\<rparr>, drop n rand, a')
        \<and> n \<le> 32 \<and> (\<forall>rest. pc_readPacket seqNum (bytes @ rest) b = (Inr packet, rest, b')) \<and> pc_paired a' b'"
  using assms(1)
proof (cases "(a, b)" rule: pc_paired.cases)
  case (1 x y)
  then have "spc_paired x y" using assms(1) by simp
  from spc.link [OF this assms(2-5), of seqNum] obtain bytes n x' y' where
    "spc_writePacket seqNum w rand packet x = (None, w\<lparr>written := written w @ bytes\<rparr>, drop n rand, x')"
    "n \<le> 32" "\<And>rest. spc_readPacket seqNum (bytes @ rest) y = (Inr packet, rest, y')" "spc_paired x' y'" by blast
  then show ?thesis
    using 1 by (intro exI [of _ bytes] exI [of _ n] exI [of _ "PcStream x'"] exI [of _ "PcStream y'"])
      (simp add: wrap_read_def wrap_write_def)
next
  case (2 x y)
  then have "gcm_paired x y" using assms(1) by simp
  from gcm.link [OF this assms(2-5), of seqNum] obtain bytes n x' y' where
    "gcm_writePacket seqNum w rand packet x = (None, w\<lparr>written := written w @ bytes\<rparr>, drop n rand, x')"
    "n \<le> 32" "\<And>rest. gcm_readPacket seqNum (bytes @ rest) y = (Inr packet, rest, y')" "gcm_paired x' y'" by blast
  then show ?thesis
    using 2 by (intro exI [of _ bytes] exI [of _ n] exI [of _ "PcGcm x'"] exI [of _ "PcGcm y'"])
      (simp add: wrap_read_def wrap_write_def)
next
  case (3 x y)
  then have "cbc_paired x y" using assms(1) by simp
  from cbc.link [OF this assms(2-5), of seqNum] obtain bytes n x' y' where
    "cbc_writePacket seqNum w rand packet x = (None, w\<lparr>written := written w @ bytes\<rparr>, drop n rand, x')"
    "n \<le> 32" "\<And>rest. cbc_readPacket seqNum (bytes @ rest) y = (Inr packet, rest, y')" "cbc_paired x' y'" by blast
  then show ?thesis
    using 3 by (intro exI [of _ bytes] exI [of _ n] exI [of _ "PcCbc x'"] exI [of _ "PcCbc y'"])
      (simp add: wrap_read_def wrap_write_def)
qed auto

interpretation pc: packet_link pc_writePacket pc_readPacket pc_paired
  by unfold_locales (rule pc_link)

section \<open>Keys\<close>

text \<open>The derivation of RFC 4253, section 7.2: the first \<open>m\<close> blocks.\<close>

fun rfc_blocks :: "kexResult \<Rightarrow> byte list \<Rightarrow> nat \<Rightarrow> byte list" where
  "rfc_blocks r tag 0 = []"
| "rfc_blocks r tag (Suc m) =
     rfc_blocks r tag m @
     kex_Hash r (kex_K r @ kex_H r @ (if m = 0 then tag @ SessionID r else rfc_blocks r tag m))"

lemma rfc_blocks_length: "(\<And>x. kex_Hash r x \<noteq> []) \<Longrightarrow> m \<le> length (rfc_blocks r tag m)"
proof (induction m)
  case (Suc m)
  have "1 \<le> length (kex_Hash r x)" for x using Suc.prems [of x] by (cases "kex_Hash r x") auto
  from add_le_mono [OF Suc.IH [OF Suc.prems] this] show ?case by simp
qed simp

lemma rfc_blocks_eq_Nil: "(\<And>x. kex_Hash r x \<noteq> []) \<Longrightarrow> rfc_blocks r tag m = [] \<longleftrightarrow> m = 0"
  using rfc_blocks_length [of r m tag] by (cases m) auto

lemma key_material_rfc:
  assumes "\<And>x. kex_Hash r x \<noteq> []"
  shows "\<exists>k \<ge> m. key_material r tag n (rfc_blocks r tag m) = Some (take n (drop (length (rfc_blocks r tag m)) (rfc_blocks r tag k)))
    \<and> length (rfc_blocks r tag m) + n \<le> length (rfc_blocks r tag k)"
proof (induction n arbitrary: m rule: less_induct)
  case (less n)
  show ?case
  proof (cases "n = 0")
    case True
    then show ?thesis by (intro exI [of _ m]) (simp add: key_material.simps)
  next
    case False
    let ?ds = "rfc_blocks r tag m"
    define digest where "digest = kex_Hash r (kex_K r @ kex_H r @ (if ?ds = [] then tag @ SessionID r else ?ds))"
    have s: "rfc_blocks r tag (Suc m) = ?ds @ digest"
      by (simp add: digest_def rfc_blocks_eq_Nil [OF assms] del: rfc_blocks.simps(1))
    have dg: "digest \<noteq> []" using assms by (simp add: digest_def)
    let ?n = "n - length (take n digest)"
    have km: "key_material r tag n ?ds =
      Option.bind (key_material r tag ?n (if ?n > 0 then ?ds @ digest else ?ds)) (\<lambda>out. Some (take n digest @ out))"
      using False by (subst key_material.simps) (simp add: Let_def digest_def)
    show ?thesis
    proof (cases "?n = 0")
      case True
      then show ?thesis
        using km s by (intro exI [of _ "Suc m"]) (simp add: key_material.simps [of r tag 0])
    next
      case long: False
      then have ln: "length (take n digest) = length digest" "take n digest = digest" by auto
      have "?n < n" using False dg by (simp add: length_greater_0_conv [symmetric] del: length_greater_0_conv)
      from less [OF this, of "Suc m"] obtain k where k: "Suc m \<le> k"
        "key_material r tag ?n (?ds @ digest) = Some (take ?n (drop (length (?ds @ digest)) (rfc_blocks r tag k)))"
        "length (?ds @ digest) + ?n \<le> length (rfc_blocks r tag k)" unfolding s by blast
      have "\<exists>z. rfc_blocks r tag k = rfc_blocks r tag (Suc m) @ z" using k(1)
      proof (induction rule: dec_induct)
        case (step i)
        then show ?case by auto
      qed simp
      then obtain z where "rfc_blocks r tag k = (?ds @ digest) @ z" unfolding s by blast
      then show ?thesis using km k long ln by (intro exI [of _ k]) (auto simp: take_append)
    qed
  qed
qed

lemma generateKeyMaterial_total:
  assumes "\<And>x. kex_Hash r x \<noteq> []"
  shows "\<exists>out. generateKeyMaterial n tag r = Some out \<and> length out = n"
  using key_material_rfc [of r 0 tag n, OF assms] by (auto simp: generateKeyMaterial_def)

text \<open>What the development asks of the primitives.\<close>

definition crypto_ok :: "crypto \<Rightarrow> bool" where
  "crypto_ok cr \<longleftrightarrow>
     (\<forall>key. block_ok (c_aes cr key) (c_aes_inv cr key))
   \<and> (\<forall>key iv p ad. c_open cr key iv (c_seal cr key iv p ad) ad = Some p \<and> length (c_seal cr key iv p ad) = length p + gcmTagSize)
   \<and> (\<forall>key x. length (c_hmac_sha1 cr key x) = 20) \<and> (\<forall>key x. length (c_hmac_sha256 cr key x) = 32)"

definition supported :: "directionAlgorithms \<Rightarrow> bool" where
  "supported a \<longleftrightarrow> Cipher a \<in> fst ` set cipherModes \<and> MAC a \<in> fst ` set macModes"

lemma cipherModes_entry:
  assumes "map_of cipherModes name = Some cm"
  shows "ivSize cm \<in> {0, 12, 16} \<and> keySize cm \<in> {16, 24, 32}
    \<and> (name = aes128cbcID \<longrightarrow> ivSize cm = 16)
    \<and> (name \<noteq> gcmCipherID \<and> name \<noteq> aes128cbcID \<longrightarrow> createFunc cm = Some newAESCTR \<or> createFunc cm = Some newRC4)"
  using assms unfolding cipherModes_def
  by (auto simp: aes_BlockSize_def gcmCipherID_def aes128cbcID_def ascii_def split: if_splits)

lemma macModes_entry:
  assumes "map_of macModes name = Some mm" "crypto_ok cr"
  shows "mac_ok (Some (mac_new mm cr key))"
  using assms unfolding macModes_def
  by (auto simp: mac_ok_def crypto_ok_def truncatingMAC_def split: if_splits)

lemma createStream_total:
  assumes "map_of cipherModes name = Some cm" "name \<noteq> gcmCipherID" "name \<noteq> aes128cbcID"
    and "length key = keySize cm" "length iv = ivSize cm"
  shows "\<exists>s. createStream cr cm key iv = Inr s"
  using cipherModes_entry [OF assms(1)] assms(2-5)
  by (auto simp: createStream_def newAESCTR_def newRC4_def aes_key_def)

lemma newPacketCipher_paired:
  assumes "crypto_ok cr" "supported algs" "\<And>x. kex_Hash r x \<noteq> []"
  shows "\<exists>c. newPacketCipher cr d algs r = Some (Inr c) \<and> pc_paired c c"
proof -
  obtain cm mm where t: "map_of cipherModes (Cipher algs) = Some cm" "map_of macModes (MAC algs) = Some mm"
    using assms(2) by (cases "map_of cipherModes (Cipher algs)"; cases "map_of macModes (MAC algs)")
      (auto simp: supported_def map_of_eq_None_iff)
  obtain iv key mk where k: "generateKeys d algs r = Some (Inr (iv, key, mk))" "length iv = ivSize cm" "length key = keySize cm"
  proof -
    obtain iv key mk where "generateKeyMaterial (ivSize cm) (ivTag d) r = Some iv" "length iv = ivSize cm"
      "generateKeyMaterial (keySize cm) (keyTag d) r = Some key" "length key = keySize cm"
      "generateKeyMaterial (mac_keySize mm) (macKeyTag d) r = Some mk"
      using generateKeyMaterial_total [OF assms(3)] by metis
    then show ?thesis using that t by (simp add: generateKeys_def)
  qed
  note e = cipherModes_entry [OF t(1)]
  define mac where "mac = mac_new mm cr mk"
  have m: "mac_ok (Some mac)" using macModes_entry [OF t(2) assms(1)] by (simp add: mac_def)
  have n: "newPacketCipher cr d algs r = Some
      (if Cipher algs = gcmCipherID then newGCMCipher cr iv key
       else if Cipher algs = aes128cbcID then newAESCBCCipher cr iv key mac
       else (case createStream cr cm key iv of Inl e \<Rightarrow> Inl e | Inr s \<Rightarrow> Inr (PcStream \<lparr>spc_mac = Some mac, spc_cipher = s\<rparr>)))"
    unfolding mac_def newPacketCipher_def using k(1) t by (simp add: Let_def)
  have ak: "aes_key key" using e k(3) by (auto simp: aes_key_def)
  consider "Cipher algs = gcmCipherID" | "Cipher algs = aes128cbcID" "Cipher algs \<noteq> gcmCipherID"
    | "Cipher algs \<noteq> gcmCipherID" "Cipher algs \<noteq> aes128cbcID" by blast
  then show ?thesis
  proof cases
    case 1
    then show ?thesis using n ak assms(1) by (simp add: newGCMCipher_def gcm_paired_def aead_ok_def crypto_ok_def)
  next
    case 2
    then show ?thesis
      using n ak assms(1) m e k(2) by (simp add: newAESCBCCipher_def cbc_paired_def crypto_ok_def aes_BlockSize_def)
  next
    case 3
    then show ?thesis
      using n m createStream_total [OF t(1) 3 k(3,2), of cr] by (auto simp: spc_paired_def)
  qed
qed

section \<open>A client and a server\<close>

text \<open>What happens on a connection: both ends prepare new keys, or one end sends a packet, with its padding bytes.\<close>

datatype link_op =
  Rekey algorithms kexResult
| ClientSends "byte list" "byte list"
| ServerSends "byte list" "byte list"

text \<open>A packet from one transport to the other; \<open>None\<close> if an end reports an error or a byte is left over.\<close>

definition deliver :: "byte list \<Rightarrow> byte list \<Rightarrow> transport \<Rightarrow> transport \<Rightarrow> (byte list \<times> transport \<times> transport) option" where
  "deliver rand packet t u =
     (case transport_writePacket \<lparr>written = [], room = None, flush_fails = False\<rparr> rand packet t of
        (None, w, _, t') \<Rightarrow>
          (case transport_readPacket (written w) u of (Inr q, [], u') \<Rightarrow> Some (q, t', u') | _ \<Rightarrow> None)
      | _ \<Rightarrow> None)"

fun run_link :: "crypto \<Rightarrow> link_op list \<Rightarrow> transport \<Rightarrow> transport \<Rightarrow> byte list list option" where
  "run_link cr [] c s = Some []"
| "run_link cr (Rekey a r # ops) c s =
     (case (prepareKeyChange cr a r c, prepareKeyChange cr a r s) of
        (Some (None, c'), Some (None, s')) \<Rightarrow> run_link cr ops c' s' | _ \<Rightarrow> None)"
| "run_link cr (ClientSends rand p # ops) c s =
     (case deliver rand p c s of
        Some (q, c', s') \<Rightarrow> map_option (\<lambda>qs. q # qs) (run_link cr ops c' s') | None \<Rightarrow> None)"
| "run_link cr (ServerSends rand p # ops) c s =
     (case deliver rand p s c of
        Some (q, s', c') \<Rightarrow> map_option (\<lambda>qs. q # qs) (run_link cr ops c' s') | None \<Rightarrow> None)"

fun payloads :: "link_op list \<Rightarrow> byte list list" where
  "payloads [] = []"
| "payloads (Rekey a r # ops) = payloads ops"
| "payloads (ClientSends rand p # ops) = p # payloads ops"
| "payloads (ServerSends rand p # ops) = p # payloads ops"

definition sendable :: "byte list \<Rightarrow> byte list \<Rightarrow> bool" where
  "sendable rand p \<longleftrightarrow> p \<noteq> [] \<and> length p + 20 \<le> maxPacket \<and> 32 \<le> length rand"

definition hash_ok :: "kexResult \<Rightarrow> bool" where
  "hash_ok r \<longleftrightarrow> (\<forall>x. kex_Hash r x \<noteq> [])"

text \<open>
  The order of the protocol: keys are prepared when none are pending, and \<^verbatim>\<open>msgNewKeys\<close> is sent
  once by each side after that. \<open>pc\<close> and \<open>ps\<close> say whether client and server have still to send it. Both
  directions have the same algorithms.
\<close>

fun ops_ok :: "bool \<Rightarrow> bool \<Rightarrow> link_op list \<Rightarrow> bool" where
  "ops_ok pc ps [] = True"
| "ops_ok pc ps (Rekey a r # ops) =
     (\<not> pc \<and> \<not> ps \<and> supported (alg_w a) \<and> alg_r a = alg_w a \<and> hash_ok r \<and> ops_ok True True ops)"
| "ops_ok pc ps (ClientSends rand p # ops) =
     (sendable rand p \<and> (hd p = msgNewKeys \<longrightarrow> pc) \<and> ops_ok (pc \<and> hd p \<noteq> msgNewKeys) ps ops)"
| "ops_ok pc ps (ServerSends rand p # ops) =
     (sendable rand p \<and> (hd p = msgNewKeys \<longrightarrow> ps) \<and> ops_ok pc (ps \<and> hd p \<noteq> msgNewKeys) ops)"

definition mirrored :: "bool \<Rightarrow> bool \<Rightarrow> transport \<Rightarrow> transport \<Rightarrow> bool" where
  "mirrored pc ps c s \<longleftrightarrow>
     cs_paired pc_paired (t_writer c) (t_reader s) \<and> cs_paired pc_paired (t_writer s) (t_reader c)
   \<and> sessionID c = sessionID s
   \<and> (pendingKeyChange (t_writer c) \<noteq> None) = pc \<and> (pendingKeyChange (t_writer s) \<noteq> None) = ps"

lemma mirrored_sym: "mirrored pc ps c s \<Longrightarrow> mirrored ps pc s c"
  by (auto simp: mirrored_def)

lemma mirrored_new: "mirrored False False (newTransport True) (newTransport False)"
  by (simp add: mirrored_def newTransport_def cs_paired_def Let_def plain_cipher_def spc_paired_def mac_ok_def)

lemma deliver_mirrored:
  assumes "mirrored pc ps c s" and "sendable rand p" and "hd p = msgNewKeys \<longrightarrow> pc"
  shows "\<exists>c' s'. deliver rand p c s = Some (p, c', s') \<and> mirrored (pc \<and> hd p \<noteq> msgNewKeys) ps c' s'"
proof -
  let ?w = "\<lparr>written = [], room = None, flush_fails = False\<rparr>"
  have m: "cs_paired pc_paired (t_writer c) (t_reader s)" "hd p = msgNewKeys \<longrightarrow> pendingKeyChange (t_writer c) \<noteq> None"
    using assms by (auto simp: mirrored_def)
  have p: "p \<noteq> []" "length p + 20 \<le> maxPacket" "32 \<le> length rand" using assms(2) by (auto simp: sendable_def)
  obtain bytes rand' a b where l:
    "cs_writePacket pc_writePacket ?w rand p (t_writer c) = (None, ?w\<lparr>written := written ?w @ bytes\<rparr>, rand', a)"
    "\<And>rest. cs_readPacket pc_readPacket (bytes @ rest) (t_reader s) = (Inr p, rest, b)" "cs_paired pc_paired a b"
    "pendingKeyChange a = (if hd p = msgNewKeys then None else pendingKeyChange (t_writer c))"
    using pc.conn_link [OF m(1) p, of ?w] m(2) by fastforce
  have "deliver rand p c s = Some (p, c\<lparr>t_writer := a\<rparr>, s\<lparr>t_reader := b\<rparr>)"
    using l(1) l(2) [of "[]"] by (simp add: deliver_def transport_writePacket_def transport_readPacket_def)
  moreover have "mirrored (pc \<and> hd p \<noteq> msgNewKeys) ps (c\<lparr>t_writer := a\<rparr>) (s\<lparr>t_reader := b\<rparr>)"
    using assms(1) l(3,4) by (auto simp: mirrored_def)
  ultimately show ?thesis by blast
qed

lemma prepare_mirrored:
  assumes "mirrored False False c s" and "crypto_ok cr" and "supported (alg_w a)" and "alg_r a = alg_w a" and "hash_ok r"
  shows "\<exists>c' s'. prepareKeyChange cr a r c = Some (None, c') \<and> prepareKeyChange cr a r s = Some (None, s') \<and> mirrored True True c' s'"
proof -
  define sid where "sid = (case sessionID c of None \<Rightarrow> kex_H r | Some x \<Rightarrow> x)"
  let ?r = "r\<lparr>SessionID := sid\<rparr>"
  have pr: "cs_paired pc_paired (t_writer c) (t_reader s)" "cs_paired pc_paired (t_writer s) (t_reader c)"
    "sessionID s = sessionID c" "pendingKeyChange (t_writer c) = None" "pendingKeyChange (t_writer s) = None"
    using assms(1) by (auto simp: mirrored_def)
  then have none: "pendingKeyChange (t_reader c) = None" "pendingKeyChange (t_reader s) = None"
    "cs_dir (t_reader s) = cs_dir (t_writer c)" "cs_dir (t_reader c) = cs_dir (t_writer s)"
    by (auto simp: cs_paired_def)
  have "kex_Hash ?r x \<noteq> []" for x using assms(5) by (simp add: hash_ok_def)
  note np = newPacketCipher_paired [OF assms(2,3) this]
  obtain k1 k2 where k: "newPacketCipher cr (cs_dir (t_writer c)) (alg_w a) ?r = Some (Inr k1)" "pc_paired k1 k1"
    "newPacketCipher cr (cs_dir (t_writer s)) (alg_w a) ?r = Some (Inr k2)" "pc_paired k2 k2"
    using np [of "cs_dir (t_writer c)"] np [of "cs_dir (t_writer s)"] by blast
  let ?c = "c\<lparr>sessionID := Some sid, t_reader := (t_reader c)\<lparr>pendingKeyChange := Some k2\<rparr>, t_writer := (t_writer c)\<lparr>pendingKeyChange := Some k1\<rparr>\<rparr>"
  let ?s = "s\<lparr>sessionID := Some sid, t_reader := (t_reader s)\<lparr>pendingKeyChange := Some k1\<rparr>, t_writer := (t_writer s)\<lparr>pendingKeyChange := Some k2\<rparr>\<rparr>"
  have "prepareKeyChange cr a r c = Some (None, ?c)"
    unfolding prepareKeyChange_def Let_def sid_def [symmetric] using k none pr assms(4) by (simp add: put_pending_def)
  moreover have "prepareKeyChange cr a r s = Some (None, ?s)"
    unfolding prepareKeyChange_def Let_def pr(3) sid_def [symmetric] using k none pr assms(4) by (simp add: put_pending_def)
  moreover have "mirrored True True ?c ?s" using pr k by (auto simp: mirrored_def cs_paired_def)
  ultimately show ?thesis by blast
qed

lemma run_link_mirrored:
  assumes "crypto_ok cr" and "mirrored pc ps c s" and "ops_ok pc ps ops"
  shows "run_link cr ops c s = Some (payloads ops)"
  using assms(2,3)
proof (induction pc ps ops arbitrary: c s rule: ops_ok.induct)
  case (2 pc ps a r ops)
  from "2.prems" have m: "mirrored False False c s" "supported (alg_w a)" "alg_r a = alg_w a" "hash_ok r" by auto
  from prepare_mirrored [OF m(1) assms(1) m(2-4)] show ?case using "2.IH" "2.prems"(2) by auto
next
  case (3 pc ps rand p ops)
  then show ?case using deliver_mirrored [OF "3.prems"(1), of rand p] by auto
next
  case (4 pc ps rand p ops)
  then show ?case
    using deliver_mirrored [OF mirrored_sym [OF "4.prems"(1)], of rand p] mirrored_sym [of "ps \<and> hd p \<noteq> msgNewKeys" pc] by fastforce
qed simp


definition toy_crypto :: crypto where
  "toy_crypto = \<lparr>c_ctr = (\<lambda>key iv i. of_nat i), c_rc4 = (\<lambda>key i. of_nat (3 * i)), c_aes = (\<lambda>key. rev), c_aes_inv = (\<lambda>key. rev),
     c_seal = (\<lambda>key iv p ad. p @ replicate 16 1), c_open = (\<lambda>key iv c ad. Some (take (length c - 16) c)),
     c_hmac_sha1 = (\<lambda>key x. replicate 20 2), c_hmac_sha256 = (\<lambda>key x. replicate 32 3)\<rparr>"

definition demo_alg :: "string \<Rightarrow> algorithms" where
  "demo_alg cipher = (let d = \<lparr>Cipher = ascii cipher, MAC = ascii ''hmac-sha1-96'', Compression = []\<rparr>
     in \<lparr>kex = [], hostKey = [], alg_w = d, alg_r = d\<rparr>)"

definition demo_kex :: kexResult where
  "demo_kex = \<lparr>kex_H = [1, 2], kex_K = [3], kex_Hash = (\<lambda>x. of_nat (length x) # x), SessionID = []\<rparr>"

definition demo_ops :: "link_op list" where
  "demo_ops = [ClientSends (replicate 32 0) [20, 1], Rekey (demo_alg ''aes128-cbc'') demo_kex,
     ClientSends (replicate 32 0) [msgNewKeys], ClientSends (replicate 32 9) [90, 1, 2], ServerSends (replicate 32 0) [msgNewKeys],
     ServerSends (replicate 32 4) [91], Rekey (demo_alg ''arcfour128'') demo_kex,
     ServerSends (replicate 32 0) [msgNewKeys], ServerSends (replicate 32 4) [92, 5]]"


text \<open>
  Both ends hand the same \<^verbatim>\<open>algorithms\<close> to \<^verbatim>\<open>prepareKeyChange\<close> (\<^verbatim>\<open>handshake.go\<close>), and
  \<^verbatim>\<open>findAgreedAlgorithms\<close> puts the algorithms from client to server into \<^verbatim>\<open>w\<close>. A server, too, takes
  \<^verbatim>\<open>w\<close> for what it writes: when the directions differ, its reader has another cipher than the client's writer.
\<close>

lemma directions_crossed:
  assumes "crypto_ok cr" "supported (alg_w a)" "supported (alg_r a)" "hash_ok r"
    and "Cipher (alg_w a) = gcmCipherID" "Cipher (alg_r a) = aes128cbcID"
  shows "\<exists>c s k k'. prepareKeyChange cr a r (newTransport True) = Some (None, c)
    \<and> prepareKeyChange cr a r (newTransport False) = Some (None, s)
    \<and> pendingKeyChange (t_writer c) = Some (PcGcm k) \<and> pendingKeyChange (t_reader s) = Some (PcCbc k')"
proof -
  let ?r = "r\<lparr>SessionID := kex_H r\<rparr>"
  have h: "kex_Hash ?r x \<noteq> []" for x using assms(4) by (simp add: hash_ok_def)
  have ne: "gcmCipherID \<noteq> aes128cbcID" by (simp add: gcmCipherID_def aes128cbcID_def ascii_def)
  have g: "\<exists>k. newPacketCipher cr d (alg_w a) ?r = Some (Inr (PcGcm k))" for d
    using newPacketCipher_paired [OF assms(1,2) h, of d] assms(5)
    by (auto simp: newPacketCipher_def newGCMCipher_def split: option.splits sum.splits if_splits)
  have b: "\<exists>k. newPacketCipher cr d (alg_r a) ?r = Some (Inr (PcCbc k))" for d
    using newPacketCipher_paired [OF assms(1,3) h, of d] assms(6) ne
    by (auto simp: newPacketCipher_def newAESCBCCipher_def Let_def split: option.splits sum.splits if_splits)
  from g [of clientKeys] g [of serverKeys] b [of clientKeys] b [of serverKeys] show ?thesis
    by (auto simp: prepareKeyChange_def newTransport_def Let_def put_pending_def)
qed

section \<open>Version lines\<close>

lemma readVersion_loop_line:
  assumes "10 \<notin> set v" "length v < k"
  shows "readVersion_loop k acc (v @ 10 # r) = (Inr (acc @ v), r)"
  using assms
proof (induction v arbitrary: k acc)
  case Nil
  then show ?case by (cases k) auto
next
  case (Cons b v)
  then show ?case by (cases k) auto
qed

text \<open>A version line without control characters of at most 253 bytes is read back by the other end.\<close>

lemma version_exchange:
  assumes "list_all (\<lambda>c. 32 \<le> c) v" "length v \<le> 253"
  shows "readVersion (v @ [13, 10] @ r) = (Inr v, r)"
proof -
  have "10 \<notin> set (v @ [13])" using assms(1) by (auto simp: list_all_iff)
  then have "readVersion_loop 255 [] ((v @ [13]) @ 10 # r) = (Inr (v @ [13]), r)"
    using readVersion_loop_line [of "v @ [13]" 255 "[]" r] assms(2) by simp
  then show ?thesis by (simp add: readVersion_def maxVersionStringBytes_def)
qed

end
