(* ===== verification/Ssh_Handshake_Net.thy ===== *)
theory Ssh_Handshake_Net
  imports Ssh_Handshake_Agree Ssh_Transport_Link
begin

text \<open>
  The handshake over the packet transport: the bytes one side writes are those the other side reads. After it both transports have ciphers that fit
  together under one session identifier, so that every later packet is delivered.
\<close>

section \<open>Packets between two network connections\<close>

definition good_end :: "nat \<Rightarrow> net_conn \<Rightarrow> bool" where
  "good_end k c \<longleftrightarrow> \<not> nc_closed c \<and> room (nc_out c) = None \<and> \<not> flush_fails (nc_out c) \<and> 32 * k \<le> length (nc_rand c)"

text \<open>The client may write \<open>k\<close> and the server \<open>l\<close> packets more.\<close>

definition net_linked :: "bool \<Rightarrow> bool \<Rightarrow> nat \<Rightarrow> nat \<Rightarrow> net_conn \<Rightarrow> net_conn \<Rightarrow> bool" where
  "net_linked pc ps k l c s \<longleftrightarrow> mirrored pc ps (nc_transport c) (nc_transport s) \<and> good_end k c \<and> good_end l s"

lemma net_linked_sym: "net_linked pc ps k l c s \<Longrightarrow> net_linked ps pc l k s c"
  by (simp add: net_linked_def mirrored_sym)

definition packet_fits :: "byte list \<Rightarrow> bool" where
  "packet_fits p \<longleftrightarrow> p \<noteq> [] \<and> length p + 20 \<le> maxPacket"

text \<open>What one side writes, the other reads, whatever else arrives.\<close>

lemma net_send:
  assumes "net_linked pc ps (Suc k) l c s" and "packet_fits p" and "hd p = msgNewKeys \<longrightarrow> pc"
  shows "\<exists>bytes c' s'. (\<forall>x. net_write p (c\<lparr>nc_in := x\<rparr>) = (None, c'\<lparr>nc_in := x\<rparr>)) \<and> (\<forall>rest. net_read (s\<lparr>nc_in := bytes @ rest\<rparr>) = (Inr p, s'\<lparr>nc_in := rest\<rparr>))
    \<and> net_linked (pc \<and> hd p \<noteq> msgNewKeys) ps k l c' s' \<and> nc_prepared c' = nc_prepared c \<and> nc_prepared s' = nc_prepared s
    \<and> written (nc_out c') = written (nc_out c) @ bytes \<and> written (nc_out s') = written (nc_out s)"
proof -
  have m: "mirrored pc ps (nc_transport c) (nc_transport s)" "good_end (Suc k) c" "good_end l s" using assms(1) by (simp_all add: net_linked_def)
  have p: "p \<noteq> []" "length p + 20 \<le> maxPacket" using assms(2) by (simp_all add: packet_fits_def)
  have w: "room (nc_out c) = None" "\<not> flush_fails (nc_out c)" "32 \<le> length (nc_rand c)" "32 * k \<le> length (nc_rand c) - 32" "\<not> nc_closed c" "\<not> nc_closed s"
    using m(2,3) by (auto simp: good_end_def)
  have l: "cs_paired pc_paired (t_writer (nc_transport c)) (t_reader (nc_transport s))"
    "hd p = msgNewKeys \<longrightarrow> pendingKeyChange (t_writer (nc_transport c)) \<noteq> None"
    using m(1) assms(3) by (auto simp: mirrored_def)
  obtain bytes n a b where
    wr: "cs_writePacket pc_writePacket (nc_out c) (nc_rand c) p (t_writer (nc_transport c))
      = (None, (nc_out c)\<lparr>written := written (nc_out c) @ bytes\<rparr>, drop n (nc_rand c), a)" "n \<le> 32"
    and rd: "\<And>rest. cs_readPacket pc_readPacket (bytes @ rest) (t_reader (nc_transport s)) = (Inr p, rest, b)" "cs_paired pc_paired a b"
      "pendingKeyChange a = (if hd p = msgNewKeys then None else pendingKeyChange (t_writer (nc_transport c)))"
    using pc.conn_link [OF l(1) p w(3,1,2) l(2)] by blast
  define c' where "c' = c\<lparr>nc_out := (nc_out c)\<lparr>written := written (nc_out c) @ bytes\<rparr>, nc_rand := drop n (nc_rand c),
    nc_transport := (nc_transport c)\<lparr>t_writer := a\<rparr>, nc_sent := nc_sent c @ [p]\<rparr>"
  define s' where "s' = s\<lparr>nc_transport := (nc_transport s)\<lparr>t_reader := b\<rparr>\<rparr>"
  have "net_write p (c\<lparr>nc_in := x\<rparr>) = (None, c'\<lparr>nc_in := x\<rparr>)" for x
    using w(5) wr(1) by (simp add: net_write_def transport_writePacket_def c'_def)
  moreover have "net_read (s\<lparr>nc_in := bytes @ rest\<rparr>) = (Inr p, s'\<lparr>nc_in := rest\<rparr>)" for rest
    using w(6) rd(1) [of rest] by (simp add: net_read_def transport_readPacket_def s'_def)
  moreover have "net_linked (pc \<and> hd p \<noteq> msgNewKeys) ps k l c' s'"
    using m w wr(2) rd(2,3) by (auto simp: net_linked_def mirrored_def good_end_def c'_def s'_def)
  ultimately show ?thesis by (intro exI [of _ bytes] exI [of _ c'] exI [of _ s']) (simp add: c'_def s'_def)
qed

text \<open>New keys on both sides.\<close>

lemma net_prepare_both:
  assumes "net_linked False False k l c s" and "crypto_ok cr" and "supported (alg_w a)" and "alg_r a = alg_w a" and "hash_ok (kexResult.truncate r)"
  shows "\<exists>c' s'. (\<forall>x. net_prepare cr a r (c\<lparr>nc_in := x\<rparr>) = (None, c'\<lparr>nc_in := x\<rparr>)) \<and> (\<forall>x. net_prepare cr a r (s\<lparr>nc_in := x\<rparr>) = (None, s'\<lparr>nc_in := x\<rparr>))
    \<and> net_linked True True k l c' s' \<and> nc_prepared c' = nc_prepared c @ [(a, r)] \<and> nc_prepared s' = nc_prepared s @ [(a, r)]
    \<and> nc_out c' = nc_out c \<and> nc_out s' = nc_out s"
proof -
  obtain t u where tu: "prepareKeyChange cr a (kexResult.truncate r) (nc_transport c) = Some (None, t)"
    "prepareKeyChange cr a (kexResult.truncate r) (nc_transport s) = Some (None, u)" "mirrored True True t u"
    using prepare_mirrored [OF _ assms(2-5)] assms(1) unfolding net_linked_def by blast
  define c' s' where "c' = c\<lparr>nc_prepared := nc_prepared c @ [(a, r)], nc_transport := t\<rparr>"
    and "s' = s\<lparr>nc_prepared := nc_prepared s @ [(a, r)], nc_transport := u\<rparr>"
  have "net_prepare cr a r (c\<lparr>nc_in := x\<rparr>) = (None, c'\<lparr>nc_in := x\<rparr>)" "net_prepare cr a r (s\<lparr>nc_in := x\<rparr>) = (None, s'\<lparr>nc_in := x\<rparr>)" for x
    using tu(1,2) by (simp_all add: net_prepare_def c'_def s'_def)
  moreover have "net_linked True True k l c' s'" using assms(1) tu(3) by (simp add: net_linked_def good_end_def c'_def s'_def)
  ultimately show ?thesis by (intro exI [of _ c'] exI [of _ s']) (simp add: c'_def s'_def)
qed

text \<open>Reading and writing use different halves of a transport.\<close>

lemma net_read_write:
  assumes "net_read c = (Inr p, c1)" and "net_write q c1 = (None, c2)"
  shows "\<exists>d. net_write q c = (None, d) \<and> net_read d = (Inr p, c2)"
proof -
  obtain r t where r: "\<not> nc_closed c" "cs_readPacket pc_readPacket (nc_in c) (t_reader (nc_transport c)) = (Inr p, r, t)"
    "c1 = c\<lparr>nc_in := r, nc_transport := (nc_transport c)\<lparr>t_reader := t\<rparr>\<rparr>"
    using assms(1) by (auto simp: net_read_def transport_readPacket_def split: if_splits prod.splits sum.splits)
  obtain w rand u where w: "cs_writePacket pc_writePacket (nc_out c) (nc_rand c) q (t_writer (nc_transport c)) = (None, w, rand, u)"
    "c2 = c1\<lparr>nc_out := w, nc_rand := rand, nc_transport := (nc_transport c1)\<lparr>t_writer := u\<rparr>, nc_sent := nc_sent c @ [q]\<rparr>"
    using assms(2) r by (auto simp: net_write_def transport_writePacket_def split: if_splits prod.splits option.splits)
  show ?thesis
    by (rule exI [of _ "c\<lparr>nc_out := w, nc_rand := rand, nc_transport := (nc_transport c)\<lparr>t_writer := u\<rparr>, nc_sent := nc_sent c @ [q]\<rparr>"])
      (use r w in \<open>simp add: net_read_def net_write_def transport_readPacket_def transport_writePacket_def\<close>)
qed

text \<open>A packet in either direction.\<close>

lemma net_round:
  assumes "net_linked pc ps (Suc k) (Suc l) c s" and "packet_fits p" and "packet_fits q" and "hd p = msgNewKeys \<longrightarrow> pc" and "hd q = msgNewKeys \<longrightarrow> ps"
  shows "\<exists>bc bs c1 s1 c2 s2. (\<forall>x. net_write p (c\<lparr>nc_in := x\<rparr>) = (None, c1\<lparr>nc_in := x\<rparr>)) \<and> (\<forall>x. net_read (s\<lparr>nc_in := bc @ x\<rparr>) = (Inr p, s1\<lparr>nc_in := x\<rparr>))
    \<and> (\<forall>x. net_write q (s1\<lparr>nc_in := x\<rparr>) = (None, s2\<lparr>nc_in := x\<rparr>)) \<and> (\<forall>x. net_read (c1\<lparr>nc_in := bs @ x\<rparr>) = (Inr q, c2\<lparr>nc_in := x\<rparr>))
    \<and> net_linked (pc \<and> hd p \<noteq> msgNewKeys) (ps \<and> hd q \<noteq> msgNewKeys) k l c2 s2 \<and> nc_prepared c2 = nc_prepared c \<and> nc_prepared s2 = nc_prepared s
    \<and> written (nc_out c2) = written (nc_out c) @ bc \<and> written (nc_out s2) = written (nc_out s) @ bs"
proof -
  obtain bc c1 s1 where 1:
    "\<And>x. net_write p (c\<lparr>nc_in := x\<rparr>) = (None, c1\<lparr>nc_in := x\<rparr>)" "\<And>x. net_read (s\<lparr>nc_in := bc @ x\<rparr>) = (Inr p, s1\<lparr>nc_in := x\<rparr>)"
    "net_linked (pc \<and> hd p \<noteq> msgNewKeys) ps k (Suc l) c1 s1" "nc_prepared c1 = nc_prepared c" "nc_prepared s1 = nc_prepared s"
    "written (nc_out c1) = written (nc_out c) @ bc" "written (nc_out s1) = written (nc_out s)"
    using net_send [OF assms(1,2,4)] by blast
  obtain bs s2 c2 where 2:
    "\<And>x. net_write q (s1\<lparr>nc_in := x\<rparr>) = (None, s2\<lparr>nc_in := x\<rparr>)" "\<And>x. net_read (c1\<lparr>nc_in := bs @ x\<rparr>) = (Inr q, c2\<lparr>nc_in := x\<rparr>)"
    "net_linked (ps \<and> hd q \<noteq> msgNewKeys) (pc \<and> hd p \<noteq> msgNewKeys) l k s2 c2" "nc_prepared s2 = nc_prepared s1" "nc_prepared c2 = nc_prepared c1"
    "written (nc_out s2) = written (nc_out s1) @ bs" "written (nc_out c2) = written (nc_out c1)"
    using net_send [OF net_linked_sym [OF 1(3)] assms(3,5)] by blast
  show ?thesis using 1 2 net_linked_sym [OF 2(3)]
    by (intro exI [of _ bc] exI [of _ bs] exI [of _ c1] exI [of _ s1] exI [of _ c2] exI [of _ s2]) simp
qed

definition kex_plain :: "byte list \<Rightarrow> bool" where
  "kex_plain p \<longleftrightarrow> packet_fits p \<and> hd p \<noteq> msgNewKeys"

lemma net_round_plain:
  assumes "net_linked False False (Suc k) (Suc l) c s" and "kex_plain p" and "kex_plain q"
  shows "\<exists>bc bs c1 s1 c2 s2. (\<forall>x. net_write p (c\<lparr>nc_in := x\<rparr>) = (None, c1\<lparr>nc_in := x\<rparr>)) \<and> (\<forall>x. net_read (s\<lparr>nc_in := bc @ x\<rparr>) = (Inr p, s1\<lparr>nc_in := x\<rparr>))
    \<and> (\<forall>x. net_write q (s1\<lparr>nc_in := x\<rparr>) = (None, s2\<lparr>nc_in := x\<rparr>)) \<and> (\<forall>x. net_read (c1\<lparr>nc_in := bs @ x\<rparr>) = (Inr q, c2\<lparr>nc_in := x\<rparr>))
    \<and> net_linked False False k l c2 s2 \<and> nc_prepared c2 = nc_prepared c \<and> nc_prepared s2 = nc_prepared s
    \<and> written (nc_out c2) = written (nc_out c) @ bc \<and> written (nc_out s2) = written (nc_out s) @ bs"
proof -
  have "packet_fits p" "packet_fits q" "hd p = msgNewKeys \<longrightarrow> False" "hd q = msgNewKeys \<longrightarrow> False" using assms(2,3) by (simp_all add: kex_plain_def)
  from net_round [OF assms(1) this] show ?thesis by (simp only: simp_thms)
qed

section \<open>A key exchange over the network\<close>

text \<open>The side that writes first, and the side that reads first, with what they read and write.\<close>

definition asks :: "net_conn keyingTransport \<Rightarrow> byte list list \<Rightarrow> algorithms \<times> kexOutcome \<Rightarrow> net_conn \<Rightarrow> net_conn \<Rightarrow> bool" where
  "asks io ps ar c c' \<longleftrightarrow> (\<exists>c1 c2 c3 c4. conn_write io (ps ! 0) c = (None, c1) \<and> conn_read io c1 = (Inr (ps ! 1), c2) \<and> conn_write io (ps ! 2) c2 = (None, c3)
     \<and> conn_read io c3 = (Inr (ps ! 3), c4) \<and> finish_talk io (fst ar) (snd ar) c4 c')"

definition replies :: "net_conn keyingTransport \<Rightarrow> byte list list \<Rightarrow> algorithms \<times> kexOutcome \<Rightarrow> net_conn \<Rightarrow> net_conn \<Rightarrow> bool" where
  "replies io ps ar c c' \<longleftrightarrow> (\<exists>c1 c2 c3 c4. conn_read io c = (Inr (ps ! 0), c1) \<and> conn_write io (ps ! 1) c1 = (None, c2) \<and> conn_read io c2 = (Inr (ps ! 2), c3)
     \<and> conn_write io (ps ! 3) c3 = (None, c4) \<and> finish_talk io (fst ar) (snd ar) c4 c')"

lemma net_io_sel: "conn_read (net_io cr) = net_read" "conn_write (net_io cr) = net_write" "kt_prepareKeyChange (net_io cr) = net_prepare cr"
  by (simp_all add: net_io_def)

lemma nth_packets: "[p, q, i, r] ! 0 = p" "[p, q, i, r] ! 1 = q" "[p, q, i, r] ! 2 = i" "[p, q, i, r] ! 3 = r"
  by simp_all

lemma net_exchange:
  assumes "net_linked False False 3 3 c s" and "crypto_ok cr" and "supported (alg_w a)" and "alg_r a = alg_w a" and "hash_ok (kexResult.truncate r)"
    and "kex_plain p" and "kex_plain q" and "kex_plain i" and "kex_plain reply"
  shows "\<exists>bc bs c' s'. asks (net_io cr) [p, q, i, reply] (a, r) (c\<lparr>nc_in := bs\<rparr>) c' \<and> replies (net_io cr) [p, q, i, reply] (a, r) (s\<lparr>nc_in := bc\<rparr>) s'
    \<and> net_linked False False 0 0 c' s' \<and> nc_prepared c' = nc_prepared c @ [(a, r)] \<and> nc_prepared s' = nc_prepared s @ [(a, r)]
    \<and> written (nc_out c') = written (nc_out c) @ bc \<and> written (nc_out s') = written (nc_out s) @ bs"
proof -
  have f: "packet_fits [msgNewKeys]" by (simp add: packet_fits_def maxPacket_def)
  have "net_linked False False (Suc (Suc (Suc 0))) (Suc (Suc (Suc 0))) c s" using assms(1) by (simp add: numeral_3_eq_3)
  from net_round_plain [OF this assms(6,7)] obtain b1 d1 c1 s1 c2 s2 where 1:
    "\<And>x. net_write p (c\<lparr>nc_in := x\<rparr>) = (None, c1\<lparr>nc_in := x\<rparr>)" "\<And>x. net_read (s\<lparr>nc_in := b1 @ x\<rparr>) = (Inr p, s1\<lparr>nc_in := x\<rparr>)"
    "\<And>x. net_write q (s1\<lparr>nc_in := x\<rparr>) = (None, s2\<lparr>nc_in := x\<rparr>)" "\<And>x. net_read (c1\<lparr>nc_in := d1 @ x\<rparr>) = (Inr q, c2\<lparr>nc_in := x\<rparr>)"
    "net_linked False False (Suc (Suc 0)) (Suc (Suc 0)) c2 s2" "nc_prepared c2 = nc_prepared c" "nc_prepared s2 = nc_prepared s"
    "written (nc_out c2) = written (nc_out c) @ b1" "written (nc_out s2) = written (nc_out s) @ d1" by blast
  from net_round_plain [OF 1(5) assms(8,9)] obtain b2 d2 c3 s3 c4 s4 where 2:
    "\<And>x. net_write i (c2\<lparr>nc_in := x\<rparr>) = (None, c3\<lparr>nc_in := x\<rparr>)" "\<And>x. net_read (s2\<lparr>nc_in := b2 @ x\<rparr>) = (Inr i, s3\<lparr>nc_in := x\<rparr>)"
    "\<And>x. net_write reply (s3\<lparr>nc_in := x\<rparr>) = (None, s4\<lparr>nc_in := x\<rparr>)" "\<And>x. net_read (c3\<lparr>nc_in := d2 @ x\<rparr>) = (Inr reply, c4\<lparr>nc_in := x\<rparr>)"
    "net_linked False False (Suc 0) (Suc 0) c4 s4" "nc_prepared c4 = nc_prepared c" "nc_prepared s4 = nc_prepared s"
    "written (nc_out c4) = written (nc_out c) @ b1 @ b2" "written (nc_out s4) = written (nc_out s) @ d1 @ d2"
    unfolding 1(6-9) append_assoc by blast
  from net_prepare_both [OF 2(5) assms(2-5)] obtain c5 s5 where 3:
    "\<And>x. net_prepare cr a r (c4\<lparr>nc_in := x\<rparr>) = (None, c5\<lparr>nc_in := x\<rparr>)" "\<And>x. net_prepare cr a r (s4\<lparr>nc_in := x\<rparr>) = (None, s5\<lparr>nc_in := x\<rparr>)"
    "net_linked True True (Suc 0) (Suc 0) c5 s5" "nc_prepared c5 = nc_prepared c4 @ [(a, r)]" "nc_prepared s5 = nc_prepared s4 @ [(a, r)]"
    "nc_out c5 = nc_out c4" "nc_out s5 = nc_out s4" by blast
  from net_round [OF 3(3) f f] obtain b3 d3 c6 s6 c7 s7 where 4:
    "\<And>x. net_write [msgNewKeys] (c5\<lparr>nc_in := x\<rparr>) = (None, c6\<lparr>nc_in := x\<rparr>)" "\<And>x. net_read (s5\<lparr>nc_in := b3 @ x\<rparr>) = (Inr [msgNewKeys], s6\<lparr>nc_in := x\<rparr>)"
    "\<And>x. net_write [msgNewKeys] (s6\<lparr>nc_in := x\<rparr>) = (None, s7\<lparr>nc_in := x\<rparr>)" "\<And>x. net_read (c6\<lparr>nc_in := d3 @ x\<rparr>) = (Inr [msgNewKeys], c7\<lparr>nc_in := x\<rparr>)"
    "net_linked False False 0 0 c7 s7" "nc_prepared c7 = nc_prepared c5" "nc_prepared s7 = nc_prepared s5"
    "written (nc_out c7) = written (nc_out c5) @ b3" "written (nc_out s7) = written (nc_out s5) @ d3" unfolding list.sel simp_thms by blast
  let ?bc = "b1 @ b2 @ b3 @ []" and ?bs = "d1 @ d2 @ d3 @ []"
  have "finish_talk (net_io cr) a r (c4\<lparr>nc_in := d3 @ []\<rparr>) (c7\<lparr>nc_in := []\<rparr>)"
    unfolding finish_talk_def net_io_sel using 3(1) [of "d3 @ []"] 4(1) [of "d3 @ []"] 4(4) [of "[]"] by blast
  then have "asks (net_io cr) [p, q, i, reply] (a, r) (c\<lparr>nc_in := ?bs\<rparr>) (c7\<lparr>nc_in := []\<rparr>)"
    unfolding asks_def net_io_sel nth_packets fst_conv snd_conv
    using 1(1) [of ?bs] 1(4) [of "d2 @ d3 @ []"] 2(1) [of "d2 @ d3 @ []"] 2(4) [of "d3 @ []"] by blast
  moreover have "finish_talk (net_io cr) a r (s4\<lparr>nc_in := b3 @ []\<rparr>) (s7\<lparr>nc_in := []\<rparr>)"
    unfolding finish_talk_def net_io_sel using 3(2) [of "b3 @ []"] net_read_write [OF 4(2) [of "[]"] 4(3) [of "[]"]] by blast
  then have "replies (net_io cr) [p, q, i, reply] (a, r) (s\<lparr>nc_in := ?bc\<rparr>) (s7\<lparr>nc_in := []\<rparr>)"
    unfolding replies_def net_io_sel nth_packets fst_conv snd_conv
    using 1(2) [of "b2 @ b3 @ []"] 1(3) [of "b2 @ b3 @ []"] 2(2) [of "b3 @ []"] 2(3) [of "b3 @ []"] by blast
  moreover have "net_linked False False 0 0 (c7\<lparr>nc_in := []\<rparr>) (s7\<lparr>nc_in := []\<rparr>)" using 4(5) by (simp add: net_linked_def good_end_def)
  ultimately show ?thesis
    using 2(6-9) 3(4-7) 4(6-9)
    by (intro exI [of _ ?bc] exI [of _ ?bs] exI [of _ "c7\<lparr>nc_in := []\<rparr>"] exI [of _ "s7\<lparr>nc_in := []\<rparr>"]) simp
qed

section \<open>The handshake of a client and a server\<close>

definition hashes_ok :: "kex_crypto \<Rightarrow> bool" where
  "hashes_ok kc \<longleftrightarrow> (\<forall>x. k_sha1 kc x \<noteq> [] \<and> k_sha256 kc x \<noteq> [] \<and> k_sha384 kc x \<noteq> [] \<and> k_sha512 kc x \<noteq> [])"

definition fresh_writer :: "out_writer \<Rightarrow> bool" where
  "fresh_writer w \<longleftrightarrow> room w = None \<and> \<not> flush_fails w \<and> written w = []"

text \<open>What the two sides need to come to an agreement: their messages, the method and the host keys.\<close>

definition can_agree :: "session_setup \<Rightarrow> (ec_curve \<Rightarrow> byte list \<Rightarrow> int \<times> int) \<Rightarrow> algorithms \<Rightarrow> bool" where
  "can_agree su base algs \<longleftrightarrow>
     (\<exists>ci si alg. kex_init (su_client_cookie su) (su_client su ()) ci \<and> kex_init (su_server_cookie su) (su_server su ()) si
        \<and> packet_fits (msg_bytes (KexInitMsg ci)) \<and> packet_fits (msg_bytes (KexInitMsg si))
        \<and> findAgreedAlgorithms ci si = Inr algs \<and> map_of kexAlgoMap (kex algs) = Some alg
        \<and> kex_drawn base alg (su_client_rand su) \<and> kex_drawn base alg (su_server_rand su))
     \<and> su_hostKeys su \<noteq> [] \<and> list_all (host_ok (key_crypto.truncate (su_crypto su))) (su_hostKeys su)
     \<and> (\<forall>cb. su_callback su = Some cb \<longrightarrow> list_all (\<lambda>k. cb (su_address su) (su_address su) (PublicKey k) = None) (su_hostKeys su))
     \<and> kex_crypto_ok (su_crypto su) base \<and> hashes_ok (su_crypto su) \<and> supported (alg_w algs) \<and> alg_r algs = alg_w algs"

lemma kexInit_msg_any: "kexInit_msg cookie (su_client su c) = kexInit_msg cookie (su_client su d)" "kexInit_msg cookie (su_server su c) = kexInit_msg cookie (su_server su d)"
  by (simp_all add: kexInit_msg_def su_client_def su_server_def newClientTransport_def newServerTransport_def newHandshakeTransport_def)

lemma kex_init_any: "kex_init cookie (su_client su c) i = kex_init cookie (su_client su d) i" "kex_init cookie (su_server su c) i = kex_init cookie (su_server su d) i"
  unfolding kex_init_def kexInit_msg_any(1) [of cookie su c d] kexInit_msg_any(2) [of cookie su c d] by (rule refl)+

lemma new_net_linked:
  assumes "fresh_writer wc" and "fresh_writer ws" and "96 \<le> length rc" and "96 \<le> length rs"
  shows "net_linked False False 3 3 (new_net True x wc rc) (new_net False y ws rs)"
  using assms mirrored_new by (simp add: net_linked_def good_end_def new_net_def fresh_writer_def)

lemma kex_msgs_plain: "kex_msgs i reply \<Longrightarrow> kex_plain i" "kex_msgs i reply \<Longrightarrow> kex_plain reply"
  by (auto simp: kex_msgs_def kex_plain_def packet_fits_def maxPacket_def msgNewKeys_def)

lemma kexInit_plain: "packet_fits (msg_bytes (KexInitMsg i)) \<Longrightarrow> kex_plain (msg_bytes (KexInitMsg i))"
  by (simp add: kex_plain_def kex_msg_tags msgKexInit_def msgNewKeys_def)

lemma picked_host_key:
  assumes "kex_init cookie (su_server su c) si" and "su_hostKeys su \<noteq> []" and "findAgreedAlgorithms ci si = Inr algs"
  obtains sg where "fold (\<lambda>k found. if key_Type (PublicKey k) = Some (hostKey algs) then Some k else found) (su_hostKeys su) None = Some sg"
    and "sg \<in> set (su_hostKeys su)"
  using agreed_host_key [OF kex_init_facts(1) [OF assms(1)] _ assms(3)] assms(2)
    fold_last_match [where P = "\<lambda>k. key_Type (PublicKey k) = Some (hostKey algs)" and ks = "su_hostKeys su"]
  unfolding su_sel by blast

lemma hashes_result: "hashes_ok kc \<Longrightarrow> kex_Hash r \<in> {k_sha1 kc, k_sha256 kc, k_sha384 kc, k_sha512 kc} \<Longrightarrow> hash_ok (kexResult.truncate (r :: kexOutcome))"
  by (auto simp: hashes_ok_def hash_ok_def kexResult.defs)

lemma net_handshake:
  assumes "can_agree su base algs" and "crypto_ok cr" and "fresh_writer wc" and "fresh_writer ws" and "96 \<le> length rc" and "96 \<le> length rs"
  shows "\<exists>bc bs r tc ts. client_run su (net_io cr) (new_net True bs wc rc) = (Inr [msgNewKeys], tc)
    \<and> server_run su (net_io cr) (new_net False bc ws rs) = (Inr [msgNewKeys], ts)
    \<and> written (nc_out (ht_conn tc)) = bc \<and> written (nc_out (ht_conn ts)) = bs
    \<and> nc_prepared (ht_conn tc) = [(algs, r)] \<and> nc_prepared (ht_conn ts) = [(algs, r)]
    \<and> mirrored False False (nc_transport (ht_conn tc)) (nc_transport (ht_conn ts))"
proof -
  obtain ci si alg where k: "kex_init (su_client_cookie su) (su_client su ()) ci" "kex_init (su_server_cookie su) (su_server su ()) si"
    "packet_fits (msg_bytes (KexInitMsg ci))" "packet_fits (msg_bytes (KexInitMsg si))"
    "findAgreedAlgorithms ci si = Inr algs" "map_of kexAlgoMap (kex algs) = Some alg"
    "kex_drawn base alg (su_client_rand su)" "kex_drawn base alg (su_server_rand su)"
    using assms(1) unfolding can_agree_def by blast
  have su: "su_hostKeys su \<noteq> []" "list_all (host_ok (key_crypto.truncate (su_crypto su))) (su_hostKeys su)" "kex_crypto_ok (su_crypto su) base"
    "hashes_ok (su_crypto su)" "supported (alg_w algs)" "alg_r algs = alg_w algs"
    using assms(1) unfolding can_agree_def by blast+
  note c = kex_init_facts [OF k(1)] and s = kex_init_facts [OF k(2)]
  obtain sg where sg: "fold (\<lambda>k found. if key_Type (PublicKey k) = Some (hostKey algs) then Some k else found) (su_hostKeys su) None = Some sg"
    "sg \<in> set (su_hostKeys su)" using picked_host_key [OF k(2) su(1) k(5)] .
  have h: "host_ok (key_crypto.truncate (su_crypto su)) sg" using su(2) sg(2) by (simp add: list_all_iff)
  have cb: "case su_callback su of None \<Rightarrow> True | Some cb \<Rightarrow> cb (su_address su) (su_address su) (PublicKey sg) = None"
    using assms(1) sg(2) by (auto simp: can_agree_def list_all_iff split: option.splits)
  define m where "m = \<lparr>hm_clientVersion = su_clientVersion su, hm_serverVersion = su_serverVersion su, hm_clientKexInit = msg_bytes (KexInitMsg ci),
    hm_serverKexInit = msg_bytes (KexInitMsg si)\<rparr>"
  obtain i reply r where t: "client_talks (\<lambda>io :: net_conn packetConn. kex_Client (su_crypto su) alg io (su_client_rand su) m) i reply r"
    "server_talks (\<lambda>io :: net_conn packetConn. kex_Server (su_crypto su) alg io (su_server_rand su) m sg) i reply r"
    and v: "kex_msgs i reply" "kex_Hash r \<in> {k_sha1 (su_crypto su), k_sha256 (su_crypto su), k_sha384 (su_crypto su), k_sha512 (su_crypto su)}"
    "ParsePublicKey (key_crypto.truncate (su_crypto su)) (kr_HostKey r) = Inr (PublicKey sg)"
    "verifyHostKeySignature (key_crypto.truncate (su_crypto su)) (PublicKey sg) r = None"
    using kex_talks [OF k(6) su(3) h k(7,8), of m] by blast
  let ?ps = "[msg_bytes (KexInitMsg ci), msg_bytes (KexInitMsg si), i, reply]"
  let ?c = "\<lambda>x. new_net True x wc rc" and ?s = "\<lambda>x. new_net False x ws rs"
  have new: "(?c [])\<lparr>nc_in := x\<rparr> = ?c x" "(?s [])\<lparr>nc_in := x\<rparr> = ?s x" for x by (simp_all add: new_net_def)
  have w: "nc_prepared (new_net b x y z) = []" "written (nc_out (?c x)) = []" "written (nc_out (?s x)) = []" "[] @ ys = ys" for b x y z ys
    using assms(3,4) by (simp_all add: new_net_def fresh_writer_def)
  obtain bc bs c' s' where e: "asks (net_io cr) ?ps (algs, r) (?c bs) c'" "replies (net_io cr) ?ps (algs, r) (?s bc) s'"
    "net_linked False False 0 0 c' s'" "nc_prepared c' = [(algs, r)]" "nc_prepared s' = [(algs, r)]"
    "written (nc_out c') = bc" "written (nc_out s') = bs"
    using net_exchange [OF new_net_linked [OF assms(3-6), of "[]" "[]"] assms(2) su(5,6) hashes_result [OF su(4) v(2)]
      kexInit_plain [OF k(3)] kexInit_plain [OF k(4)] kex_msgs_plain(1) [OF v(1)] kex_msgs_plain(2) [OF v(1)]]
    unfolding new w by blast
  have init: "kexInit_msg (su_client_cookie su) (su_client su x) = Some ci" "kexInit_msg (su_server_cookie su) (su_server su x) = Some si" for x :: net_conn
    using c(1) s(1) kexInit_msg_any by metis+
  from e(1) obtain c1 c2 c3 c4 where a: "conn_write (net_io cr) (msg_bytes (KexInitMsg ci)) (?c bs) = (None, c1)" "conn_read (net_io cr) c1 = (Inr (msg_bytes (KexInitMsg si)), c2)"
    "conn_write (net_io cr) i c2 = (None, c3)" "conn_read (net_io cr) c3 = (Inr reply, c4)" "finish_talk (net_io cr) algs r c4 c'"
    unfolding asks_def nth_packets fst_conv snd_conv by blast
  have "\<exists>tc. client_run su (net_io cr) (?c bs) = (Inr [msgNewKeys], tc) \<and> ht_conn tc = c'"
    by (rule client_run_talk [OF init(1) a s(2-4) k(5,6) t(1) [unfolded m_def] v(3,4) cb])
  moreover from e(2) obtain s1 s2 s3 s4 where b: "conn_read (net_io cr) (?s bc) = (Inr (msg_bytes (KexInitMsg ci)), s1)" "conn_write (net_io cr) (msg_bytes (KexInitMsg si)) s1 = (None, s2)"
    "conn_read (net_io cr) s2 = (Inr i, s3)" "conn_write (net_io cr) reply s3 = (None, s4)" "finish_talk (net_io cr) algs r s4 s'"
    unfolding replies_def nth_packets fst_conv snd_conv by blast
  have "\<exists>ts. server_run su (net_io cr) (?s bc) = (Inr [msgNewKeys], ts) \<and> ht_conn ts = s'"
    by (rule server_run_talk [OF init(2) b c(2-4) k(5,6) su(1) sg(1) t(2) [unfolded m_def]])
  ultimately show ?thesis using e(3-7) unfolding net_linked_def by blast
qed


section \<open>A handshake with two small messages\<close>

lemma toy_crypto_ok: "crypto_ok toy_crypto"
  by (simp add: crypto_ok_def toy_crypto_def block_ok_def gcmTagSize_def)

lemma toy_init_fits: "packet_fits (msg_bytes (KexInitMsg (toy_init [KeyAlgoRSA] b)))"
  by (simp add: packet_fits_def maxPacket_def toy_init_def msg_bytes_eq ascii_def KeyAlgoRSA_def comma_def)

lemma toy_hashes: "hashes_ok toy_kex"
  by (simp add: hashes_ok_def toy_kex_def key_crypto.defs kex_crypto.defs toy_keys_def)

lemma toy_supported: "supported (alg_w (toy_algs h))" "alg_r (toy_algs h) = alg_w (toy_algs h)"
  by (auto simp: toy_algs_def supported_def cipherModes_def macModes_def)

lemma toy_can_agree: "can_agree (toy_setup [KeyAlgoRSA]) (\<lambda>_ _. (1, 1)) (toy_algs KeyAlgoRSA)"
  unfolding can_agree_def
proof (intro conjI exI)
  show "kex_init (su_client_cookie (toy_setup [KeyAlgoRSA])) (su_client (toy_setup [KeyAlgoRSA]) ()) (toy_init [KeyAlgoRSA] 1)"
    by (rule toy_client_init) simp
  show "map_of kexAlgoMap (kex (toy_algs KeyAlgoRSA)) = Some (DhGroup \<lparr>dh_g = 2, dh_p = group14_p\<rparr>)" by (rule toy_alg)
  show "kex_drawn (\<lambda>_ _. (1, 1)) (DhGroup \<lparr>dh_g = 2, dh_p = group14_p\<rparr>) (su_client_rand (toy_setup [KeyAlgoRSA]))"
    "kex_drawn (\<lambda>_ _. (1, 1)) (DhGroup \<lparr>dh_g = 2, dh_p = group14_p\<rparr>) (su_server_rand (toy_setup [KeyAlgoRSA]))"
    unfolding toy_setup_sel by (rule toy_drawn, simp)+
qed (use toy_server_init toy_init_fits toy_agreed toy_kex_ok toy_hashes toy_supported toy_host_ok in \<open>simp_all add: toy_setup_sel\<close>)

definition toy_writer :: out_writer where
  "toy_writer = \<lparr>written = [], room = None, flush_fails = False\<rparr>"

lemma toy_writer_fresh: "fresh_writer toy_writer"
  by (simp add: fresh_writer_def toy_writer_def)


section \<open>States that can be reached\<close>

text \<open>
  C10. The discipline of rekeying. Whatever the goroutines do and in whatever order, and whatever arrives, what a side has sent keeps the rules: after
  its \<^verbatim>\<open>KEXINIT\<close> it sends only messages of the key exchange until its \<^verbatim>\<open>NEWKEYS\<close>, and \<^verbatim>\<open>NEWKEYS\<close> only then.
\<close>

theorem rekey_discipline:
  assumes "fresh_transport t0" and "hs_reachable kc (net_io cr) t0 s"
  shows "\<exists>ph. phase_run Quiet (nc_sent (ht_conn (sys_t s))) = Some ph"
  using net_inv [OF assms] by (auto simp: net.t_inv_def net.phase_def split: option.splits)

text \<open>
  C9. A client uses the keys of an exchange only after the checks: in every state that can be reached, the host key that came with the
  prepared keys is one that parses, that has signed the exchange hash and that the callback has accepted for the address.
\<close>

theorem client_keys_checked:
  assumes "fresh_transport t0" and "ht_hostKeys t0 = []" and "hs_reachable kc (net_io cr) t0 s"
    and "(algs, r) \<in> set (nc_prepared (ht_conn (sys_t s)))"
  shows "\<exists>key. ParsePublicKey (key_crypto.truncate kc) (kr_HostKey r) = Inr key
    \<and> verifyHostKeySignature (key_crypto.truncate kc) key r = None
    \<and> (\<forall>cb. ht_hostKeyCallback t0 = Some cb \<longrightarrow> cb (ht_dialAddress t0) (ht_remoteAddr t0) key = None)"
proof -
  have "host_checked kc (settings t0) r"
    using net_inv [OF assms(1,3)] assms(4) by (auto simp: net.t_inv_def net.checked_keys_def list_all_iff)
  then show ?thesis using assms(2) by (auto simp: host_checked_def settings_def)
qed


section \<open>States after a handshake and after a close\<close>

lemma client_run_reachable:
  assumes "client_run su io c = (Inr p, t)"
  shows "\<exists>s. hs_reachable (su_crypto su) io (su_client su c) s \<and> sys_t s = t"
proof -
  let ?s = "hs_start (su_client su c)"
  obtain e t1 where q: "requestKeyChange io (su_client_cookie su) (su_client su c) = (e, t1)" by fastforce
  have r: "readOnePacket (su_client_env su) io t1 = (Inr p, t)" using assms q by (simp add: client_run_def)
  have n: "ht_incoming_closed t1 = ht_incoming_closed (su_client su c)"
    using q by (auto simp: requestKeyChange_def sendKexInitLocked_def Let_def split: prod.splits option.splits sum.splits)
  have "hs_step (su_crypto su) io ?s (?s\<lparr>sys_t := t1\<rparr>)" using q by (intro hs_step.request) (simp add: hs_start_def)
  moreover obtain p' where "readLoop_round (su_client_env su) io t1 = (p', t)" using r by (cases "p \<noteq> [] \<and> (hd p = msgIgnore \<or> hd p = msgDebug)") (auto simp: readLoop_round_def)
  then have "hs_step (su_crypto su) io (?s\<lparr>sys_t := t1\<rparr>) (?s\<lparr>sys_t := t, sys_pending := p'\<rparr>)"
    using hs_step.reader [of "?s\<lparr>sys_t := t1\<rparr>" "su_client_env su" "su_crypto su" io p' t] n
    by (simp add: hs_start_def su_client_env_def su_client_def newClientTransport_def newHandshakeTransport_def)
  ultimately have "(hs_step (su_crypto su) io)\<^sup>*\<^sup>* ?s (?s\<lparr>sys_t := t, sys_pending := p'\<rparr>)" by (meson converse_rtranclp_into_rtranclp r_into_rtranclp)
  then show ?thesis unfolding hs_reachable_def by (intro exI [of _ "?s\<lparr>sys_t := t, sys_pending := p'\<rparr>"]) simp
qed

lemma toy_reachable:
  "\<exists>bs r s. hs_reachable toy_kex (net_io toy_crypto) (su_client (toy_setup [KeyAlgoRSA]) (new_net True bs toy_writer (replicate 96 0))) s
    \<and> nc_prepared (ht_conn (sys_t s)) = [(toy_algs KeyAlgoRSA, r)]"
proof -
  obtain bs r tc where "client_run (toy_setup [KeyAlgoRSA]) (net_io toy_crypto) (new_net True bs toy_writer (replicate 96 0)) = (Inr [msgNewKeys], tc)"
    "nc_prepared (ht_conn tc) = [(toy_algs KeyAlgoRSA, r)]"
    using net_handshake [OF toy_can_agree toy_crypto_ok toy_writer_fresh toy_writer_fresh, of "replicate 96 0" "replicate 96 0"] by auto
  then show ?thesis using client_run_reachable [of "toy_setup [KeyAlgoRSA]"] unfolding toy_setup_sel(2) by metis
qed

lemma su_client_fresh: "fresh_transport (su_client su (new_net b x w r))"
  by (simp add: fresh_transport_def su_client_def newClientTransport_def newHandshakeTransport_def new_net_def)

theorem rekey_discipline_witness:
  "\<exists>bs r s ph. hs_reachable toy_kex (net_io toy_crypto) (su_client (toy_setup [KeyAlgoRSA]) (new_net True bs toy_writer (replicate 96 0))) s
    \<and> nc_prepared (ht_conn (sys_t s)) = [(toy_algs KeyAlgoRSA, r)] \<and> phase_run Quiet (nc_sent (ht_conn (sys_t s))) = Some ph"
  using toy_reachable rekey_discipline [OF su_client_fresh] by blast

theorem client_keys_checked_witness:
  "\<exists>bs r s key. hs_reachable toy_kex (net_io toy_crypto) (su_client (toy_setup [KeyAlgoRSA]) (new_net True bs toy_writer (replicate 96 0))) s
    \<and> nc_prepared (ht_conn (sys_t s)) = [(toy_algs KeyAlgoRSA, r)]
    \<and> ParsePublicKey (key_crypto.truncate toy_kex) (kr_HostKey r) = Inr key \<and> verifyHostKeySignature (key_crypto.truncate toy_kex) key r = None"
  using toy_reachable client_keys_checked [OF su_client_fresh su_sel(3)] by (metis list.set_intros(1))


end
