(* ===== verification/Curve25519.thy ===== *)
theory Curve25519
  imports Go_Prelude
begin

text \<open>
  The arithmetic of \<^verbatim>\<open>curve25519/curve25519.go\<close>: elements of the field of \<open>2\<^sup>2\<^sup>5\<^sup>5 - 19\<close> elements in ten limbs of 26 and 25 bits, and the
  multiplication of a point by a number. An array of ten \<^verbatim>\<open>int32\<close> is a list of ten integers; every
  operation wraps around at its width, 32 bits for limbs and 64 for products.
\<close>

unbundle bit_operations_syntax

type_synonym fieldElement = "int list"

definition int32 :: "int \<Rightarrow> int" where
  "int32 x = (x + 2 ^ 31) mod 2 ^ 32 - 2 ^ 31"

definition int64 :: "int \<Rightarrow> int" where
  "int64 x = (x + 2 ^ 63) mod 2 ^ 64 - 2 ^ 63"

definition mul64 :: "int \<Rightarrow> int \<Rightarrow> int" where
  "mul64 a b = int64 (a * b)"

fun sum64 :: "int list \<Rightarrow> int" where
  "sum64 [] = 0"
| "sum64 (x # xs) = foldl (\<lambda>a b. int64 (a + b)) x xs"

definition shr :: "int \<Rightarrow> nat \<Rightarrow> int" where
  "shr x k = x div 2 ^ k"

definition shl32 :: "int \<Rightarrow> nat \<Rightarrow> int" where
  "shl32 x k = int32 (x * 2 ^ k)"

definition shl64 :: "int \<Rightarrow> nat \<Rightarrow> int" where
  "shl64 x k = int64 (x * 2 ^ k)"

section \<open>Elements\<close>

definition feZero :: fieldElement where
  "feZero = replicate 10 0"

definition feOne :: fieldElement where
  "feOne = feZero[0 := 1]"

definition feAdd :: "fieldElement \<Rightarrow> fieldElement \<Rightarrow> fieldElement" where
  "feAdd a b = map2 (\<lambda>x y. int32 (x + y)) a b"

definition feSub :: "fieldElement \<Rightarrow> fieldElement \<Rightarrow> fieldElement" where
  "feSub a b = map2 (\<lambda>x y. int32 (x - y)) a b"

definition feCopy :: "fieldElement \<Rightarrow> fieldElement" where
  "feCopy src = map (\<lambda>x. x) src"

definition feCSwap :: "fieldElement \<Rightarrow> fieldElement \<Rightarrow> int \<Rightarrow> fieldElement \<times> fieldElement" where
  "feCSwap f g b =
     (let b = int32 (- b); x = map2 (\<lambda>u v. b AND (u XOR v)) f g
      in (map2 (\<lambda>u v. u XOR v) f x, map2 (\<lambda>u v. u XOR v) g x))"

definition load3 :: "byte list \<Rightarrow> int" where
  "load3 bs = (uint (bs ! 0) OR shl64 (uint (bs ! 1)) 8) OR shl64 (uint (bs ! 2)) 16"

definition load4 :: "byte list \<Rightarrow> int" where
  "load4 bs = ((uint (bs ! 0) OR shl64 (uint (bs ! 1)) 8) OR shl64 (uint (bs ! 2)) 16) OR shl64 (uint (bs ! 3)) 24"

section \<open>Carries\<close>

text \<open>One carry, from limb \<open>i\<close> of \<open>k\<close> bits to the next one with rounding, and from the last limb around to the first.\<close>

definition carry :: "nat \<Rightarrow> nat \<Rightarrow> int list \<Rightarrow> int list" where
  "carry i k h =
     (let c = shr (int64 (h ! i + 2 ^ (k - 1))) k;
          h = h[i + 1 := int64 (h ! (i + 1) + c)]
      in h[i := int64 (h ! i - shl64 c k)])"

definition carry_around :: "int list \<Rightarrow> int list" where
  "carry_around h =
     (let c = shr (int64 (h ! 9 + 2 ^ 24)) 25;
          h = h[0 := int64 (h ! 0 + int64 (c * 19))]
      in h[9 := int64 (h ! 9 - shl64 c 25)])"

definition carry_small :: "int list \<Rightarrow> int list" where
  "carry_small h =
     (let h = carry_around h; h = carry 1 25 h; h = carry 3 25 h; h = carry 5 25 h; h = carry 7 25 h;
          h = carry 0 26 h; h = carry 2 26 h; h = carry 4 26 h; h = carry 6 26 h
      in carry 8 26 h)"

definition carry_product :: "int list \<Rightarrow> int list" where
  "carry_product h =
     (let h = carry 0 26 h; h = carry 4 26 h; h = carry 1 25 h; h = carry 5 25 h; h = carry 2 26 h; h = carry 6 26 h;
          h = carry 3 25 h; h = carry 7 25 h; h = carry 4 26 h; h = carry 8 26 h; h = carry_around h
      in carry 0 26 h)"

section \<open>Bytes\<close>

definition feFromBytes :: "byte list \<Rightarrow> fieldElement" where
  "feFromBytes src =
     map int32 (carry_small
       [load4 (drop 0 src), shl64 (load3 (drop 4 src)) 6, shl64 (load3 (drop 7 src)) 5, shl64 (load3 (drop 10 src)) 3,
        shl64 (load3 (drop 13 src)) 2, load4 (drop 16 src), shl64 (load3 (drop 20 src)) 7, shl64 (load3 (drop 23 src)) 5,
        shl64 (load3 (drop 26 src)) 4, shl64 (load3 (drop 29 src)) 2])"

text \<open>\<^verbatim>\<open>feToBytes\<close>: the quotient by the modulus, the carries without rounding, and the bits of the limbs.\<close>

definition fe_quotient :: "fieldElement \<Rightarrow> int" where
  "fe_quotient h =
     (let q = shr (int32 (int32 (19 * h ! 9) + 2 ^ 24)) 25;
          q = shr (int32 (h ! 0 + q)) 26; q = shr (int32 (h ! 1 + q)) 25; q = shr (int32 (h ! 2 + q)) 26;
          q = shr (int32 (h ! 3 + q)) 25; q = shr (int32 (h ! 4 + q)) 26; q = shr (int32 (h ! 5 + q)) 25;
          q = shr (int32 (h ! 6 + q)) 26; q = shr (int32 (h ! 7 + q)) 25; q = shr (int32 (h ! 8 + q)) 26
      in shr (int32 (h ! 9 + q)) 25)"

definition carry_floor :: "nat \<Rightarrow> nat \<Rightarrow> int list \<Rightarrow> int list" where
  "carry_floor i k h =
     (let c = shr (h ! i) k; h = h[i + 1 := int32 (h ! (i + 1) + c)]
      in h[i := int32 (h ! i - shl32 c k)])"

definition carry_drop :: "int list \<Rightarrow> int list" where
  "carry_drop h = (let c = shr (h ! 9) 25 in h[9 := int32 (h ! 9 - shl32 c 25)])"

definition fe_reduce :: "fieldElement \<Rightarrow> fieldElement" where
  "fe_reduce h =
     (let q = fe_quotient h; h = h[0 := int32 (h ! 0 + int32 (19 * q))];
          h = carry_floor 0 26 h; h = carry_floor 1 25 h; h = carry_floor 2 26 h; h = carry_floor 3 25 h; h = carry_floor 4 26 h;
          h = carry_floor 5 25 h; h = carry_floor 6 26 h; h = carry_floor 7 25 h; h = carry_floor 8 26 h
      in carry_drop h)"

definition fe_pack :: "fieldElement \<Rightarrow> byte list" where
  "fe_pack h =
      [word_of_int (shr (h ! 0) 0), word_of_int (shr (h ! 0) 8), word_of_int (shr (h ! 0) 16),
       word_of_int (shr (h ! 0) 24 OR shl32 (h ! 1) 2), word_of_int (shr (h ! 1) 6), word_of_int (shr (h ! 1) 14),
       word_of_int (shr (h ! 1) 22 OR shl32 (h ! 2) 3), word_of_int (shr (h ! 2) 5), word_of_int (shr (h ! 2) 13),
       word_of_int (shr (h ! 2) 21 OR shl32 (h ! 3) 5), word_of_int (shr (h ! 3) 3), word_of_int (shr (h ! 3) 11),
       word_of_int (shr (h ! 3) 19 OR shl32 (h ! 4) 6), word_of_int (shr (h ! 4) 2), word_of_int (shr (h ! 4) 10),
       word_of_int (shr (h ! 4) 18), word_of_int (shr (h ! 5) 0), word_of_int (shr (h ! 5) 8), word_of_int (shr (h ! 5) 16),
       word_of_int (shr (h ! 5) 24 OR shl32 (h ! 6) 1), word_of_int (shr (h ! 6) 7), word_of_int (shr (h ! 6) 15),
       word_of_int (shr (h ! 6) 23 OR shl32 (h ! 7) 3), word_of_int (shr (h ! 7) 5), word_of_int (shr (h ! 7) 13),
       word_of_int (shr (h ! 7) 21 OR shl32 (h ! 8) 4), word_of_int (shr (h ! 8) 4), word_of_int (shr (h ! 8) 12),
       word_of_int (shr (h ! 8) 20 OR shl32 (h ! 9) 6), word_of_int (shr (h ! 9) 2), word_of_int (shr (h ! 9) 10),
       word_of_int (shr (h ! 9) 18)]"

definition feToBytes :: "fieldElement \<Rightarrow> byte list" where
  "feToBytes h = fe_pack (fe_reduce h)"

section \<open>Products\<close>

definition mul_limbs :: "fieldElement \<Rightarrow> fieldElement \<Rightarrow> int list" where
  "mul_limbs f g =
     (let f0 = f ! 0; f1 = f ! 1; f2 = f ! 2; f3 = f ! 3; f4 = f ! 4; f5 = f ! 5; f6 = f ! 6; f7 = f ! 7; f8 = f ! 8;
          f9 = f ! 9; g0 = g ! 0; g1 = g ! 1; g2 = g ! 2; g3 = g ! 3; g4 = g ! 4; g5 = g ! 5; g6 = g ! 6; g7 = g ! 7;
          g8 = g ! 8; g9 = g ! 9; g1_19 = int32 (19 * g1); g2_19 = int32 (19 * g2); g3_19 = int32 (19 * g3);
          g4_19 = int32 (19 * g4); g5_19 = int32 (19 * g5); g6_19 = int32 (19 * g6); g7_19 = int32 (19 * g7);
          g8_19 = int32 (19 * g8); g9_19 = int32 (19 * g9); f1_2 = int32 (2 * f1); f3_2 = int32 (2 * f3); f5_2 = int32 (2 * f5);
          f7_2 = int32 (2 * f7); f9_2 = int32 (2 * f9);
          h0 = sum64 [mul64 f0 g0, mul64 f1_2 g9_19, mul64 f2 g8_19, mul64 f3_2 g7_19, mul64 f4 g6_19, mul64 f5_2 g5_19, mul64 f6 g4_19,
            mul64 f7_2 g3_19, mul64 f8 g2_19, mul64 f9_2 g1_19];
          h1 = sum64 [mul64 f0 g1, mul64 f1 g0, mul64 f2 g9_19, mul64 f3 g8_19, mul64 f4 g7_19, mul64 f5 g6_19, mul64 f6 g5_19,
            mul64 f7 g4_19, mul64 f8 g3_19, mul64 f9 g2_19];
          h2 = sum64 [mul64 f0 g2, mul64 f1_2 g1, mul64 f2 g0, mul64 f3_2 g9_19, mul64 f4 g8_19, mul64 f5_2 g7_19, mul64 f6 g6_19,
            mul64 f7_2 g5_19, mul64 f8 g4_19, mul64 f9_2 g3_19];
          h3 = sum64 [mul64 f0 g3, mul64 f1 g2, mul64 f2 g1, mul64 f3 g0, mul64 f4 g9_19, mul64 f5 g8_19, mul64 f6 g7_19, mul64 f7 g6_19,
            mul64 f8 g5_19, mul64 f9 g4_19];
          h4 = sum64 [mul64 f0 g4, mul64 f1_2 g3, mul64 f2 g2, mul64 f3_2 g1, mul64 f4 g0, mul64 f5_2 g9_19, mul64 f6 g8_19,
            mul64 f7_2 g7_19, mul64 f8 g6_19, mul64 f9_2 g5_19];
          h5 = sum64 [mul64 f0 g5, mul64 f1 g4, mul64 f2 g3, mul64 f3 g2, mul64 f4 g1, mul64 f5 g0, mul64 f6 g9_19, mul64 f7 g8_19,
            mul64 f8 g7_19, mul64 f9 g6_19];
          h6 = sum64 [mul64 f0 g6, mul64 f1_2 g5, mul64 f2 g4, mul64 f3_2 g3, mul64 f4 g2, mul64 f5_2 g1, mul64 f6 g0, mul64 f7_2 g9_19,
            mul64 f8 g8_19, mul64 f9_2 g7_19];
          h7 = sum64 [mul64 f0 g7, mul64 f1 g6, mul64 f2 g5, mul64 f3 g4, mul64 f4 g3, mul64 f5 g2, mul64 f6 g1, mul64 f7 g0,
            mul64 f8 g9_19, mul64 f9 g8_19];
          h8 = sum64 [mul64 f0 g8, mul64 f1_2 g7, mul64 f2 g6, mul64 f3_2 g5, mul64 f4 g4, mul64 f5_2 g3, mul64 f6 g2, mul64 f7_2 g1,
            mul64 f8 g0, mul64 f9_2 g9_19];
          h9 = sum64 [mul64 f0 g9, mul64 f1 g8, mul64 f2 g7, mul64 f3 g6, mul64 f4 g5, mul64 f5 g4, mul64 f6 g3, mul64 f7 g2, mul64 f8 g1,
            mul64 f9 g0]
      in [h0, h1, h2, h3, h4, h5, h6, h7, h8, h9])"

definition feMul :: "fieldElement \<Rightarrow> fieldElement \<Rightarrow> fieldElement" where
  "feMul f g = map int32 (carry_product (mul_limbs f g))"

definition square_limbs :: "fieldElement \<Rightarrow> int list" where
  "square_limbs f =
     (let f0 = f ! 0; f1 = f ! 1; f2 = f ! 2; f3 = f ! 3; f4 = f ! 4; f5 = f ! 5; f6 = f ! 6; f7 = f ! 7; f8 = f ! 8;
          f9 = f ! 9; f0_2 = int32 (2 * f0); f1_2 = int32 (2 * f1); f2_2 = int32 (2 * f2); f3_2 = int32 (2 * f3);
          f4_2 = int32 (2 * f4); f5_2 = int32 (2 * f5); f6_2 = int32 (2 * f6); f7_2 = int32 (2 * f7); f5_38 = int32 (38 * f5);
          f6_19 = int32 (19 * f6); f7_38 = int32 (38 * f7); f8_19 = int32 (19 * f8); f9_38 = int32 (38 * f9);
          h0 = sum64 [mul64 f0 f0, mul64 f1_2 f9_38, mul64 f2_2 f8_19, mul64 f3_2 f7_38, mul64 f4_2 f6_19, mul64 f5 f5_38];
          h1 = sum64 [mul64 f0_2 f1, mul64 f2 f9_38, mul64 f3_2 f8_19, mul64 f4 f7_38, mul64 f5_2 f6_19];
          h2 = sum64 [mul64 f0_2 f2, mul64 f1_2 f1, mul64 f3_2 f9_38, mul64 f4_2 f8_19, mul64 f5_2 f7_38, mul64 f6 f6_19];
          h3 = sum64 [mul64 f0_2 f3, mul64 f1_2 f2, mul64 f4 f9_38, mul64 f5_2 f8_19, mul64 f6 f7_38];
          h4 = sum64 [mul64 f0_2 f4, mul64 f1_2 f3_2, mul64 f2 f2, mul64 f5_2 f9_38, mul64 f6_2 f8_19, mul64 f7 f7_38];
          h5 = sum64 [mul64 f0_2 f5, mul64 f1_2 f4, mul64 f2_2 f3, mul64 f6 f9_38, mul64 f7_2 f8_19];
          h6 = sum64 [mul64 f0_2 f6, mul64 f1_2 f5_2, mul64 f2_2 f4, mul64 f3_2 f3, mul64 f7_2 f9_38, mul64 f8 f8_19];
          h7 = sum64 [mul64 f0_2 f7, mul64 f1_2 f6, mul64 f2_2 f5, mul64 f3_2 f4, mul64 f8 f9_38];
          h8 = sum64 [mul64 f0_2 f8, mul64 f1_2 f7_2, mul64 f2_2 f6, mul64 f3_2 f5_2, mul64 f4 f4, mul64 f9 f9_38];
          h9 = sum64 [mul64 f0_2 f9, mul64 f1_2 f8, mul64 f2_2 f7, mul64 f3_2 f6, mul64 f4_2 f5]
      in [h0, h1, h2, h3, h4, h5, h6, h7, h8, h9])"

definition feSquare :: "fieldElement \<Rightarrow> fieldElement" where
  "feSquare f = map int32 (carry_product (square_limbs f))"

definition feMul121666 :: "fieldElement \<Rightarrow> fieldElement" where
  "feMul121666 f = map int32 (carry_small (map (\<lambda>x. mul64 x 121666) f))"

text \<open>A square, squared \<open>n - 1\<close> times more.\<close>

definition feSquares :: "nat \<Rightarrow> fieldElement \<Rightarrow> fieldElement" where
  "feSquares n f = (feSquare ^^ (n - 1)) (feSquare f)"

definition feInvert :: "fieldElement \<Rightarrow> fieldElement" where
  "feInvert z =
     (let t0 = feSquares 1 z; t1 = feSquares 2 t0; t1 = feMul z t1; t0 = feMul t0 t1; t2 = feSquares 1 t0; t1 = feMul t1 t2;
          t2 = feSquares 5 t1; t1 = feMul t2 t1; t2 = feSquares 10 t1; t2 = feMul t2 t1; t3 = feSquares 20 t2; t2 = feMul t3 t2;
          t2 = feSquares 10 t2; t1 = feMul t2 t1; t2 = feSquares 50 t1; t2 = feMul t2 t1; t3 = feSquares 100 t2; t2 = feMul t3 t2;
          t2 = feSquares 50 t2; t1 = feMul t2 t1; t1 = feSquares 5 t1
      in feMul t1 t0)"

section \<open>The ladder\<close>

record ladder =
  l_x2 :: fieldElement
  l_z2 :: fieldElement
  l_x3 :: fieldElement
  l_z3 :: fieldElement
  l_swap :: int

definition clamp :: "byte list \<Rightarrow> byte list" where
  "clamp e = (let e = e[0 := e ! 0 AND 248]; e = e[31 := e ! 31 AND 127] in e[31 := e ! 31 OR 64])"

definition key_bit :: "byte list \<Rightarrow> nat \<Rightarrow> byte" where
  "key_bit e pos = drop_bit (pos mod 8) (e ! (pos div 8)) AND 1"

definition ladder_swap :: "ladder \<Rightarrow> ladder" where
  "ladder_swap l =
     (let (x2, x3) = feCSwap (l_x2 l) (l_x3 l) (l_swap l); (z2, z3) = feCSwap (l_z2 l) (l_z3 l) (l_swap l)
      in l\<lparr>l_x2 := x2, l_x3 := x3, l_z2 := z2, l_z3 := z3\<rparr>)"

definition ladder_arith :: "fieldElement \<Rightarrow> ladder \<Rightarrow> ladder" where
  "ladder_arith x1 l =
     (let x2 = l_x2 l; z2 = l_z2 l; x3 = l_x3 l; z3 = l_z3 l;
          tmp0 = feSub x3 z3; tmp1 = feSub x2 z2; x2 = feAdd x2 z2; z2 = feAdd x3 z3; z3 = feMul tmp0 x2; z2 = feMul z2 tmp1;
          tmp0 = feSquare tmp1; tmp1 = feSquare x2; x3 = feAdd z3 z2; z2 = feSub z3 z2; x2 = feMul tmp1 tmp0;
          tmp1 = feSub tmp1 tmp0; z2 = feSquare z2; z3 = feMul121666 tmp1; x3 = feSquare x3; tmp0 = feAdd tmp0 z3;
          z3 = feMul x1 z2; z2 = feMul tmp1 tmp0
      in l\<lparr>l_x2 := x2, l_z2 := z2, l_x3 := x3, l_z3 := z3\<rparr>)"

definition ladder_step :: "byte list \<Rightarrow> fieldElement \<Rightarrow> nat \<Rightarrow> ladder \<Rightarrow> ladder" where
  "ladder_step e x1 pos l =
     (let b = uint (key_bit e pos);
          l = ladder_swap (l\<lparr>l_swap := l_swap l XOR b\<rparr>)
      in ladder_arith x1 (l\<lparr>l_swap := b\<rparr>))"

definition scalarMult :: "byte list \<Rightarrow> byte list \<Rightarrow> byte list" where
  "scalarMult key base =
     (let e = clamp key; x1 = feFromBytes base;
          l = \<lparr>l_x2 = feOne, l_z2 = feZero, l_x3 = feCopy x1, l_z3 = feOne, l_swap = 0\<rparr>;
          l = fold (ladder_step e x1) (rev [0..<255]) l;
          l = ladder_swap l;
          z2 = feInvert (l_z2 l)
      in feToBytes (feMul (l_x2 l) z2))"

definition basePoint :: "byte list" where
  "basePoint = 9 # replicate 31 0"

definition ScalarMult :: "byte list \<Rightarrow> byte list \<Rightarrow> byte list" where
  "ScalarMult key base = scalarMult key base"

definition ScalarBaseMult :: "byte list \<Rightarrow> byte list" where
  "ScalarBaseMult key = ScalarMult key basePoint"

end
