(* ===== verification/Curve25519_Field.thy ===== *)
theory Curve25519_Field
  imports Curve25519
begin

text \<open>
  The limbs as elements of the field: what a list of limbs stands for, the bounds under which no operation overflows, and that the
  operations compute sums, differences, products and squares modulo \<open>2\<^sup>2\<^sup>5\<^sup>5 - 19\<close>.
\<close>

section \<open>Values and bounds\<close>

definition p25519 :: int where
  "p25519 = 2 ^ 255 - 19"

definition offset :: "nat \<Rightarrow> nat" where
  "offset i = [0, 26, 51, 77, 102, 128, 153, 179, 204, 230] ! i"

definition limb_bits :: "nat \<Rightarrow> nat" where
  "limb_bits i = (if even i then 26 else 25)"

definition val :: "int list \<Rightarrow> int" where
  "val h = (\<Sum>i<10. 2 ^ offset i * h ! i)"

definition fe :: "int list \<Rightarrow> int" where
  "fe h = val h mod p25519"

definition bnd :: "int list \<Rightarrow> int list \<Rightarrow> bool" where
  "bnd B h \<longleftrightarrow> list_all2 (\<lambda>b x. \<bar>x\<bar> \<le> b) B h"

definition small :: "int list" where
  "small = [36909875, 18454937, 36909875, 18454937, 36909875, 18454937, 36909875, 18454937, 36909875, 18454937]"

definition large :: "int list" where
  "large = [73819750, 36909875, 73819750, 36909875, 73819750, 36909875, 73819750, 36909875, 73819750, 36909875]"

lemma int32_exact: "- (2 ^ 31) \<le> x \<Longrightarrow> x < 2 ^ 31 \<Longrightarrow> int32 x = x"
  by (simp add: int32_def)

lemma int64_exact: "- (2 ^ 63) \<le> x \<Longrightarrow> x < 2 ^ 63 \<Longrightarrow> int64 x = x"
  by (simp add: int64_def)

lemma val_update:
  assumes "length h = 10" and "i < 10"
  shows "val (h[i := x]) = val h + 2 ^ offset i * (x - h ! i)"
proof -
  have "val (h[i := x]) = 2 ^ offset i * x + (\<Sum>j\<in>{..<10} - {i}. 2 ^ offset j * h ! j)"
    unfolding val_def using assms by (subst sum.remove [of _ i]) (auto intro!: sum.cong)
  moreover have "val h = 2 ^ offset i * h ! i + (\<Sum>j\<in>{..<10} - {i}. 2 ^ offset j * h ! j)"
    unfolding val_def using assms by (subst sum.remove [of _ i]) auto
  ultimately show ?thesis by (simp add: algebra_simps)
qed

lemma val_list: "val [a, b, c, d, e, f, g, h, i, j] = a + 2 ^ 26 * b + 2 ^ 51 * c + 2 ^ 77 * d + 2 ^ 102 * e + 2 ^ 128 * f + 2 ^ 153 * g
  + 2 ^ 179 * h + 2 ^ 204 * i + 2 ^ 230 * j"
  by (simp add: val_def offset_def eval_nat_numeral)

lemma bnd_length: "bnd B h \<Longrightarrow> length h = length B"
  by (simp add: bnd_def list_all2_lengthD)

lemma bnd_nth: "bnd B h \<Longrightarrow> i < length B \<Longrightarrow> \<bar>h ! i\<bar> \<le> B ! i"
  unfolding bnd_def by (drule list_all2_nthD) auto

lemma bnd_update: "bnd B h \<Longrightarrow> \<bar>x\<bar> \<le> b \<Longrightarrow> bnd (B[i := b]) (h[i := x])"
  by (simp add: bnd_def list_all2_update_cong)

section \<open>Carries\<close>

lemma shr_round:
  assumes "0 < k"
  shows "- (2 ^ (k - 1)) \<le> x - shr (x + 2 ^ (k - 1)) k * 2 ^ k" and "x - shr (x + 2 ^ (k - 1)) k * 2 ^ k < 2 ^ (k - 1)"
proof -
  define m where "m = (2 :: int) ^ (k - 1)"
  have k: "(2 :: int) ^ k = 2 * m" "0 < m" unfolding m_def using assms by (cases k; simp)+
  have "x + m = (x + m) div (2 * m) * (2 * m) + (x + m) mod (2 * m)" by (rule div_mult_mod_eq [symmetric])
  moreover have "0 \<le> (x + m) mod (2 * m)" "(x + m) mod (2 * m) < 2 * m" using k(2) by simp_all
  ultimately show "- (2 ^ (k - 1)) \<le> x - shr (x + 2 ^ (k - 1)) k * 2 ^ k" and "x - shr (x + 2 ^ (k - 1)) k * 2 ^ k < 2 ^ (k - 1)"
    unfolding shr_def m_def [symmetric] k(1) by linarith+
qed

lemma shr_bound:
  assumes "\<bar>x\<bar> \<le> b" and "0 < k"
  shows "\<bar>shr (x + 2 ^ (k - 1)) k\<bar> \<le> b div 2 ^ k + 1"
proof -
  define m where "m = (2 :: int) ^ (k - 1)"
  have k: "(2 :: int) ^ k = 2 * m" "0 < m" unfolding m_def using assms(2) by (cases k; simp)+
  have "(x + m) div (2 * m) \<le> (b + 1 * (2 * m)) div (2 * m)" using assms(1) k(2) by (intro zdiv_mono1) auto
  moreover have "(- b + 0 * (2 * m)) div (2 * m) \<le> (x + m) div (2 * m)" using assms(1) k(2) by (intro zdiv_mono1) auto
  moreover have "- (b div (2 * m)) - 1 \<le> (- b) div (2 * m)" using k(2) by (simp add: zdiv_zminus1_eq_if)
  moreover have "(b + 1 * (2 * m)) div (2 * m) = b div (2 * m) + 1" using k(2) by (subst div_mult_self1) auto
  ultimately show ?thesis unfolding shr_def m_def [symmetric] k(1) by simp
qed

lemma offset_Suc: "i < 9 \<Longrightarrow> offset (i + 1) = offset i + limb_bits i"
proof -
  assume "i < 9"
  then consider "i = 0" | "i = 1" | "i = 2" | "i = 3" | "i = 4" | "i = 5" | "i = 6" | "i = 7" | "i = 8" by linarith
  then show ?thesis by cases (simp_all add: offset_def limb_bits_def)
qed

definition carry_bound :: "nat \<Rightarrow> int list \<Rightarrow> int list" where
  "carry_bound i B = B[i + 1 := B ! (i + 1) + B ! i div 2 ^ limb_bits i + 1, i := 2 ^ (limb_bits i - 1)]"

lemma carry_exact:
  assumes "bnd B h" and "length B = 10" and "i < 9" and "B ! i \<le> 2 ^ 62" and "B ! (i + 1) \<le> 2 ^ 62" and "k = limb_bits i"
  shows "carry i k h = h[i + 1 := h ! (i + 1) + shr (h ! i + 2 ^ (k - 1)) k, i := h ! i - shr (h ! i + 2 ^ (k - 1)) k * 2 ^ k]"
    and "bnd (carry_bound i B) (carry i k h)" and "val (carry i k h) = val h"
proof -
  define c where "c = shr (h ! i + 2 ^ (k - 1)) k"
  have l: "length h = 10" using bnd_length [OF assms(1)] assms(2) by simp
  have h: "\<bar>h ! i\<bar> \<le> B ! i" "\<bar>h ! (i + 1)\<bar> \<le> B ! (i + 1)" using bnd_nth [OF assms(1)] assms(2,3) by auto
  have k: "k = 25 \<or> k = 26" using assms(6) by (auto simp: limb_bits_def)
  have r: "- (2 ^ (k - 1)) \<le> h ! i - c * 2 ^ k" "h ! i - c * 2 ^ k < 2 ^ (k - 1)" using shr_round [of k "h ! i"] k by (auto simp: c_def)
  have b: "\<bar>c\<bar> \<le> B ! i div 2 ^ k + 1" using shr_bound [OF h(1), of k] k by (auto simp: c_def)
  have m: "B ! i div 2 ^ k \<le> 2 ^ 62 div 2 ^ k" using assms(4) k by (intro zdiv_mono1) auto
  have e: "int64 (h ! i + 2 ^ (k - 1)) = h ! i + 2 ^ (k - 1)" using h(1) assms(4) k by (intro int64_exact) auto
  have e2: "int64 (h ! (i + 1) + c) = h ! (i + 1) + c" using h(2) assms(5) b m k by (intro int64_exact) auto
  have e3: "shl64 c k = c * 2 ^ k" unfolding shl64_def using r h(1) assms(4) k by (intro int64_exact) auto
  have e4: "int64 (h ! i - c * 2 ^ k) = h ! i - c * 2 ^ k" using r k by (intro int64_exact) auto
  show eq: "carry i k h = h[i + 1 := h ! (i + 1) + c, i := h ! i - c * 2 ^ k]"
    unfolding carry_def Let_def e c_def [symmetric] using e2 e3 e4 by simp
  show "bnd (carry_bound i B) (carry i k h)"
    unfolding eq carry_bound_def assms(6) [symmetric] using h b r by (intro bnd_update assms(1)) auto
  have "offset (i + 1) = offset i + k" using offset_Suc [OF assms(3)] assms(6) by simp
  then show "val (carry i k h) = val h" unfolding eq using l assms(3) by (simp add: val_update power_add algebra_simps)
qed

definition around_bound :: "int list \<Rightarrow> int list" where
  "around_bound B = B[0 := B ! 0 + 19 * (B ! 9 div 2 ^ 25 + 1), 9 := 2 ^ 24]"

lemma carry_around_exact:
  assumes "bnd B h" and "length B = 10" and "B ! 0 \<le> 2 ^ 62" and "B ! 9 \<le> 2 ^ 62"
  shows "bnd (around_bound B) (carry_around h)" and "\<exists>c. val (carry_around h) = val h - c * p25519"
proof -
  define c where "c = shr (h ! 9 + 2 ^ 24) 25"
  have l: "length h = 10" using bnd_length [OF assms(1)] assms(2) by simp
  have h: "\<bar>h ! 0\<bar> \<le> B ! 0" "\<bar>h ! 9\<bar> \<le> B ! 9" using bnd_nth [OF assms(1)] assms(2) by auto
  have r: "- (2 ^ 24) \<le> h ! 9 - c * 2 ^ 25" "h ! 9 - c * 2 ^ 25 < 2 ^ 24" using shr_round [of 25 "h ! 9"] by (auto simp: c_def)
  have b: "\<bar>c\<bar> \<le> B ! 9 div 2 ^ 25 + 1" using shr_bound [OF h(2), of 25] by (auto simp: c_def)
  have m: "B ! 9 div 2 ^ 25 \<le> 2 ^ 62 div 2 ^ 25" using assms(4) by (intro zdiv_mono1) auto
  have e: "int64 (h ! 9 + 2 ^ 24) = h ! 9 + 2 ^ 24" using h(2) assms(4) by (intro int64_exact) auto
  have e2: "int64 (c * 19) = c * 19" "int64 (h ! 0 + c * 19) = h ! 0 + c * 19" using h(1) assms(3) b m by (auto intro!: int64_exact)
  have e3: "shl64 c 25 = c * 2 ^ 25" unfolding shl64_def using r h(2) assms(4) by (intro int64_exact) auto
  have e4: "int64 (h ! 9 - c * 2 ^ 25) = h ! 9 - c * 2 ^ 25" using r by (intro int64_exact) auto
  have eq: "carry_around h = h[0 := h ! 0 + c * 19, 9 := h ! 9 - c * 2 ^ 25]"
    unfolding carry_around_def Let_def e c_def [symmetric] e2 using e3 e4 by simp
  show "bnd (around_bound B) (carry_around h)"
    unfolding eq around_bound_def using h b r by (intro bnd_update assms(1)) auto
  have "val (carry_around h) = val h - c * p25519" unfolding eq using l by (simp add: val_update offset_def p25519_def algebra_simps)
  then show "\<exists>c. val (carry_around h) = val h - c * p25519" by blast
qed

lemma bnd_mono: "bnd B h \<Longrightarrow> list_all2 (\<le>) B C \<Longrightarrow> bnd C h"
  unfolding bnd_def by (auto simp: list_all2_conv_all_nth) (meson order_trans)

lemma fe_around: "(\<exists>c. val h' = val h - c * p25519) \<Longrightarrow> fe h' = fe h"
  by (auto simp: fe_def mod_diff_eq [symmetric])

lemma int32_limbs:
  assumes "bnd B h" and "list_all (\<lambda>b. b < 2 ^ 31) B"
  shows "map int32 h = h"
  using assms by (auto simp: bnd_def list_all2_conv_all_nth list_all_length intro!: nth_equalityI int32_exact) force+

text \<open>The carries of a product, from limbs of up to 61 bits, and those of small multiples.\<close>

definition carried :: "int list \<Rightarrow> int \<Rightarrow> int list \<Rightarrow> bool" where
  "carried B v h \<longleftrightarrow> bnd B h \<and> length B = 10 \<and> fe h = v"

lemma carry_carried:
  "carried B v h \<Longrightarrow> i < 9 \<Longrightarrow> B ! i \<le> 2 ^ 62 \<Longrightarrow> B ! (i + 1) \<le> 2 ^ 62 \<Longrightarrow> k = limb_bits i \<Longrightarrow> carried (carry_bound i B) v (carry i k h)"
  using carry_exact(2,3) [of B h i k] by (auto simp: carried_def fe_def carry_bound_def)

lemma carry_around_carried:
  "carried B v h \<Longrightarrow> B ! 0 \<le> 2 ^ 62 \<Longrightarrow> B ! 9 \<le> 2 ^ 62 \<Longrightarrow> carried (around_bound B) v (carry_around h)"
  using carry_around_exact [of B h] fe_around [of "carry_around h" h] by (auto simp: carried_def around_bound_def)

lemma carried_small:
  assumes "carried B v h" and "list_all2 (\<le>) B small"
  shows "bnd small h" and "fe h = v"
  using assms bnd_mono by (auto simp: carried_def)

lemma replicate10: "replicate 10 x = [x, x, x, x, x, x, x, x, x, x]"
  by (simp add: eval_nat_numeral)

lemmas carry_steps = carry_bound_def around_bound_def limb_bits_def replicate10

lemma carry_product_exact:
  assumes "bnd (replicate 10 (2 ^ 61)) h"
  shows "bnd small (carry_product h)" and "fe (carry_product h) = fe h"
proof -
  have s0: "carried (replicate 10 (2 ^ 61)) (fe h) h" using assms by (simp add: carried_def)
  define h1 where "h1 = carry 0 26 h"
  have s1: "carried [33554432, 2305843043573432321, 2305843009213693952, 2305843009213693952, 2305843009213693952, 2305843009213693952, 2305843009213693952, 2305843009213693952, 2305843009213693952, 2305843009213693952] (fe h) h1"
    using carry_carried [OF s0, of 0 26] unfolding h1_def by (simp add: carry_steps)
  define h2 where "h2 = carry 4 26 h1"
  have s2: "carried [33554432, 2305843043573432321, 2305843009213693952, 2305843009213693952, 33554432, 2305843043573432321, 2305843009213693952, 2305843009213693952, 2305843009213693952, 2305843009213693952] (fe h) h2"
    using carry_carried [OF s1, of 4 26] unfolding h2_def by (simp add: carry_steps)
  define h3 where "h3 = carry 1 25 h2"
  have s3: "carried [33554432, 16777216, 2305843077933171713, 2305843009213693952, 33554432, 2305843043573432321, 2305843009213693952, 2305843009213693952, 2305843009213693952, 2305843009213693952] (fe h) h3"
    using carry_carried [OF s2, of 1 25] unfolding h3_def by (simp add: carry_steps)
  define h4 where "h4 = carry 5 25 h3"
  have s4: "carried [33554432, 16777216, 2305843077933171713, 2305843009213693952, 33554432, 16777216, 2305843077933171713, 2305843009213693952, 2305843009213693952, 2305843009213693952] (fe h) h4"
    using carry_carried [OF s3, of 5 25] unfolding h4_def by (simp add: carry_steps)
  define h5 where "h5 = carry 2 26 h4"
  have s5: "carried [33554432, 16777216, 33554432, 2305843043573433345, 33554432, 16777216, 2305843077933171713, 2305843009213693952, 2305843009213693952, 2305843009213693952] (fe h) h5"
    using carry_carried [OF s4, of 2 26] unfolding h5_def by (simp add: carry_steps)
  define h6 where "h6 = carry 6 26 h5"
  have s6: "carried [33554432, 16777216, 33554432, 2305843043573433345, 33554432, 16777216, 33554432, 2305843043573433345, 2305843009213693952, 2305843009213693952] (fe h) h6"
    using carry_carried [OF s5, of 6 26] unfolding h6_def by (simp add: carry_steps)
  define h7 where "h7 = carry 3 25 h6"
  have s7: "carried [33554432, 16777216, 33554432, 16777216, 68753032193, 16777216, 33554432, 2305843043573433345, 2305843009213693952, 2305843009213693952] (fe h) h7"
    using carry_carried [OF s6, of 3 25] unfolding h7_def by (simp add: carry_steps)
  define h8 where "h8 = carry 7 25 h7"
  have s8: "carried [33554432, 16777216, 33554432, 16777216, 68753032193, 16777216, 33554432, 16777216, 2305843077933171713, 2305843009213693952] (fe h) h8"
    using carry_carried [OF s7, of 7 25] unfolding h8_def by (simp add: carry_steps)
  define h9 where "h9 = carry 4 26 h8"
  have s9: "carried [33554432, 16777216, 33554432, 16777216, 33554432, 16778241, 33554432, 16777216, 2305843077933171713, 2305843009213693952] (fe h) h9"
    using carry_carried [OF s8, of 4 26] unfolding h9_def by (simp add: carry_steps)
  define h10 where "h10 = carry 8 26 h9"
  have s10: "carried [33554432, 16777216, 33554432, 16777216, 33554432, 16778241, 33554432, 16777216, 33554432, 2305843043573433345] (fe h) h10"
    using carry_carried [OF s9, of 8 26] unfolding h10_def by (simp add: carry_steps)
  define h11 where "h11 = carry_around h10"
  have s11: "carried [1305703631891, 16777216, 33554432, 16777216, 33554432, 16778241, 33554432, 16777216, 33554432, 16777216] (fe h) h11"
    using carry_around_carried [OF s10] unfolding h11_def by (simp add: carry_steps)
  define h12 where "h12 = carry 0 26 h11"
  have s12: "carried [33554432, 16796673, 33554432, 16777216, 33554432, 16778241, 33554432, 16777216, 33554432, 16777216] (fe h) h12"
    using carry_carried [OF s11, of 0 26] unfolding h12_def by (simp add: carry_steps)
  have "carry_product h = h12" unfolding carry_product_def Let_def h12_def h11_def h10_def h9_def h8_def h7_def h6_def h5_def h4_def h3_def h2_def h1_def by (rule refl)
  then show "bnd small (carry_product h)" and "fe (carry_product h) = fe h" using carried_small [OF s12] by (simp_all add: small_def)
qed

lemma carry_small_exact:
  assumes "bnd (replicate 10 (2 ^ 45)) h"
  shows "bnd small (carry_small h)" and "fe (carry_small h) = fe h"
proof -
  have s0: "carried (replicate 10 (2 ^ 45)) (fe h) h" using assms by (simp add: carried_def)
  define h1 where "h1 = carry_around h"
  have s1: "carried [35184392011795, 35184372088832, 35184372088832, 35184372088832, 35184372088832, 35184372088832, 35184372088832, 35184372088832, 35184372088832, 16777216] (fe h) h1"
    using carry_around_carried [OF s0] unfolding h1_def by (simp add: carry_steps)
  define h2 where "h2 = carry 1 25 h1"
  have s2: "carried [35184392011795, 16777216, 35184373137409, 35184372088832, 35184372088832, 35184372088832, 35184372088832, 35184372088832, 35184372088832, 16777216] (fe h) h2"
    using carry_carried [OF s1, of 1 25] unfolding h2_def by (simp add: carry_steps)
  define h3 where "h3 = carry 3 25 h2"
  have s3: "carried [35184392011795, 16777216, 35184373137409, 16777216, 35184373137409, 35184372088832, 35184372088832, 35184372088832, 35184372088832, 16777216] (fe h) h3"
    using carry_carried [OF s2, of 3 25] unfolding h3_def by (simp add: carry_steps)
  define h4 where "h4 = carry 5 25 h3"
  have s4: "carried [35184392011795, 16777216, 35184373137409, 16777216, 35184373137409, 16777216, 35184373137409, 35184372088832, 35184372088832, 16777216] (fe h) h4"
    using carry_carried [OF s3, of 5 25] unfolding h4_def by (simp add: carry_steps)
  define h5 where "h5 = carry 7 25 h4"
  have s5: "carried [35184392011795, 16777216, 35184373137409, 16777216, 35184373137409, 16777216, 35184373137409, 16777216, 35184373137409, 16777216] (fe h) h5"
    using carry_carried [OF s4, of 7 25] unfolding h5_def by (simp add: carry_steps)
  define h6 where "h6 = carry 0 26 h5"
  have s6: "carried [33554432, 17301505, 35184373137409, 16777216, 35184373137409, 16777216, 35184373137409, 16777216, 35184373137409, 16777216] (fe h) h6"
    using carry_carried [OF s5, of 0 26] unfolding h6_def by (simp add: carry_steps)
  define h7 where "h7 = carry 2 26 h6"
  have s7: "carried [33554432, 17301505, 33554432, 17301505, 35184373137409, 16777216, 35184373137409, 16777216, 35184373137409, 16777216] (fe h) h7"
    using carry_carried [OF s6, of 2 26] unfolding h7_def by (simp add: carry_steps)
  define h8 where "h8 = carry 4 26 h7"
  have s8: "carried [33554432, 17301505, 33554432, 17301505, 33554432, 17301505, 35184373137409, 16777216, 35184373137409, 16777216] (fe h) h8"
    using carry_carried [OF s7, of 4 26] unfolding h8_def by (simp add: carry_steps)
  define h9 where "h9 = carry 6 26 h8"
  have s9: "carried [33554432, 17301505, 33554432, 17301505, 33554432, 17301505, 33554432, 17301505, 35184373137409, 16777216] (fe h) h9"
    using carry_carried [OF s8, of 6 26] unfolding h9_def by (simp add: carry_steps)
  define h10 where "h10 = carry 8 26 h9"
  have s10: "carried [33554432, 17301505, 33554432, 17301505, 33554432, 17301505, 33554432, 17301505, 33554432, 17301505] (fe h) h10"
    using carry_carried [OF s9, of 8 26] unfolding h10_def by (simp add: carry_steps)
  have "carry_small h = h10" unfolding carry_small_def Let_def h10_def h9_def h8_def h7_def h6_def h5_def h4_def h3_def h2_def h1_def by (rule refl)
  then show "bnd small (carry_small h)" and "fe (carry_small h) = fe h" using carried_small [OF s10] by (simp_all add: small_def)
qed

section \<open>Products\<close>

text \<open>Ten products of operands that are not too large do not overflow, and neither does their sum.\<close>

definition operands_ok :: "int \<times> int \<Rightarrow> bool" where
  "operands_ok ab \<longleftrightarrow> \<bar>fst ab\<bar> \<le> 147639500 \<and> \<bar>snd ab\<bar> \<le> 1402575250"

definition products :: "(int \<times> int) list \<Rightarrow> int" where
  "products ps = (\<Sum>(a, b)\<leftarrow>ps. a * b)"

lemma products_simps [simp]: "products [] = 0" "products ((a, b) # ps) = a * b + products ps"
  by (simp_all add: products_def)

lemma operands_product:
  assumes "operands_ok (a, b)"
  shows "mul64 a b = a * b" and "\<bar>a * b\<bar> \<le> 207075508666375000"
proof -
  have "\<bar>a * b\<bar> \<le> 147639500 * 1402575250" unfolding abs_mult using assms by (intro mult_mono) (auto simp: operands_ok_def)
  then show "\<bar>a * b\<bar> \<le> 207075508666375000" by simp
  then show "mul64 a b = a * b" unfolding mul64_def by (intro int64_exact) auto
qed

lemma foldl_products:
  assumes "list_all operands_ok ps" and "\<bar>x\<bar> \<le> int n * 207075508666375000" and "n + length ps \<le> 11"
  shows "foldl (\<lambda>a b. int64 (a + b)) x (map (\<lambda>(a, b). mul64 a b) ps) = x + products ps
    \<and> \<bar>x + products ps\<bar> \<le> int (n + length ps) * 207075508666375000"
  using assms
proof (induction ps arbitrary: x n)
  case (Cons ab ps)
  obtain a b where ab: "ab = (a, b)" by fastforce
  have m: "mul64 a b = a * b" "\<bar>a * b\<bar> \<le> 207075508666375000" using operands_product [of a b] Cons.prems(1) ab by auto
  have x: "\<bar>x + a * b\<bar> \<le> int (Suc n) * 207075508666375000" using m(2) Cons.prems(2) by (simp add: algebra_simps)
  moreover have "int (Suc n) \<le> 11" using Cons.prems(3) by simp
  ultimately have "int64 (x + a * b) = x + a * b" by (intro int64_exact) auto
  moreover have "foldl (\<lambda>a b. int64 (a + b)) (x + a * b) (map (\<lambda>(a, b). mul64 a b) ps) = x + a * b + products ps
    \<and> \<bar>x + a * b + products ps\<bar> \<le> int (Suc n + length ps) * 207075508666375000"
    using Cons.prems by (intro Cons.IH x) auto
  ultimately show ?case using ab m(1) by (simp add: algebra_simps)
qed simp

lemma sum64_products:
  assumes "list_all operands_ok ps" and "length ps \<le> 10" and "ps \<noteq> []"
  shows "sum64 (map (\<lambda>(a, b). mul64 a b) ps) = products ps" and "\<bar>products ps\<bar> \<le> 2 ^ 61"
proof -
  obtain a b qs where ps: "ps = (a, b) # qs" using assms(3) by (cases ps) auto
  have m: "mul64 a b = a * b" "\<bar>a * b\<bar> \<le> int 1 * 207075508666375000" using operands_product [of a b] assms(1) ps by auto
  have "foldl (\<lambda>a b. int64 (a + b)) (a * b) (map (\<lambda>(a, b). mul64 a b) qs) = a * b + products qs
    \<and> \<bar>a * b + products qs\<bar> \<le> int (1 + length qs) * 207075508666375000"
    using assms(1,2) ps m(2) by (intro foldl_products) auto
  moreover have "int (1 + length qs) \<le> 10" using assms(2) ps by simp
  ultimately show "sum64 (map (\<lambda>(a, b). mul64 a b) ps) = products ps" and "\<bar>products ps\<bar> \<le> 2 ^ 61" using ps m(1) by auto
qed

lemma limbs_products:
  assumes "list_all (\<lambda>ps. list_all operands_ok ps \<and> length ps \<le> 10 \<and> ps \<noteq> []) pss" and "length pss = 10"
  shows "map (\<lambda>ps. sum64 (map (\<lambda>(a, b). mul64 a b) ps)) pss = map products pss" and "bnd (replicate 10 (2 ^ 61)) (map products pss)"
proof -
  show "map (\<lambda>ps. sum64 (map (\<lambda>(a, b). mul64 a b) ps)) pss = map products pss"
    using assms sum64_products(1) by (auto simp: list_all_iff)
  have "\<bar>products (pss ! i)\<bar> \<le> 2 ^ 61" if "i < 10" for i using assms that by (intro sum64_products(2)) (simp_all add: list_all_length)
  then show "bnd (replicate 10 (2 ^ 61)) (map products pss)" using assms(2) by (simp add: bnd_def list_all2_conv_all_nth)
qed

lemma length_10E:
  assumes "length xs = 10"
  obtains a b c d e f g h i j where "xs = [a, b, c, d, e, f, g, h, i, j]"
  using assms by (auto simp: length_Suc_conv numeral_eq_Suc)

lemma large_bounds:
  assumes "bnd large [a, b, c, d, e, f, g, h, i, j]"
  shows "\<bar>a\<bar> \<le> 73819750" "\<bar>b\<bar> \<le> 36909875" "\<bar>c\<bar> \<le> 73819750" "\<bar>d\<bar> \<le> 36909875" "\<bar>e\<bar> \<le> 73819750" "\<bar>f\<bar> \<le> 36909875"
    "\<bar>g\<bar> \<le> 73819750" "\<bar>h\<bar> \<le> 36909875" "\<bar>i\<bar> \<le> 73819750" "\<bar>j\<bar> \<le> 36909875"
  using assms by (simp_all add: bnd_def large_def)

lemma int32_times:
  "\<bar>x\<bar> \<le> 73819750 \<Longrightarrow> int32 (19 * x) = 19 * x" "\<bar>x\<bar> \<le> 73819750 \<Longrightarrow> int32 (2 * x) = 2 * x" "\<bar>x\<bar> \<le> 36909875 \<Longrightarrow> int32 (38 * x) = 38 * x"
  "\<bar>x\<bar> \<le> 36909875 \<Longrightarrow> int32 (19 * x) = 19 * x" "\<bar>x\<bar> \<le> 36909875 \<Longrightarrow> int32 (2 * x) = 2 * x"
  by (rule int32_exact; simp add: abs_le_iff)+

lemma operands_times:
  "\<bar>x :: int\<bar> \<le> 73819750 \<Longrightarrow> \<bar>x\<bar> \<le> 147639500" "\<bar>x\<bar> \<le> 36909875 \<Longrightarrow> \<bar>x\<bar> \<le> 147639500" "\<bar>x\<bar> \<le> 73819750 \<Longrightarrow> \<bar>2 * x\<bar> \<le> 147639500"
  "\<bar>x\<bar> \<le> 36909875 \<Longrightarrow> \<bar>2 * x\<bar> \<le> 147639500" "\<bar>x\<bar> \<le> 73819750 \<Longrightarrow> \<bar>x\<bar> \<le> 1402575250" "\<bar>x\<bar> \<le> 36909875 \<Longrightarrow> \<bar>x\<bar> \<le> 1402575250"
  "\<bar>x\<bar> \<le> 73819750 \<Longrightarrow> \<bar>19 * x\<bar> \<le> 1402575250" "\<bar>x\<bar> \<le> 36909875 \<Longrightarrow> \<bar>19 * x\<bar> \<le> 1402575250" "\<bar>x\<bar> \<le> 36909875 \<Longrightarrow> \<bar>38 * x\<bar> \<le> 1402575250"
  "\<bar>x\<bar> \<le> 36909875 \<Longrightarrow> \<bar>2 * x\<bar> \<le> 1402575250"
  by simp_all

lemma mul_limbs_products:
  assumes "bnd large [f0, f1, f2, f3, f4, f5, f6, f7, f8, f9]" and "bnd large [g0, g1, g2, g3, g4, g5, g6, g7, g8, g9]"
  shows "mul_limbs [f0, f1, f2, f3, f4, f5, f6, f7, f8, f9] [g0, g1, g2, g3, g4, g5, g6, g7, g8, g9] = map products
    [[(f0, g0), (2 * f1, 19 * g9), (f2, 19 * g8), (2 * f3, 19 * g7), (f4, 19 * g6), (2 * f5, 19 * g5), (f6, 19 * g4), (2 * f7, 19 * g3), (f8, 19
      * g2), (2 * f9, 19 * g1)],
    [(f0, g1), (f1, g0), (f2, 19 * g9), (f3, 19 * g8), (f4, 19 * g7), (f5, 19 * g6), (f6, 19 * g5), (f7, 19
      * g4), (f8, 19 * g3), (f9, 19 * g2)],
    [(f0, g2), (2 * f1, g1), (f2, g0), (2 * f3, 19 * g9), (f4, 19 * g8), (2 * f5, 19 * g7), (f6,
      19 * g6), (2 * f7, 19 * g5), (f8, 19 * g4), (2 * f9, 19 * g3)],
    [(f0, g3), (f1, g2), (f2, g1), (f3, g0), (f4, 19 * g9), (f5, 19 *
      g8), (f6, 19 * g7), (f7, 19 * g6), (f8, 19 * g5), (f9, 19 * g4)],
    [(f0, g4), (2 * f1, g3), (f2, g2), (2 * f3, g1), (f4, g0), (2 *
      f5, 19 * g9), (f6, 19 * g8), (2 * f7, 19 * g7), (f8, 19 * g6), (2 * f9, 19 * g5)],
    [(f0, g5), (f1, g4), (f2, g3), (f3, g2), (f4,
      g1), (f5, g0), (f6, 19 * g9), (f7, 19 * g8), (f8, 19 * g7), (f9, 19 * g6)],
    [(f0, g6), (2 * f1, g5), (f2, g4), (2 * f3, g3), (f4,
      g2), (2 * f5, g1), (f6, g0), (2 * f7, 19 * g9), (f8, 19 * g8), (2 * f9, 19 * g7)],
    [(f0, g7), (f1, g6), (f2, g5), (f3, g4), (f4,
      g3), (f5, g2), (f6, g1), (f7, g0), (f8, 19 * g9), (f9, 19 * g8)],
    [(f0, g8), (2 * f1, g7), (f2, g6), (2 * f3, g5), (f4, g4), (2 *
      f5, g3), (f6, g2), (2 * f7, g1), (f8, g0), (2 * f9, 19 * g9)],
    [(f0, g9), (f1, g8), (f2, g7), (f3, g6), (f4, g5), (f5, g4), (f6,
      g3), (f7, g2), (f8, g1), (f9, g0)]]" (is "_ = map products ?T")
    and "bnd (replicate 10 (2 ^ 61)) (mul_limbs [f0, f1, f2, f3, f4, f5, f6, f7, f8, f9] [g0, g1, g2, g3, g4, g5, g6, g7, g8, g9])"
proof -
  note b = large_bounds [OF assms(1)] large_bounds [OF assms(2)]
  have ok: "list_all (\<lambda>ps. list_all operands_ok ps \<and> length ps \<le> 10 \<and> ps \<noteq> []) ?T"
    by (simp add: operands_ok_def operands_times b)
  have l: "length ?T = 10" by simp
  have "mul_limbs [f0, f1, f2, f3, f4, f5, f6, f7, f8, f9] [g0, g1, g2, g3, g4, g5, g6, g7, g8, g9] = map (\<lambda>ps. sum64 (map (\<lambda>(a, b). mul64 a b) ps)) ?T"
    by (simp add: mul_limbs_def Let_def int32_times b del: sum64.simps)
  then show "mul_limbs [f0, f1, f2, f3, f4, f5, f6, f7, f8, f9] [g0, g1, g2, g3, g4, g5, g6, g7, g8, g9] = map products ?T"
    and "bnd (replicate 10 (2 ^ 61)) (mul_limbs [f0, f1, f2, f3, f4, f5, f6, f7, f8, f9] [g0, g1, g2, g3, g4, g5, g6, g7, g8, g9])"
    using limbs_products [OF ok l] by simp_all
qed

lemma square_limbs_products:
  assumes "bnd large [f0, f1, f2, f3, f4, f5, f6, f7, f8, f9]"
  shows "square_limbs [f0, f1, f2, f3, f4, f5, f6, f7, f8, f9] = map products
    [[(f0, f0), (2 * f1, 38 * f9), (2 * f2, 19 * f8), (2 * f3, 38 * f7), (2 * f4, 19 * f6), (f5, 38 * f5)],
    [(2 * f0, f1), (f2, 38 * f9), (2
      * f3, 19 * f8), (f4, 38 * f7), (2 * f5, 19 * f6)],
    [(2 * f0, f2), (2 * f1, f1), (2 * f3, 38 * f9), (2 * f4, 19 * f8), (2 * f5, 38 *
      f7), (f6, 19 * f6)],
    [(2 * f0, f3), (2 * f1, f2), (f4, 38 * f9), (2 * f5, 19 * f8), (f6, 38 * f7)],
    [(2 * f0, f4), (2 * f1, 2 *
      f3), (f2, f2), (2 * f5, 38 * f9), (2 * f6, 19 * f8), (f7, 38 * f7)],
    [(2 * f0, f5), (2 * f1, f4), (2 * f2, f3), (f6, 38 * f9), (2 *
      f7, 19 * f8)],
    [(2 * f0, f6), (2 * f1, 2 * f5), (2 * f2, f4), (2 * f3, f3), (2 * f7, 38 * f9), (f8, 19 * f8)],
    [(2 * f0, f7),
      (2 * f1, f6), (2 * f2, f5), (2 * f3, f4), (f8, 38 * f9)],
    [(2 * f0, f8), (2 * f1, 2 * f7), (2 * f2, f6), (2 * f3, 2 * f5), (f4,
      f4), (f9, 38 * f9)],
    [(2 * f0, f9), (2 * f1, f8), (2 * f2, f7), (2 * f3, f6), (2 * f4, f5)]]" (is "_ = map products ?T")
    and "bnd (replicate 10 (2 ^ 61)) (square_limbs [f0, f1, f2, f3, f4, f5, f6, f7, f8, f9])"
proof -
  note b = large_bounds [OF assms(1)]
  have ok: "list_all (\<lambda>ps. list_all operands_ok ps \<and> length ps \<le> 10 \<and> ps \<noteq> []) ?T"
    by (simp add: operands_ok_def operands_times b)
  have l: "length ?T = 10" by simp
  have "square_limbs [f0, f1, f2, f3, f4, f5, f6, f7, f8, f9] = map (\<lambda>ps. sum64 (map (\<lambda>(a, b). mul64 a b) ps)) ?T"
    by (simp add: square_limbs_def Let_def int32_times b del: sum64.simps)
  then show "square_limbs [f0, f1, f2, f3, f4, f5, f6, f7, f8, f9] = map products ?T"
    and "bnd (replicate 10 (2 ^ 61)) (square_limbs [f0, f1, f2, f3, f4, f5, f6, f7, f8, f9])"
    using limbs_products [OF ok l] by simp_all
qed

text \<open>The product of the values is the value of the products, up to a multiple of the modulus: limb \<open>i + j \<ge> 10\<close> comes
      back with the factor 19.\<close>

lemma mul_rows:
"1 * val [g0, g1, g2, g3, g4, g5, g6, g7, g8, g9] = 1 * g0 + 67108864 * g1 + 2251799813685248 * g2 + 151115727451828646838272 * g3 +
      5070602400912917605986812821504 * g4 + 340282366920938463463374607431768211456 * g5 + 11417981541647679048466287755595961091061972992 *
      g6 + 766247770432944429179173513575154591809369561091801088 * g7 + 25711008708143844408671393477458601640355247900524685364822016 * g8
      + 1725436586697640946858688965569256363112777243042596638790631055949824 * g9 + (0) * p25519"
"67108864 * val [g0, g1, g2, g3, g4, g5, g6, g7, g8, g9] = 67108864 * g0 + 4503599627370496 * g1 + 151115727451828646838272 * g2 +
      10141204801825835211973625643008 * g3 + 340282366920938463463374607431768211456 * g4 + 22835963083295358096932575511191922182123945984
      * g5 + 766247770432944429179173513575154591809369561091801088 * g6 + 51422017416287688817342786954917203280710495801049370729644032 *
      g7 + 1725436586697640946858688965569256363112777243042596638790631055949824 * g8 + 38 * g9 + (2 * g9) * p25519"
"2251799813685248 * val [g0, g1, g2, g3, g4, g5, g6, g7, g8, g9] = 2251799813685248 * g0 + 151115727451828646838272 * g1 +
      5070602400912917605986812821504 * g2 + 340282366920938463463374607431768211456 * g3 + 11417981541647679048466287755595961091061972992 *
      g4 + 766247770432944429179173513575154591809369561091801088 * g5 + 25711008708143844408671393477458601640355247900524685364822016 * g6
      + 1725436586697640946858688965569256363112777243042596638790631055949824 * g7 + 19 * g8 + 1275068416 * g9 + (1 * g8 + 67108864 * g9) *
      p25519"
"151115727451828646838272 * val [g0, g1, g2, g3, g4, g5, g6, g7, g8, g9] = 151115727451828646838272 * g0 + 10141204801825835211973625643008 *
      g1 + 340282366920938463463374607431768211456 * g2 + 22835963083295358096932575511191922182123945984 * g3 +
      766247770432944429179173513575154591809369561091801088 * g4 + 51422017416287688817342786954917203280710495801049370729644032 * g5 +
      1725436586697640946858688965569256363112777243042596638790631055949824 * g6 + 38 * g7 + 1275068416 * g8 + 85568392920039424 * g9 + (2 *
      g7 + 67108864 * g8 + 4503599627370496 * g9) * p25519"
"5070602400912917605986812821504 * val [g0, g1, g2, g3, g4, g5, g6, g7, g8, g9] = 5070602400912917605986812821504 * g0 +
      340282366920938463463374607431768211456 * g1 + 11417981541647679048466287755595961091061972992 * g2 +
      766247770432944429179173513575154591809369561091801088 * g3 + 25711008708143844408671393477458601640355247900524685364822016 * g4 +
      1725436586697640946858688965569256363112777243042596638790631055949824 * g5 + 19 * g6 + 1275068416 * g7 + 42784196460019712 * g8 +
      2871198821584744289927168 * g9 + (1 * g6 + 67108864 * g7 + 2251799813685248 * g8 + 151115727451828646838272 * g9) * p25519"
"340282366920938463463374607431768211456 * val [g0, g1, g2, g3, g4, g5, g6, g7, g8, g9] = 340282366920938463463374607431768211456 * g0 +
      22835963083295358096932575511191922182123945984 * g1 + 766247770432944429179173513575154591809369561091801088 * g2 +
      51422017416287688817342786954917203280710495801049370729644032 * g3 +
      1725436586697640946858688965569256363112777243042596638790631055949824 * g4 + 38 * g5 + 1275068416 * g6 + 85568392920039424 * g7 +
      2871198821584744289927168 * g8 + 192682891234690869027498887217152 * g9 + (2 * g5 + 67108864 * g6 + 4503599627370496 * g7 +
      151115727451828646838272 * g8 + 10141204801825835211973625643008 * g9) * p25519"
"11417981541647679048466287755595961091061972992 * val [g0, g1, g2, g3, g4, g5, g6, g7, g8, g9] =
      11417981541647679048466287755595961091061972992 * g0 + 766247770432944429179173513575154591809369561091801088 * g1 +
      25711008708143844408671393477458601640355247900524685364822016 * g2 +
      1725436586697640946858688965569256363112777243042596638790631055949824 * g3 + 19 * g4 + 1275068416 * g5 + 42784196460019712 * g6 +
      2871198821584744289927168 * g7 + 96341445617345434513749443608576 * g8 + 6465364971497830805804117541203596017664 * g9 + (1 * g4 +
      67108864 * g5 + 2251799813685248 * g6 + 151115727451828646838272 * g7 + 5070602400912917605986812821504 * g8 +
      340282366920938463463374607431768211456 * g9) * p25519"
"766247770432944429179173513575154591809369561091801088 * val [g0, g1, g2, g3, g4, g5, g6, g7, g8, g9] =
      766247770432944429179173513575154591809369561091801088 * g0 + 51422017416287688817342786954917203280710495801049370729644032 * g1 +
      1725436586697640946858688965569256363112777243042596638790631055949824 * g2 + 38 * g3 + 1275068416 * g4 + 85568392920039424 * g5 +
      2871198821584744289927168 * g6 + 192682891234690869027498887217152 * g7 + 6465364971497830805804117541203596017664 * g8 +
      433883298582611803841718934712646521460354973696 * g9 + (2 * g3 + 67108864 * g4 + 4503599627370496 * g5 + 151115727451828646838272 * g6
      + 10141204801825835211973625643008 * g7 + 340282366920938463463374607431768211456 * g8 +
      22835963083295358096932575511191922182123945984 * g9) * p25519"
"25711008708143844408671393477458601640355247900524685364822016 * val [g0, g1, g2, g3, g4, g5, g6, g7, g8, g9] =
      25711008708143844408671393477458601640355247900524685364822016 * g0 +
      1725436586697640946858688965569256363112777243042596638790631055949824 * g1 + 19 * g2 + 1275068416 * g3 + 42784196460019712 * g4 +
      2871198821584744289927168 * g5 + 96341445617345434513749443608576 * g6 + 6465364971497830805804117541203596017664 * g7 +
      216941649291305901920859467356323260730177486848 * g8 + 14558707638225944154404296757927937244378021660744220672 * g9 + (1 * g2 +
      67108864 * g3 + 2251799813685248 * g4 + 151115727451828646838272 * g5 + 5070602400912917605986812821504 * g6 +
      340282366920938463463374607431768211456 * g7 + 11417981541647679048466287755595961091061972992 * g8 +
      766247770432944429179173513575154591809369561091801088 * g9) * p25519"
"1725436586697640946858688965569256363112777243042596638790631055949824 * val [g0, g1, g2, g3, g4, g5, g6, g7, g8, g9] =
      1725436586697640946858688965569256363112777243042596638790631055949824 * g0 + 38 * g1 + 1275068416 * g2 + 85568392920039424 * g3 +
      2871198821584744289927168 * g4 + 192682891234690869027498887217152 * g5 + 6465364971497830805804117541203596017664 * g6 +
      433883298582611803841718934712646521460354973696 * g7 + 14558707638225944154404296757927937244378021660744220672 * g8 +
      977018330909466087529512952143426862333499420219938043863236608 * g9 + (2 * g1 + 67108864 * g2 + 4503599627370496 * g3 +
      151115727451828646838272 * g4 + 10141204801825835211973625643008 * g5 + 340282366920938463463374607431768211456 * g6 +
      22835963083295358096932575511191922182123945984 * g7 + 766247770432944429179173513575154591809369561091801088 * g8 +
      51422017416287688817342786954917203280710495801049370729644032 * g9) * p25519"
  by (simp_all add: val_list p25519_def)

lemma val_products:
  assumes "bnd large [f0, f1, f2, f3, f4, f5, f6, f7, f8, f9]" and "bnd large [g0, g1, g2, g3, g4, g5, g6, g7, g8, g9]"
shows "fe (mul_limbs [f0, f1, f2, f3, f4, f5, f6, f7, f8, f9] [g0, g1, g2, g3, g4, g5, g6, g7, g8, g9]) = (val [f0, f1, f2, f3, f4, f5, f6,
      f7, f8, f9] * val [g0, g1, g2, g3, g4, g5, g6, g7, g8, g9]) mod p25519"
proof -
have "val [f0, f1, f2, f3, f4, f5, f6, f7, f8, f9] * val [g0, g1, g2, g3, g4, g5, g6, g7, g8, g9] = f0 * (1 * val [g0, g1, g2, g3, g4, g5,
      g6, g7, g8, g9]) + f1 * (67108864 * val [g0, g1, g2, g3, g4, g5, g6, g7, g8, g9]) + f2 * (2251799813685248 * val [g0, g1, g2, g3, g4,
      g5, g6, g7, g8, g9]) + f3 * (151115727451828646838272 * val [g0, g1, g2, g3, g4, g5, g6, g7, g8, g9]) + f4 *
      (5070602400912917605986812821504 * val [g0, g1, g2, g3, g4, g5, g6, g7, g8, g9]) + f5 * (340282366920938463463374607431768211456 * val
      [g0, g1, g2, g3, g4, g5, g6, g7, g8, g9]) + f6 * (11417981541647679048466287755595961091061972992 * val [g0, g1, g2, g3, g4, g5, g6,
      g7, g8, g9]) + f7 * (766247770432944429179173513575154591809369561091801088 * val [g0, g1, g2, g3, g4, g5, g6, g7, g8, g9]) + f8 *
      (25711008708143844408671393477458601640355247900524685364822016 * val [g0, g1, g2, g3, g4, g5, g6, g7, g8, g9]) + f9 *
      (1725436586697640946858688965569256363112777243042596638790631055949824 * val [g0, g1, g2, g3, g4, g5, g6, g7, g8, g9])"
    by (simp add: val_list [of f0] algebra_simps)
also have "\<dots> = val (mul_limbs [f0, f1, f2, f3, f4, f5, f6, f7, f8, f9] [g0, g1, g2, g3, g4, g5, g6, g7, g8, g9]) + (f1 * (2 * g9) + f2
      * (1 * g8 + 67108864 * g9) + f3 * (2 * g7 + 67108864 * g8 + 4503599627370496 * g9) + f4 * (1 * g6 + 67108864 * g7 + 2251799813685248 *
      g8 + 151115727451828646838272 * g9) + f5 * (2 * g5 + 67108864 * g6 + 4503599627370496 * g7 + 151115727451828646838272 * g8 +
      10141204801825835211973625643008 * g9) + f6 * (1 * g4 + 67108864 * g5 + 2251799813685248 * g6 + 151115727451828646838272 * g7 +
      5070602400912917605986812821504 * g8 + 340282366920938463463374607431768211456 * g9) + f7 * (2 * g3 + 67108864 * g4 + 4503599627370496
      * g5 + 151115727451828646838272 * g6 + 10141204801825835211973625643008 * g7 + 340282366920938463463374607431768211456 * g8 +
      22835963083295358096932575511191922182123945984 * g9) + f8 * (1 * g2 + 67108864 * g3 + 2251799813685248 * g4 + 151115727451828646838272
      * g5 + 5070602400912917605986812821504 * g6 + 340282366920938463463374607431768211456 * g7 +
      11417981541647679048466287755595961091061972992 * g8 + 766247770432944429179173513575154591809369561091801088 * g9) + f9 * (2 * g1 +
      67108864 * g2 + 4503599627370496 * g3 + 151115727451828646838272 * g4 + 10141204801825835211973625643008 * g5 +
      340282366920938463463374607431768211456 * g6 + 22835963083295358096932575511191922182123945984 * g7 +
      766247770432944429179173513575154591809369561091801088 * g8 + 51422017416287688817342786954917203280710495801049370729644032 * g9)) *
      p25519"
    unfolding mul_rows mul_limbs_products(1) [OF assms] by (simp add: val_list algebra_simps)
  finally show ?thesis by (simp add: fe_def)
qed

section \<open>The operations\<close>

lemma small_fits: "list_all (\<lambda>b. b < 2 ^ 31) small" "list_all (\<lambda>b. b < 2 ^ 31) large"
  by (simp_all add: small_def large_def)

lemma small_large: "bnd small f \<Longrightarrow> bnd large f"
  by (erule bnd_mono) (simp add: small_def large_def)

lemma length_large: "length large = 10" "length small = 10"
  by (simp_all add: large_def small_def)

lemma carried_limbs:
  assumes "bnd small h"
  shows "map int32 h = h"
  using int32_limbs [OF assms small_fits(1)] .

lemma feMul_correct:
  assumes "bnd large f" and "bnd large g"
  shows "bnd small (feMul f g)" and "fe (feMul f g) = (fe f * fe g) mod p25519"
proof -
  obtain f0 f1 f2 f3 f4 f5 f6 f7 f8 f9 where f: "f = [f0, f1, f2, f3, f4, f5, f6, f7, f8, f9]"
    using bnd_length [OF assms(1)] length_large(1) by (auto elim: length_10E)
  obtain g0 g1 g2 g3 g4 g5 g6 g7 g8 g9 where g: "g = [g0, g1, g2, g3, g4, g5, g6, g7, g8, g9]"
    using bnd_length [OF assms(2)] length_large(1) by (auto elim: length_10E)
  note c = carry_product_exact [OF mul_limbs_products(2) [OF assms [unfolded f g]]]
  show "bnd small (feMul f g)" unfolding feMul_def carried_limbs [OF c(1)] f g by (rule c(1))
  show "fe (feMul f g) = (fe f * fe g) mod p25519"
    unfolding feMul_def f g carried_limbs [OF c(1)] c(2) val_products [OF assms [unfolded f g]] by (simp add: fe_def mod_mult_eq)
qed

lemma square_mul:
  assumes "bnd large f"
  shows "square_limbs f = mul_limbs f f"
proof -
  obtain f0 f1 f2 f3 f4 f5 f6 f7 f8 f9 where f: "f = [f0, f1, f2, f3, f4, f5, f6, f7, f8, f9]"
    using bnd_length [OF assms(1)] length_large(1) by (auto elim: length_10E)
  show ?thesis
    unfolding f square_limbs_products(1) [OF assms [unfolded f]] mul_limbs_products(1) [OF assms [unfolded f] assms [unfolded f]]
    by (simp add: algebra_simps)
qed

lemma feSquare_feMul: "bnd large f \<Longrightarrow> feSquare f = feMul f f"
  by (simp add: feSquare_def feMul_def square_mul)

lemma large_uniform: "bnd large f \<Longrightarrow> x \<in> set f \<Longrightarrow> \<bar>x\<bar> \<le> 73819750"
proof -
  assume f: "bnd large f" and "x \<in> set f"
  then obtain i where i: "i < 10" "x = f ! i" using bnd_length [OF f] length_large(1) by (metis in_set_conv_nth)
  have "large ! i \<le> 73819750" using i(1) by (auto simp: large_def less_Suc_eq numeral_eq_Suc)
  then show ?thesis using bnd_nth [OF f, of i] i length_large(1) by auto
qed

lemma feMul121666_correct:
  assumes "bnd large f"
  shows "bnd small (feMul121666 f)" and "fe (feMul121666 f) = (121666 * fe f) mod p25519"
proof -
  have l: "length f = 10" using bnd_length [OF assms] length_large(1) by simp
  have b: "\<bar>x * 121666\<bar> \<le> 2 ^ 45" if "x \<in> set f" for x using large_uniform [OF assms that] by (simp add: abs_mult)
  then have m: "map (\<lambda>x. mul64 x 121666) f = map (\<lambda>x. x * 121666) f"
    unfolding mul64_def by (intro map_cong refl int64_exact) (fastforce dest: abs_le_D1 abs_le_D2)+
  have "bnd (replicate 10 (2 ^ 45)) (map (\<lambda>x. x * 121666) f)" using b l by (simp add: bnd_def list_all2_conv_all_nth)
  note c = carry_small_exact [OF this]
  have "val (map (\<lambda>x. x * 121666) f) = 121666 * val f" unfolding val_def sum_distrib_left using l by (intro sum.cong refl) simp
  then have "fe (map (\<lambda>x. x * 121666) f) = (121666 * fe f) mod p25519" by (simp add: fe_def mod_mult_right_eq)
  with c show "bnd small (feMul121666 f)" and "fe (feMul121666 f) = (121666 * fe f) mod p25519"
    unfolding feMul121666_def m by (simp_all add: carried_limbs)
qed

text \<open>Sums and differences of two small elements are large elements.\<close>

lemma bnd_pointwise:
  assumes "bnd small f" and "bnd small g" and "\<And>x y. \<bar>opr x y\<bar> \<le> \<bar>x\<bar> + \<bar>y\<bar>"
  shows "bnd large (map2 opr f g)"
proof -
  have "\<bar>opr (f ! i) (g ! i)\<bar> \<le> large ! i" if "i < 10" for i
  proof -
    have "small ! i + small ! i \<le> large ! i" using that by (auto simp: small_def large_def less_Suc_eq numeral_eq_Suc)
    then show ?thesis using bnd_nth [OF assms(1), of i] bnd_nth [OF assms(2), of i] assms(3) [of "f ! i" "g ! i"] that length_large(2) by linarith
  qed
  then show ?thesis using bnd_length [OF assms(1)] bnd_length [OF assms(2)] length_large by (simp add: bnd_def list_all2_conv_all_nth)
qed

lemma feAdd_correct:
  assumes "bnd small f" and "bnd small g"
  shows "bnd large (feAdd f g)" and "fe (feAdd f g) = (fe f + fe g) mod p25519"
proof -
  have l: "length f = 10" "length g = 10" using bnd_length [OF assms(1)] bnd_length [OF assms(2)] length_large(2) by simp_all
  have b: "bnd large (map2 (+) f g)" using bnd_pointwise [OF assms, of "(+)"] by simp
  have a: "feAdd f g = map2 (+) f g"
    using int32_limbs [OF b small_fits(2)] by (simp add: feAdd_def comp_def case_prod_unfold)
  show "bnd large (feAdd f g)" unfolding a by (rule b)
  have "val (map2 (+) f g) = val f + val g" using l by (simp add: val_def sum.distrib algebra_simps)
  then show "fe (feAdd f g) = (fe f + fe g) mod p25519" unfolding a by (simp add: fe_def mod_add_eq)
qed

lemma feSub_correct:
  assumes "bnd small f" and "bnd small g"
  shows "bnd large (feSub f g)" and "fe (feSub f g) = (fe f - fe g) mod p25519"
proof -
  have l: "length f = 10" "length g = 10" using bnd_length [OF assms(1)] bnd_length [OF assms(2)] length_large(2) by simp_all
  have b: "bnd large (map2 (-) f g)" using bnd_pointwise [OF assms, of "(-)"] by simp
  have a: "feSub f g = map2 (-) f g"
    using int32_limbs [OF b small_fits(2)] by (simp add: feSub_def comp_def case_prod_unfold)
  show "bnd large (feSub f g)" unfolding a by (rule b)
  have "val (map2 (-) f g) = val f - val g" using l by (simp add: val_def sum_subtractf algebra_simps)
  then show "fe (feSub f g) = (fe f - fe g) mod p25519" unfolding a by (simp add: fe_def mod_diff_eq)
qed

lemma xor_cancel: "(u :: int) XOR (u XOR v) = v" "(v :: int) XOR (u XOR v) = u"
  by (auto simp: bit_eq_iff bit_xor_iff)

lemma feCSwap_correct:
  assumes "length f = 10" and "length g = 10"
  shows "feCSwap f g 0 = (f, g)" and "feCSwap f g 1 = (g, f)"
  using assms by (auto simp: feCSwap_def int32_def Let_def xor_cancel intro!: nth_equalityI)

lemma fe_const: "fe feZero = 0" "fe feOne = 1" "bnd small feZero" "bnd small feOne"
  by (simp_all add: feZero_def feOne_def replicate10 fe_def val_list p25519_def bnd_def small_def)

end
