(* ===== verification/Curve25519_Bytes.thy ===== *)
theory Curve25519_Bytes
  imports Curve25519_Field
begin

text \<open>
  Bytes and field elements: reading 32 bytes gives the element that they stand for in little endian order, and writing an
  element gives the bytes of its least representative.
\<close>

fun le_val :: "byte list \<Rightarrow> int" where
  "le_val [] = 0"
| "le_val (b # bs) = uint b + 256 * le_val bs"

section \<open>Reading\<close>

lemma or_shift: "0 \<le> x \<Longrightarrow> x < 2 ^ k \<Longrightarrow> (x :: int) OR (y * 2 ^ k) = x + y * 2 ^ k"
proof -
  assume x: "0 \<le> x" "x < 2 ^ k"
  then have t: "take_bit k x = x" by (simp add: take_bit_int_eq_self)
  have "\<not> bit x n \<or> \<not> bit (push_bit k y) n" for n
    using t bit_take_bit_iff [of k x n] by (auto simp: bit_push_bit_iff_int)
  then show ?thesis by (metis disjunctive_add push_bit_eq_mult)
qed

lemma uint_byte: "0 \<le> uint (b :: byte)" "uint (b :: byte) < 256"
  using uint_lt2p [of b] by simp_all

lemma shl64_byte: "0 \<le> x \<Longrightarrow> x < 2 ^ 32 \<Longrightarrow> k \<le> 24 \<Longrightarrow> shl64 x k = x * 2 ^ k"
proof -
  assume x: "0 \<le> x" "x < 2 ^ 32" "k \<le> 24"
  have "x * 2 ^ k \<le> 2 ^ 32 * 2 ^ 24" using x by (intro mult_mono power_increasing) auto
  moreover have "0 \<le> x * 2 ^ k" using x(1) by simp
  ultimately show ?thesis unfolding shl64_def by (intro int64_exact) simp_all
qed

lemma load3_eq: "load3 (a # b # c # r) = uint a + 2 ^ 8 * uint b + 2 ^ 16 * uint c"
proof -
  have "load3 (a # b # c # r) = (uint a OR uint b * 2 ^ 8) OR uint c * 2 ^ 16"
    using uint_byte [of b] uint_byte [of c] by (simp add: load3_def shl64_byte)
  also have "uint a OR uint b * 2 ^ 8 = uint a + uint b * 2 ^ 8" using uint_byte [of a] by (intro or_shift) simp_all
  also have "(uint a + uint b * 2 ^ 8) OR uint c * 2 ^ 16 = uint a + uint b * 2 ^ 8 + uint c * 2 ^ 16"
    using uint_byte [of a] uint_byte [of b] by (intro or_shift) simp_all
  finally show ?thesis by simp
qed

lemma load4_eq: "load4 (a # b # c # d # r) = uint a + 2 ^ 8 * uint b + 2 ^ 16 * uint c + 2 ^ 24 * uint d"
proof -
  have "load4 (a # b # c # d # r) = load3 (a # b # c # r) OR uint d * 2 ^ 24"
    using uint_byte [of d] by (simp add: load4_def load3_def shl64_byte)
  also have "\<dots> = load3 (a # b # c # r) + uint d * 2 ^ 24"
    unfolding load3_eq using uint_byte [of a] uint_byte [of b] uint_byte [of c] by (intro or_shift) auto
  finally show ?thesis unfolding load3_eq by simp
qed

lemma load_bounds: "0 \<le> load3 (a # b # c # r)" "load3 (a # b # c # r) < 2 ^ 24" "0 \<le> load4 (a # b # c # d # r)" "load4 (a # b # c # d # r) < 2 ^ 32"
  unfolding load3_eq load4_eq using uint_byte [of a] uint_byte [of b] uint_byte [of c] uint_byte [of d] by auto

lemma length_32E:
  assumes "length xs = 32"
  obtains b0 b1 b2 b3 b4 b5 b6 b7 b8 b9 b10 b11 b12 b13 b14 b15 b16 b17 b18 b19 b20 b21 b22 b23 b24 b25 b26 b27 b28 b29 b30 b31
  where "xs = [b0, b1, b2, b3, b4, b5, b6, b7, b8, b9, b10, b11, b12, b13, b14, b15, b16, b17, b18, b19, b20, b21, b22, b23, b24, b25, b26, b27, b28, b29, b30, b31]"
  using assms by (auto simp: length_Suc_conv numeral_eq_Suc)

lemma shl_load3: "k \<le> 24 \<Longrightarrow> shl64 (load3 (a # b # c # r)) k = load3 (a # b # c # r) * 2 ^ k"
  using load_bounds(1,2) [of a b c r] by (intro shl64_byte) simp_all

lemma load3_scaled: "k \<le> 7 \<Longrightarrow> \<bar>load3 (a # b # c # r) * 2 ^ k\<bar> \<le> 2 ^ 45"
proof -
  assume "k \<le> 7"
  then have "load3 (a # b # c # r) * 2 ^ k \<le> 2 ^ 24 * 2 ^ 7"
    using load_bounds(1,2) [of a b c r] by (intro mult_mono power_increasing) auto
  moreover have "0 \<le> load3 (a # b # c # r) * 2 ^ k" using load_bounds(1) [of a b c r] by simp
  ultimately show ?thesis by simp
qed

lemma feFromBytes_correct:
  assumes "length src = 32"
  shows "bnd small (feFromBytes src)" and "fe (feFromBytes src) = le_val src mod p25519"
proof -
  obtain b0 b1 b2 b3 b4 b5 b6 b7 b8 b9 b10 b11 b12 b13 b14 b15 b16 b17 b18 b19 b20 b21 b22 b23 b24 b25 b26 b27 b28 b29 b30 b31
    where src: "src = [b0, b1, b2, b3, b4, b5, b6, b7, b8, b9, b10, b11, b12, b13, b14, b15, b16, b17, b18, b19, b20, b21, b22, b23, b24, b25, b26, b27, b28, b29, b30, b31]"
    using assms by (rule length_32E)
  let ?h = "[load4 [b0, b1, b2, b3, b4, b5, b6, b7, b8, b9, b10, b11, b12, b13, b14, b15, b16, b17, b18, b19, b20, b21, b22, b23, b24, b25, b26, b27, b28, b29, b30, b31],
      load3 [b4, b5, b6, b7, b8, b9, b10, b11, b12, b13, b14, b15, b16, b17, b18, b19, b20, b21, b22, b23, b24, b25, b26, b27, b28, b29, b30, b31] * 2 ^ 6,
      load3 [b7, b8, b9, b10, b11, b12, b13, b14, b15, b16, b17, b18, b19, b20, b21, b22, b23, b24, b25, b26, b27, b28, b29, b30, b31] * 2 ^ 5,
      load3 [b10, b11, b12, b13, b14, b15, b16, b17, b18, b19, b20, b21, b22, b23, b24, b25, b26, b27, b28, b29, b30, b31] * 2 ^ 3,
      load3 [b13, b14, b15, b16, b17, b18, b19, b20, b21, b22, b23, b24, b25, b26, b27, b28, b29, b30, b31] * 2 ^ 2,
      load4 [b16, b17, b18, b19, b20, b21, b22, b23, b24, b25, b26, b27, b28, b29, b30, b31],
      load3 [b20, b21, b22, b23, b24, b25, b26, b27, b28, b29, b30, b31] * 2 ^ 7,
      load3 [b23, b24, b25, b26, b27, b28, b29, b30, b31] * 2 ^ 5,
      load3 [b26, b27, b28, b29, b30, b31] * 2 ^ 4,
      load3 [b29, b30, b31] * 2 ^ 2]"
  have f: "feFromBytes src = map int32 (carry_small ?h)" by (simp add: feFromBytes_def src shl_load3)
  have "\<bar>load4 [b0, b1, b2, b3, b4, b5, b6, b7, b8, b9, b10, b11, b12, b13, b14, b15, b16, b17, b18, b19, b20, b21, b22, b23, b24, b25, b26, b27, b28, b29, b30, b31]\<bar> \<le> 2 ^ 45" "\<bar>load4 [b16, b17, b18, b19, b20, b21, b22, b23, b24, b25, b26, b27, b28, b29, b30, b31]\<bar> \<le> 2 ^ 45"
    using load_bounds(3,4) [of b0 b1 b2 b3 "drop 4 src"] load_bounds(3,4) [of b16 b17 b18 b19 "drop 20 src"] by (simp_all add: src)
  then have "bnd (replicate 10 (2 ^ 45)) ?h"
    unfolding replicate10 bnd_def list_all2_Cons list_all2_Nil2 by (intro conjI load3_scaled refl) simp_all
  note c = carry_small_exact [OF this]
  have "val ?h = le_val src" unfolding val_list load3_eq load4_eq src le_val.simps by (simp only: algebra_simps) simp
  then have "fe ?h = le_val src mod p25519" by (simp add: fe_def)
  then show "bnd small (feFromBytes src)" and "fe (feFromBytes src) = le_val src mod p25519"
    unfolding f carried_limbs [OF c(1)] using c by simp_all
qed

section \<open>The quotient\<close>

lemma small_uniform: "bnd small f \<Longrightarrow> x \<in> set f \<Longrightarrow> \<bar>x\<bar> \<le> 36909875"
proof -
  assume f: "bnd small f" and "x \<in> set f"
  then obtain i where i: "i < 10" "x = f ! i" using bnd_length [OF f] length_large(2) by (metis in_set_conv_nth)
  have "small ! i \<le> 36909875" using i(1) by (auto simp: small_def less_Suc_eq numeral_eq_Suc)
  then show ?thesis using bnd_nth [OF f, of i] i length_large(2) by auto
qed

lemma int32_range: "- (2 ^ 31) \<le> int32 x" "int32 x < 2 ^ 31"
proof -
  have "0 \<le> (x + 2 ^ 31) mod 2 ^ 32" "(x + 2 ^ 31) mod 2 ^ 32 < 2 ^ 32" by simp_all
  then show "- (2 ^ 31) \<le> int32 x" "int32 x < 2 ^ 31" unfolding int32_def by simp_all
qed

lemma shr_int32: "k = 25 \<or> k = 26 \<Longrightarrow> \<bar>shr (int32 x) k\<bar> \<le> 64"
proof -
  assume k: "k = 25 \<or> k = 26"
  have "(- (2 ^ 31)) div 2 ^ k \<le> int32 x div 2 ^ k" "int32 x div 2 ^ k \<le> (2 ^ 31) div 2 ^ k"
    using int32_range [of x] k by (auto intro!: zdiv_mono1)
  with k show ?thesis unfolding shr_def by auto
qed

lemma shr_nest: "shr (b + shr a k) l = shr (a + 2 ^ k * b) (k + l)"
proof -
  have "b + a div 2 ^ k = (a + 2 ^ k * b) div 2 ^ k" by simp
  then show ?thesis unfolding shr_def power_add by (simp add: zdiv_zmult2_eq)
qed

definition first_quotient :: "int \<Rightarrow> int" where
  "first_quotient x = shr (19 * x + 2 ^ 24) 25"

lemma fe_quotient_eq:
  assumes "bnd small h"
  shows "fe_quotient h = (val h + first_quotient (h ! 9)) div 2 ^ 255" and "\<bar>fe_quotient h\<bar> \<le> 64"
proof -
  show "\<bar>fe_quotient h\<bar> \<le> 64" unfolding fe_quotient_def Let_def by (rule shr_int32) simp
  have "length h = 10" using bnd_length [OF assms] length_large(2) by simp
  then obtain h0 h1 h2 h3 h4 h5 h6 h7 h8 h9 where h: "h = [h0, h1, h2, h3, h4, h5, h6, h7, h8, h9]" by (rule length_10E)
  have b: "\<bar>x\<bar> \<le> 36909875" if "x \<in> {h0, h1, h2, h3, h4, h5, h6, h7, h8, h9}" for x
    using small_uniform [OF assms, of x] that by (simp add: h)
  have e: "shr (int32 (x + shr (int32 y) k)) l = shr (x + shr (int32 y) k) l"
    if "x \<in> {h0, h1, h2, h3, h4, h5, h6, h7, h8, h9}" "k = 25 \<or> k = 26" for x y k l
    using b [OF that(1)] shr_int32 [OF that(2), of y] by (subst int32_exact) auto
  define q0 where "q0 = int32 (int32 (19 * h9) + 2 ^ 24)"
  have q: "q0 = 19 * h9 + 2 ^ 24"
    using b [of h9] unfolding q0_def by (subst int32_times(4); simp add: int32_exact abs_le_iff)
  have r: "shr q0 25 = shr (int32 q0) 25" unfolding q0_def by (simp add: int32_def)
  define q1 where "q1 = shr (int32 (h0 + shr q0 25)) 26"
  define q2 where "q2 = shr (int32 (h1 + q1)) 25"
  define q3 where "q3 = shr (int32 (h2 + q2)) 26"
  define q4 where "q4 = shr (int32 (h3 + q3)) 25"
  define q5 where "q5 = shr (int32 (h4 + q4)) 26"
  define q6 where "q6 = shr (int32 (h5 + q5)) 25"
  define q7 where "q7 = shr (int32 (h6 + q6)) 26"
  define q8 where "q8 = shr (int32 (h7 + q7)) 25"
  define q9 where "q9 = shr (int32 (h8 + q8)) 26"
  define q10 where "q10 = shr (int32 (h9 + q9)) 25"
  have e11: "fe_quotient h = q10" unfolding fe_quotient_def Let_def h q10_def q9_def q8_def q7_def q6_def q5_def q4_def q3_def q2_def q1_def q0_def by simp
  have e10: "q10 = shr (h9 + q9) 25" unfolding q10_def q9_def by (rule e) simp_all
  have e9: "q9 = shr (h8 + q8) 26" unfolding q9_def q8_def by (rule e) simp_all
  have e8: "q8 = shr (h7 + q7) 25" unfolding q8_def q7_def by (rule e) simp_all
  have e7: "q7 = shr (h6 + q6) 26" unfolding q7_def q6_def by (rule e) simp_all
  have e6: "q6 = shr (h5 + q5) 25" unfolding q6_def q5_def by (rule e) simp_all
  have e5: "q5 = shr (h4 + q4) 26" unfolding q5_def q4_def by (rule e) simp_all
  have e4: "q4 = shr (h3 + q3) 25" unfolding q4_def q3_def by (rule e) simp_all
  have e3: "q3 = shr (h2 + q2) 26" unfolding q3_def q2_def by (rule e) simp_all
  have e2: "q2 = shr (h1 + q1) 25" unfolding q2_def q1_def by (rule e) simp_all
  have e1: "q1 = shr (h0 + shr q0 25) 26" unfolding q1_def r by (rule e) simp_all
  have "q10 = shr (val h + first_quotient h9) 255"
    unfolding e10 e9 e8 e7 e6 e5 e4 e3 e2 e1 q first_quotient_def [symmetric] h val_list by (simp add: shr_nest algebra_simps)
  with e11 show "fe_quotient h = (val h + first_quotient (h ! 9)) div 2 ^ 255" by (simp add: shr_def h)
qed

section \<open>The least representative\<close>

text \<open>Limbs below \<open>n\<close> are in their range, limb \<open>n\<close> may have got a carry.\<close>

definition reduced :: "nat \<Rightarrow> int list \<Rightarrow> bool" where
  "reduced n h \<longleftrightarrow> length h = 10 \<and> (\<forall>i<n. 0 \<le> h ! i \<and> h ! i < 2 ^ limb_bits i) \<and> (n < 10 \<longrightarrow> \<bar>h ! n\<bar> \<le> 2 ^ 26)
     \<and> (\<forall>i. n < i \<and> i < 10 \<longrightarrow> \<bar>h ! i\<bar> \<le> 36909875)"

lemma limb_bits_cases: "limb_bits i = 25 \<or> limb_bits i = 26"
  by (simp add: limb_bits_def)

lemma shr_26: "\<bar>x\<bar> \<le> 2 ^ 26 \<Longrightarrow> k = 25 \<or> k = 26 \<Longrightarrow> \<bar>shr x k\<bar> \<le> 2"
proof -
  assume x: "\<bar>x\<bar> \<le> 2 ^ 26" and k: "k = 25 \<or> k = 26"
  have "(- (2 ^ 26)) div 2 ^ k \<le> x div 2 ^ k" "x div 2 ^ k \<le> (2 ^ 26) div 2 ^ k" using x k by (auto intro!: zdiv_mono1)
  with k show ?thesis unfolding shr_def by auto
qed

lemma shr_rest: "x - shr x k * 2 ^ k = x mod 2 ^ k"
  by (simp add: shr_def minus_div_mult_eq_mod)

lemma carry_floor_reduced:
  assumes "reduced n h" and "n < 9" and "k = limb_bits n"
  shows "reduced (n + 1) (carry_floor n k h)" and "val (carry_floor n k h) = val h"
proof -
  have r: "length h = 10" "\<bar>h ! n\<bar> \<le> 2 ^ 26" "\<bar>h ! (n + 1)\<bar> \<le> 36909875" "\<And>i. i < n \<Longrightarrow> 0 \<le> h ! i \<and> h ! i < 2 ^ limb_bits i"
    "\<And>i. n < i \<Longrightarrow> i < 10 \<Longrightarrow> \<bar>h ! i\<bar> \<le> 36909875" using assms(1,2) by (auto simp: reduced_def)
  define c where "c = shr (h ! n) k"
  have k: "k = 25 \<or> k = 26" using assms(3) limb_bits_cases by simp
  have c: "\<bar>c\<bar> \<le> 2" unfolding c_def using shr_26 [OF r(2) k] .
  have b: "\<bar>h ! (n + 1) + c\<bar> \<le> 2 ^ 26" using c r(3) by simp
  have e: "int32 (h ! (n + 1) + c) = h ! (n + 1) + c" using c r(3) by (intro int32_exact) auto
  have e2: "shl32 c k = c * 2 ^ k" unfolding shl32_def using c k by (intro int32_exact) auto
  have m: "0 \<le> h ! n mod 2 ^ k" "h ! n mod 2 ^ k < 2 ^ k" by simp_all
  have e3: "int32 (h ! n - c * 2 ^ k) = h ! n mod 2 ^ k" unfolding c_def shr_rest using m k by (intro int32_exact) auto
  have eq: "carry_floor n k h = h[n + 1 := h ! (n + 1) + c, n := h ! n mod 2 ^ k]"
    unfolding carry_floor_def Let_def c_def [symmetric] using e e2 e3 by simp
  show "reduced (n + 1) (carry_floor n k h)"
    unfolding eq reduced_def using r(1,4,5) b m assms(2,3) by (auto simp: nth_list_update less_Suc_eq)
  have "val (carry_floor n k h) = val h + 2 ^ offset (n + 1) * c + 2 ^ offset n * (h ! n mod 2 ^ k - h ! n)"
    unfolding eq using r(1) assms(2) by (simp add: val_update)
  also have "h ! n mod 2 ^ k - h ! n = - (c * 2 ^ k)" unfolding c_def shr_rest [symmetric] by simp
  finally show "val (carry_floor n k h) = val h" using offset_Suc [OF assms(2)] assms(3) by (simp add: power_add)
qed

lemma carry_floor_step:
  "reduced n h \<Longrightarrow> n < 9 \<Longrightarrow> k = limb_bits n \<Longrightarrow> m = n + 1 \<Longrightarrow> reduced m (carry_floor n k h) \<and> val (carry_floor n k h) = val h"
  using carry_floor_reduced by simp

lemma carry_drop_reduced:
  assumes "reduced 9 h"
  shows "reduced 10 (carry_drop h)" and "\<exists>c. val (carry_drop h) = val h - c * 2 ^ 255"
proof -
  have r: "length h = 10" "\<bar>h ! 9\<bar> \<le> 2 ^ 26" "\<And>i. i < 9 \<Longrightarrow> 0 \<le> h ! i \<and> h ! i < 2 ^ limb_bits i" using assms by (auto simp: reduced_def)
  define c where "c = shr (h ! 9) 25"
  have c: "\<bar>c\<bar> \<le> 2" unfolding c_def using r(2) by (intro shr_26) simp_all
  have e2: "shl32 c 25 = c * 2 ^ 25" unfolding shl32_def using c by (intro int32_exact) auto
  have m: "0 \<le> h ! 9 mod 2 ^ 25" "h ! 9 mod 2 ^ 25 < 2 ^ 25" by simp_all
  have e3: "int32 (h ! 9 - c * 2 ^ 25) = h ! 9 mod 2 ^ 25" unfolding c_def shr_rest using m by (intro int32_exact) auto
  have eq: "carry_drop h = h[9 := h ! 9 mod 2 ^ 25]" unfolding carry_drop_def Let_def c_def [symmetric] e2 e3 ..
  show "reduced 10 (carry_drop h)" unfolding eq reduced_def using r m by (auto simp: nth_list_update limb_bits_def)
  have "h ! 9 mod 2 ^ 25 - h ! 9 = - (c * 2 ^ 25)" unfolding c_def shr_rest [symmetric] by simp
  then have "val (carry_drop h) = val h + 2 ^ 230 * - (c * 2 ^ 25)" unfolding eq using r(1) by (simp only: val_update) (simp add: offset_def)
  then show "\<exists>c. val (carry_drop h) = val h - c * 2 ^ 255" by (intro exI [of _ c]) simp
qed

lemma fe_reduce_carried:
  assumes "bnd small h"
  shows "reduced 10 (fe_reduce h)" and "\<exists>c. val (fe_reduce h) = val h + 19 * fe_quotient h - c * 2 ^ 255"
proof -
  define q where "q = fe_quotient h"
  have l: "length h = 10" using bnd_length [OF assms] length_large(2) by simp
  have b: "i < 10 \<Longrightarrow> \<bar>h ! i\<bar> \<le> 36909875" for i using small_uniform [OF assms] l by simp
  have q: "\<bar>q\<bar> \<le> 64" unfolding q_def by (rule fe_quotient_eq(2) [OF assms])
  have e: "int32 (19 * q) = 19 * q" "int32 (h ! 0 + 19 * q) = h ! 0 + 19 * q" using q b [of 0] by (auto intro!: int32_exact)
  define h0 where "h0 = h[0 := int32 (h ! 0 + int32 (19 * q))]"
  have b0: "\<bar>h ! 0 + 19 * q\<bar> \<le> 2 ^ 26" using q b [of 0] by simp
  have h0: "reduced 0 h0" using b l b0 unfolding h0_def e reduced_def by (auto simp: nth_list_update)
  have v: "val h0 = val h + 19 * q" unfolding h0_def e using l by (simp add: val_update offset_def)
  define h1 where "h1 = carry_floor 0 26 h0"
  have r1: "reduced 1 h1 \<and> val h1 = val h0" unfolding h1_def by (rule carry_floor_step [OF h0]) (simp_all add: limb_bits_def)
  define h2 where "h2 = carry_floor 1 25 h1"
  have r2: "reduced 2 h2 \<and> val h2 = val h1" unfolding h2_def by (rule carry_floor_step [OF r1 [THEN conjunct1]]) (simp_all add: limb_bits_def)
  define h3 where "h3 = carry_floor 2 26 h2"
  have r3: "reduced 3 h3 \<and> val h3 = val h2" unfolding h3_def by (rule carry_floor_step [OF r2 [THEN conjunct1]]) (simp_all add: limb_bits_def)
  define h4 where "h4 = carry_floor 3 25 h3"
  have r4: "reduced 4 h4 \<and> val h4 = val h3" unfolding h4_def by (rule carry_floor_step [OF r3 [THEN conjunct1]]) (simp_all add: limb_bits_def)
  define h5 where "h5 = carry_floor 4 26 h4"
  have r5: "reduced 5 h5 \<and> val h5 = val h4" unfolding h5_def by (rule carry_floor_step [OF r4 [THEN conjunct1]]) (simp_all add: limb_bits_def)
  define h6 where "h6 = carry_floor 5 25 h5"
  have r6: "reduced 6 h6 \<and> val h6 = val h5" unfolding h6_def by (rule carry_floor_step [OF r5 [THEN conjunct1]]) (simp_all add: limb_bits_def)
  define h7 where "h7 = carry_floor 6 26 h6"
  have r7: "reduced 7 h7 \<and> val h7 = val h6" unfolding h7_def by (rule carry_floor_step [OF r6 [THEN conjunct1]]) (simp_all add: limb_bits_def)
  define h8 where "h8 = carry_floor 7 25 h7"
  have r8: "reduced 8 h8 \<and> val h8 = val h7" unfolding h8_def by (rule carry_floor_step [OF r7 [THEN conjunct1]]) (simp_all add: limb_bits_def)
  define h9 where "h9 = carry_floor 8 26 h8"
  have r9: "reduced 9 h9 \<and> val h9 = val h8" unfolding h9_def by (rule carry_floor_step [OF r8 [THEN conjunct1]]) (simp_all add: limb_bits_def)
  note d = carry_drop_reduced [OF r9 [THEN conjunct1]]
  have "fe_reduce h = carry_drop h9" unfolding fe_reduce_def Let_def h9_def h8_def h7_def h6_def h5_def h4_def h3_def h2_def h1_def h0_def q_def ..
  then show "reduced 10 (fe_reduce h)" and "\<exists>c. val (fe_reduce h) = val h + 19 * fe_quotient h - c * 2 ^ 255"
    using d r1 r2 r3 r4 r5 r6 r7 r8 r9 v by (simp_all add: q_def [symmetric])
qed

lemma reduced_explicit:
  assumes "reduced 10 [h0, h1, h2, h3, h4, h5, h6, h7, h8, h9]"
  shows "0 \<le> h0" "h0 < 2 ^ 26" "0 \<le> h1" "h1 < 2 ^ 25" "0 \<le> h2" "h2 < 2 ^ 26" "0 \<le> h3" "h3 < 2 ^ 25" "0 \<le> h4" "h4 < 2 ^ 26"
    "0 \<le> h5" "h5 < 2 ^ 25" "0 \<le> h6" "h6 < 2 ^ 26" "0 \<le> h7" "h7 < 2 ^ 25" "0 \<le> h8" "h8 < 2 ^ 26" "0 \<le> h9" "h9 < 2 ^ 25"
proof -
  have r: "i < 10 \<Longrightarrow> 0 \<le> [h0, h1, h2, h3, h4, h5, h6, h7, h8, h9] ! i \<and> [h0, h1, h2, h3, h4, h5, h6, h7, h8, h9] ! i < 2 ^ limb_bits i" for i
    using assms by (auto simp: reduced_def)
  show "0 \<le> h0" "h0 < 2 ^ 26" "0 \<le> h1" "h1 < 2 ^ 25" "0 \<le> h2" "h2 < 2 ^ 26" "0 \<le> h3" "h3 < 2 ^ 25" "0 \<le> h4" "h4 < 2 ^ 26"
    "0 \<le> h5" "h5 < 2 ^ 25" "0 \<le> h6" "h6 < 2 ^ 26" "0 \<le> h7" "h7 < 2 ^ 25" "0 \<le> h8" "h8 < 2 ^ 26" "0 \<le> h9" "h9 < 2 ^ 25"
    using r [of 0] r [of 1] r [of 2] r [of 3] r [of 4] r [of 5] r [of 6] r [of 7] r [of 8] r [of 9] by (simp_all add: limb_bits_def)
qed

lemma sum_10: "(\<Sum>i<(10 :: nat). f i) = f 0 + f 1 + f 2 + f 3 + f 4 + f 5 + f 6 + f 7 + f 8 + (f 9 :: int)"
  by (simp add: eval_nat_numeral)

lemma sum_9: "(\<Sum>i<(9 :: nat). f i) = f 0 + f 1 + f 2 + f 3 + f 4 + f 5 + f 6 + f 7 + (f 8 :: int)"
  by (simp add: eval_nat_numeral)

lemma reduced_val: "reduced 10 h \<Longrightarrow> 0 \<le> val h \<and> val h < 2 ^ 255"
proof -
  assume "reduced 10 h"
  then have r: "0 \<le> h ! i" "h ! i \<le> 2 ^ limb_bits i - 1" if "i < 10" for i using that by (auto simp: reduced_def)
  have "0 \<le> val h" unfolding val_def using r(1) by (intro sum_nonneg) simp
  moreover have "val h \<le> (\<Sum>i<10. 2 ^ offset i * (2 ^ limb_bits i - 1))" unfolding val_def using r(2) by (intro sum_mono mult_left_mono) simp_all
  moreover have "(\<Sum>i<10. 2 ^ offset i * (2 ^ limb_bits i - 1)) < (2 :: int) ^ 255" unfolding sum_10 by (simp add: offset_def limb_bits_def)
  ultimately show ?thesis by linarith
qed

text \<open>The first estimate of the quotient is right: it can be off only where the limbs below the last one decide, and there it is zero.\<close>

lemma val_split:
  assumes "bnd small h"
  shows "\<bar>val h - 2 ^ 230 * h ! 9\<bar> < 2 ^ 230 * 2" and "\<bar>h ! 9\<bar> \<le> 18454937"
proof -
  have b: "i < 10 \<Longrightarrow> \<bar>h ! i\<bar> \<le> small ! i" for i using bnd_nth [OF assms] length_large(2) by simp
  from b [of 9] show "\<bar>h ! 9\<bar> \<le> 18454937" by (simp add: small_def)
  have "{..<10} = insert 9 {..<9 :: nat}" by auto
  then have "val h - 2 ^ 230 * h ! 9 = (\<Sum>i<9. 2 ^ offset i * h ! i)" by (simp add: val_def offset_def [of 9])
  also have "\<bar>\<dots>\<bar> \<le> (\<Sum>i<9. \<bar>2 ^ offset i * h ! i\<bar>)" by (rule sum_abs)
  also have "\<dots> \<le> (\<Sum>i<9. 2 ^ offset i * small ! i)" unfolding abs_mult using b by (intro sum_mono) (simp add: mult_left_mono)
  also have "\<dots> < 2 ^ 230 * 2" unfolding sum_9 by (simp add: offset_def small_def)
  finally show "\<bar>val h - 2 ^ 230 * h ! 9\<bar> < 2 ^ 230 * 2" .
qed

lemma div_minus_one: "(a :: int) < 0 \<Longrightarrow> - b \<le> a \<Longrightarrow> a div b = - 1"
  by (rule int_div_pos_eq [of a b "- 1" "a + b"]) simp_all

lemma quotient_exact:
  assumes "bnd small h"
  shows "fe_quotient h = val h div p25519"
proof -
  define V x q where "V = val h" and "x = h ! 9" and "q = first_quotient x"
  have v: "V < 2 ^ 230 * x + 2 ^ 231" "2 ^ 230 * x - 2 ^ 231 < V" "- 18454937 \<le> x" "x \<le> 18454937"
    using val_split [OF assms] by (auto simp: V_def x_def)
  have qb: "q = (19 * x + 16777216) div 33554432" by (simp add: q_def first_quotient_def shr_def)
  have z: "q = 0" if "- 2 \<le> x" "x \<le> 2" using that unfolding qb by (intro div_pos_pos_trivial) auto
  have s: "0 \<le> x \<Longrightarrow> 0 \<le> q" unfolding qb by (simp add: pos_imp_zdiv_nonneg_iff)
  have s': "x \<le> 0 \<Longrightarrow> q \<le> 0" unfolding qb using zdiv_mono1 [of "19 * x + 16777216" 16777216 33554432] by simp
  have "(19 * - 18454937 + 16777216) div 33554432 \<le> q" "q \<le> (19 * 18454937 + 16777216) div 33554432"
    unfolding qb using v(3,4) by (auto intro!: zdiv_mono1)
  then have r: "- 11 \<le> q" "q \<le> 11" by simp_all
  have "fe_quotient h = (V + q) div 2 ^ 255" using fe_quotient_eq(1) [OF assms] by (simp add: V_def q_def x_def)
  also have "\<dots> = V div p25519"
  proof (cases "0 \<le> V")
    case True
    then have "- 2 < x" using v(1) by simp
    then have "0 \<le> V + q" using True z s by (cases "0 \<le> x") auto
    moreover have "V + q < 2 ^ 255" "V < p25519" unfolding p25519_def using v(1,4) r by simp_all
    ultimately show ?thesis using True by (simp only: div_pos_pos_trivial)
  next
    case False
    then have "x < 2" using v(2) by simp
    then have "V + q < 0" using False z s' by (cases "x \<le> 0") auto
    moreover have "- (2 ^ 255) \<le> V + q" "- p25519 \<le> V" unfolding p25519_def using v(2,3) r by simp_all
    ultimately show ?thesis using False by (simp only: div_minus_one not_le)
  qed
  finally show ?thesis by (simp add: V_def)
qed

lemma fe_reduce_correct:
  assumes "bnd small h"
  shows "reduced 10 (fe_reduce h)" and "val (fe_reduce h) = fe h"
proof -
  note r = fe_reduce_carried [OF assms]
  show "reduced 10 (fe_reduce h)" by (rule r(1))
  define q where "q = val h div p25519"
  obtain c where c: "val (fe_reduce h) = val h + 19 * q - c * 2 ^ 255" using r(2) by (auto simp: quotient_exact [OF assms] q_def)
  have p: "0 \<le> fe h" "fe h < 2 ^ 255" unfolding fe_def p25519_def by (simp_all add: order.strict_trans [OF pos_mod_bound])
  have "val h = q * p25519 + fe h" by (simp add: q_def fe_def)
  then have "val (fe_reduce h) = fe h + (q - c) * 2 ^ 255" using c by (simp add: p25519_def algebra_simps)
  then have "val (fe_reduce h) mod 2 ^ 255 = fe h mod 2 ^ 255" by (simp only: mod_mult_self1)
  then show "val (fe_reduce h) = fe h" using reduced_val [OF r(1)] p by simp
qed

section \<open>Writing\<close>

fun le_bytes :: "nat \<Rightarrow> int \<Rightarrow> byte list" where
  "le_bytes 0 v = []"
| "le_bytes (Suc n) v = word_of_int v # le_bytes n (v div 256)"

lemma uint_word: "uint (word_of_int x :: byte) = x mod 256"
  by (simp add: unsigned_of_int take_bit_eq_mod)

lemma le_bytes_val: "le_bytes (length bs) (le_val bs) = bs"
proof (induction bs)
  case (Cons b bs)
  have "(word_of_int (le_val (b # bs)) :: byte) = b"
    unfolding word_uint_eq_iff uint_word using uint_byte [of b] by simp
  moreover have "le_val (b # bs) div 256 = le_val bs" using uint_byte [of b] by simp
  ultimately show ?case using Cons by simp
qed simp

lemma int32_multiple: "b \<le> 8 \<Longrightarrow> \<exists>z. int32 (y * 2 ^ b) = z * 2 ^ b \<and> int32 (y * 2 ^ b) mod 256 = y * 2 ^ b mod 256"
proof -
  assume b: "b \<le> 8"
  define t where "t = (y * 2 ^ b + 2 ^ 31) div 2 ^ 32"
  have e: "int32 (y * 2 ^ b) = y * 2 ^ b - t * 2 ^ 32" unfolding int32_def t_def by (simp add: minus_div_mult_eq_mod [symmetric])
  have "(2 :: int) ^ 32 = 2 ^ (32 - b) * 2 ^ b" using b by (simp flip: power_add)
  then have "int32 (y * 2 ^ b) = (y - t * 2 ^ (32 - b)) * 2 ^ b" using e by (simp add: algebra_simps)
  moreover have "int32 (y * 2 ^ b) = y * 2 ^ b + (- t * 16777216) * 256" using e by simp
  then have "int32 (y * 2 ^ b) mod 256 = y * 2 ^ b mod 256" by (simp only: mod_mult_self1)
  ultimately show ?thesis by blast
qed

lemma mixed_byte:
  assumes "0 \<le> u \<and> u < 2 ^ b" and "b + c = 8"
  shows "uint (word_of_int (u OR shl32 y b) :: byte) = u + 2 ^ b * (y mod 2 ^ c)"
proof -
  have b: "b \<le> 8" and p: "(2 :: int) ^ b * 2 ^ c = 256" using assms(2) by (auto simp flip: power_add)
  obtain z where z: "int32 (y * 2 ^ b) = z * 2 ^ b" "int32 (y * 2 ^ b) mod 256 = y * 2 ^ b mod 256" using int32_multiple [OF b] by blast
  have "(u OR shl32 y b) mod 256 = (u + int32 (y * 2 ^ b)) mod 256" using assms(1) unfolding shl32_def z(1) by (subst or_shift) auto
  also have "\<dots> = (u + y * 2 ^ b) mod 256" using z(2) by (metis mod_add_right_eq)
  also have "\<dots> = (u + 2 ^ b * y) mod (2 ^ b * 2 ^ c)" unfolding p by (simp add: mult.commute)
  also have "\<dots> = 2 ^ b * ((u + 2 ^ b * y) div 2 ^ b mod 2 ^ c) + (u + 2 ^ b * y) mod 2 ^ b" by (rule zmod_zmult2_eq) simp
  also have "\<dots> = u + 2 ^ b * (y mod 2 ^ c)" using assms(1) by simp
  finally show ?thesis by (simp add: uint_word)
qed

text \<open>A limb is put together from its lower bits, two bytes and the rest.\<close>

lemma limb_chunks: "0 < m \<Longrightarrow> (x :: int) = x mod m + m * (x div m mod 256) + 256 * m * (x div (256 * m) mod 256) + 65536 * m * (x div (65536 * m))"
proof -
  assume m: "0 < m"
  define y z where "y = x div m" and "z = y div 256"
  have e: "256 * m = m * 256" "65536 * m = m * 256 * 256" by simp_all
  have "x div (256 * m) = z" "x div (65536 * m) = z div 256" unfolding e y_def z_def using m by (simp_all only: zdiv_zmult2_eq [of 256])
  moreover have "x = x mod m + m * (y mod 256 + 256 * (z mod 256 + 256 * (z div 256)))" by (simp add: y_def z_def)
  ultimately show ?thesis unfolding y_def [symmetric] by (simp only: distrib_left mult.assoc mult.left_commute [of m])
qed

lemma shr_range: "0 \<le> x \<Longrightarrow> x < 2 ^ (a + b) \<Longrightarrow> 0 \<le> x div 2 ^ a \<and> x div 2 ^ a < (2 :: int) ^ b"
proof -
  assume x: "0 \<le> x" "x < 2 ^ (a + b)"
  have "0 \<le> x mod 2 ^ a" by simp
  then have "x div 2 ^ a * 2 ^ a \<le> x" using div_mult_mod_eq [of x "2 ^ a"] by linarith
  moreover have "x < 2 ^ b * 2 ^ a" using x(2) by (simp add: power_add mult.commute)
  ultimately have "x div 2 ^ a * 2 ^ a < 2 ^ b * 2 ^ a" by linarith
  then have "x div 2 ^ a < 2 ^ b" by (rule mult_right_less_imp_less) simp
  then show ?thesis using x(1) by (simp add: pos_imp_zdiv_nonneg_iff)
qed

lemma pack_algebra:
  assumes "h0 = a0 + 256 * b0 + 65536 * c0 + 16777216 * d0"
    and "h1 = a1 + 64 * b1 + 16384 * c1 + 4194304 * d1"
    and "h2 = a2 + 32 * b2 + 8192 * c2 + 2097152 * d2"
    and "h3 = a3 + 8 * b3 + 2048 * c3 + 524288 * d3"
    and "h4 = a4 + 4 * b4 + 1024 * c4 + 262144 * d4"
    and "h5 = a5 + 256 * b5 + 65536 * c5 + 16777216 * d5"
    and "h6 = a6 + 128 * b6 + 32768 * c6 + 8388608 * d6"
    and "h7 = a7 + 32 * b7 + 8192 * c7 + 2097152 * d7"
    and "h8 = a8 + 16 * b8 + 4096 * c8 + 1048576 * d8"
    and "h9 = a9 + 4 * b9 + 1024 * c9 + 262144 * d9"
shows "1 * (a0) + 256 * (b0) + 65536 * (c0) + 16777216 * (d0 + 4 * (a1)) + 4294967296 * (b1) + 1099511627776 * (c1) + 281474976710656 * (d1 +
      8 * (a2)) + 72057594037927936 * (b2) + 18446744073709551616 * (c2) + 4722366482869645213696 * (d2 + 32 * (a3)) +
      1208925819614629174706176 * (b3) + 309485009821345068724781056 * (c3) + 79228162514264337593543950336 * (d3 + 64 * (a4)) +
      20282409603651670423947251286016 * (b4) + 5192296858534827628530496329220096 * (c4) + 1329227995784915872903807060280344576 * (d4) +
      340282366920938463463374607431768211456 * (a5) + 87112285931760246646623899502532662132736 * (b5) +
      22300745198530623141535718272648361505980416 * (c5) + 5708990770823839524233143877797980545530986496 * (d5 + 2 * (a6)) +
      1461501637330902918203684832716283019655932542976 * (b6) + 374144419156711147060143317175368453031918731001856 * (c6) +
      95780971304118053647396689196894323976171195136475136 * (d6 + 8 * (a7)) + 24519928653854221733733552434404946937899825954937634816 *
      (b7) + 6277101735386680763835789423207666416102355444464034512896 * (c7) +
      1606938044258990275541962092341162602522202993782792835301376 * (d7 + 16 * (a8)) +
      411376139330301510538742295639337626245683966408394965837152256 * (b8) +
      105312291668557186697918027683670432318895095400549111254310977536 * (c8) +
      26959946667150639794667015087019630673637144422540572481103610249216 * (d8 + 64 * (a9)) +
      6901746346790563787434755862277025452451108972170386555162524223799296 * (b9) +
      1766847064778384329583297500742918515827483896875618958121606201292619776 * (c9) +
      452312848583266388373324160190187140051835877600158453279131187530910662656 * (d9) = val [h0, h1, h2, h3, h4, h5, h6, h7, h8, h9]"
  unfolding assms val_list by simp

lemma fe_pack_val:
  assumes "reduced 10 h"
  shows "length (fe_pack h) = 32" and "le_val (fe_pack h) = val h"
proof -
  show "length (fe_pack h) = 32" by (simp add: fe_pack_def)
  have "length h = 10" using assms by (simp add: reduced_def)
  then obtain h0 h1 h2 h3 h4 h5 h6 h7 h8 h9 where l: "h = [h0, h1, h2, h3, h4, h5, h6, h7, h8, h9]" by (rule length_10E)
  note h = l reduced_explicit [OF assms [unfolded l]]
  have m0: "uint (word_of_int (shr h0 24 OR shl32 h1 2) :: byte) = h0 div 2 ^ 24 + 2 ^ 2 * (h1 mod 2 ^ 6)"
    unfolding shr_def by (rule mixed_byte [OF shr_range [OF h(2)]]) (use h(3) in simp_all)
  have m1: "uint (word_of_int (shr h1 22 OR shl32 h2 3) :: byte) = h1 div 2 ^ 22 + 2 ^ 3 * (h2 mod 2 ^ 5)"
    unfolding shr_def by (rule mixed_byte [OF shr_range [OF h(4)]]) (use h(5) in simp_all)
  have m2: "uint (word_of_int (shr h2 21 OR shl32 h3 5) :: byte) = h2 div 2 ^ 21 + 2 ^ 5 * (h3 mod 2 ^ 3)"
    unfolding shr_def by (rule mixed_byte [OF shr_range [OF h(6)]]) (use h(7) in simp_all)
  have m3: "uint (word_of_int (shr h3 19 OR shl32 h4 6) :: byte) = h3 div 2 ^ 19 + 2 ^ 6 * (h4 mod 2 ^ 2)"
    unfolding shr_def by (rule mixed_byte [OF shr_range [OF h(8)]]) (use h(9) in simp_all)
  have m4: "uint (word_of_int (shr h5 24 OR shl32 h6 1) :: byte) = h5 div 2 ^ 24 + 2 ^ 1 * (h6 mod 2 ^ 7)"
    unfolding shr_def by (rule mixed_byte [OF shr_range [OF h(12)]]) (use h(13) in simp_all)
  have m5: "uint (word_of_int (shr h6 23 OR shl32 h7 3) :: byte) = h6 div 2 ^ 23 + 2 ^ 3 * (h7 mod 2 ^ 5)"
    unfolding shr_def by (rule mixed_byte [OF shr_range [OF h(14)]]) (use h(15) in simp_all)
  have m6: "uint (word_of_int (shr h7 21 OR shl32 h8 4) :: byte) = h7 div 2 ^ 21 + 2 ^ 4 * (h8 mod 2 ^ 4)"
    unfolding shr_def by (rule mixed_byte [OF shr_range [OF h(16)]]) (use h(17) in simp_all)
  have m7: "uint (word_of_int (shr h8 20 OR shl32 h9 6) :: byte) = h8 div 2 ^ 20 + 2 ^ 6 * (h9 mod 2 ^ 2)"
    unfolding shr_def by (rule mixed_byte [OF shr_range [OF h(18)]]) (use h(19) in simp_all)
  have t: "h4 div 2 ^ 18 mod 256 = h4 div 2 ^ 18" "h9 div 2 ^ 18 mod 256 = h9 div 2 ^ 18"
    using shr_range [OF h(10), of 18 8] h(11) shr_range [OF h(20), of 18 8] h(21) by simp_all
  have c0: "h0 = h0 mod 256 + 256 * (h0 div 256 mod 256) + 65536 * (h0 div 65536 mod 256) + 16777216 * (h0 div 16777216)" by (rule limb_chunks [of 256 h0, simplified])
  have c1: "h1 = h1 mod 64 + 64 * (h1 div 64 mod 256) + 16384 * (h1 div 16384 mod 256) + 4194304 * (h1 div 4194304)" by (rule limb_chunks [of 64 h1, simplified])
  have c2: "h2 = h2 mod 32 + 32 * (h2 div 32 mod 256) + 8192 * (h2 div 8192 mod 256) + 2097152 * (h2 div 2097152)" by (rule limb_chunks [of 32 h2, simplified])
  have c3: "h3 = h3 mod 8 + 8 * (h3 div 8 mod 256) + 2048 * (h3 div 2048 mod 256) + 524288 * (h3 div 524288)" by (rule limb_chunks [of 8 h3, simplified])
  have c4: "h4 = h4 mod 4 + 4 * (h4 div 4 mod 256) + 1024 * (h4 div 1024 mod 256) + 262144 * (h4 div 262144)" by (rule limb_chunks [of 4 h4, simplified])
  have c5: "h5 = h5 mod 256 + 256 * (h5 div 256 mod 256) + 65536 * (h5 div 65536 mod 256) + 16777216 * (h5 div 16777216)" by (rule limb_chunks [of 256 h5, simplified])
  have c6: "h6 = h6 mod 128 + 128 * (h6 div 128 mod 256) + 32768 * (h6 div 32768 mod 256) + 8388608 * (h6 div 8388608)" by (rule limb_chunks [of 128 h6, simplified])
  have c7: "h7 = h7 mod 32 + 32 * (h7 div 32 mod 256) + 8192 * (h7 div 8192 mod 256) + 2097152 * (h7 div 2097152)" by (rule limb_chunks [of 32 h7, simplified])
  have c8: "h8 = h8 mod 16 + 16 * (h8 div 16 mod 256) + 4096 * (h8 div 4096 mod 256) + 1048576 * (h8 div 1048576)" by (rule limb_chunks [of 16 h8, simplified])
  have c9: "h9 = h9 mod 4 + 4 * (h9 div 4 mod 256) + 1024 * (h9 div 1024 mod 256) + 262144 * (h9 div 262144)" by (rule limb_chunks [of 4 h9, simplified])
  have "le_val (fe_pack h) =
1 * (h0 mod 256) + 256 * (h0 div 256 mod 256) + 65536 * (h0 div 65536 mod 256) + 16777216 * (h0 div 16777216 + 4 * (h1 mod 64)) + 4294967296
      * (h1 div 64 mod 256) + 1099511627776 * (h1 div 16384 mod 256) + 281474976710656 * (h1 div 4194304 + 8 * (h2 mod 32)) +
      72057594037927936 * (h2 div 32 mod 256) + 18446744073709551616 * (h2 div 8192 mod 256) + 4722366482869645213696 * (h2 div 2097152 + 32
      * (h3 mod 8)) + 1208925819614629174706176 * (h3 div 8 mod 256) + 309485009821345068724781056 * (h3 div 2048 mod 256) +
      79228162514264337593543950336 * (h3 div 524288 + 64 * (h4 mod 4)) + 20282409603651670423947251286016 * (h4 div 4 mod 256) +
      5192296858534827628530496329220096 * (h4 div 1024 mod 256) + 1329227995784915872903807060280344576 * (h4 div 262144) +
      340282366920938463463374607431768211456 * (h5 mod 256) + 87112285931760246646623899502532662132736 * (h5 div 256 mod 256) +
      22300745198530623141535718272648361505980416 * (h5 div 65536 mod 256) + 5708990770823839524233143877797980545530986496 * (h5 div
      16777216 + 2 * (h6 mod 128)) + 1461501637330902918203684832716283019655932542976 * (h6 div 128 mod 256) +
      374144419156711147060143317175368453031918731001856 * (h6 div 32768 mod 256) + 95780971304118053647396689196894323976171195136475136 *
      (h6 div 8388608 + 8 * (h7 mod 32)) + 24519928653854221733733552434404946937899825954937634816 * (h7 div 32 mod 256) +
      6277101735386680763835789423207666416102355444464034512896 * (h7 div 8192 mod 256) +
      1606938044258990275541962092341162602522202993782792835301376 * (h7 div 2097152 + 16 * (h8 mod 16)) +
      411376139330301510538742295639337626245683966408394965837152256 * (h8 div 16 mod 256) +
      105312291668557186697918027683670432318895095400549111254310977536 * (h8 div 4096 mod 256) +
      26959946667150639794667015087019630673637144422540572481103610249216 * (h8 div 1048576 + 64 * (h9 mod 4)) +
      6901746346790563787434755862277025452451108972170386555162524223799296 * (h9 div 4 mod 256) +
      1766847064778384329583297500742918515827483896875618958121606201292619776 * (h9 div 1024 mod 256) +
      452312848583266388373324160190187140051835877600158453279131187530910662656 * (h9 div 262144)"
    unfolding fe_pack_def l nth_Cons_numeral nth_Cons_0 One_nat_def [symmetric] le_val.simps
    by (simp add: m0 m1 m2 m3 m4 [unfolded One_nat_def] m5 m6 m7) (simp add: uint_word shr_def t [simplified])
  also have "\<dots> = val h" unfolding l by (rule pack_algebra [OF c0 c1 c2 c3 c4 c5 c6 c7 c8 c9])
  finally show "le_val (fe_pack h) = val h" .
qed

lemma feToBytes_correct:
  assumes "bnd small h"
  shows "feToBytes h = le_bytes 32 (fe h)"
proof -
  note r = fe_reduce_correct [OF assms] and p = fe_pack_val [OF fe_reduce_correct(1) [OF assms]]
  have "le_bytes (length (fe_pack (fe_reduce h))) (le_val (fe_pack (fe_reduce h))) = feToBytes h" unfolding feToBytes_def by (rule le_bytes_val)
  then show ?thesis unfolding p r(2) ..
qed

text \<open>Reading back what was written.\<close>

lemma length_le_bytes [simp]: "length (le_bytes n v) = n"
  by (induction n arbitrary: v) auto

lemma le_val_bytes: "0 \<le> v \<Longrightarrow> v < 256 ^ n \<Longrightarrow> le_val (le_bytes n v) = v"
proof (induction n arbitrary: v)
  case (Suc n)
  then have "v div 256 < 256 ^ n" using div_less_dividend by simp
  with Suc show ?case by (simp add: uint_word pos_imp_zdiv_nonneg_iff)
qed simp

end
