(* ===== verification/Curve25519_Ladder.thy ===== *)
theory Curve25519_Ladder
  imports Curve25519_Bytes
begin

text \<open>
  The multiplication of a point by a number: the loop over limbs with its conditional swaps computes the ladder of Montgomery over the field,
  and the result is written as 32 bytes.
\<close>

section \<open>The reference\<close>

text \<open>Doubling and differential addition of points, given by their two projective coordinates, and one step for each bit of the number.\<close>

definition point_double :: "int \<times> int \<Rightarrow> int \<times> int" where
  "point_double P =
     (let (x, z) = P; a = (x + z)\<^sup>2; b = (x - z)\<^sup>2; e = a - b
      in (a * b mod p25519, e * (b + 121666 * e) mod p25519))"

definition point_add :: "int \<Rightarrow> int \<times> int \<Rightarrow> int \<times> int \<Rightarrow> int \<times> int" where
  "point_add u P Q =
     (let (x2, z2) = P; (x3, z3) = Q; d = (x3 - z3) * (x2 + z2); c = (x3 + z3) * (x2 - z2)
      in ((d + c)\<^sup>2 mod p25519, u * (d - c)\<^sup>2 mod p25519))"

definition montgomery_step :: "int \<Rightarrow> bool \<Rightarrow> (int \<times> int) \<times> (int \<times> int) \<Rightarrow> (int \<times> int) \<times> (int \<times> int)" where
  "montgomery_step u b PQ =
     (let (P, Q) = PQ in if b then (point_add u P Q, point_double Q) else (point_double P, point_add u P Q))"

definition montgomery_ladder :: "int \<Rightarrow> int \<Rightarrow> int" where
  "montgomery_ladder n u =
     (let ((x, z), _) = fold (montgomery_step u) (map (bit n) (rev [0..<255])) ((1, 0), (u, 1))
      in x * z ^ (2 ^ 255 - 21) mod p25519)"

section \<open>Inversion\<close>

definition is_power :: "int list \<Rightarrow> nat \<Rightarrow> int list \<Rightarrow> bool" where
  "is_power z n t \<longleftrightarrow> bnd small t \<and> fe t = fe z ^ n mod p25519"

lemma is_power_self: "bnd small z \<Longrightarrow> is_power z 1 z"
  by (simp add: is_power_def fe_def)

lemma is_power_mul: "is_power z a s \<Longrightarrow> is_power z b t \<Longrightarrow> is_power z (a + b) (feMul s t)"
  using feMul_correct [of s t] small_large by (simp add: is_power_def mod_mult_eq power_add)

lemma is_power_square: "is_power z a s \<Longrightarrow> is_power z (2 * a) (feSquare s)"
  using is_power_mul [of z a s a s] small_large feSquare_feMul [of s] by (simp add: is_power_def mult_2)

lemma is_power_squares:
  assumes "is_power z a s" and "0 < n"
  shows "is_power z (a * 2 ^ n) (feSquares n s)"
proof -
  have "is_power z (a * 2 ^ Suc m) ((feSquare ^^ m) (feSquare s))" for m
  proof (induction m)
    case (Suc m)
    then show ?case using is_power_square [OF Suc] by (simp add: mult_ac)
  qed (use is_power_square [OF assms(1)] in \<open>simp add: mult.commute\<close>)
  from this [of "n - 1"] show ?thesis using assms(2) by (simp add: feSquares_def)
qed

lemma feInvert_correct:
  assumes "bnd small z"
  shows "is_power z (2 ^ 255 - 21) (feInvert z)"
proof -
  note z = is_power_self [OF assms]
  note t0 = is_power_squares [OF z, of 1, simplified]
  note t1 = is_power_mul [OF z is_power_squares [OF t0, of 2], simplified]
  note t0' = is_power_mul [OF t0 t1, simplified]
  note t1' = is_power_mul [OF t1 is_power_squares [OF t0', of 1], simplified]
  note a = is_power_mul [OF is_power_squares [OF t1', of 5] t1', simplified]
  note b = is_power_mul [OF is_power_squares [OF a, of 10] a, simplified]
  note c = is_power_mul [OF is_power_squares [OF b, of 20] b, simplified]
  note d = is_power_mul [OF is_power_squares [OF c, of 10] a, simplified]
  note e = is_power_mul [OF is_power_squares [OF d, of 50] d, simplified]
  note f = is_power_mul [OF is_power_squares [OF e, of 100] e, simplified]
  note g = is_power_mul [OF is_power_squares [OF f, of 50] d, simplified]
  note h = is_power_mul [OF is_power_squares [OF g, of 5] t0', simplified]
  from h show ?thesis unfolding feInvert_def Let_def by simp
qed

section \<open>One step\<close>

lemma point_add_swap: "point_add u P Q = point_add u Q P"
proof -
  obtain x2 z2 x3 z3 where PQ: "P = (x2, z2)" "Q = (x3, z3)" by fastforce
  have "((x3 - z3) * (x2 + z2) + (x3 + z3) * (x2 - z2)) = ((x2 - z2) * (x3 + z3) + (x2 + z2) * (x3 - z3))" by (simp add: algebra_simps)
  moreover have "((x3 - z3) * (x2 + z2) - (x3 + z3) * (x2 - z2))\<^sup>2 = ((x2 - z2) * (x3 + z3) - (x2 + z2) * (x3 - z3))\<^sup>2"
    by (subst power2_minus [symmetric]) (simp add: algebra_simps)
  ultimately show ?thesis by (simp only: point_add_def PQ Let_def prod.case)
qed

definition small_ladder :: "ladder \<Rightarrow> bool" where
  "small_ladder l \<longleftrightarrow> bnd small (l_x2 l) \<and> bnd small (l_z2 l) \<and> bnd small (l_x3 l) \<and> bnd small (l_z3 l)"

definition points :: "ladder \<Rightarrow> (int \<times> int) \<times> (int \<times> int)" where
  "points l = ((fe (l_x2 l), fe (l_z2 l)), (fe (l_x3 l), fe (l_z3 l)))"

lemma fe_mod [simp]: "fe h mod p25519 = fe h"
  by (simp add: fe_def)

lemma feSquare_correct: "bnd large f \<Longrightarrow> bnd small (feSquare f) \<and> fe (feSquare f) = (fe f)\<^sup>2 mod p25519"
  using feMul_correct [of f f] feSquare_feMul [of f] by (simp add: power2_eq_square)

lemma ladder_arith_correct:
  assumes "bnd small x1" and "small_ladder l"
  shows "small_ladder (ladder_arith x1 l)"
    and "points (ladder_arith x1 l) = (point_double (fst (points l)), point_add (fe x1) (fst (points l)) (snd (points l)))"
proof -
  define x2 z2 x3 z3 where "x2 = l_x2 l" and "z2 = l_z2 l" and "x3 = l_x3 l" and "z3 = l_z3 l"
  have b: "bnd small x2" "bnd small z2" "bnd small x3" "bnd small z3"
    using assms(2) by (simp_all add: small_ladder_def x2_def z2_def x3_def z3_def)
  define d s dd ss where "d = feSub x2 z2" and "s = feAdd x2 z2" and "dd = feSub x3 z3" and "ss = feAdd x3 z3"
  note 1 = feSub_correct [OF b(1,2), folded d_def] feAdd_correct [OF b(1,2), folded s_def]
    feSub_correct [OF b(3,4), folded dd_def] feAdd_correct [OF b(3,4), folded ss_def]
  define da cb bb aa where "da = feMul dd s" and "cb = feMul ss d" and "bb = feSquare d" and "aa = feSquare s"
  note 2 = feMul_correct [OF 1(5,3), folded da_def] feMul_correct [OF 1(7,1), folded cb_def]
    feSquare_correct [OF 1(1), folded bb_def] feSquare_correct [OF 1(3), folded aa_def]
  define p q e where "p = feAdd da cb" and "q = feSub da cb" and "e = feSub aa bb"
  note 3 = feAdd_correct [OF 2(1,3), folded p_def] feSub_correct [OF 2(1,3), folded q_def]
    feSub_correct [OF 2(6) [THEN conjunct1] 2(5) [THEN conjunct1], folded e_def]
  define m where "m = feMul121666 e"
  note 4 = feMul121666_correct [OF 3(5), folded m_def]
  note 5 = feAdd_correct [OF 2(5) [THEN conjunct1] 4(1)] feSquare_correct [OF 3(3)] feSquare_correct [OF 3(1)]
  note 6 = feMul_correct [OF small_large small_large, OF 2(6) [THEN conjunct1] 2(5) [THEN conjunct1]]
    feMul_correct [OF 3(5) 5(1)] feMul_correct [OF small_large small_large, OF assms(1) 5(3) [THEN conjunct1]]
  have l: "ladder_arith x1 l = l\<lparr>l_x2 := feMul aa bb, l_z2 := feMul e (feAdd bb m), l_x3 := feSquare p, l_z3 := feMul x1 (feSquare q)\<rparr>"
    unfolding ladder_arith_def Let_def x2_def z2_def x3_def z3_def d_def s_def dd_def ss_def da_def cb_def bb_def aa_def p_def q_def e_def m_def by simp
  show "small_ladder (ladder_arith x1 l)" unfolding l small_ladder_def using 5 6 by simp
  have P: "points l = ((fe x2, fe z2), (fe x3, fe z3))" by (simp add: points_def x2_def z2_def x3_def z3_def)
  show "points (ladder_arith x1 l) = (point_double (fst (points l)), point_add (fe x1) (fst (points l)) (snd (points l)))"
    unfolding P l using 1 2 3 4 5 6
    by (simp add: points_def point_double_def point_add_def Let_def mod_simps)
qed

section \<open>The loop\<close>

lemma ladder_swap_correct:
  assumes "small_ladder l"
  shows "l_swap l = 0 \<Longrightarrow> ladder_swap l = l"
    and "l_swap l = 1 \<Longrightarrow> small_ladder (ladder_swap l) \<and> points (ladder_swap l) = (snd (points l), fst (points l)) \<and> l_swap (ladder_swap l) = 1"
proof -
  have "length (l_x2 l) = 10" "length (l_z2 l) = 10" "length (l_x3 l) = 10" "length (l_z3 l) = 10"
    using assms bnd_length length_large(2) by (auto simp: small_ladder_def)
  note f = feCSwap_correct [OF this(1,3)] feCSwap_correct [OF this(2,4)]
  show "l_swap l = 0 \<Longrightarrow> ladder_swap l = l" using f by (simp add: ladder_swap_def)
  show "l_swap l = 1 \<Longrightarrow> small_ladder (ladder_swap l) \<and> points (ladder_swap l) = (snd (points l), fst (points l)) \<and> l_swap (ladder_swap l) = 1"
    using f assms by (simp add: ladder_swap_def small_ladder_def points_def)
qed

text \<open>The limbs hold the two points of the reference, in the other order when a swap is due.\<close>

definition holds_points :: "ladder \<Rightarrow> (int \<times> int) \<times> (int \<times> int) \<Rightarrow> bool" where
  "holds_points l PQ \<longleftrightarrow> small_ladder l \<and> (l_swap l = 0 \<and> points l = PQ \<or> l_swap l = 1 \<and> points l = (snd PQ, fst PQ))"

lemma ladder_swap_holds: "holds_points l PQ \<Longrightarrow> small_ladder (ladder_swap l) \<and> points (ladder_swap l) = PQ"
  using ladder_swap_correct [of l] by (cases PQ) (auto simp: holds_points_def)

lemma ladder_step_holds:
  assumes "holds_points l PQ" and "bnd small x1" and "uint (key_bit e pos) = of_bool b"
  shows "holds_points (ladder_step e x1 pos l) (montgomery_step (fe x1) b PQ)"
proof -
  obtain P Q where PQ: "PQ = (P, Q)" by (cases PQ)
  define k where "k = l\<lparr>l_swap := l_swap l XOR of_bool b\<rparr>"
  have sm: "small_ladder k" "points k = points l" using assms(1) by (simp_all add: holds_points_def small_ladder_def points_def k_def)
  have "l_swap k = 0 \<or> l_swap k = 1" "(l_swap k = 1) = (l_swap l = 1 \<longleftrightarrow> \<not> b)" using assms(1) by (auto simp: holds_points_def k_def)
  then have s: "small_ladder (ladder_swap k) \<and> points (ladder_swap k) = (if b then (Q, P) else (P, Q))"
    using assms(1) ladder_swap_correct [OF sm(1)] sm by (cases b) (auto simp: holds_points_def PQ)
  let ?m = "(ladder_swap k)\<lparr>l_swap := of_bool b\<rparr>"
  have m: "small_ladder ?m" "points ?m = (if b then (Q, P) else (P, Q))" using s by (simp_all add: small_ladder_def points_def)
  have "ladder_step e x1 pos l = ladder_arith x1 ?m" by (simp add: ladder_step_def assms(3) Let_def k_def)
  moreover have "l_swap (ladder_arith x1 ?m) = of_bool b" by (simp add: ladder_arith_def Let_def)
  ultimately show ?thesis
    using ladder_arith_correct [OF assms(2) m(1)] m(2) point_add_swap [of "fe x1" Q P]
    by (cases b) (simp_all add: holds_points_def montgomery_step_def PQ)
qed

text \<open>The bits of the number.\<close>

lemma le_val_bit: "i < length bs \<Longrightarrow> j < 8 \<Longrightarrow> bit (le_val bs) (8 * i + j) = bit (bs ! i) j"
proof (induction bs arbitrary: i)
  case (Cons b bs)
  have u: "0 \<le> uint b" "uint b < 2 ^ 8" using uint_byte [of b] by simp_all
  have v: "le_val (b # bs) = uint b OR push_bit 8 (le_val bs)" using or_shift [OF u, of "le_val bs"] by (simp add: push_bit_eq_mult mult.commute)
  show ?case
  proof (cases i)
    case 0
    then show ?thesis using Cons.prems(2) unfolding v by (simp add: bit_or_iff bit_push_bit_iff_int bit_uint_iff)
  next
    case (Suc k)
    then have "\<not> bit (uint b) (8 * i + j)" by (simp add: bit_uint_iff)
    then show ?thesis using Cons Suc unfolding v by (simp add: bit_or_iff bit_push_bit_iff_int)
  qed
qed simp

lemma key_bit_uint: "pos < 8 * length e \<Longrightarrow> uint (key_bit e pos) = of_bool (bit (le_val e) pos)"
proof -
  assume p: "pos < 8 * length e"
  have "bit (le_val e) (8 * (pos div 8) + pos mod 8) = bit (e ! (pos div 8)) (pos mod 8)" using p by (intro le_val_bit) auto
  then show ?thesis by (simp add: key_bit_def and_one_eq mod_2_eq_odd bit_iff_odd_drop_bit [symmetric])
qed

lemma fold_ladder:
  assumes "holds_points l PQ" and "bnd small x1" and "list_all (\<lambda>pos. pos < 8 * length e) ps"
  shows "holds_points (fold (ladder_step e x1) ps l) (fold (montgomery_step (fe x1)) (map (bit (le_val e)) ps) PQ)"
  using assms
proof (induction ps arbitrary: l PQ)
  case (Cons pos ps)
  then have "holds_points (ladder_step e x1 pos l) (montgomery_step (fe x1) (bit (le_val e) pos) PQ)"
    by (intro ladder_step_holds key_bit_uint) auto
  with Cons show ?case by simp
qed simp

section \<open>The result\<close>

lemma length_clamp [simp]: "length (clamp e) = length e"
  by (simp add: clamp_def Let_def)

text \<open>
  C8. The multiplication of a point on curve25519 by a key is Montgomery's ladder over the field of \<open>2\<^sup>2\<^sup>5\<^sup>5 - 19\<close> elements: for every key and
  every point of 32 bytes the code returns the 32 bytes of the least number that represents the result. The key is
  taken with three bits cleared and its highest bit set; the point is reduced first. No addition, multiplication or carry of the limbs overflows
  on the way, although they are done at 32 and 64 bits.
\<close>

theorem ScalarMult_ladder:
  assumes "length key = 32" and "length base = 32"
  shows "ScalarMult key base = le_bytes 32 (montgomery_ladder (le_val (clamp key)) (le_val base mod p25519))"
proof -
  define x1 e where "x1 = feFromBytes base" and "e = clamp key"
  have x1: "bnd small x1" "fe x1 = le_val base mod p25519" using feFromBytes_correct [OF assms(2)] by (simp_all add: x1_def)
  define l0 l where "l0 = \<lparr>l_x2 = feOne, l_z2 = feZero, l_x3 = feCopy x1, l_z3 = feOne, l_swap = 0\<rparr>"
    and "l = fold (ladder_step e x1) (rev [0..<255]) l0"
  define PQ where "PQ = fold (montgomery_step (fe x1)) (map (bit (le_val e)) (rev [0..<255])) ((1, 0), (fe x1, 1))"
  have "holds_points l0 ((1, 0), (fe x1, 1))" using x1 fe_const by (simp add: holds_points_def small_ladder_def points_def l0_def feCopy_def)
  then have "holds_points l PQ" unfolding l_def PQ_def using x1(1) assms(1) by (intro fold_ladder) (auto simp: list_all_iff e_def)
  then have s: "small_ladder (ladder_swap l)" "points (ladder_swap l) = PQ" using ladder_swap_holds by blast+
  define x z where "x = l_x2 (ladder_swap l)" and "z = l_z2 (ladder_swap l)"
  have xz: "bnd small x" "bnd small z" "fst PQ = (fe x, fe z)" using s by (auto simp: small_ladder_def points_def x_def z_def)
  have i: "bnd small (feInvert z)" "fe (feInvert z) = fe z ^ (2 ^ 255 - 21) mod p25519"
    using feInvert_correct [OF xz(2)] unfolding is_power_def by blast+
  note m = feMul_correct [OF small_large small_large, OF xz(1) i(1)]
  have "ScalarMult key base = feToBytes (feMul x (feInvert z))"
    unfolding ScalarMult_def scalarMult_def Let_def x1_def [symmetric] e_def [symmetric] l0_def [symmetric] l_def [symmetric] x_def z_def by (rule refl)
  also have "\<dots> = le_bytes 32 (fe x * fe (feInvert z) mod p25519)" unfolding feToBytes_correct [OF m(1)] m(2) ..
  also have "fe x * fe (feInvert z) mod p25519 = montgomery_ladder (le_val e) (fe x1)"
    unfolding montgomery_ladder_def PQ_def [symmetric] i(2) mod_mult_right_eq using xz(3) by (cases PQ) (simp only: Let_def prod.case fst_conv)
  finally show ?thesis by (simp add: e_def x1(2))
qed

theorem ScalarMult_ladder_witness:
  "ScalarMult (replicate 32 77) basePoint = le_bytes 32 (montgomery_ladder (le_val (clamp (replicate 32 77))) (9 mod p25519))"
proof -
  have "le_val (replicate n 0) = 0" for n by (induction n) simp_all
  then have "le_val basePoint = 9" by (simp add: basePoint_def)
  then show ?thesis using ScalarMult_ladder [of "replicate 32 77" basePoint] by (simp add: basePoint_def)
qed

end
