(* ===== verification/Term_Keys.thy ===== *)
theory Term_Keys
  imports Go_Utf8
begin

text \<open>
  The keys of the line editor, \<^verbatim>\<open>src/golang.org/x/crypto/ssh/terminal/terminal.go\<close>: how the bytes of a VT100 terminal are read
  as keys. Bytes are integers below 256, as in \<open>Go_Utf8\<close>. A sequence that is not complete yet is
  answered with \<open>RuneError\<close> and all the bytes, an invalid encoding with \<open>RuneError\<close> and the bytes after it.
\<close>

section \<open>Definitions\<close>

definition keyCtrlD :: rune where "keyCtrlD = 4"
definition keyCtrlU :: rune where "keyCtrlU = 21"
definition keyEnter :: rune where "keyEnter = 13"
definition keyEscape :: rune where "keyEscape = 27"
definition keyBackspace :: rune where "keyBackspace = 127"
definition keyUnknown :: rune where "keyUnknown = 55301"
definition keyUp :: rune where "keyUp = 55302"
definition keyDown :: rune where "keyDown = 55303"
definition keyLeft :: rune where "keyLeft = 55304"
definition keyRight :: rune where "keyRight = 55305"
definition keyAltLeft :: rune where "keyAltLeft = 55306"
definition keyAltRight :: rune where "keyAltRight = 55307"
definition keyHome :: rune where "keyHome = 55308"
definition keyEnd :: rune where "keyEnd = 55309"
definition keyDeleteWord :: rune where "keyDeleteWord = 55310"
definition keyDeleteLine :: rune where "keyDeleteLine = 55311"
definition keyClearScreen :: rune where "keyClearScreen = 55312"
definition keyPasteStart :: rune where "keyPasteStart = 55313"
definition keyPasteEnd :: rune where "keyPasteEnd = 55314"

lemmas key_defs = keyCtrlD_def keyCtrlU_def keyEnter_def keyEscape_def keyBackspace_def keyUnknown_def keyUp_def
  keyDown_def keyLeft_def keyRight_def keyAltLeft_def keyAltRight_def keyHome_def keyEnd_def keyDeleteWord_def
  keyDeleteLine_def keyClearScreen_def keyPasteStart_def keyPasteEnd_def RuneError_def

definition pasteStart :: "int list" where "pasteStart = [27, 91, 50, 48, 48, 126]"
definition pasteEnd :: "int list" where "pasteEnd = [27, 91, 50, 48, 49, 126]"

text \<open>\<^verbatim>\<open>utf8.FullRune\<close>: whether the bytes begin with a whole encoding, or with an invalid one.\<close>

definition rune_size :: "int \<Rightarrow> nat" where
  "rune_size b0 = (if b0 < 194 \<or> 244 < b0 then 1 else if b0 < 224 then 2 else if b0 < 240 then 3 else 4)"

definition full_rune :: "int list \<Rightarrow> bool" where
  "full_rune bs =
     (let b0 = bs ! 0; n = length bs;
          lo = (if b0 = 224 then 160 else if b0 = 240 then 144 else 128);
          hi = (if b0 = 237 then 159 else if b0 = 244 then 143 else 191)
      in n \<noteq> 0 \<and> (rune_size b0 \<le> n \<or> 1 < n \<and> \<not> continuation lo hi (bs ! 1) \<or> 2 < n \<and> \<not> continuation 128 191 (bs ! 2)))"

definition ctrl_key :: "int \<Rightarrow> rune option" where
  "ctrl_key b =
     (if b = 1 then Some keyHome else if b = 5 then Some keyEnd else if b = 8 then Some keyBackspace
      else if b = 11 then Some keyDeleteLine else if b = 12 then Some keyClearScreen
      else if b = 23 then Some keyDeleteWord else None)"

definition arrow_key :: "int \<Rightarrow> rune option" where
  "arrow_key b =
     (if b = 65 then Some keyUp else if b = 66 then Some keyDown else if b = 67 then Some keyRight
      else if b = 68 then Some keyLeft else if b = 72 then Some keyHome else if b = 70 then Some keyEnd else None)"

definition alt_key :: "int \<Rightarrow> rune option" where
  "alt_key b = (if b = 67 then Some keyAltRight else if b = 68 then Some keyAltLeft else None)"

definition ends_sequence :: "int \<Rightarrow> bool" where
  "ends_sequence c \<longleftrightarrow> 97 \<le> c \<and> c \<le> 122 \<or> 65 \<le> c \<and> c \<le> 90 \<or> c = 126"

text \<open>The search for the end of a sequence that is not known.\<close>

definition unknown_key :: "int list \<Rightarrow> rune \<times> int list" where
  "unknown_key b =
     (case dropWhile (\<lambda>c. \<not> ends_sequence c) b of [] \<Rightarrow> (RuneError, b) | _ # r \<Rightarrow> (keyUnknown, r))"

text \<open>The escape sequences; each test is one of the code's, in its order.\<close>

definition escape_key :: "int list \<Rightarrow> bool \<Rightarrow> rune \<times> int list" where
  "escape_key b paste =
     (case (if \<not> paste \<and> 3 \<le> length b \<and> b ! 1 = 91 then arrow_key (b ! 2) else None) of
        Some k \<Rightarrow> (k, drop 3 b)
      | None \<Rightarrow>
          (case (if \<not> paste \<and> 6 \<le> length b \<and> b ! 1 = 91 \<and> b ! 2 = 49 \<and> b ! 3 = 59 \<and> b ! 4 = 51 then alt_key (b ! 5) else None) of
             Some k \<Rightarrow> (k, drop 6 b)
           | None \<Rightarrow>
               if \<not> paste \<and> 6 \<le> length b \<and> take 6 b = pasteStart then (keyPasteStart, drop 6 b)
               else if paste \<and> 6 \<le> length b \<and> take 6 b = pasteEnd then (keyPasteEnd, drop 6 b)
               else unknown_key b))"

definition bytesToKey :: "int list \<Rightarrow> bool \<Rightarrow> rune \<times> int list" where
  "bytesToKey b paste =
     (if b = [] then (RuneError, [])
      else case (if \<not> paste then ctrl_key (b ! 0) else None) of
             Some k \<Rightarrow> (k, drop 1 b)
           | None \<Rightarrow>
               if b ! 0 \<noteq> keyEscape then
                 (if \<not> full_rune b then (RuneError, b) else case decode_rune b of (r, l) \<Rightarrow> (r, drop l b))
               else escape_key b paste)"

section \<open>Progress\<close>

lemma decode_rune_snd_le: "bs \<noteq> [] \<Longrightarrow> snd (decode_rune bs) \<le> length bs"
  by (cases bs) (auto simp: decode_rune_def Let_def not_less Suc_le_eq)

lemma unknown_key_cases:
  "unknown_key b = (RuneError, b) \<and> list_all (\<lambda>c. \<not> ends_sequence c) b
   \<or> (\<exists>u c r. b = u @ c # r \<and> list_all (\<lambda>c. \<not> ends_sequence c) u \<and> ends_sequence c \<and> unknown_key b = (keyUnknown, r))"
proof (cases "dropWhile (\<lambda>c. \<not> ends_sequence c) b")
  case Nil
  have "unknown_key b = (RuneError, b)" unfolding unknown_key_def Nil by simp
  moreover from Nil have "list_all (\<lambda>c. \<not> ends_sequence c) b" by (simp add: dropWhile_eq_Nil_conv list_all_iff)
  ultimately show ?thesis by simp
next
  case (Cons c r)
  have "ends_sequence c" using dropWhile_ConsD [OF Cons] by simp
  moreover have "b = takeWhile (\<lambda>c. \<not> ends_sequence c) b @ c # r" by (metis Cons takeWhile_dropWhile_id)
  moreover have "list_all (\<lambda>c. \<not> ends_sequence c) (takeWhile (\<lambda>c. \<not> ends_sequence c) b)"
    by (auto simp: list_all_iff dest: set_takeWhileD)
  ultimately show ?thesis using Cons by (auto simp: unknown_key_def)
qed

lemma unknown_key_found: "list_all (\<lambda>c. \<not> ends_sequence c) u \<Longrightarrow> ends_sequence c \<Longrightarrow> unknown_key (u @ c # r) = (keyUnknown, r)"
  by (simp add: unknown_key_def list_all_iff dropWhile_append1 dropWhile_append2)

lemma keyUnknown_not_error [simp]: "keyUnknown \<noteq> RuneError"
  by (simp add: key_defs)

lemma unknown_key_shorter: "unknown_key b = (k, r) \<Longrightarrow> k \<noteq> RuneError \<Longrightarrow> length r < length b"
  using unknown_key_cases [of b] by auto

text \<open>A key that is not \<open>RuneError\<close> takes at least one byte: the loop over the keys ends.\<close>

lemma bytesToKey_shorter:
  assumes "bytesToKey b paste = (k, r)" and "k \<noteq> RuneError"
  shows "length r < length b"
proof -
  have "b \<noteq> []" using assms by (auto simp: bytesToKey_def)
  then show ?thesis
    using assms decode_rune_width [of b] unknown_key_shorter [of b k r]
    by (auto simp: bytesToKey_def escape_key_def split: if_splits option.splits prod.splits)
qed

section \<open>Keys do not depend on how the bytes arrive\<close>

lemma decode_rune_extend:
  assumes "full_rune b"
  shows "decode_rune (b @ c) = decode_rune b"
proof -
  have "b \<noteq> []" using assms by (auto simp: full_rune_def)
  moreover have "(b @ c) ! i = b ! i" if "i < length b" for i using that by (simp add: nth_append)
  ultimately show ?thesis
    using assms
    by (cases "length b \<le> 1"; cases "length b = 2"; cases "length b = 3")
       (auto simp: full_rune_def decode_rune_def rune_size_def Let_def split: if_splits)
qed

lemma full_rune_extend: "full_rune b \<Longrightarrow> full_rune (b @ c)"
  by (cases "length b \<le> 1"; cases "length b = 2")
     (auto simp: full_rune_def Let_def nth_append rune_size_def split: if_splits)

text \<open>
  The sequences that are known all end with the first byte that can end a sequence. So the
  tests of \<^verbatim>\<open>bytesToKey\<close> amount to cutting there and looking the sequence up in a table.
\<close>

definition escape_table :: "bool \<Rightarrow> (int list \<times> rune) list" where
  "escape_table paste =
     (if paste then [(pasteEnd, keyPasteEnd)]
      else [([27, 91, 65], keyUp), ([27, 91, 66], keyDown), ([27, 91, 67], keyRight), ([27, 91, 68], keyLeft),
            ([27, 91, 72], keyHome), ([27, 91, 70], keyEnd), ([27, 91, 49, 59, 51, 67], keyAltRight),
            ([27, 91, 49, 59, 51, 68], keyAltLeft), (pasteStart, keyPasteStart)])"

definition escape_reference :: "int list \<Rightarrow> bool \<Rightarrow> rune \<times> int list" where
  "escape_reference b paste =
     (case dropWhile (\<lambda>c. \<not> ends_sequence c) b of
        [] \<Rightarrow> (RuneError, b)
      | c # r \<Rightarrow>
          (case map_of (escape_table paste) (takeWhile (\<lambda>c. \<not> ends_sequence c) b @ [c]) of
             None \<Rightarrow> keyUnknown | Some k \<Rightarrow> k, r))"

lemma sequence_test:
  assumes "list_all (\<lambda>c. \<not> ends_sequence c) u" and "ends_sequence x"
    and "list_all (\<lambda>c. \<not> ends_sequence c) i" and "ends_sequence y"
  shows "Suc (length i) \<le> length (u @ x # r) \<and> take (Suc (length i)) (u @ x # r) = i @ [y] \<longleftrightarrow> u = i \<and> x = y"
proof
  assume "Suc (length i) \<le> length (u @ x # r) \<and> take (Suc (length i)) (u @ x # r) = i @ [y]"
  then have e: "u @ x # r = i @ y # drop (Suc (length i)) (u @ x # r)"
    by (metis append.assoc append_Cons append_Nil append_take_drop_id)
  moreover have "takeWhile (\<lambda>c. \<not> ends_sequence c) (v @ z # w) = v" if "list_all (\<lambda>c. \<not> ends_sequence c) v" "ends_sequence z" for v z w
    using that by (simp add: list_all_iff takeWhile_append2)
  ultimately have "u = i" using assms by metis
  then show "u = i \<and> x = y" using e by simp
qed auto

lemma not_ends_keys:
  assumes "\<not> ends_sequence c"
  shows "arrow_key c = None" "alt_key c = None" "c \<noteq> 126"
  using assms by (auto simp: ends_sequence_def arrow_key_def alt_key_def)

lemma not_ends_known [simp]:
  "\<not> ends_sequence 27" "\<not> ends_sequence 91" "\<not> ends_sequence 49" "\<not> ends_sequence 59" "\<not> ends_sequence 51"
  "\<not> ends_sequence 50" "\<not> ends_sequence 48"
  by (simp_all add: ends_sequence_def)

lemma sequence_shape:
  "u = [] \<or> (\<exists>a. u = [a]) \<or> (\<exists>a b. u = [a, b]) \<or> (\<exists>a b c. u = [a, b, c]) \<or> (\<exists>a b c d. u = [a, b, c, d])
   \<or> (\<exists>a b c d e. u = [a, b, c, d, e]) \<or> (\<exists>a b c d e f v. u = a # b # c # d # e # f # v)"
  by (metis neq_Nil_conv)

lemma escape_key_found:
  assumes "list_all (\<lambda>c. \<not> ends_sequence c) u" and "ends_sequence x" and "(u @ x # r) ! 0 = 27"
  shows "escape_key (u @ x # r) paste =
    (case map_of (escape_table paste) (u @ [x]) of None \<Rightarrow> keyUnknown | Some k \<Rightarrow> k, r)"
proof -
  note unk = unknown_key_found [OF assms(1,2), of r]
  note E = escape_key_def [of "u @ x # r" paste, unfolded unk]
  have x: "x \<noteq> 91" "x \<noteq> 49" "x \<noteq> 59" "x \<noteq> 51" "x \<noteq> 50" "x \<noteq> 48" "x \<noteq> 27" using assms(2) by auto
  from sequence_shape [of u] consider (zero) "u = []" | (one) a where "u = [a]" | (two) a b where "u = [a, b]"
    | (more) a b c v where "u = a # b # c # v" "length v < 2" | (five) a b c d e where "u = [a, b, c, d, e]"
    | (six) a b c d e f v where "u = a # b # c # d # e # f # v" by (elim disjE exE) auto
  then show ?thesis
  proof cases
    case zero
    then show ?thesis using assms x by simp
  next
    case one
    then show ?thesis using assms x E by (simp add: escape_table_def pasteStart_def pasteEnd_def)
  next
    case two
    then show ?thesis using assms x E
      by (cases "b = 91") (simp_all add: escape_table_def pasteStart_def pasteEnd_def arrow_key_def)
  next
    case more
    then show ?thesis using assms x E not_ends_keys [of c]
      by (cases v; cases "b = 91") (simp_all add: escape_table_def pasteStart_def pasteEnd_def)
  next
    case five
    then show ?thesis using assms x E not_ends_keys [of c]
      by (simp add: escape_table_def pasteStart_def pasteEnd_def alt_key_def)
  next
    case six
    then show ?thesis using assms x E not_ends_keys [of c] not_ends_keys [of f]
      by (simp add: escape_table_def pasteStart_def pasteEnd_def)
  qed
qed

lemma escape_key_incomplete:
  assumes "list_all (\<lambda>c. \<not> ends_sequence c) b"
  shows "escape_key b paste = (RuneError, b)"
proof -
  have n: "i < length b \<Longrightarrow> \<not> ends_sequence (b ! i)" for i using assms by (simp add: list_all_length)
  have "126 \<notin> set b" using assms by (auto simp: list_all_iff ends_sequence_def)
  then have "take 6 b \<noteq> pasteStart" "take 6 b \<noteq> pasteEnd"
    by (metis in_set_takeD list.set_intros(1,2) pasteStart_def, metis in_set_takeD list.set_intros(1,2) pasteEnd_def)
  moreover have "3 \<le> length b \<Longrightarrow> arrow_key (b ! 2) = None" "6 \<le> length b \<Longrightarrow> alt_key (b ! 5) = None"
    using not_ends_keys n by auto
  moreover have "unknown_key b = (RuneError, b)" using assms unknown_key_cases [of b] by (auto simp: list_all_iff)
  ultimately show ?thesis by (simp add: escape_key_def)
qed

text \<open>
  The chain of tests for escape sequences finds the same key as the table: it cuts the sequence at the first byte that
  can end one.
\<close>

theorem escape_key_reference:
  assumes "b \<noteq> []" and "b ! 0 = keyEscape"
  shows "escape_key b paste = escape_reference b paste"
proof (cases "dropWhile (\<lambda>c. \<not> ends_sequence c) b")
  case Nil
  then have "list_all (\<lambda>c. \<not> ends_sequence c) b" by (simp add: dropWhile_eq_Nil_conv list_all_iff)
  moreover have "escape_reference b paste = (RuneError, b)" unfolding escape_reference_def Nil by simp
  ultimately show ?thesis by (simp add: escape_key_incomplete)
next
  case (Cons c r)
  let ?u = "takeWhile (\<lambda>c. \<not> ends_sequence c) b"
  have b: "?u @ c # r = b" by (metis Cons takeWhile_dropWhile_id)
  have "list_all (\<lambda>c. \<not> ends_sequence c) ?u" by (auto simp: list_all_iff dest: set_takeWhileD)
  from escape_key_found [OF this _, of c r paste] dropWhile_ConsD [OF Cons] show ?thesis
    using assms by (simp add: b escape_reference_def Cons key_defs)
qed

lemma escape_key_extend:
  assumes "escape_key b paste = (k, r)" and "k \<noteq> RuneError" and "b \<noteq> []" and "b ! 0 = keyEscape"
  shows "escape_key (b @ c) paste = (k, r @ c)"
proof -
  have e: "escape_reference b paste = (k, r)" using assms escape_key_reference by simp
  have bc: "b @ c \<noteq> []" "(b @ c) ! 0 = keyEscape" using assms(3,4) by (simp_all add: nth_append)
  show ?thesis
  proof (cases "dropWhile (\<lambda>c. \<not> ends_sequence c) b")
    case Nil
    then have "escape_reference b paste = (RuneError, b)" unfolding escape_reference_def Nil by simp
    then show ?thesis using e assms(2) by simp
  next
    case (Cons x r')
    then obtain y where "y \<in> set b" "ends_sequence y" by (metis dropWhile_eq_Nil_conv list.distinct(1))
    then have d: "dropWhile (\<lambda>c. \<not> ends_sequence c) (b @ c) = x # r' @ c"
      "takeWhile (\<lambda>c. \<not> ends_sequence c) (b @ c) = takeWhile (\<lambda>c. \<not> ends_sequence c) b"
      using Cons by (simp_all add: dropWhile_append1 takeWhile_append1)
    have "escape_reference (b @ c) paste = (k, r @ c)" using e unfolding escape_reference_def d Cons by simp
    then show ?thesis using escape_key_reference [OF bc] by simp
  qed
qed

text \<open>
  A key that is recognised in some bytes is recognised in the same way when more bytes
  follow, so the keys do not depend on how the input is cut into reads.
\<close>

theorem bytesToKey_extend:
  assumes "bytesToKey b paste = (k, r)" and "k \<noteq> RuneError"
  shows "bytesToKey (b @ c) paste = (k, r @ c)"
proof -
  have b: "b \<noteq> []" using assms by (auto simp: bytesToKey_def)
  then have h: "(b @ c) ! 0 = b ! 0" "drop 1 (b @ c) = drop 1 b @ c" by (cases b; simp)+
  have l: "snd (decode_rune b) \<le> length b" using b by (rule decode_rune_snd_le)
  have nil: "(b @ c = []) = False" "(b = []) = False" using b by simp_all
  show ?thesis
  proof (cases "if \<not> paste then ctrl_key (b ! 0) else None")
    case (Some k')
    then have "bytesToKey b paste = (k', drop 1 b)" "bytesToKey (b @ c) paste = (k', drop 1 b @ c)"
      unfolding bytesToKey_def nil h Some by simp_all
    then show ?thesis using assms(1) by simp
  next
    case None
    have e: "bytesToKey b paste = (if b ! 0 \<noteq> keyEscape then
        (if \<not> full_rune b then (RuneError, b) else (fst (decode_rune b), drop (snd (decode_rune b)) b)) else escape_key b paste)"
      "bytesToKey (b @ c) paste = (if b ! 0 \<noteq> keyEscape then
        (if \<not> full_rune (b @ c) then (RuneError, b @ c) else (fst (decode_rune (b @ c)), drop (snd (decode_rune (b @ c))) (b @ c)))
        else escape_key (b @ c) paste)"
      unfolding bytesToKey_def nil h None by (simp_all add: case_prod_beta)
    show ?thesis
      using assms b l escape_key_extend [of b paste k r c] unfolding e
      by (auto simp: decode_rune_extend full_rune_extend split: if_splits)
  qed
qed

end
