(* ===== verification/Term_Editor.thy ===== *)
theory Term_Editor
  imports Term_Keys "HOL-Library.Monad_Syntax"
begin

text \<open>
  The line editor of \<^verbatim>\<open>src/golang.org/x/crypto/ssh/terminal/terminal.go\<close>: its state, the history and what each key does.
  Text is a list of runes, strings are lists of bytes (integers below 256). \<open>None\<close> is the result of an operation that does
  not return: a slice or an index out of range, a division by zero, or the loop of \<^verbatim>\<open>writeLine\<close> when the cursor
  stands beyond the last column. The callback for completion is a function, so it does not write to the terminal
  while it runs. The capacity of slices is not modelled; it matters only
  for a cursor position beyond the end of the line, where the model stops with \<open>None\<close>.
\<close>

section \<open>History\<close>

record ring =
  r_entries :: "int list list option"
  r_max :: int
  r_head :: int
  r_size :: int

definition empty_ring :: ring where
  "empty_ring = \<lparr>r_entries = None, r_max = 0, r_head = 0, r_size = 0\<rparr>"

definition defaultNumEntries :: nat where
  "defaultNumEntries = 100"

definition ring_Add :: "ring \<Rightarrow> int list \<Rightarrow> ring option" where
  "ring_Add s0 a =
     (let s = (if r_entries s0 = None
               then s0\<lparr>r_entries := Some (replicate defaultNumEntries []), r_max := int defaultNumEntries\<rparr> else s0);
          h = go_rem (r_head s + 1) (r_max s); es = the (r_entries s)
      in if r_max s = 0 \<or> h < 0 \<or> int (length es) \<le> h then None
         else Some (s\<lparr>r_head := h, r_entries := Some (es[nat h := a]),
                      r_size := (if r_size s < r_max s then r_size s + 1 else r_size s)\<rparr>))"

definition NthPreviousEntry :: "ring \<Rightarrow> int \<Rightarrow> int list option option" where
  "NthPreviousEntry s n =
     (if r_size s \<le> n then Some None
      else
        let index = (if r_head s - n < 0 then r_head s - n + r_max s else r_head s - n);
            es = (case r_entries s of None \<Rightarrow> [] | Some es \<Rightarrow> es)
        in if index < 0 \<or> int (length es) \<le> index then None else Some (Some (es ! nat index)))"

section \<open>The terminal\<close>

type_synonym complete = "int list \<Rightarrow> int \<Rightarrow> rune \<Rightarrow> (int list \<times> int) option"

record terminal =
  AutoCompleteCallback :: "complete option"
  t_prompt :: "rune list"
  t_line :: "rune list"
  t_pos :: int
  t_echo :: bool
  pasteActive :: bool
  cursorX :: int
  cursorY :: int
  maxLine :: int
  termWidth :: int
  termHeight :: int
  outBuf :: "int list"
  t_remainder :: "int list"
  t_history :: ring
  historyIndex :: int
  historyPending :: "int list"

definition NewTerminal :: "int list \<Rightarrow> terminal" where
  "NewTerminal prompt =
     \<lparr>AutoCompleteCallback = None, t_prompt = decode_bytes prompt, t_line = [], t_pos = 0, t_echo = True, pasteActive = False,
      cursorX = 0, cursorY = 0, maxLine = 0, termWidth = 80, termHeight = 24, outBuf = [], t_remainder = [],
      t_history = empty_ring, historyIndex = - 1, historyPending = []\<rparr>"

definition encode_runes :: "rune list \<Rightarrow> int list" where
  "encode_runes rs = concat (map encode_rune rs)"

definition queue :: "rune list \<Rightarrow> terminal \<Rightarrow> terminal" where
  "queue data t = t\<lparr>outBuf := outBuf t @ encode_runes data\<rparr>"

definition isPrintable :: "rune \<Rightarrow> bool" where
  "isPrintable key \<longleftrightarrow> 32 \<le> key \<and> \<not> (55296 \<le> key \<and> key \<le> 56319)"

definition is_letter :: "rune \<Rightarrow> bool" where
  "is_letter r \<longleftrightarrow> 97 \<le> r \<and> r \<le> 122 \<or> 65 \<le> r \<and> r \<le> 90"

fun visual_length_from :: "bool \<Rightarrow> rune list \<Rightarrow> int" where
  "visual_length_from inEscapeSeq [] = 0"
| "visual_length_from inEscapeSeq (r # rs) =
     (if inEscapeSeq then visual_length_from (\<not> is_letter r) rs
      else if r = 27 then visual_length_from True rs
      else 1 + visual_length_from False rs)"

definition visualLength :: "rune list \<Rightarrow> int" where
  "visualLength runes = visual_length_from False runes"

section \<open>Moving and writing\<close>

definition csi :: "rune \<Rightarrow> rune list" where
  "csi c = [keyEscape, 91, c]"

definition move :: "int \<Rightarrow> int \<Rightarrow> int \<Rightarrow> int \<Rightarrow> terminal \<Rightarrow> terminal" where
  "move up down left right =
     queue (concat (replicate (nat up) (csi 65)) @ concat (replicate (nat down) (csi 66))
       @ concat (replicate (nat left) (csi 68)) @ concat (replicate (nat right) (csi 67)))"

definition moveCursorToPos :: "int \<Rightarrow> terminal \<Rightarrow> terminal option" where
  "moveCursorToPos pos t =
     (if \<not> t_echo t then Some t
      else if termWidth t = 0 then None
      else
        let x0 = visualLength (t_prompt t) + pos;
            y = go_quot x0 (termWidth t);
            x = go_rem x0 (termWidth t);
            up = (if y < cursorY t then cursorY t - y else 0);
            down = (if y > cursorY t then y - cursorY t else 0);
            left = (if x < cursorX t then cursorX t - x else 0);
            right = (if x > cursorX t then x - cursorX t else 0)
        in Some (move up down left right (t\<lparr>cursorX := x, cursorY := y\<rparr>)))"

definition clearLineToRight :: "terminal \<Rightarrow> terminal" where
  "clearLineToRight = queue (csi 75)"

definition advanceCursor :: "int \<Rightarrow> terminal \<Rightarrow> terminal option" where
  "advanceCursor places t =
     (if termWidth t = 0 then None
      else
        let x = cursorX t + places;
            y = cursorY t + go_quot x (termWidth t);
            x' = go_rem x (termWidth t)
        in Some (t\<lparr>cursorX := x', cursorY := y, maxLine := (if y > maxLine t then y else maxLine t),
                    outBuf := (if places > 0 \<and> x' = 0 then outBuf t @ [10] else outBuf t)\<rparr>))"

function writeLine :: "rune list \<Rightarrow> terminal \<Rightarrow> terminal option" where
  "writeLine line t =
     (if line = [] then Some t
      else
        let remainingOnLine = termWidth t - cursorX t;
            todo = (if int (length line) > remainingOnLine then remainingOnLine else int (length line))
        in if todo \<le> 0 then None
           else do {
             t' \<leftarrow> advanceCursor (visualLength (take (nat todo) line)) (queue (take (nat todo) line) t);
             writeLine (drop (nat todo) line) t'
           })"
  by pat_completeness auto
termination
  by (relation "measure (\<lambda>(line, t). length line)") (auto split: if_splits)

declare writeLine.simps [simp del]

fun repeat_m :: "nat \<Rightarrow> ('s \<Rightarrow> 's option) \<Rightarrow> 's \<Rightarrow> 's option" where
  "repeat_m 0 f s = Some s"
| "repeat_m (Suc n) f s = do { s' \<leftarrow> f s; repeat_m n f s' }"

definition setLine :: "rune list \<Rightarrow> int \<Rightarrow> terminal \<Rightarrow> terminal option" where
  "setLine newLine newPos t = do {
     t' \<leftarrow> (if t_echo t then do {
              t1 \<leftarrow> moveCursorToPos 0 t;
              t2 \<leftarrow> writeLine newLine t1;
              t3 \<leftarrow> repeat_m (length (t_line t2) - length newLine) (writeLine [32]) t2;
              moveCursorToPos newPos t3
            } else Some t);
     Some (t'\<lparr>t_line := newLine, t_pos := newPos\<rparr>)
   }"

section \<open>Changing the line\<close>

text \<open>\<^verbatim>\<open>copy(xs[i:], src)\<close>\<close>

definition copy_at :: "nat \<Rightarrow> 'a list \<Rightarrow> 'a list \<Rightarrow> 'a list" where
  "copy_at i src xs = take i xs @ take (length xs - i) src @ drop (i + length src) xs"

text \<open>The line without the \<open>n\<close> runes from \<open>p\<close> on, and what is written for it.\<close>

definition erase_at :: "int \<Rightarrow> int \<Rightarrow> rune list \<Rightarrow> rune list" where
  "erase_at n p line =
     (let line' = copy_at (nat p) (drop (nat (n + p)) line) line in take (length line' - nat n) line')"

definition redraw_erased :: "int \<Rightarrow> int \<Rightarrow> terminal \<Rightarrow> terminal option" where
  "redraw_erased n p t =
     (if t_echo t then do {
        t1 \<leftarrow> writeLine (drop (nat p) (t_line t)) t;
        t2 \<leftarrow> advanceCursor n (queue (replicate (nat n) 32) t1);
        moveCursorToPos p t2
      } else Some t)"

definition eraseNPreviousChars :: "int \<Rightarrow> terminal \<Rightarrow> terminal option" where
  "eraseNPreviousChars n0 t =
     (if n0 = 0 then Some t
      else
        let n = (if t_pos t < n0 then t_pos t else n0); p = t_pos t - n
        in do {
          t1 \<leftarrow> moveCursorToPos p (t\<lparr>t_pos := p\<rparr>);
          (if n < 0 \<or> p < 0 \<or> int (length (t_line t1)) < n + p then None
           else redraw_erased n p (t1\<lparr>t_line := erase_at n p (t_line t1)\<rparr>))
        })"

fun skip_left :: "(rune \<Rightarrow> bool) \<Rightarrow> rune list \<Rightarrow> nat \<Rightarrow> nat" where
  "skip_left stop l 0 = 0"
| "skip_left stop l (Suc p) = (if stop (l ! Suc p) then Suc p else skip_left stop l p)"

definition countToLeftWord :: "terminal \<Rightarrow> int option" where
  "countToLeftWord t =
     (if t_pos t = 0 then Some 0
      else if t_pos t < 0 \<or> int (length (t_line t)) < t_pos t then None
      else
        let p = skip_left (\<lambda>r. r \<noteq> 32) (t_line t) (nat (t_pos t) - 1);
            q = skip_left (\<lambda>r. r = 32) (t_line t) p
        in Some (t_pos t - int (if 0 < q then q + 1 else q)))"

fun skip_right :: "(rune \<Rightarrow> bool) \<Rightarrow> rune list \<Rightarrow> nat" where
  "skip_right stop [] = 0"
| "skip_right stop (r # rs) = (if stop r then 0 else Suc (skip_right stop rs))"

definition countToRightWord :: "terminal \<Rightarrow> int option" where
  "countToRightWord t =
     (if t_pos t < 0 then None
      else
        let l = drop (nat (t_pos t)) (t_line t); p = skip_right (\<lambda>r. r = 32) l
        in Some (int (p + skip_right (\<lambda>r. r \<noteq> 32) (drop p l))))"

text \<open>
  The line grows by one, the text from the cursor on moves right. The value of the new last element is
  overwritten in every case, so zero stands for it.
\<close>

definition addKeyToLine :: "rune \<Rightarrow> terminal \<Rightarrow> terminal option" where
  "addKeyToLine key t =
     (if t_pos t < 0 \<or> int (length (t_line t)) < t_pos t then None
      else
        let p = nat (t_pos t);
            line1 = t_line t @ [0];
            line = (copy_at (p + 1) (drop p line1) line1)[p := key];
            t1 = t\<lparr>t_line := line\<rparr>
        in do {
          t2 \<leftarrow> (if t_echo t1 then writeLine (drop p (t_line t1)) t1 else Some t1);
          moveCursorToPos (t_pos t + 1) (t2\<lparr>t_pos := t_pos t + 1\<rparr>)
        })"

section \<open>Keys\<close>

definition maxLineLength :: nat where
  "maxLineLength = 4096"

text \<open>The position after a key that only moves.\<close>

definition move_to :: "int \<Rightarrow> terminal \<Rightarrow> terminal option" where
  "move_to p t = moveCursorToPos p (t\<lparr>t_pos := p\<rparr>)"

definition set_runes :: "int list \<Rightarrow> terminal \<Rightarrow> terminal option" where
  "set_runes entry t = (let runes = decode_bytes entry in setLine runes (int (length runes)) t)"

definition handle_up :: "terminal \<Rightarrow> terminal option" where
  "handle_up t =
     (case NthPreviousEntry (t_history t) (historyIndex t + 1) of
        None \<Rightarrow> None
      | Some None \<Rightarrow> Some t
      | Some (Some entry) \<Rightarrow>
          set_runes entry (t\<lparr>historyPending := (if historyIndex t = - 1 then encode_runes (t_line t) else historyPending t),
                             historyIndex := historyIndex t + 1\<rparr>))"

definition handle_down :: "terminal \<Rightarrow> terminal option" where
  "handle_down t =
     (if historyIndex t = - 1 then Some t
      else if historyIndex t = 0 then do {
        t' \<leftarrow> set_runes (historyPending t) t;
        Some (t'\<lparr>historyIndex := historyIndex t' - 1\<rparr>)
      }
      else
        (case NthPreviousEntry (t_history t) (historyIndex t - 1) of
           None \<Rightarrow> None
         | Some None \<Rightarrow> Some t
         | Some (Some entry) \<Rightarrow> set_runes entry (t\<lparr>historyIndex := historyIndex t - 1\<rparr>)))"

definition handle_enter :: "terminal \<Rightarrow> (terminal \<times> int list) option" where
  "handle_enter t = do {
     t1 \<leftarrow> moveCursorToPos (int (length (t_line t))) t;
     Some ((queue [13, 10] t1)\<lparr>t_line := [], t_pos := 0, cursorX := 0, cursorY := 0, maxLine := 0\<rparr>, encode_runes (t_line t1))
   }"

definition handle_delete_line :: "terminal \<Rightarrow> terminal option" where
  "handle_delete_line t =
     (if t_pos t < 0 \<or> int (length (t_line t)) < t_pos t then None
      else do {
        t1 \<leftarrow> repeat_m (length (t_line t) - nat (t_pos t)) (\<lambda>t. advanceCursor 1 (queue [32] t)) t;
        moveCursorToPos (t_pos t1) (t1\<lparr>t_line := take (nat (t_pos t1)) (t_line t1)\<rparr>)
      })"

definition handle_clear_screen :: "terminal \<Rightarrow> terminal option" where
  "handle_clear_screen t = do {
     t1 \<leftarrow> advanceCursor (visualLength (t_prompt t))
              ((queue (t_prompt t) (queue [27, 91, 50, 74, 27, 91, 72] t))\<lparr>cursorX := 0, cursorY := 0\<rparr>);
     setLine (t_line t1) (t_pos t1) t1
   }"

text \<open>A key with no meaning of its own: the callback is asked first, then it is text if it can be printed.\<close>

definition handle_text :: "rune \<Rightarrow> terminal \<Rightarrow> terminal option" where
  "handle_text key t =
     (let plain = (if \<not> isPrintable key \<or> length (t_line t) = maxLineLength then Some t else addKeyToLine key t)
      in case AutoCompleteCallback t of
           None \<Rightarrow> plain
         | Some f \<Rightarrow>
             (if t_pos t < 0 \<or> int (length (t_line t)) < t_pos t then None
              else
                let pre = encode_runes (take (nat (t_pos t)) (t_line t)); suf = encode_runes (drop (nat (t_pos t)) (t_line t))
                in case f (pre @ suf) (int (length pre)) key of
                     None \<Rightarrow> plain
                   | Some (newLine, newPos) \<Rightarrow>
                       if newPos < 0 \<or> int (length newLine) < newPos then None
                       else setLine (decode_bytes newLine) (int (length (decode_bytes (take (nat newPos) newLine)))) t))"

definition handle_edit :: "rune \<Rightarrow> terminal \<Rightarrow> terminal option" where
  "handle_edit key t =
     (if key = keyBackspace then (if t_pos t = 0 then Some t else eraseNPreviousChars 1 t)
      else if key = keyAltLeft then do { n \<leftarrow> countToLeftWord t; move_to (t_pos t - n) t }
      else if key = keyAltRight then do { n \<leftarrow> countToRightWord t; move_to (t_pos t + n) t }
      else if key = keyLeft then (if t_pos t = 0 then Some t else move_to (t_pos t - 1) t)
      else if key = keyRight then (if t_pos t = int (length (t_line t)) then Some t else move_to (t_pos t + 1) t)
      else if key = keyHome then (if t_pos t = 0 then Some t else move_to 0 t)
      else if key = keyEnd then (if t_pos t = int (length (t_line t)) then Some t else move_to (int (length (t_line t))) t)
      else if key = keyUp then handle_up t
      else if key = keyDown then handle_down t
      else if key = keyDeleteWord then do { n \<leftarrow> countToLeftWord t; eraseNPreviousChars n t }
      else if key = keyDeleteLine then handle_delete_line t
      else if key = keyCtrlD then
        (if t_pos t < int (length (t_line t)) then eraseNPreviousChars 1 (t\<lparr>t_pos := t_pos t + 1\<rparr>) else Some t)
      else if key = keyCtrlU then eraseNPreviousChars (t_pos t) t
      else if key = keyClearScreen then handle_clear_screen t
      else handle_text key t)"

text \<open>\<^verbatim>\<open>handleKey\<close>, with the line that \<^verbatim>\<open>Enter\<close> completes.\<close>

definition handleKey :: "rune \<Rightarrow> terminal \<Rightarrow> (terminal \<times> int list option) option" where
  "handleKey key t =
     (if pasteActive t \<and> key \<noteq> keyEnter then map_option (\<lambda>t'. (t', None)) (addKeyToLine key t)
      else if key = keyEnter then map_option (\<lambda>(t', l). (t', Some l)) (handle_enter t)
      else map_option (\<lambda>t'. (t', None)) (handle_edit key t))"

section \<open>The history is the list of the last entries\<close>

text \<open>The entries, the last one first.\<close>

definition ring_list :: "ring \<Rightarrow> int list list" where
  "ring_list s = (case r_entries s of
     None \<Rightarrow> [] | Some es \<Rightarrow> map (\<lambda>n. es ! nat ((r_head s - int n) mod int defaultNumEntries)) [0..<nat (r_size s)])"

definition wf_ring :: "ring \<Rightarrow> bool" where
  "wf_ring s \<longleftrightarrow>
     (case r_entries s of
        None \<Rightarrow> r_size s = 0 \<and> r_head s = 0
      | Some es \<Rightarrow> length es = defaultNumEntries \<and> r_max s = int defaultNumEntries \<and> 0 \<le> r_head s
          \<and> r_head s < int defaultNumEntries \<and> 0 \<le> r_size s \<and> r_size s \<le> int defaultNumEntries)"

lemma length_ring_list: "wf_ring s \<Longrightarrow> int (length (ring_list s)) = r_size s"
  by (auto simp: wf_ring_def ring_list_def split: option.splits)

lemma wf_empty_ring [simp]: "wf_ring empty_ring" "ring_list empty_ring = []"
  by (simp_all add: wf_ring_def ring_list_def empty_ring_def)

lemma mod_wrap: "- m \<le> x \<Longrightarrow> x < 0 \<Longrightarrow> x mod m = x + m" for x m :: int
  using mod_pos_pos_trivial [of "x + m" m] by simp

lemma NthPreviousEntry_list:
  assumes "wf_ring s" and "0 \<le> n"
  shows "NthPreviousEntry s n = Some (if nat n < length (ring_list s) then Some (ring_list s ! nat n) else None)"
proof (cases "r_size s \<le> n")
  case True
  then show ?thesis using length_ring_list [OF assms(1)] assms(2) by (simp add: NthPreviousEntry_def)
next
  case False
  then obtain es where es: "r_entries s = Some es" using assms by (auto simp: wf_ring_def split: option.splits)
  have w: "length es = 100" "r_max s = 100" "0 \<le> r_head s" "r_head s < 100" "r_size s \<le> 100"
    using assms es by (auto simp: wf_ring_def defaultNumEntries_def)
  have m: "(if r_head s - n < 0 then r_head s - n + 100 else r_head s - n) = (r_head s - n) mod 100"
    using w(3-5) False assms(2) by (simp add: mod_wrap)
  show ?thesis using False w assms(2) m
    by (auto simp: NthPreviousEntry_def es ring_list_def defaultNumEntries_def Let_def split: if_splits)
qed

lemma ring_Add_entries:
  assumes "wf_ring s" and es: "r_entries s = Some es"
  shows "\<exists>s'. ring_Add s a = Some s' \<and> wf_ring s' \<and> ring_list s' = take defaultNumEntries (a # ring_list s)"
proof -
  have w: "length es = 100" "r_max s = 100" "0 \<le> r_head s" "r_head s < 100" "0 \<le> r_size s" "r_size s \<le> 100"
    using assms by (auto simp: wf_ring_def defaultNumEntries_def)
  define h where "h = (r_head s + 1) mod 100"
  have h: "0 \<le> h" "h < 100" "go_rem (r_head s + 1) 100 = h" using w by (simp_all add: h_def go_rem_pos)
  define s' where "s' = s\<lparr>r_head := h, r_entries := Some (es[nat h := a]),
    r_size := (if r_size s < 100 then r_size s + 1 else r_size s)\<rparr>"
  have n: "nat (r_size s') = min 100 (Suc (nat (r_size s)))" using w by (auto simp: s'_def)
  have "ring_list s' = take 100 (a # ring_list s)"
  proof (rule nth_equalityI)
    show "length (ring_list s') = length (take 100 (a # ring_list s))"
      using n es by (simp add: ring_list_def s'_def)
  next
    fix i assume "i < length (ring_list s')"
    then have i: "i < nat (r_size s')" "i < 100" "i \<le> nat (r_size s)" using n by (simp_all add: ring_list_def s'_def)
    have l: "ring_list s' ! i = es[nat h := a] ! nat ((h - int i) mod 100)"
      using i(1) by (simp add: ring_list_def s'_def defaultNumEntries_def)
    show "ring_list s' ! i = take 100 (a # ring_list s) ! i"
    proof (cases i)
      case 0
      then show ?thesis using h w l by simp
    next
      case (Suc j)
      have e: "(h - int i) mod 100 = (r_head s - int j) mod 100"
        unfolding h_def Suc by (simp add: mod_diff_left_eq)
      have "(h - int i) mod 100 \<noteq> h" using h(1,2) i(2) Suc by (cases "h - int i < 0") (simp_all add: mod_wrap)
      moreover have "0 \<le> (h - int i) mod 100" by simp
      ultimately have "nat h \<noteq> nat ((h - int i) mod 100)" using h(1) by (metis eq_nat_nat_iff)
      then have "ring_list s' ! i = es ! nat ((r_head s - int j) mod 100)" using l e by (metis nth_list_update_neq)
      then show ?thesis using i Suc es by (simp add: ring_list_def defaultNumEntries_def)
    qed
  qed
  moreover have "ring_Add s a = Some s'"
    using w h es by (simp add: ring_Add_def s'_def Let_def)
  moreover have "wf_ring s'" using w h by (auto simp: wf_ring_def s'_def defaultNumEntries_def)
  ultimately show ?thesis by (simp add: defaultNumEntries_def)
qed

lemma ring_Add_list:
  assumes "wf_ring s"
  shows "\<exists>s'. ring_Add s a = Some s' \<and> wf_ring s' \<and> ring_list s' = take defaultNumEntries (a # ring_list s)"
proof (cases "r_entries s")
  case None
  let ?s = "s\<lparr>r_entries := Some (replicate defaultNumEntries []), r_max := int defaultNumEntries\<rparr>"
  have "wf_ring ?s" "ring_list ?s = ring_list s" "ring_Add s a = ring_Add ?s a"
    using assms None by (simp_all add: wf_ring_def ring_list_def ring_Add_def defaultNumEntries_def)
  then show ?thesis using ring_Add_entries [of ?s _ a] by simp
next
  case (Some es)
  then show ?thesis using assms by (rule ring_Add_entries [rotated])
qed

end
