(* ===== verification/Term_Drawing.thy ===== *)
theory Term_Drawing
  imports Term_Editor
begin

text \<open>
  What the operations of the line editor do to its text, apart from what they draw: each of them returns on a well formed
  terminal, keeps the cursor on the screen, and changes the line and the position as the lemma says.
\<close>

section \<open>Drawing changes only the cursor and the output\<close>

definition wf_cursor :: "terminal \<Rightarrow> bool" where
  "wf_cursor t \<longleftrightarrow> 0 < termWidth t \<and> 0 \<le> cursorX t \<and> cursorX t < termWidth t \<and> 0 \<le> cursorY t"

text \<open>A terminal without what drawing changes.\<close>

definition text_of :: "terminal \<Rightarrow> terminal" where
  "text_of t = t\<lparr>cursorX := 0, cursorY := 0, maxLine := 0, outBuf := []\<rparr>"

lemma text_of_sel:
  assumes "text_of t' = text_of t"
  shows "t_line t' = t_line t" "t_pos t' = t_pos t" "t_echo t' = t_echo t" "pasteActive t' = pasteActive t"
    "termWidth t' = termWidth t" "termHeight t' = termHeight t" "t_prompt t' = t_prompt t" "t_remainder t' = t_remainder t"
    "t_history t' = t_history t" "historyIndex t' = historyIndex t" "historyPending t' = historyPending t"
    "AutoCompleteCallback t' = AutoCompleteCallback t"
  using assms by (cases t; cases t'; simp add: text_of_def)+

lemma text_of_update:
  "text_of (t\<lparr>t_line := l\<rparr>) = (text_of t)\<lparr>t_line := l\<rparr>" "text_of (t\<lparr>t_pos := p\<rparr>) = (text_of t)\<lparr>t_pos := p\<rparr>"
  "text_of (t\<lparr>historyIndex := i\<rparr>) = (text_of t)\<lparr>historyIndex := i\<rparr>" "text_of (t\<lparr>cursorX := x\<rparr>) = text_of t"
  "text_of (t\<lparr>cursorY := y\<rparr>) = text_of t" "text_of (t\<lparr>maxLine := y\<rparr>) = text_of t" "text_of (t\<lparr>outBuf := b\<rparr>) = text_of t"
  by (simp_all add: text_of_def)

lemma text_of_same [simp]: "(text_of t)\<lparr>t_pos := t_pos t\<rparr> = text_of t"
  by (simp add: text_of_def)

lemma text_of_idem [simp]: "text_of (text_of t) = text_of t"
  by (simp add: text_of_def)

text \<open>An operation returns, keeps the cursor on the screen and leaves the text and all else as in \<open>t\<close>.\<close>

definition yields :: "terminal option \<Rightarrow> terminal \<Rightarrow> bool" where
  "yields m t \<longleftrightarrow> (\<exists>t'. m = Some t' \<and> wf_cursor t' \<and> text_of t' = text_of t)"

lemma yieldsE:
  assumes "yields m t"
  obtains t' where "m = Some t'" "wf_cursor t'" "text_of t' = text_of t"
  using assms by (auto simp: yields_def)

lemma yieldsD: "yields m t \<Longrightarrow> m = Some t' \<Longrightarrow> wf_cursor t'" "yields m t \<Longrightarrow> m = Some t' \<Longrightarrow> text_of t' = text_of t"
  by (simp_all add: yields_def)

lemma yields_Some [simp]: "yields (Some t') t \<longleftrightarrow> wf_cursor t' \<and> text_of t' = text_of t"
  by (simp add: yields_def)

lemma yields_bind:
  assumes "yields m t" and "\<And>t'. m = Some t' \<Longrightarrow> wf_cursor t' \<Longrightarrow> text_of t' = text_of t \<Longrightarrow> yields (f t') u"
  shows "yields (m \<bind> f) u"
  using assms by (auto simp: yields_def)

lemma yields_cong: "text_of t = text_of u \<Longrightarrow> yields m t \<Longrightarrow> yields m u"
  by (simp add: yields_def)

lemma wf_cursor_update [simp]:
  "wf_cursor (t\<lparr>t_line := l\<rparr>) = wf_cursor t" "wf_cursor (t\<lparr>t_pos := p\<rparr>) = wf_cursor t"
  "wf_cursor (t\<lparr>outBuf := b\<rparr>) = wf_cursor t" "wf_cursor (t\<lparr>historyIndex := i\<rparr>) = wf_cursor t"
  "wf_cursor (t\<lparr>historyPending := h\<rparr>) = wf_cursor t" "wf_cursor (t\<lparr>maxLine := y\<rparr>) = wf_cursor t"
  "wf_cursor (t\<lparr>pasteActive := q\<rparr>) = wf_cursor t" "wf_cursor (t\<lparr>t_remainder := r\<rparr>) = wf_cursor t"
  "wf_cursor (t\<lparr>t_history := g\<rparr>) = wf_cursor t"
  by (simp_all add: wf_cursor_def)

lemma queue_keeps [simp]: "text_of (queue d t) = text_of t" "wf_cursor (queue d t) = wf_cursor t"
  by (simp_all add: queue_def text_of_update)

lemma visual_length_nonneg: "0 \<le> visual_length_from b rs"
  by (induction b rs rule: visual_length_from.induct) auto

lemma visualLength_nonneg [simp]: "0 \<le> visualLength rs"
  by (simp add: visualLength_def visual_length_nonneg)

lemma moveCursorToPos_yields:
  assumes "wf_cursor t" and "0 \<le> p"
  shows "yields (moveCursorToPos p t) t"
proof -
  have "0 \<le> visualLength (t_prompt t) + p" "0 < termWidth t" using assms by (simp_all add: wf_cursor_def)
  then show ?thesis
    using assms by (simp add: moveCursorToPos_def Let_def move_def text_of_update go_quot_pos go_rem_pos)
      (simp add: wf_cursor_def pos_imp_zdiv_nonneg_iff)
qed

lemma advanceCursor_yields:
  assumes "wf_cursor t" and "0 \<le> n"
  shows "yields (advanceCursor n t) t"
proof -
  have "0 \<le> cursorX t + n" "0 < termWidth t" using assms by (simp_all add: wf_cursor_def)
  then show ?thesis
    using assms by (simp add: advanceCursor_def Let_def text_of_update go_quot_pos go_rem_pos)
      (simp add: wf_cursor_def pos_imp_zdiv_nonneg_iff)
qed

lemma writeLine_yields: "wf_cursor t \<Longrightarrow> yields (writeLine l t) t"
proof (induction l t rule: writeLine.induct)
  case (1 l t)
  show ?case
  proof (cases "l = []")
    case False
    let ?n = "if int (length l) > termWidth t - cursorX t then termWidth t - cursorX t else int (length l)"
    have n: "\<not> ?n \<le> 0" using 1 False by (simp add: wf_cursor_def)
    have a: "yields (advanceCursor (visualLength (take (nat ?n) l)) (queue (take (nat ?n) l) t)) t"
      by (rule yields_cong [OF _ advanceCursor_yields]) (use 1 in simp_all)
    have "yields (writeLine (drop (nat ?n) l) t') t"
      if "advanceCursor (visualLength (take (nat ?n) l)) (queue (take (nat ?n) l) t) = Some t'" "wf_cursor t'" "text_of t' = text_of t" for t'
      using "1.IH" [OF False refl refl n, of t'] that yields_cong by blast
    with a have "yields (advanceCursor (visualLength (take (nat ?n) l)) (queue (take (nat ?n) l) t) \<bind> writeLine (drop (nat ?n) l)) t"
      by (rule yields_bind)
    then show ?thesis using False n by (subst writeLine.simps) (simp add: Let_def)
  qed (use 1 in \<open>simp add: writeLine.simps\<close>)
qed

lemma repeat_yields:
  assumes "\<And>t. wf_cursor t \<Longrightarrow> yields (f t) t" and "wf_cursor t"
  shows "yields (repeat_m n f t) t"
  using assms(2)
proof (induction n arbitrary: t)
  case (Suc n)
  show ?case unfolding repeat_m.simps
    by (rule yields_bind [OF assms(1) [OF Suc.prems]]) (use Suc.IH yields_cong in blast)
qed simp

lemma setLine_yields:
  assumes "wf_cursor t" and "0 \<le> p"
  shows "yields (setLine l p t) (t\<lparr>t_line := l, t_pos := p\<rparr>)"
  unfolding setLine_def
proof (rule yields_bind [where t = t])
  show "yields (if t_echo t then moveCursorToPos 0 t \<bind> (\<lambda>t1. writeLine l t1
      \<bind> (\<lambda>t2. repeat_m (length (t_line t2) - length l) (writeLine [32]) t2 \<bind> moveCursorToPos p)) else Some t) t"
    using assms
    by (auto intro!: yields_bind [where t = t] yields_cong [where u = t, OF _ moveCursorToPos_yields]
      yields_cong [where u = t, OF _ writeLine_yields] yields_cong [where u = t, OF _ repeat_yields] writeLine_yields)
qed (simp add: text_of_update)

section \<open>What the keys do to the line\<close>

definition wf_text :: "terminal \<Rightarrow> bool" where
  "wf_text t \<longleftrightarrow> 0 \<le> t_pos t \<and> t_pos t \<le> int (length (t_line t)) \<and> wf_ring (t_history t)
     \<and> - 1 \<le> historyIndex t \<and> historyIndex t < r_size (t_history t)"

definition wf_terminal :: "terminal \<Rightarrow> bool" where
  "wf_terminal t \<longleftrightarrow> wf_cursor t \<and> wf_text t"

lemma wf_terminalD:
  assumes "wf_terminal t"
  shows "wf_cursor t" "0 \<le> t_pos t" "t_pos t \<le> int (length (t_line t))" "nat (t_pos t) \<le> length (t_line t)"
    "int (nat (t_pos t)) = t_pos t" "wf_ring (t_history t)" "- 1 \<le> historyIndex t" "historyIndex t < r_size (t_history t)"
  using assms by (auto simp: wf_terminal_def wf_text_def)

lemma move_to_yields: "wf_cursor t \<Longrightarrow> 0 \<le> p \<Longrightarrow> yields (move_to p t) (t\<lparr>t_pos := p\<rparr>)"
  by (simp add: move_to_def moveCursorToPos_yields)

lemma erase_at_eq:
  assumes "0 \<le> n" and "0 \<le> p" and "n + p \<le> int (length l)"
  shows "erase_at n p l = take (nat p) l @ drop (nat (n + p)) l"
proof -
  have "nat p \<le> length l" "nat (n + p) \<le> length l" "length l - nat n = length l - nat (n + p) + nat p" using assms by linarith+
  then show ?thesis using assms(1,2) by (simp add: erase_at_def copy_at_def Let_def nat_add_distrib)
qed

lemma redraw_erased_yields:
  assumes "wf_cursor t" and "0 \<le> n" and "0 \<le> p"
  shows "yields (redraw_erased n p t) t"
  unfolding redraw_erased_def using assms
  by (auto intro!: yields_bind [where t = t] yields_cong [where u = t, OF _ moveCursorToPos_yields]
      yields_cong [where u = t, OF _ writeLine_yields] yields_cong [where u = t, OF _ advanceCursor_yields])

lemma eraseNPreviousChars_yields:
  assumes "wf_terminal t" and "0 \<le> n" and "n \<le> t_pos t"
  shows "yields (eraseNPreviousChars n t)
    (t\<lparr>t_pos := t_pos t - n, t_line := take (nat (t_pos t - n)) (t_line t) @ drop (nat (t_pos t)) (t_line t)\<rparr>)"
proof (cases "n = 0")
  case True
  then show ?thesis using assms by (simp add: eraseNPreviousChars_def wf_terminal_def)
next
  case False
  note wf = wf_terminalD [OF assms(1)]
  let ?p = "t_pos t - n" let ?t = "t\<lparr>t_pos := ?p\<rparr>"
  have line: "erase_at n ?p (t_line t) = take (nat ?p) (t_line t) @ drop (nat (t_pos t)) (t_line t)"
    using erase_at_eq [of n ?p "t_line t"] assms(2,3) wf(3) by simp
  have "yields (moveCursorToPos ?p ?t) ?t" using wf(1) assms(3) by (simp add: moveCursorToPos_yields)
  moreover have "yields (redraw_erased n ?p (t1\<lparr>t_line := erase_at n ?p (t_line t1)\<rparr>)) (?t\<lparr>t_line := erase_at n ?p (t_line t)\<rparr>)"
    if "wf_cursor t1" "text_of t1 = text_of ?t" for t1
    using that assms(2,3) text_of_sel(1) [OF that(2)]
    by (intro yields_cong [OF _ redraw_erased_yields]) (simp_all add: text_of_update)
  ultimately have "yields (eraseNPreviousChars n t) (?t\<lparr>t_line := erase_at n ?p (t_line t)\<rparr>)"
    using False assms(2,3) wf(3) unfolding eraseNPreviousChars_def Let_def
    by (auto intro!: yields_bind [where t = ?t]) (frule text_of_sel(1), simp)
  then show ?thesis by (simp add: line)
qed

lemma addKeyToLine_yields:
  assumes "wf_terminal t"
  shows "yields (addKeyToLine key t) (t\<lparr>t_pos := t_pos t + 1,
    t_line := take (nat (t_pos t)) (t_line t) @ key # drop (nat (t_pos t)) (t_line t)\<rparr>)"
proof -
  note wf = wf_terminalD [OF assms]
  let ?p = "nat (t_pos t)"
  let ?line = "take ?p (t_line t) @ key # drop ?p (t_line t)"
  have "(copy_at (?p + 1) (drop ?p (t_line t @ [0])) (t_line t @ [0]))[?p := key] = ?line"
    using wf(4) by (simp add: copy_at_def list_update_append take_Suc_conv_app_nth nth_append upd_conv_take_nth_drop)
  then have e: "addKeyToLine key t = do {
      t2 \<leftarrow> (if t_echo t then writeLine (drop ?p ?line) (t\<lparr>t_line := ?line\<rparr>) else Some (t\<lparr>t_line := ?line\<rparr>));
      moveCursorToPos (t_pos t + 1) (t2\<lparr>t_pos := t_pos t + 1\<rparr>) }"
    using wf(2,3) by (simp add: addKeyToLine_def Let_def)
  have "yields (if t_echo t then writeLine (drop ?p ?line) (t\<lparr>t_line := ?line\<rparr>) else Some (t\<lparr>t_line := ?line\<rparr>)) (t\<lparr>t_line := ?line\<rparr>)"
    using wf(1) writeLine_yields by simp
  then show ?thesis unfolding e
    by (rule yields_bind) (use wf(2) in \<open>auto intro!: yields_cong [OF _ moveCursorToPos_yields] simp: text_of_update\<close>)
qed

lemma set_runes_yields:
  "wf_cursor t \<Longrightarrow> yields (set_runes entry t) (t\<lparr>t_line := decode_bytes entry, t_pos := int (length (decode_bytes entry))\<rparr>)"
  by (simp add: set_runes_def Let_def setLine_yields)

lemma handle_delete_line_yields:
  assumes "wf_terminal t"
  shows "yields (handle_delete_line t) (t\<lparr>t_line := take (nat (t_pos t)) (t_line t)\<rparr>)"
proof -
  note wf = wf_terminalD [OF assms]
  have "yields (advanceCursor 1 (queue [32] u)) u" if "wf_cursor u" for u
    by (rule yields_cong [OF _ advanceCursor_yields]) (use that in simp_all)
  then have "yields (repeat_m (length (t_line t) - nat (t_pos t)) (\<lambda>t. advanceCursor 1 (queue [32] t)) t) t"
    using wf(1) by (rule repeat_yields)
  moreover have "yields (moveCursorToPos (t_pos u) (u\<lparr>t_line := take (nat (t_pos u)) (t_line u)\<rparr>)) (t\<lparr>t_line := take (nat (t_pos t)) (t_line t)\<rparr>)"
    if "wf_cursor u" "text_of u = text_of t" for u
    by (rule yields_cong [OF _ moveCursorToPos_yields])
       (use that(1) wf(2) text_of_sel [OF that(2)] in \<open>simp_all add: text_of_update that(2)\<close>)
  ultimately show ?thesis
    using wf(2,3) unfolding handle_delete_line_def by (auto intro!: yields_bind [where t = t])
qed

lemma handle_clear_screen_yields:
  assumes "wf_terminal t"
  shows "yields (handle_clear_screen t) t"
  unfolding handle_clear_screen_def
proof (rule yields_bind [where t = t])
  note wf = wf_terminalD [OF assms]
  show "yields (advanceCursor (visualLength (t_prompt t))
      ((queue (t_prompt t) (queue [27, 91, 50, 74, 27, 91, 72] t))\<lparr>cursorX := 0, cursorY := 0\<rparr>)) t"
    by (rule yields_cong [OF _ advanceCursor_yields]) (use wf(1) in \<open>simp_all add: text_of_update wf_cursor_def queue_def\<close>)
  fix u assume u: "wf_cursor u" "text_of u = text_of t"
  show "yields (setLine (t_line u) (t_pos u) u) t"
    by (rule yields_cong [OF _ setLine_yields]) (use u wf(2) text_of_sel(2) [OF u(2)] in \<open>simp_all add: text_of_update\<close>)
qed

lemma skip_left_eq:
  "p \<le> length b \<Longrightarrow> skip_left stop (c # b @ a) p = length (dropWhile (\<lambda>r. \<not> stop r) (rev (take p b)))"
proof (induction p)
  case (Suc p)
  then show ?case by (simp add: nth_append take_Suc_conv_app_nth)
qed simp

lemma skip_right_eq: "skip_right stop l = length (takeWhile (\<lambda>r. \<not> stop r) l)"
  by (induction l) auto

lemma take_dropWhile_rev: "rev (take (length (dropWhile P (rev xs))) xs) = dropWhile P (rev xs)"
  using length_takeWhile_le [of P "rev xs"] by (simp add: dropWhile_eq_drop rev_take)

end
