(* ===== verification/Term_Refine.thy ===== *)
theory Term_Refine
  imports Term_Drawing
begin

text \<open>
  The line editor refines a reference editor, two lists of runes around the cursor and a list of old lines.
\<close>

section \<open>The editor as two lists\<close>

text \<open>
  The reference: what is before and after the cursor, and the history as a list with the last entry
  first. \<open>ed_index\<close> is the number of entries gone back.
\<close>

record editor =
  before :: "rune list"
  after :: "rune list"
  ed_history :: "int list list"
  ed_index :: nat
  ed_pending :: "int list"

text \<open>
  The part of the text that is left when the last word and the blanks after it are removed. The first
  rune of the line always counts as part of a word.
\<close>

definition without_word :: "rune list \<Rightarrow> rune list" where
  "without_word b =
     (let s = dropWhile (\<lambda>r. r \<noteq> 32) (dropWhile (\<lambda>r. r = 32) (rev (tl b)))
      in if s = [] then [] else hd b # rev s)"

definition ed_word :: "rune list \<Rightarrow> rune list" where
  "ed_word a = takeWhile (\<lambda>r. r \<noteq> 32) a @ takeWhile (\<lambda>r. r = 32) (dropWhile (\<lambda>r. r \<noteq> 32) a)"

definition ed_insert :: "rune \<Rightarrow> editor \<Rightarrow> editor" where
  "ed_insert key e = e\<lparr>before := before e @ [key]\<rparr>"

definition ed_show :: "int list \<Rightarrow> editor \<Rightarrow> editor" where
  "ed_show entry e = e\<lparr>before := decode_bytes entry, after := []\<rparr>"

definition ed_up :: "editor \<Rightarrow> editor" where
  "ed_up e =
     (if ed_index e < length (ed_history e)
      then ed_show (ed_history e ! ed_index e)
             (e\<lparr>ed_pending := (if ed_index e = 0 then encode_runes (before e @ after e) else ed_pending e), ed_index := ed_index e + 1\<rparr>)
      else e)"

definition ed_down :: "editor \<Rightarrow> editor" where
  "ed_down e =
     (if ed_index e = 0 then e
      else if ed_index e = 1 then ed_show (ed_pending e) (e\<lparr>ed_index := 0\<rparr>)
      else ed_show (ed_history e ! (ed_index e - 2)) (e\<lparr>ed_index := ed_index e - 1\<rparr>))"

definition ed_edit :: "rune \<Rightarrow> editor \<Rightarrow> editor" where
  "ed_edit key e =
     (if key = keyBackspace then e\<lparr>before := butlast (before e)\<rparr>
      else if key = keyAltLeft then
        e\<lparr>before := without_word (before e), after := drop (length (without_word (before e))) (before e) @ after e\<rparr>
      else if key = keyAltRight then e\<lparr>before := before e @ ed_word (after e), after := drop (length (ed_word (after e))) (after e)\<rparr>
      else if key = keyLeft then
        (if before e = [] then e else e\<lparr>before := butlast (before e), after := last (before e) # after e\<rparr>)
      else if key = keyRight then (case after e of [] \<Rightarrow> e | c # cs \<Rightarrow> e\<lparr>before := before e @ [c], after := cs\<rparr>)
      else if key = keyHome then e\<lparr>before := [], after := before e @ after e\<rparr>
      else if key = keyEnd then e\<lparr>before := before e @ after e, after := []\<rparr>
      else if key = keyUp then ed_up e
      else if key = keyDown then ed_down e
      else if key = keyDeleteWord then e\<lparr>before := without_word (before e)\<rparr>
      else if key = keyDeleteLine then e\<lparr>after := []\<rparr>
      else if key = keyCtrlD then e\<lparr>after := tl (after e)\<rparr>
      else if key = keyCtrlU then e\<lparr>before := []\<rparr>
      else if key = keyClearScreen then e
      else if isPrintable key \<and> length (before e) + length (after e) \<noteq> maxLineLength then ed_insert key e
      else e)"

definition ed_key :: "bool \<Rightarrow> rune \<Rightarrow> editor \<Rightarrow> editor \<times> int list option" where
  "ed_key paste key e =
     (if key = keyEnter then (e\<lparr>before := [], after := []\<rparr>, Some (encode_runes (before e @ after e)))
      else (if paste then ed_insert key e else ed_edit key e, None))"

definition editor_of :: "terminal \<Rightarrow> editor" where
  "editor_of t =
     \<lparr>before = take (nat (t_pos t)) (t_line t), after = drop (nat (t_pos t)) (t_line t), ed_history = ring_list (t_history t),
      ed_index = nat (historyIndex t + 1), ed_pending = historyPending t\<rparr>"

text \<open>What an edit leaves alone.\<close>

definition term_settings :: "terminal \<Rightarrow> complete option \<times> rune list \<times> bool \<times> bool \<times> int \<times> int \<times> int list \<times> ring" where
  "term_settings t = (AutoCompleteCallback t, t_prompt t, t_echo t, pasteActive t, termWidth t, termHeight t, t_remainder t, t_history t)"

definition refines :: "terminal option \<Rightarrow> terminal \<Rightarrow> editor \<Rightarrow> bool" where
  "refines m t e \<longleftrightarrow> (\<exists>t'. m = Some t' \<and> wf_terminal t' \<and> editor_of t' = e \<and> term_settings t' = term_settings t)"

lemma refinesI:
  assumes "yields m u" and "wf_text u" and "editor_of u = e" and "term_settings u = term_settings t"
  shows "refines m t e"
proof -
  obtain t' where t': "m = Some t'" "wf_cursor t'" "text_of t' = text_of u" using assms(1) by (rule yieldsE)
  note sel = text_of_sel [OF t'(3)]
  have "wf_terminal t'" "editor_of t' = e" "term_settings t' = term_settings t"
    using assms(2-4) t'(2) by (simp_all add: sel wf_terminal_def wf_text_def editor_of_def term_settings_def)
  then show ?thesis using t'(1) by (auto simp: refines_def)
qed

lemma refines_Some: "wf_terminal t \<Longrightarrow> editor_of t = e \<Longrightarrow> refines (Some t) t e"
  by (simp add: refines_def)

lemma editor_sel [simp]:
  "before (editor_of t) = take (nat (t_pos t)) (t_line t)" "after (editor_of t) = drop (nat (t_pos t)) (t_line t)"
  by (simp_all add: editor_of_def)

lemma editor_cut:
  assumes "wf_terminal t" and "0 \<le> p" and "p \<le> t_pos t"
  shows "refines (move_to p t) t ((editor_of t)\<lparr>before := take (nat p) (before (editor_of t)),
      after := drop (nat p) (before (editor_of t)) @ after (editor_of t)\<rparr>)"
    "refines (eraseNPreviousChars (t_pos t - p) t) t ((editor_of t)\<lparr>before := take (nat p) (before (editor_of t))\<rparr>)"
proof -
  note wf = wf_terminalD [OF assms(1)]
  have d: "drop (nat p) (t_line t) = drop (nat p) (take (nat (t_pos t)) (t_line t)) @ drop (nat (t_pos t)) (t_line t)"
    using assms(2,3) wf(4)
    by (metis append_take_drop_id drop_append drop_take length_take min.absorb2 nat_mono diff_is_0_eq drop_0)
  show "refines (move_to p t) t ((editor_of t)\<lparr>before := take (nat p) (before (editor_of t)),
      after := drop (nat p) (before (editor_of t)) @ after (editor_of t)\<rparr>)"
    by (rule refinesI [OF move_to_yields])
       (use assms wf d in \<open>auto simp: wf_text_def editor_of_def term_settings_def min_def\<close>)
  show "refines (eraseNPreviousChars (t_pos t - p) t) t ((editor_of t)\<lparr>before := take (nat p) (before (editor_of t))\<rparr>)"
    by (rule refinesI [OF eraseNPreviousChars_yields])
       (use assms wf in \<open>auto simp: wf_text_def editor_of_def term_settings_def min_def\<close>)
qed

lemma editor_move_right:
  assumes "wf_terminal t" and "k \<le> length (after (editor_of t))"
  shows "refines (move_to (t_pos t + int k) t) t ((editor_of t)\<lparr>before := before (editor_of t) @ take k (after (editor_of t)),
      after := drop k (after (editor_of t))\<rparr>)"
proof -
  note wf = wf_terminalD [OF assms(1)]
  have n: "nat (t_pos t + int k) = nat (t_pos t) + k" using wf(2) by (simp add: nat_add_distrib)
  have d: "drop (nat (t_pos t) + k) (t_line t) = drop k (drop (nat (t_pos t)) (t_line t))" by (simp add: add.commute)
  show ?thesis
    by (rule refinesI [OF move_to_yields])
       (use assms wf(1-4,6-8) n in \<open>simp_all add: wf_text_def editor_of_def term_settings_def take_add d del: drop_drop\<close>)
qed

lemma editor_insert:
  assumes "wf_terminal t"
  shows "refines (addKeyToLine key t) t (ed_insert key (editor_of t))"
proof -
  note wf = wf_terminalD [OF assms]
  have n: "nat (t_pos t + 1) = Suc (nat (t_pos t))" using wf(2) by simp
  show ?thesis
    by (rule refinesI [OF addKeyToLine_yields])
       (use assms wf n in \<open>auto simp: wf_text_def editor_of_def term_settings_def ed_insert_def\<close>)
qed

lemma editor_show:
  assumes "wf_terminal t"
  shows "refines (set_runes entry t) t (ed_show entry (editor_of t))"
  by (rule refinesI [OF set_runes_yields])
     (use wf_terminalD [OF assms] in \<open>auto simp: wf_text_def editor_of_def term_settings_def ed_show_def\<close>)

lemma rev_dropWhile2: "rev (dropWhile Q (dropWhile P (rev xs))) = take (length (dropWhile Q (dropWhile P (rev xs)))) xs"
proof -
  let ?s = "dropWhile P (rev xs)"
  have "rev (dropWhile Q ?s) = take (length (dropWhile Q ?s)) (rev ?s)"
    using take_dropWhile_rev [of Q "rev ?s"] by (metis rev_rev_ident)
  also have "rev ?s = take (length ?s) xs" using take_dropWhile_rev [of P xs] by (metis rev_rev_ident)
  finally show ?thesis by (metis min.absorb1 length_dropWhile_le take_take)
qed

lemma without_word_take: "take (length (without_word b)) b = without_word b"
  by (cases b) (auto simp: without_word_def Let_def rev_dropWhile2 min_def)

lemma without_word_length: "length (without_word b) \<le> length b"
  by (metis without_word_take length_take min.cobounded2 min_def nat_le_linear)

lemma length_if_Nil: "length (if s = [] then [] else c # rev s) = (if 0 < length s then length s + 1 else length s)"
  by simp

lemma countToLeftWord_eq:
  assumes "wf_terminal t"
  shows "countToLeftWord t = Some (t_pos t - int (length (without_word (before (editor_of t)))))"
proof (cases "t_pos t = 0")
  case True
  then show ?thesis by (simp add: countToLeftWord_def without_word_def)
next
  case False
  note wf = wf_terminalD [OF assms]
  let ?a = "drop (nat (t_pos t)) (t_line t)"
  obtain c b where cb: "take (nat (t_pos t)) (t_line t) = c # b" using False wf(2,4) by (cases "take (nat (t_pos t)) (t_line t)") auto
  then have line: "t_line t = c # b @ ?a" by (metis append_Cons append_take_drop_id)
  have len: "nat (t_pos t) - 1 = length b" using arg_cong [OF cb, of length] wf(4) by simp
  let ?s1 = "dropWhile (\<lambda>r. r = 32) (rev b)"
  have p: "skip_left (\<lambda>r. r \<noteq> 32) (t_line t) (nat (t_pos t) - 1) = length ?s1"
    unfolding len by (subst line) (simp add: skip_left_eq)
  have q: "skip_left (\<lambda>r. r = 32) (t_line t) (length ?s1) = length (dropWhile (\<lambda>r. r \<noteq> 32) ?s1)"
    using length_dropWhile_le [of "\<lambda>r. r = 32" "rev b"] by (subst line) (simp add: skip_left_eq take_dropWhile_rev)
  define n where "n = length (dropWhile (\<lambda>r. r \<noteq> 32) ?s1)"
  have w: "length (without_word (before (editor_of t))) = (if 0 < n then n + 1 else n)"
    unfolding editor_sel cb without_word_def Let_def list.sel n_def by (rule length_if_Nil)
  show ?thesis
    using False wf(2,3) unfolding countToLeftWord_def Let_def p q w n_def [symmetric] by simp
qed

lemma countToRightWord_eq:
  assumes "wf_terminal t"
  shows "countToRightWord t = Some (int (length (ed_word (after (editor_of t)))))"
  using wf_terminalD(2) [OF assms]
  by (simp add: countToRightWord_def Let_def skip_right_eq ed_word_def dropWhile_eq_drop)

lemma ed_word_prefix: "length (ed_word a) \<le> length a \<and> take (length (ed_word a)) a = ed_word a"
proof -
  have "ed_word a @ dropWhile (\<lambda>r. r = 32) (dropWhile (\<lambda>r. r \<noteq> 32) a) = a" by (simp add: ed_word_def)
  then show ?thesis by (metis append_eq_conv_conj length_append le_add1)
qed

section \<open>Every key does what the reference does\<close>

lemma refines_settings: "refines m u e \<Longrightarrow> term_settings u = term_settings t \<Longrightarrow> refines m t e"
  by (simp add: refines_def)

lemma editor_index [simp]: "ed_index (editor_of t) = nat (historyIndex t + 1)" "ed_history (editor_of t) = ring_list (t_history t)"
  "ed_pending (editor_of t) = historyPending t"
  by (simp_all add: editor_of_def)

lemma handle_up_refines:
  assumes "wf_terminal t"
  shows "refines (handle_up t) t (ed_up (editor_of t))"
proof -
  note wf = wf_terminalD [OF assms]
  have n: "0 \<le> historyIndex t + 1" "int (length (ring_list (t_history t))) = r_size (t_history t)"
    using wf(6,7) length_ring_list by auto
  show ?thesis
  proof (cases "nat (historyIndex t + 1) < length (ring_list (t_history t))")
    case True
    let ?t = "t\<lparr>historyPending := (if historyIndex t = - 1 then encode_runes (t_line t) else historyPending t),
      historyIndex := historyIndex t + 1\<rparr>"
    have "wf_terminal ?t" using assms True n by (simp add: wf_terminal_def wf_text_def)
    then have r: "refines (set_runes (ring_list (t_history t) ! nat (historyIndex t + 1)) ?t) t
      (ed_show (ring_list (t_history t) ! nat (historyIndex t + 1)) (editor_of ?t))"
      by (rule refines_settings [OF editor_show]) (simp add: term_settings_def)
    have e: "editor_of ?t = (editor_of t)\<lparr>ed_pending := (if ed_index (editor_of t) = 0 then encode_runes (t_line t) else historyPending t),
        ed_index := ed_index (editor_of t) + 1\<rparr>"
      using n(1) wf(7) by (auto simp: editor_of_def)
    have "handle_up t = set_runes (ring_list (t_history t) ! nat (historyIndex t + 1)) ?t"
      using True NthPreviousEntry_list [OF wf(6) n(1)] by (simp add: handle_up_def)
    moreover have "ed_up (editor_of t) = ed_show (ring_list (t_history t) ! nat (historyIndex t + 1)) (editor_of ?t)"
      unfolding e using True by (simp add: ed_up_def)
    ultimately show ?thesis using r by (simp only:)
  next
    case False
    then show ?thesis
      using NthPreviousEntry_list [OF wf(6) n(1)] assms by (simp add: handle_up_def ed_up_def refines_Some)
  qed
qed

lemma refines_index:
  assumes "refines m t e" and "- 1 \<le> i" and "i < r_size (t_history t)"
  shows "refines (m \<bind> (\<lambda>t'. Some (t'\<lparr>historyIndex := i\<rparr>))) t (e\<lparr>ed_index := nat (i + 1)\<rparr>)"
proof -
  obtain t' where t': "m = Some t'" "wf_terminal t'" "editor_of t' = e" "term_settings t' = term_settings t"
    using assms(1) by (auto simp: refines_def)
  then have "wf_terminal (t'\<lparr>historyIndex := i\<rparr>)" using assms(2,3) by (simp add: wf_terminal_def wf_text_def term_settings_def)
  then show ?thesis using t' by (auto simp: refines_def editor_of_def term_settings_def)
qed

lemma handle_down_refines:
  assumes "wf_terminal t"
  shows "refines (handle_down t) t (ed_down (editor_of t))"
proof -
  note wf = wf_terminalD [OF assms]
  consider (none) "historyIndex t = - 1" | (first) "historyIndex t = 0" | (old) "0 < historyIndex t" using wf(7) by linarith
  then show ?thesis
  proof cases
    case none
    then show ?thesis using assms by (simp add: handle_down_def ed_down_def refines_Some)
  next
    case first
    have h: "historyIndex t' = historyIndex t" if "set_runes (historyPending t) t = Some t'" for t'
    proof -
      obtain u where u: "set_runes (historyPending t) t = Some u"
        "text_of u = text_of (t\<lparr>t_line := decode_bytes (historyPending t), t_pos := int (length (decode_bytes (historyPending t)))\<rparr>)"
        using set_runes_yields [OF wf(1), of "historyPending t"] by (auto elim: yieldsE)
      then show ?thesis using that text_of_sel(10) [OF u(2)] by simp
    qed
    have "handle_down t = set_runes (historyPending t) t \<bind> (\<lambda>t'. Some (t'\<lparr>historyIndex := - 1\<rparr>))"
      using first h by (cases "set_runes (historyPending t) t") (auto simp: handle_down_def)
    moreover have "ed_down (editor_of t) = (ed_show (historyPending t) (editor_of t))\<lparr>ed_index := nat (- 1 + 1)\<rparr>"
      using first by (simp add: ed_down_def ed_show_def)
    ultimately show ?thesis using refines_index [OF editor_show [OF assms], of "- 1" "historyPending t"] wf(8) first by simp
  next
    case old
    let ?t = "t\<lparr>historyIndex := historyIndex t - 1\<rparr>"
    have "wf_terminal ?t" using assms old by (simp add: wf_terminal_def wf_text_def)
    then have r: "refines (set_runes entry ?t) t (ed_show entry (editor_of ?t))" for entry
      by (rule refines_settings [OF editor_show]) (simp add: term_settings_def)
    have e: "editor_of ?t = (editor_of t)\<lparr>ed_index := nat (historyIndex t + 1) - 1\<rparr>" "nat (historyIndex t - 1) = nat (historyIndex t + 1) - 2"
      using old by (simp_all add: editor_of_def nat_diff_distrib nat_add_distrib)
    have l: "nat (historyIndex t - 1) < length (ring_list (t_history t))" using wf(6,8) length_ring_list old by fastforce
    show ?thesis
      using old l r NthPreviousEntry_list [OF wf(6), of "historyIndex t - 1"] e by (auto simp: handle_down_def ed_down_def)
  qed
qed

lemma handle_text_refines:
  assumes "wf_terminal t" and "AutoCompleteCallback t = None"
  shows "refines (handle_text key t) t
    (if isPrintable key \<and> length (before (editor_of t)) + length (after (editor_of t)) \<noteq> maxLineLength
     then ed_insert key (editor_of t) else editor_of t)"
proof -
  have "length (before (editor_of t)) + length (after (editor_of t)) = length (t_line t)"
    using wf_terminalD(4) [OF assms(1)] by simp
  then show ?thesis
    using assms editor_insert [OF assms(1)] refines_Some [OF assms(1) refl] by (simp only: handle_text_def Let_def) simp
qed

lemma before_cut:
  assumes "wf_terminal t" and "t_pos t \<noteq> 0"
  shows "take (nat (t_pos t - 1)) (before (editor_of t)) = butlast (before (editor_of t))"
    "drop (nat (t_pos t - 1)) (before (editor_of t)) = [last (before (editor_of t))]" "before (editor_of t) \<noteq> []"
proof -
  note wf = wf_terminalD [OF assms(1)]
  have l: "length (before (editor_of t)) = nat (t_pos t)" "nat (t_pos t - 1) = length (before (editor_of t)) - 1"
    using wf(4) by (simp_all add: nat_diff_distrib)
  have "0 < nat (t_pos t)" using assms(2) wf(2) by simp
  then show n: "before (editor_of t) \<noteq> []" using l(1) by (metis length_greater_0_conv)
  show "take (nat (t_pos t - 1)) (before (editor_of t)) = butlast (before (editor_of t))" unfolding l(2) by (rule butlast_conv_take [symmetric])
  show "drop (nat (t_pos t - 1)) (before (editor_of t)) = [last (before (editor_of t))]" unfolding l(2)
    using n by (metis append_butlast_last_id append_eq_conv_conj length_butlast)
qed

lemma handle_left:
  assumes "wf_terminal t"
  shows "refines (handle_edit keyBackspace t) t (ed_edit keyBackspace (editor_of t))"
    and "refines (handle_edit keyLeft t) t (ed_edit keyLeft (editor_of t))"
proof -
  have k: "handle_edit keyBackspace t = (if t_pos t = 0 then Some t else eraseNPreviousChars 1 t)"
    "handle_edit keyLeft t = (if t_pos t = 0 then Some t else move_to (t_pos t - 1) t)"
    by (simp_all add: handle_edit_def key_defs)
  have e: "ed_edit keyBackspace (editor_of t) = (editor_of t)\<lparr>before := butlast (before (editor_of t))\<rparr>"
    "ed_edit keyLeft (editor_of t) = (if before (editor_of t) = [] then editor_of t else
      (editor_of t)\<lparr>before := butlast (before (editor_of t)), after := last (before (editor_of t)) # after (editor_of t)\<rparr>)"
    by (simp_all add: ed_edit_def key_defs)
  show "refines (handle_edit keyBackspace t) t (ed_edit keyBackspace (editor_of t))"
  proof (cases "t_pos t = 0")
    case True
    then show ?thesis unfolding k e using assms by (simp add: refines_Some editor_of_def)
  next
    case False
    then show ?thesis
      unfolding k e using editor_cut(2) [OF assms, of "t_pos t - 1"] before_cut(1) [OF assms False] wf_terminalD(2) [OF assms]
      by (simp del: editor_sel)
  qed
  show "refines (handle_edit keyLeft t) t (ed_edit keyLeft (editor_of t))"
  proof (cases "t_pos t = 0")
    case True
    then show ?thesis unfolding k e using assms by (simp add: refines_Some)
  next
    case False
    then show ?thesis
      unfolding k e using editor_cut(1) [OF assms, of "t_pos t - 1"] before_cut [OF assms False] wf_terminalD(2) [OF assms]
      by (simp del: editor_sel)
  qed
qed

lemma handle_right:
  assumes "wf_terminal t"
  shows "refines (handle_edit keyRight t) t (ed_edit keyRight (editor_of t))"
    and "refines (handle_edit keyCtrlD t) t (ed_edit keyCtrlD (editor_of t))"
proof -
  note wf = wf_terminalD [OF assms]
  have end_iff: "t_pos t = int (length (t_line t)) \<longleftrightarrow> after (editor_of t) = []" using wf(3,4,5) by auto
  show "refines (handle_edit keyRight t) t (ed_edit keyRight (editor_of t))"
  proof (cases "after (editor_of t)")
    case Nil
    then show ?thesis using end_iff assms by (simp add: handle_edit_def ed_edit_def key_defs refines_Some)
  next
    case (Cons c cs)
    then show ?thesis using end_iff editor_move_right [OF assms, of 1] by (simp add: handle_edit_def ed_edit_def key_defs del: editor_sel)
  qed
  show "refines (handle_edit keyCtrlD t) t (ed_edit keyCtrlD (editor_of t))"
  proof (cases "t_pos t < int (length (t_line t))")
    case True
    let ?u = "t\<lparr>t_pos := t_pos t + 1\<rparr>"
    have "wf_terminal ?u" using assms True by (simp add: wf_terminal_def wf_text_def)
    from editor_cut(2) [OF this, of "t_pos t"] wf(2)
    have r: "refines (eraseNPreviousChars 1 ?u) t ((editor_of ?u)\<lparr>before := take (nat (t_pos t)) (before (editor_of ?u))\<rparr>)"
      by (auto intro: refines_settings simp: term_settings_def)
    have "(editor_of ?u)\<lparr>before := take (nat (t_pos t)) (before (editor_of ?u))\<rparr> = (editor_of t)\<lparr>after := tl (after (editor_of t))\<rparr>"
      using wf(2) by (simp add: editor_of_def nat_add_distrib min_def drop_Suc tl_drop)
    then show ?thesis using r True by (simp add: handle_edit_def ed_edit_def key_defs)
  next
    case False
    then show ?thesis using wf(3) end_iff assms by (simp add: handle_edit_def ed_edit_def key_defs refines_Some editor_of_def)
  qed
qed

lemma handle_jumps:
  assumes "wf_terminal t"
  shows "refines (handle_edit keyHome t) t (ed_edit keyHome (editor_of t))"
    and "refines (handle_edit keyEnd t) t (ed_edit keyEnd (editor_of t))"
    and "refines (handle_edit keyAltLeft t) t (ed_edit keyAltLeft (editor_of t))"
    and "refines (handle_edit keyAltRight t) t (ed_edit keyAltRight (editor_of t))"
proof -
  note wf = wf_terminalD [OF assms]
  show "refines (handle_edit keyHome t) t (ed_edit keyHome (editor_of t))"
    using editor_cut(1) [OF assms, of 0] wf(2) refines_Some [OF assms]
    by (cases "t_pos t = 0") (simp_all add: handle_edit_def ed_edit_def key_defs editor_of_def)
  have p: "t_pos t + int (length (after (editor_of t))) = int (length (t_line t))" using wf(2,4) by simp
  show "refines (handle_edit keyEnd t) t (ed_edit keyEnd (editor_of t))"
    using editor_move_right [OF assms, of "length (after (editor_of t))", unfolded p] refines_Some [OF assms]
    by (cases "t_pos t = int (length (t_line t))") (simp_all add: handle_edit_def ed_edit_def key_defs editor_of_def)
  let ?w = "without_word (before (editor_of t))"
  have w: "int (length ?w) \<le> t_pos t" using without_word_length [of "before (editor_of t)"] wf(2,4) by simp
  then show "refines (handle_edit keyAltLeft t) t (ed_edit keyAltLeft (editor_of t))"
    using editor_cut(1) [OF assms, of "int (length ?w)"] without_word_take [of "before (editor_of t)"] countToLeftWord_eq [OF assms]
    by (simp add: handle_edit_def ed_edit_def key_defs del: editor_sel)
  show "refines (handle_edit keyAltRight t) t (ed_edit keyAltRight (editor_of t))"
    using editor_move_right [OF assms, of "length (ed_word (after (editor_of t)))"] ed_word_prefix [of "after (editor_of t)"]
      countToRightWord_eq [OF assms]
    by (simp add: handle_edit_def ed_edit_def key_defs del: editor_sel)
qed

lemma handle_deletes:
  assumes "wf_terminal t"
  shows "refines (handle_edit keyDeleteWord t) t (ed_edit keyDeleteWord (editor_of t))"
    and "refines (handle_edit keyDeleteLine t) t (ed_edit keyDeleteLine (editor_of t))"
    and "refines (handle_edit keyCtrlU t) t (ed_edit keyCtrlU (editor_of t))"
    and "refines (handle_edit keyClearScreen t) t (ed_edit keyClearScreen (editor_of t))"
proof -
  note wf = wf_terminalD [OF assms]
  let ?w = "without_word (before (editor_of t))"
  have w: "int (length ?w) \<le> t_pos t" using without_word_length [of "before (editor_of t)"] wf(2,4) by simp
  then show "refines (handle_edit keyDeleteWord t) t (ed_edit keyDeleteWord (editor_of t))"
    using editor_cut(2) [OF assms, of "int (length ?w)"] without_word_take [of "before (editor_of t)"] countToLeftWord_eq [OF assms]
    by (simp add: handle_edit_def ed_edit_def key_defs del: editor_sel)
  have "refines (handle_delete_line t) t ((editor_of t)\<lparr>after := []\<rparr>)"
    by (rule refinesI [OF handle_delete_line_yields [OF assms]])
       (use wf(1-4,6-8) in \<open>auto simp: wf_text_def editor_of_def term_settings_def\<close>)
  then show "refines (handle_edit keyDeleteLine t) t (ed_edit keyDeleteLine (editor_of t))"
    by (simp add: handle_edit_def ed_edit_def key_defs)
  show "refines (handle_edit keyCtrlU t) t (ed_edit keyCtrlU (editor_of t))"
    using editor_cut(2) [OF assms, of 0] wf(2) by (simp add: handle_edit_def ed_edit_def key_defs)
  have "refines (handle_clear_screen t) t (editor_of t)"
    by (rule refinesI [OF handle_clear_screen_yields [OF assms]]) (use assms in \<open>simp_all add: wf_terminal_def\<close>)
  then show "refines (handle_edit keyClearScreen t) t (ed_edit keyClearScreen (editor_of t))"
    by (simp add: handle_edit_def ed_edit_def key_defs)
qed

definition control_keys :: "rune list" where
  "control_keys = [keyBackspace, keyAltLeft, keyAltRight, keyLeft, keyRight, keyHome, keyEnd, keyUp, keyDown, keyDeleteWord,
     keyDeleteLine, keyCtrlD, keyCtrlU, keyClearScreen]"

lemma handle_edit_text: "key \<notin> set control_keys \<Longrightarrow> handle_edit key t = handle_text key t"
  by (simp add: handle_edit_def control_keys_def)

lemma handle_control_refines:
  assumes "wf_terminal t" and "key \<in> set control_keys"
  shows "refines (handle_edit key t) t (ed_edit key (editor_of t))"
proof -
  have "refines (handle_edit keyUp t) t (ed_edit keyUp (editor_of t))" "refines (handle_edit keyDown t) t (ed_edit keyDown (editor_of t))"
    using handle_up_refines [OF assms(1)] handle_down_refines [OF assms(1)] by (simp_all add: handle_edit_def ed_edit_def key_defs)
  then show ?thesis
    using assms(2) handle_left [OF assms(1)] handle_right [OF assms(1)] handle_jumps [OF assms(1)] handle_deletes [OF assms(1)]
    by (auto simp: control_keys_def)
qed

lemma handle_edit_refines:
  assumes "wf_terminal t" and "AutoCompleteCallback t = None"
  shows "refines (handle_edit key t) t (ed_edit key (editor_of t))"
proof (cases "key \<in> set control_keys")
  case True
  then show ?thesis using assms(1) by (simp add: handle_control_refines)
next
  case False
  then show ?thesis
    using handle_text_refines [OF assms, of key] by (simp add: handle_edit_text) (simp add: ed_edit_def control_keys_def)
qed

lemma handle_enter_refines:
  assumes "wf_terminal t"
  shows "\<exists>t'. handle_enter t = Some (t', encode_runes (before (editor_of t) @ after (editor_of t))) \<and> wf_terminal t'
    \<and> editor_of t' = (editor_of t)\<lparr>before := [], after := []\<rparr> \<and> term_settings t' = term_settings t"
proof -
  note wf = wf_terminalD [OF assms]
  have "yields (moveCursorToPos (int (length (t_line t))) t) t" using wf(1) by (simp add: moveCursorToPos_yields)
  then obtain u where u: "moveCursorToPos (int (length (t_line t))) t = Some u" "wf_cursor u" "text_of u = text_of t"
    by (rule yieldsE)
  note sel = text_of_sel [OF u(3)]
  show ?thesis
    using u(1,2) wf(4,6-8) by (simp add: handle_enter_def queue_def wf_terminal_def wf_text_def sel wf_cursor_def editor_of_def term_settings_def)
qed

lemma wf_NewTerminal [simp]: "wf_terminal (NewTerminal p)" "AutoCompleteCallback (NewTerminal p) = None" "pasteActive (NewTerminal p) = False"
  by (simp_all add: NewTerminal_def wf_terminal_def wf_cursor_def wf_text_def empty_ring_def wf_ring_def)

lemma editor_NewTerminal: "editor_of (NewTerminal p) = \<lparr>before = [], after = [], ed_history = [], ed_index = 0, ed_pending = []\<rparr>"
  by (simp add: NewTerminal_def editor_of_def)

lemma handleKey_editor:
  assumes "wf_terminal t" and "AutoCompleteCallback t = None"
  shows "\<exists>t'. handleKey key t = Some (t', snd (ed_key (pasteActive t) key (editor_of t))) \<and> wf_terminal t'
    \<and> editor_of t' = fst (ed_key (pasteActive t) key (editor_of t)) \<and> term_settings t' = term_settings t"
  using handle_enter_refines [OF assms(1)] editor_insert [OF assms(1), of key] handle_edit_refines [OF assms, of key]
  by (auto simp: handleKey_def ed_key_def refines_def)



text \<open>A callback is well behaved when the position it returns lies on the boundary of a rune of the line it returns.\<close>

definition complete_ok :: "complete option \<Rightarrow> bool" where
  "complete_ok cb \<longleftrightarrow> (\<forall>f line pos key newLine newPos. cb = Some f \<and> f line pos key = Some (newLine, newPos) \<longrightarrow>
     0 \<le> newPos \<and> newPos \<le> int (length newLine)
     \<and> length (decode_bytes (take (nat newPos) newLine)) \<le> length (decode_bytes newLine))"

lemma handle_text_wf:
  assumes "wf_terminal t" and "complete_ok (AutoCompleteCallback t)"
  shows "\<exists>t'. handle_text key t = Some t' \<and> wf_terminal t' \<and> term_settings t' = term_settings t"
proof -
  note wf = wf_terminalD [OF assms(1)]
  have plain: "\<exists>t'. (if \<not> isPrintable key \<or> length (t_line t) = maxLineLength then Some t else addKeyToLine key t) = Some t'
      \<and> wf_terminal t' \<and> term_settings t' = term_settings t"
    using assms(1) editor_insert [OF assms(1), of key] by (auto simp: refines_def)
  have set: "\<exists>t'. setLine l p t = Some t' \<and> wf_terminal t' \<and> term_settings t' = term_settings t" if "0 \<le> p" "p \<le> int (length l)" for l p
    using refinesI [OF setLine_yields [OF wf(1) that(1), of l], of _ t] wf that
    by (auto simp: wf_text_def term_settings_def refines_def)
  show ?thesis
  proof (cases "AutoCompleteCallback t")
    case None
    then show ?thesis using plain by (simp add: handle_text_def)
  next
    case (Some f)
    define pre suf where "pre = encode_runes (take (nat (t_pos t)) (t_line t))" and "suf = encode_runes (drop (nat (t_pos t)) (t_line t))"
    have e: "handle_text key t = (case f (pre @ suf) (int (length pre)) key of
        None \<Rightarrow> (if \<not> isPrintable key \<or> length (t_line t) = maxLineLength then Some t else addKeyToLine key t)
      | Some (newLine, newPos) \<Rightarrow> if newPos < 0 \<or> int (length newLine) < newPos then None
          else setLine (decode_bytes newLine) (int (length (decode_bytes (take (nat newPos) newLine)))) t)"
      using Some wf(2,3) by (auto simp: handle_text_def pre_def suf_def Let_def)
    show ?thesis
    proof (cases "f (pre @ suf) (int (length pre)) key")
      case None
      then show ?thesis using plain e by simp
    next
      case (Some r)
      obtain l p where r: "r = (l, p)" by (cases r)
      have "0 \<le> p" "p \<le> int (length l)" "length (decode_bytes (take (nat p) l)) \<le> length (decode_bytes l)"
        using assms(2) \<open>AutoCompleteCallback t = Some f\<close> Some r by (auto simp: complete_ok_def)
      then show ?thesis unfolding e Some r using set by simp
    qed
  qed
qed

lemma handleKey_keeps_wf:
  assumes "wf_terminal t" and "complete_ok (AutoCompleteCallback t)"
  shows "\<exists>t' l. handleKey key t = Some (t', l) \<and> wf_terminal t' \<and> term_settings t' = term_settings t"
proof -
  have "\<exists>t'. handle_edit key t = Some t' \<and> wf_terminal t' \<and> term_settings t' = term_settings t"
    using handle_control_refines [OF assms(1), of key] handle_text_wf [OF assms, of key]
    by (cases "key \<in> set control_keys") (auto simp: refines_def handle_edit_text)
  then show ?thesis
    using handle_enter_refines [OF assms(1)] editor_insert [OF assms(1), of key] by (auto simp: handleKey_def refines_def)
qed

text \<open>
  C31. Every key, typed or pasted, is handled without a panic and keeps the terminal well formed: the cursor of the line
  between its ends, the cursor of the screen within the columns, and the
  history index within the history. A callback for completion is allowed if its positions lie
  between the runes of its lines; one that cuts a rune in two can put the cursor behind the end of the line.
\<close>

theorem handleKey_wf:
  assumes "wf_terminal t" and "complete_ok (AutoCompleteCallback t)"
  shows "\<exists>t' l. handleKey key t = Some (t', l) \<and> wf_terminal t' \<and> term_settings t' = term_settings t"
  using assms by (rule handleKey_keeps_wf)

theorem handleKey_wf_witness:
  "\<exists>t' l. handleKey keyBackspace (NewTerminal []) = Some (t', l) \<and> wf_terminal t' \<and> term_settings t' = term_settings (NewTerminal [])"
  using handleKey_wf [of "NewTerminal []" keyBackspace] by (simp add: complete_ok_def)

end
