(* ===== verification/Term_Cursor.thy ===== *)
theory Term_Cursor
  imports Term_Refine
begin

text \<open>
  Where the line editor thinks the cursor of the screen is.
\<close>

section \<open>The cursor on the screen\<close>

text \<open>While the text is echoed, the cursor stands in the cell that belongs to its position in the text.\<close>

definition cursor_at :: "int \<Rightarrow> terminal \<Rightarrow> bool" where
  "cursor_at p t \<longleftrightarrow> (t_echo t \<longrightarrow> cursorX t + termWidth t * cursorY t = visualLength (t_prompt t) + p)"

definition cursor_right :: "terminal \<Rightarrow> bool" where
  "cursor_right t \<longleftrightarrow> cursor_at (t_pos t) t"

lemma move_sel [simp]:
  "cursorX (move a b c d t) = cursorX t" "cursorY (move a b c d t) = cursorY t" "termWidth (move a b c d t) = termWidth t"
  "t_prompt (move a b c d t) = t_prompt t" "t_echo (move a b c d t) = t_echo t"
  by (simp_all add: move_def queue_def)

lemma moveCursorToPos_at:
  assumes "wf_cursor t" and "0 \<le> p" and "moveCursorToPos p t = Some t'"
  shows "cursor_at p t'"
proof (cases "t_echo t")
  case True
  let ?x = "visualLength (t_prompt t) + p"
  have x: "0 \<le> ?x" "0 < termWidth t" using assms(1,2) by (simp_all add: wf_cursor_def)
  then have "cursorX t' = ?x mod termWidth t" "cursorY t' = ?x div termWidth t" "termWidth t' = termWidth t" "t_prompt t' = t_prompt t"
    using assms(3) True by (auto simp: moveCursorToPos_def Let_def go_quot_pos go_rem_pos simp del: if_split_asm)
  then show ?thesis by (simp add: cursor_at_def)
qed (use assms(3) in \<open>simp add: moveCursorToPos_def cursor_at_def\<close>)

text \<open>An operation that ends with a move to the position \<open>p\<close> of its text.\<close>

lemma ends_with_move:
  assumes "yields m u" and "0 \<le> p" and "m \<bind> moveCursorToPos p = Some t'"
  shows "cursor_at p t'"
proof -
  obtain v where "m = Some v" "wf_cursor v" using assms(1) by (rule yieldsE)
  then show ?thesis using assms(2,3) moveCursorToPos_at by simp
qed

lemma cursor_at_update [simp]: "cursor_at p (t\<lparr>t_line := l\<rparr>) = cursor_at p t" "cursor_at p (t\<lparr>t_pos := q\<rparr>) = cursor_at p t"
  "cursor_at p (t\<lparr>historyIndex := i\<rparr>) = cursor_at p t" "cursor_at p (t\<lparr>historyPending := h\<rparr>) = cursor_at p t"
  by (simp_all add: cursor_at_def)

lemma move_to_right: "wf_cursor t \<Longrightarrow> 0 \<le> p \<Longrightarrow> move_to p t = Some t' \<Longrightarrow> cursor_right t'"
  using moveCursorToPos_at [of "t\<lparr>t_pos := p\<rparr>" p t'] move_to_yields [of t p]
  by (auto simp: move_to_def cursor_right_def elim!: yieldsE dest: text_of_sel(2))

lemma setLine_right:
  assumes "wf_cursor t" and "0 \<le> p" and "setLine l p t = Some t'"
  shows "cursor_right t'"
proof (cases "t_echo t")
  case True
  then obtain t1 t2 t3 t4 where s: "moveCursorToPos 0 t = Some t1" "writeLine l t1 = Some t2"
    "repeat_m (length (t_line t2) - length l) (writeLine [32]) t2 = Some t3" "moveCursorToPos p t3 = Some t4"
    "t' = t4\<lparr>t_line := l, t_pos := p\<rparr>" using assms(3) by (auto simp: setLine_def bind_eq_Some_conv)
  have "wf_cursor t1" using moveCursorToPos_yields [OF assms(1), of 0] s(1) by simp
  then have "wf_cursor t2" by (rule yieldsD(1) [OF writeLine_yields s(2)])
  then have "wf_cursor t3" using yieldsD(1) [OF repeat_yields [OF writeLine_yields] s(3)] by simp
  then have "cursor_at p t4" using assms(2) s(4) by (rule moveCursorToPos_at)
  then show ?thesis by (simp add: s(5) cursor_right_def)
qed (use assms(3) in \<open>auto simp: setLine_def cursor_right_def cursor_at_def\<close>)

lemma set_runes_right: "wf_cursor t \<Longrightarrow> set_runes e t = Some t' \<Longrightarrow> cursor_right t'"
  using setLine_right [of t "int (length (decode_bytes e))" "decode_bytes e" t'] by (simp add: set_runes_def Let_def)

lemma handle_history_right:
  assumes "wf_cursor t" and "cursor_right t"
  shows "handle_up t = Some t' \<Longrightarrow> cursor_right t'" "handle_down t = Some t' \<Longrightarrow> cursor_right t'"
  using assms by (auto simp: handle_up_def handle_down_def bind_eq_Some_conv cursor_right_def
    dest!: set_runes_right [rotated] split: option.splits if_splits)

lemma eraseNPreviousChars_right:
  assumes "wf_terminal t" and "0 < n" and "n \<le> t_pos t" and "eraseNPreviousChars n t = Some t'"
  shows "cursor_right t'"
proof -
  let ?p = "t_pos t - n"
  note wf = wf_terminalD [OF assms(1)]
  have "yields (eraseNPreviousChars n t)
    (t\<lparr>t_pos := ?p, t_line := take (nat ?p) (t_line t) @ drop (nat (t_pos t)) (t_line t)\<rparr>)"
    using assms(2,3) by (intro eraseNPreviousChars_yields [OF assms(1)]) simp_all
  from text_of_sel(2) [OF yieldsD(2) [OF this assms(4)]] have t': "t_pos t' = ?p" by simp
  obtain t1 where t1: "moveCursorToPos ?p (t\<lparr>t_pos := ?p\<rparr>) = Some t1"
    "redraw_erased n ?p (t1\<lparr>t_line := erase_at n ?p (t_line t1)\<rparr>) = Some t'"
    using assms(2-4) by (auto simp: eraseNPreviousChars_def Let_def bind_eq_Some_conv split: if_splits)
  have w: "wf_cursor t1" using moveCursorToPos_yields [of "t\<lparr>t_pos := ?p\<rparr>" ?p] t1(1) wf(1) assms(3) by simp
  have "cursor_at ?p t'"
  proof (cases "t_echo t1")
    case True
    then obtain t2 t3 where s: "writeLine (drop (nat ?p) (erase_at n ?p (t_line t1))) (t1\<lparr>t_line := erase_at n ?p (t_line t1)\<rparr>) = Some t2"
      "advanceCursor n (queue (replicate (nat n) 32) t2) = Some t3" "moveCursorToPos ?p t3 = Some t'"
      using t1(2) by (auto simp: redraw_erased_def bind_eq_Some_conv)
    have "wf_cursor t2" by (rule yieldsD(1) [OF writeLine_yields s(1)]) (simp add: w)
    then have "wf_cursor t3" using advanceCursor_yields [of "queue (replicate (nat n) 32) t2" n] s(2) assms(2) by simp
    then show ?thesis using s(3) assms(3) moveCursorToPos_at by simp
  qed (use t1(2) in \<open>auto simp: redraw_erased_def cursor_at_def\<close>)
  then show ?thesis by (simp add: cursor_right_def t')
qed

lemma addKeyToLine_right:
  assumes "wf_terminal t" and "addKeyToLine key t = Some t'"
  shows "cursor_right t'"
proof -
  note wf = wf_terminalD [OF assms(1)]
  from text_of_sel(2) [OF yieldsD(2) [OF addKeyToLine_yields [OF assms(1)] assms(2)]] have t': "t_pos t' = t_pos t + 1" by simp
  obtain l t2 where "(if t_echo t then writeLine (drop (nat (t_pos t)) l) (t\<lparr>t_line := l\<rparr>) else Some (t\<lparr>t_line := l\<rparr>)) = Some t2"
    "moveCursorToPos (t_pos t + 1) (t2\<lparr>t_pos := t_pos t + 1\<rparr>) = Some t'"
    using assms(2) by (auto simp: addKeyToLine_def Let_def bind_eq_Some_conv split: if_splits)
  moreover from this have "wf_cursor t2" using yieldsD(1) [OF writeLine_yields, of "t\<lparr>t_line := l\<rparr>" "drop (nat (t_pos t)) l"] wf(1) by (auto split: if_splits)
  ultimately have "cursor_at (t_pos t + 1) t'" using moveCursorToPos_at [of "t2\<lparr>t_pos := t_pos t + 1\<rparr>"] wf(2) by simp
  then show ?thesis by (simp add: cursor_right_def t')
qed

lemma handle_screen_right:
  assumes "wf_terminal t"
  shows "handle_delete_line t = Some t' \<Longrightarrow> cursor_right t'" "handle_clear_screen t = Some t' \<Longrightarrow> cursor_right t'"
proof -
  note wf = wf_terminalD [OF assms]
  have f: "yields (advanceCursor 1 (queue [32] u)) u" if "wf_cursor u" for u
    by (rule yields_cong [OF _ advanceCursor_yields]) (use that in simp_all)
  assume "handle_delete_line t = Some t'"
  then obtain t1 where t1: "repeat_m (length (t_line t) - nat (t_pos t)) (\<lambda>t. advanceCursor 1 (queue [32] t)) t = Some t1"
    "moveCursorToPos (t_pos t1) (t1\<lparr>t_line := take (nat (t_pos t1)) (t_line t1)\<rparr>) = Some t'"
    by (auto simp: handle_delete_line_def bind_eq_Some_conv split: if_splits)
  note y = repeat_yields [OF f wf(1), of "length (t_line t) - nat (t_pos t)"]
  have w: "wf_cursor t1" "t_pos t1 = t_pos t" using yieldsD(1) [OF y t1(1)] text_of_sel(2) [OF yieldsD(2) [OF y t1(1)]] by simp_all
  have "t_pos t' = t_pos t1"
    using text_of_sel(2) [OF yieldsD(2) [OF moveCursorToPos_yields t1(2)]] w wf(2) by simp
  then show "cursor_right t'" using moveCursorToPos_at [OF _ _ t1(2)] w wf(2) by (simp add: cursor_right_def)
next
  note wf = wf_terminalD [OF assms]
  let ?t = "(queue (t_prompt t) (queue [27, 91, 50, 74, 27, 91, 72] t))\<lparr>cursorX := 0, cursorY := 0\<rparr>"
  assume "handle_clear_screen t = Some t'"
  then obtain t1 where t1: "advanceCursor (visualLength (t_prompt t)) ?t = Some t1" "setLine (t_line t1) (t_pos t1) t1 = Some t'"
    by (auto simp: handle_clear_screen_def bind_eq_Some_conv)
  have "wf_cursor ?t" "text_of ?t = text_of t" using wf(1) by (simp_all add: wf_cursor_def queue_def text_of_update)
  note y = advanceCursor_yields [OF this(1), of "visualLength (t_prompt t)"]
  have "wf_cursor t1" using yieldsD(1) [OF y t1(1)] by simp
  moreover have "t_pos t1 = t_pos t" using text_of_sel(2) [OF yieldsD(2) [OF y t1(1)]] by (simp add: queue_def)
  ultimately show "cursor_right t'" using setLine_right [OF _ _ t1(2)] wf(2) by simp
qed

lemma handle_text_right:
  assumes "wf_terminal t" and "cursor_right t" and "handle_text key t = Some t'"
  shows "cursor_right t'"
  using assms wf_terminalD(1) [OF assms(1)]
  by (auto simp: handle_text_def Let_def intro: addKeyToLine_right setLine_right [OF _ of_nat_0_le_iff] split: option.splits if_splits prod.splits)

lemma erase_word_right:
  assumes "wf_terminal t" and "cursor_right t" and "0 \<le> n" and "n \<le> t_pos t" and "eraseNPreviousChars n t = Some t'"
  shows "cursor_right t'"
  using assms eraseNPreviousChars_right [OF assms(1) _ assms(4,5)] by (cases "n = 0") (auto simp: eraseNPreviousChars_def)

lemma handle_edit_shape:
  "m = handle_edit key t \<Longrightarrow> m = Some t \<or> t_pos t \<noteq> 0 \<and> m = eraseNPreviousChars 1 t
   \<or> m = countToLeftWord t \<bind> (\<lambda>n. move_to (t_pos t - n) t) \<or> m = countToRightWord t \<bind> (\<lambda>n. move_to (t_pos t + n) t)
   \<or> t_pos t \<noteq> 0 \<and> m = move_to (t_pos t - 1) t \<or> (\<exists>p \<in> {0, t_pos t + 1, int (length (t_line t))}. m = move_to p t)
   \<or> m = handle_up t \<or> m = handle_down t \<or> m = handle_delete_line t \<or> m = handle_clear_screen t
   \<or> m = countToLeftWord t \<bind> (\<lambda>n. eraseNPreviousChars n t) \<or> m = eraseNPreviousChars (t_pos t) t
   \<or> t_pos t < int (length (t_line t)) \<and> m = eraseNPreviousChars 1 (t\<lparr>t_pos := t_pos t + 1\<rparr>) \<or> m = handle_text key t"
  by (auto simp: handle_edit_def split: if_splits)

lemma handle_edit_cases:
  obtains (same) "handle_edit key t = Some t"
    | (erase) "t_pos t \<noteq> 0" "handle_edit key t = eraseNPreviousChars 1 t"
    | (left_word) "handle_edit key t = countToLeftWord t \<bind> (\<lambda>n. move_to (t_pos t - n) t)"
    | (right_word) "handle_edit key t = countToRightWord t \<bind> (\<lambda>n. move_to (t_pos t + n) t)"
    | (one_back) "t_pos t \<noteq> 0" "handle_edit key t = move_to (t_pos t - 1) t"
    | (goto) p where "p \<in> {0, t_pos t + 1, int (length (t_line t))}" "handle_edit key t = move_to p t"
    | (history) "handle_edit key t = handle_up t \<or> handle_edit key t = handle_down t"
    | (screen) "handle_edit key t = handle_delete_line t \<or> handle_edit key t = handle_clear_screen t"
    | (erase_word) "handle_edit key t = countToLeftWord t \<bind> (\<lambda>n. eraseNPreviousChars n t)"
    | (erase_all) "handle_edit key t = eraseNPreviousChars (t_pos t) t"
    | (erase_next) "t_pos t < int (length (t_line t))" "handle_edit key t = eraseNPreviousChars 1 (t\<lparr>t_pos := t_pos t + 1\<rparr>)"
    | (typed) "handle_edit key t = handle_text key t"
  using handle_edit_shape [OF refl, of key t] by blast

lemma handle_edit_right:
  assumes "wf_terminal t" and "cursor_right t" and "handle_edit key t = Some t'"
  shows "cursor_right t'"
proof -
  note wf = wf_terminalD [OF assms(1)]
  let ?w = "int (length (without_word (before (editor_of t))))"
  have w: "?w \<le> t_pos t" using without_word_length [of "before (editor_of t)"] wf(2,4) by simp
  show ?thesis
  proof (cases rule: handle_edit_cases [of key t])
    case left_word
    then show ?thesis using assms(3) move_to_right [OF wf(1), of ?w] by (simp add: countToLeftWord_eq [OF assms(1)] del: editor_sel)
  next
    case right_word
    then show ?thesis
      using assms(3) wf(2) move_to_right [OF wf(1), of "t_pos t + int (length (ed_word (after (editor_of t))))" t']
      by (simp add: countToRightWord_eq [OF assms(1)] del: editor_sel)
  next
    case erase_word
    then show ?thesis
      using assms(3) w erase_word_right [OF assms(1,2), of "t_pos t - ?w" t'] by (simp add: countToLeftWord_eq [OF assms(1)] del: editor_sel)
  next
    case erase_next
    then have "wf_terminal (t\<lparr>t_pos := t_pos t + 1\<rparr>)" using assms(1) by (simp add: wf_terminal_def wf_text_def)
    then show ?thesis using eraseNPreviousChars_right [of _ 1 t'] assms(3) erase_next wf(2) by simp
  next
    case (goto p)
    then show ?thesis using move_to_right [OF wf(1), of p t'] assms(3) wf(2) by auto
  next
    case one_back
    then show ?thesis using move_to_right [OF wf(1), of "t_pos t - 1" t'] assms(3) wf(2) by auto
  next
    case erase
    then show ?thesis using eraseNPreviousChars_right [OF assms(1), of 1 t'] assms(3) wf(2) by auto
  next
    case erase_all
    then show ?thesis using erase_word_right [OF assms(1,2), of "t_pos t" t'] assms(3) wf(2) by auto
  next
    case typed
    then show ?thesis using handle_text_right [OF assms(1,2)] assms(3) by simp
  next
    case history
    then show ?thesis using handle_history_right [OF wf(1) assms(2)] assms(3) by auto
  next
    case screen
    then show ?thesis using handle_screen_right [OF assms(1)] assms(3) by auto
  qed (use assms in simp)
qed



end
