(* ===== verification/Term_Read.thy ===== *)
theory Term_Read
  imports Term_Cursor
begin

text \<open>
  Reading lines and writing through the terminal, the rest of \<^verbatim>\<open>src/golang.org/x/crypto/ssh/terminal/terminal.go\<close>. The other
  side of the terminal is the list of chunks that its \<^verbatim>\<open>Read\<close> will return, each with an error or none, and the answers to
  its writes; a chunk that is longer than the buffer is read in parts. \<open>ReadStuck\<close> is the loop that reads into
  an empty buffer for ever.
\<close>

section \<open>Definitions\<close>

datatype term_error = TermEOF | ErrPasteIndicator | IOFailed string

record term_io =
  written :: "int list list"
  wanswers :: "(int \<times> term_error option) list"
  chunks :: "(int list \<times> term_error option) list"

definition c_Write :: "int list \<Rightarrow> term_io \<Rightarrow> (int \<times> term_error option) \<times> term_io" where
  "c_Write b io =
     (let io' = io\<lparr>written := written io @ [b]\<rparr>
      in case wanswers io of
           [] \<Rightarrow> ((int (length b), None), io')
         | a # as \<Rightarrow> (a, io'\<lparr>wanswers := as\<rparr>))"

definition inBuf_size :: nat where
  "inBuf_size = 256"

text \<open>The inner loop over the keys in the remainder of the input.\<close>

datatype key_result =
  KeyEOF terminal
| KeyPanic
| KeysDone terminal "int list" bool "int list option"

function key_loop :: "terminal \<Rightarrow> int list \<Rightarrow> bool \<Rightarrow> key_result" where
  "key_loop t bs lineIsPasted =
     (let key = fst (bytesToKey bs (pasteActive t)); rest = snd (bytesToKey bs (pasteActive t))
      in if key = RuneError then KeysDone t rest lineIsPasted None
         else if \<not> pasteActive t \<and> key = keyCtrlD \<and> t_line t = [] then KeyEOF t
         else if \<not> pasteActive t \<and> key = keyPasteStart then
           key_loop (t\<lparr>pasteActive := True\<rparr>) rest (if t_line t = [] then True else lineIsPasted)
         else if pasteActive t \<and> key = keyPasteEnd then key_loop (t\<lparr>pasteActive := False\<rparr>) rest lineIsPasted
         else
           let pasted = (if \<not> pasteActive t then False else lineIsPasted)
           in case handleKey key t of
                None \<Rightarrow> KeyPanic
              | Some (t', Some line) \<Rightarrow> KeysDone t' rest pasted (Some line)
              | Some (t', None) \<Rightarrow> key_loop t' rest pasted)"
  by pat_completeness auto
termination
  by (relation "measure (\<lambda>(t, bs, p). length bs)") (auto intro: bytesToKey_shorter [OF surjective_pairing])

declare key_loop.simps [simp del]

datatype line_result =
  ReadDone "int list" "term_error option" terminal term_io
| ReadPanic
| ReadStuck

text \<open>A completed line goes into the history if it was echoed.\<close>

definition finish_line :: "int list \<Rightarrow> bool \<Rightarrow> terminal \<Rightarrow> term_io \<Rightarrow> line_result" where
  "finish_line line lineIsPasted t io =
     (case (if t_echo t
            then map_option (\<lambda>h. t\<lparr>historyIndex := - 1, t_history := h\<rparr>) (ring_Add (t_history t) line) else Some t) of
        None \<Rightarrow> ReadPanic
      | Some t' \<Rightarrow> ReadDone line (if lineIsPasted then Some ErrPasteIndicator else None) t' io)"

definition flush_out :: "terminal \<Rightarrow> term_io \<Rightarrow> terminal \<times> term_io" where
  "flush_out t io = (t\<lparr>outBuf := []\<rparr>, snd (c_Write (outBuf t) io))"

function read_loop :: "terminal \<Rightarrow> term_io \<Rightarrow> bool \<Rightarrow> line_result" where
  "read_loop t io lineIsPasted =
     (case key_loop t (t_remainder t) lineIsPasted of
        KeyEOF t' \<Rightarrow> ReadDone [] (Some TermEOF) t' io
      | KeyPanic \<Rightarrow> ReadPanic
      | KeysDone t1 rest pasted lineOk \<Rightarrow>
          (let t2 = fst (flush_out (t1\<lparr>t_remainder := take inBuf_size rest\<rparr>) io);
               io2 = snd (flush_out (t1\<lparr>t_remainder := take inBuf_size rest\<rparr>) io);
               space = inBuf_size - length (t_remainder t2)
           in case lineOk of
                Some line \<Rightarrow> finish_line line pasted t2 io2
              | None \<Rightarrow>
                  (case chunks io of
                     [] \<Rightarrow> ReadDone [] (Some TermEOF) t2 io2
                   | (b, e) # cs \<Rightarrow>
                       if length b > space then
                         (if space = 0 then ReadStuck
                          else read_loop (t2\<lparr>t_remainder := t_remainder t2 @ take space b\<rparr>) (io2\<lparr>chunks := (drop space b, e) # cs\<rparr>) pasted)
                       else
                         (case e of
                            Some err \<Rightarrow> ReadDone [] (Some err) t2 (io2\<lparr>chunks := cs\<rparr>)
                          | None \<Rightarrow> read_loop (t2\<lparr>t_remainder := t_remainder t2 @ b\<rparr>) (io2\<lparr>chunks := cs\<rparr>) pasted))))"
  by pat_completeness auto
termination
  by (relation "measure (\<lambda>(t, io, p). sum_list (map (\<lambda>(b, e). Suc (length b)) (chunks io)))")
     (auto simp: flush_out_def c_Write_def Let_def split: list.splits)

declare read_loop.simps [simp del]

definition readLine :: "terminal \<Rightarrow> term_io \<Rightarrow> line_result" where
  "readLine t io =
     (if cursorX t = 0 \<and> cursorY t = 0 then
        (case writeLine (t_prompt t) t of
           None \<Rightarrow> ReadPanic
         | Some t' \<Rightarrow> (case flush_out t' io of (t2, io2) \<Rightarrow> read_loop t2 io2 (pasteActive t2)))
      else read_loop t io (pasteActive t))"

definition ReadLine :: "terminal \<Rightarrow> term_io \<Rightarrow> line_result" where
  "ReadLine t io = readLine t io"

definition ReadPassword :: "int list \<Rightarrow> terminal \<Rightarrow> term_io \<Rightarrow> line_result" where
  "ReadPassword prompt t io =
     (case readLine (t\<lparr>t_prompt := decode_bytes prompt, t_echo := False\<rparr>) io of
        ReadDone line err t' io' \<Rightarrow> ReadDone line err (t'\<lparr>t_prompt := t_prompt t, t_echo := True\<rparr>) io'
      | res \<Rightarrow> res)"

definition SetPrompt :: "int list \<Rightarrow> terminal \<Rightarrow> terminal" where
  "SetPrompt prompt t = t\<lparr>t_prompt := decode_bytes prompt\<rparr>"

section \<open>Writing around the line\<close>

text \<open>The loop that clears the rows above the cursor, from the bottom to the top.\<close>

definition clear_up :: "terminal \<Rightarrow> terminal" where
  "clear_up t = clearLineToRight ((move 1 0 0 0 t)\<lparr>cursorY := cursorY t - 1\<rparr>)"

definition clear_down :: "terminal \<Rightarrow> terminal" where
  "clear_down t = clearLineToRight ((move 0 1 0 0 t)\<lparr>cursorY := cursorY t + 1\<rparr>)"

definition clear_input :: "terminal \<Rightarrow> terminal" where
  "clear_input t =
     (let t1 = clearLineToRight ((move 0 0 (cursorX t) 0 t)\<lparr>cursorX := 0\<rparr>)
      in (clear_up ^^ nat (cursorY t1)) t1)"

definition repaint :: "terminal \<Rightarrow> terminal option" where
  "repaint t = do {
     t1 \<leftarrow> writeLine (t_prompt t) t;
     t2 \<leftarrow> (if t_echo t1 then writeLine (t_line t1) t1 else Some t1);
     moveCursorToPos (t_pos t2) t2
   }"

datatype text_result = Written int "term_error option" terminal term_io | WritePanic

definition term_Write :: "int list \<Rightarrow> terminal \<Rightarrow> term_io \<Rightarrow> text_result" where
  "term_Write buf t io =
     (if cursorX t = 0 \<and> cursorY t = 0 then (case c_Write buf io of ((n, e), io') \<Rightarrow> Written n e t io')
      else
        let t1 = clear_input t
        in case c_Write (outBuf t1) io of
             ((_, Some e), io1) \<Rightarrow> Written 0 (Some e) t1 io1
           | ((_, None), io1) \<Rightarrow>
               (case c_Write buf io1 of
                  ((n, Some e), io2) \<Rightarrow> Written n (Some e) (t1\<lparr>outBuf := []\<rparr>) io2
                | ((n, None), io2) \<Rightarrow>
                    (case repaint (t1\<lparr>outBuf := []\<rparr>) of
                       None \<Rightarrow> WritePanic
                     | Some t2 \<Rightarrow>
                         (case c_Write (outBuf t2) io2 of
                            ((_, Some e), io3) \<Rightarrow> Written n (Some e) t2 io3
                          | ((_, None), io3) \<Rightarrow> Written n None (t2\<lparr>outBuf := []\<rparr>) io3))))"

text \<open>With a negative column, which only a negative width can make, \<^verbatim>\<open>move\<close> panics: its slice is too short.\<close>

definition clearAndRepaintLinePlusNPrevious :: "int \<Rightarrow> terminal \<Rightarrow> terminal option" where
  "clearAndRepaintLinePlusNPrevious numPrevLines t =
     (let t1 = clearLineToRight ((move (cursorY t) 0 (cursorX t) 0 t)\<lparr>cursorX := 0, cursorY := 0\<rparr>);
          t2 = (clear_down ^^ nat numPrevLines) t1;
          t3 = (move (cursorY t2) 0 0 0 t2)\<lparr>cursorX := 0, cursorY := 0\<rparr>
      in if cursorX t < 0 \<or> cursorY t < 0 then None else do {
        t4 \<leftarrow> advanceCursor (visualLength (t_prompt t3)) (queue (t_prompt t3) t3);
        t5 \<leftarrow> writeLine (t_line t4) t4;
        moveCursorToPos (t_pos t5) t5
      })"

definition finish_size :: "term_io \<Rightarrow> terminal option \<Rightarrow> (term_error option \<times> terminal \<times> term_io) option" where
  "finish_size io m =
     map_option (\<lambda>t. (snd (fst (c_Write (outBuf t) io)), t\<lparr>outBuf := []\<rparr>, snd (c_Write (outBuf t) io))) m"

definition SetSize :: "int \<Rightarrow> int \<Rightarrow> terminal \<Rightarrow> term_io \<Rightarrow> (term_error option \<times> terminal \<times> term_io) option" where
  "SetSize width0 height t io =
     (let width = (if width0 = 0 then 1 else width0);
          oldWidth = termWidth t;
          t1 = t\<lparr>termWidth := width, termHeight := height\<rparr>
      in if width = oldWidth \<or> t_line t1 = [] \<and> cursorX t1 = 0 \<and> cursorY t1 = 0 then Some (None, t1, io)
         else if width < oldWidth then
           finish_size io (clearAndRepaintLinePlusNPrevious (maxLine t1 * 2)
             (t1\<lparr>cursorX := (if cursorX t1 \<ge> width then width - 1 else cursorX t1), cursorY := cursorY t1 * 2\<rparr>))
         else finish_size io (clearAndRepaintLinePlusNPrevious (maxLine t1) t1))"

definition SetBracketedPasteMode :: "bool \<Rightarrow> term_io \<Rightarrow> term_io" where
  "SetBracketedPasteMode on io =
     snd (c_Write (if on then [27, 91, 63, 50, 48, 48, 52, 104] else [27, 91, 63, 50, 48, 48, 52, 108]) io)"

end
