(* ===== verification/Term_Session.thy ===== *)
theory Term_Session
  imports Term_Read
begin

text \<open>
  What a reader of lines gets: the line that was typed, however its bytes arrive; and what happens to the terminal
  over reading, writing and a change of its size.
\<close>

section \<open>Plain text as keys\<close>

definition plain_rune :: "rune \<Rightarrow> bool" where
  "plain_rune r \<longleftrightarrow> valid_rune r \<and> 32 \<le> r \<and> r \<noteq> 127 \<and> r \<noteq> RuneError"

lemma plain_rune_key:
  assumes "plain_rune r"
  shows "isPrintable r" "r \<notin> set control_keys" "r \<noteq> keyEnter" "r \<noteq> RuneError" "r \<noteq> keyCtrlD" "r \<noteq> keyPasteStart"
  using assms by (auto simp: plain_rune_def isPrintable_def control_keys_def valid_rune_def key_defs)

lemma encode_rune_head:
  assumes "plain_rune r"
  shows "encode_rune r ! 0 = r \<and> r < 128 \<or> 194 \<le> encode_rune r ! 0 \<and> encode_rune r ! 0 \<le> 244"
proof -
  have "0 \<le> r" "r \<le> 1114111" "valid_rune r" using assms by (auto simp: plain_rune_def valid_rune_def)
  then show ?thesis by (auto simp: encode_rune_def Let_def)
qed

lemma encode_rune_not_control:
  assumes "plain_rune r"
  shows "ctrl_key (encode_rune r ! 0) = None" "encode_rune r ! 0 \<noteq> keyEscape"
  using encode_rune_head [OF assms] assms by (auto simp: ctrl_key_def key_defs plain_rune_def)

lemma rune_size_encode:
  assumes "plain_rune r"
  shows "rune_size (encode_rune r ! 0) = length (encode_rune r)"
proof -
  have r: "0 \<le> r" "r \<le> 1114111" "valid_rune r" using assms by (auto simp: plain_rune_def valid_rune_def)
  then have "2048 \<le> r \<Longrightarrow> r < 65536 \<Longrightarrow> r div 4096 < 16" "r div 262144 \<le> 4" "r < 2048 \<Longrightarrow> r div 64 < 32" "128 \<le> r \<Longrightarrow> 2 \<le> r div 64" by auto
  then show ?thesis using r by (auto simp: encode_rune_def Let_def rune_size_def)
qed

lemma bytesToKey_plain:
  assumes "plain_rune r"
  shows "bytesToKey (encode_rune r @ rest) False = (r, rest)"
proof -
  have h: "(encode_rune r @ rest) ! 0 = encode_rune r ! 0" by (cases "encode_rune r") auto
  have "full_rune (encode_rune r @ rest)"
    unfolding full_rune_def Let_def h by (simp add: rune_size_encode [OF assms])
  moreover have "decode_rune (encode_rune r @ rest) = (r, length (encode_rune r))"
    using assms by (simp add: decode_encode_rune plain_rune_def)
  ultimately show ?thesis
    unfolding bytesToKey_def h using encode_rune_not_control [OF assms] by simp
qed

lemma bytesToKey_nil: "bytesToKey [] paste = (RuneError, [])"
  by (simp add: bytesToKey_def)

lemma continuation_encode:
  assumes "plain_rune r"
  shows "1 < length (encode_rune r) \<Longrightarrow> continuation
      (if encode_rune r ! 0 = 224 then 160 else if encode_rune r ! 0 = 240 then 144 else 128)
      (if encode_rune r ! 0 = 237 then 159 else if encode_rune r ! 0 = 244 then 143 else 191) (encode_rune r ! 1)"
    "2 < length (encode_rune r) \<Longrightarrow> continuation 128 191 (encode_rune r ! 2)"
proof -
  have "snd (decode_rune (encode_rune r)) = length (encode_rune r)"
    using decode_encode_rune [of r "[]"] assms by (simp add: plain_rune_def)
  then show "1 < length (encode_rune r) \<Longrightarrow> continuation
      (if encode_rune r ! 0 = 224 then 160 else if encode_rune r ! 0 = 240 then 144 else 128)
      (if encode_rune r ! 0 = 237 then 159 else if encode_rune r ! 0 = 244 then 143 else 191) (encode_rune r ! 1)"
    "2 < length (encode_rune r) \<Longrightarrow> continuation 128 191 (encode_rune r ! 2)"
    unfolding decode_rune_def Let_def by (auto split: if_splits)
qed

lemma bytesToKey_partial:
  assumes "plain_rune r" and "encode_rune r = u @ v" and "v \<noteq> []"
  shows "bytesToKey u False = (RuneError, u)"
proof (cases "u = []")
  case True
  then show ?thesis by (simp add: bytesToKey_def)
next
  case False
  have n: "i < length u \<Longrightarrow> encode_rune r ! i = u ! i" for i using assms(2) by (simp add: nth_append)
  have l: "length u < length (encode_rune r)" using assms(2,3) by simp
  have "\<not> full_rune u"
    using rune_size_encode [OF assms(1)] l continuation_encode [OF assms(1)] n False by (auto simp: full_rune_def Let_def)
  then show ?thesis
    using encode_rune_not_control [OF assms(1)] n [of 0] False by (simp add: bytesToKey_def)
qed

section \<open>Typing a line\<close>

text \<open>A terminal at the end of a line that is being typed.\<close>

definition typing :: "terminal \<Rightarrow> rune list \<Rightarrow> bool" where
  "typing t rs \<longleftrightarrow> wf_terminal t \<and> AutoCompleteCallback t = None \<and> \<not> pasteActive t \<and> before (editor_of t) = rs \<and> after (editor_of t) = []"

lemma typing_hidden:
  assumes "typing t rs" and "plain_rune r" and "handleKey r t = Some (t', None)" and "\<not> t_echo t"
  shows "outBuf t' = outBuf t"
proof -
  have "handleKey r t = map_option (\<lambda>t'. (t', None)) (handle_text r t)"
    using plain_rune_key [OF assms(2)] assms(1) by (simp add: handleKey_def handle_edit_text typing_def)
  then show ?thesis
    using assms(1,3,4) by (auto simp: handle_text_def addKeyToLine_def moveCursorToPos_def typing_def Let_def split: if_splits)
qed

lemma typing_plain:
  assumes "typing t rs" and "plain_rune r" and "length rs < maxLineLength"
  shows "\<exists>t'. handleKey r t = Some (t', None) \<and> typing t' (rs @ [r]) \<and> term_settings t' = term_settings t \<and> (\<not> t_echo t \<longrightarrow> outBuf t' = outBuf t)"
proof -
  have "ed_key False r (editor_of t) = (ed_insert r (editor_of t), None)"
    using plain_rune_key [OF assms(2)] assms(1,3) by (simp add: ed_key_def ed_edit_def control_keys_def typing_def)
  then have "\<exists>t'. handleKey r t = Some (t', None) \<and> typing t' (rs @ [r]) \<and> term_settings t' = term_settings t"
    using handleKey_editor [of t r] assms(1)
    by (auto simp: typing_def term_settings_def ed_insert_def simp del: editor_sel)
  then show ?thesis using typing_hidden [OF assms(1,2)] by blast
qed

lemma typing_enter:
  assumes "typing t rs"
  shows "\<exists>t'. handleKey keyEnter t = Some (t', Some (encode_runes rs)) \<and> typing t' [] \<and> term_settings t' = term_settings t
    \<and> (\<not> t_echo t \<longrightarrow> outBuf t' = outBuf t @ [13, 10])"
proof -
  have "\<exists>t'. handleKey keyEnter t = Some (t', Some (encode_runes rs)) \<and> typing t' [] \<and> term_settings t' = term_settings t"
    using handleKey_editor [of t keyEnter] assms
    by (auto simp: typing_def term_settings_def ed_key_def simp del: editor_sel)
  moreover have "outBuf t' = outBuf t @ [13, 10]" if "handleKey keyEnter t = Some (t', l)" "\<not> t_echo t" for t' l
    using that by (auto simp: handleKey_def handle_enter_def moveCursorToPos_def queue_def encode_runes_def encode_rune_def valid_rune_def)
  ultimately show ?thesis by blast
qed

lemma typing_paste: "typing t rs \<Longrightarrow> pasteActive t = False"
  by (simp add: typing_def)

lemma encode_runes_simps [simp]: "encode_runes [] = []" "encode_runes (r # rs) = encode_rune r @ encode_runes rs"
  "encode_runes (rs @ qs) = encode_runes rs @ encode_runes qs"
  by (simp_all add: encode_runes_def)

lemma term_settings_remainder: "term_settings t = term_settings u \<Longrightarrow> t_remainder t = t_remainder u \<and> t_echo t = t_echo u"
  by (simp add: term_settings_def)

text \<open>The key loop on plain text, followed by an incomplete rune or by \<^verbatim>\<open>Enter\<close>.\<close>

lemma key_loop_plain:
  assumes "typing t qs" and "list_all plain_rune rs" and "length qs + length rs \<le> maxLineLength"
  shows "\<exists>t'. typing t' (qs @ rs) \<and> term_settings t' = term_settings t \<and> (\<not> t_echo t \<longrightarrow> outBuf t' = outBuf t) \<and>
    key_loop t (encode_runes rs @ bs) False = key_loop t' bs False"
  using assms
proof (induction rs arbitrary: t qs)
  case (Cons r rs)
  obtain t1 where t1: "handleKey r t = Some (t1, None)" "typing t1 (qs @ [r])" "term_settings t1 = term_settings t"
    "\<not> t_echo t \<longrightarrow> outBuf t1 = outBuf t" using typing_plain [of t qs r] Cons.prems by auto
  have "bytesToKey (encode_rune r @ (encode_runes rs @ bs)) False = (r, encode_runes rs @ bs)"
    using Cons.prems(2) by (intro bytesToKey_plain) simp
  then have "key_loop t (encode_runes (r # rs) @ bs) False = key_loop t1 (encode_runes rs @ bs) False"
    using plain_rune_key [of r] Cons.prems(2) typing_paste [OF Cons.prems(1)] t1(1) by (subst key_loop.simps) simp
  then show ?case using Cons.IH [OF t1(2)] Cons.prems(2,3) t1(3,4) term_settings_remainder [OF t1(3)] by auto
qed auto

lemma key_loop_partial:
  assumes "\<not> pasteActive t" and "bytesToKey u False = (RuneError, u)"
  shows "key_loop t u p = KeysDone t u p None"
  using assms by (subst key_loop.simps) simp

lemma bytesToKey_enter: "bytesToKey (13 # bs) False = (keyEnter, bs)"
  by (simp add: bytesToKey_def ctrl_key_def full_rune_def rune_size_def decode_rune_def key_defs)

lemma key_loop_enter:
  assumes "typing t rs"
  shows "\<exists>t'. key_loop t (13 # bs) False = KeysDone t' bs False (Some (encode_runes rs)) \<and> typing t' [] \<and> term_settings t' = term_settings t
    \<and> (\<not> t_echo t \<longrightarrow> outBuf t' = outBuf t @ [13, 10])"
proof -
  obtain t' where t': "handleKey keyEnter t = Some (t', Some (encode_runes rs))" "typing t' []" "term_settings t' = term_settings t"
    "\<not> t_echo t \<longrightarrow> outBuf t' = outBuf t @ [13, 10]" using typing_enter [OF assms] by blast
  have "keyEnter \<noteq> RuneError" "keyEnter \<noteq> keyCtrlD" "keyEnter \<noteq> keyPasteStart" by (simp_all add: key_defs)
  then have "key_loop t (13 # bs) False = KeysDone t' bs False (Some (encode_runes rs))"
    using t'(1) typing_paste [OF assms] by (subst key_loop.simps) (simp add: bytesToKey_enter)
  then show ?thesis using t' by blast
qed

text \<open>Where a prefix of the bytes of a line ends.\<close>

definition cut_rune :: "int list \<Rightarrow> rune list \<Rightarrow> bool" where
  "cut_rune v rs \<longleftrightarrow> v = [] \<or> (\<exists>r y rs'. rs = r # rs' \<and> encode_rune r = v @ y \<and> y \<noteq> [])"

lemma prefix_of_text:
  assumes "u @ w = encode_runes rs @ 13 # later"
  shows "(\<exists>m. u = encode_runes rs @ 13 # m \<and> later = m @ w)
   \<or> (\<exists>rs1 rs2 v x. rs = rs1 @ rs2 \<and> u = encode_runes rs1 @ v \<and> w = x @ 13 # later \<and> v @ x = encode_runes rs2
       \<and> cut_rune v rs2)"
  using assms
proof (induction rs arbitrary: u)
  case Nil
  then show ?case by (cases u) (auto simp: cut_rune_def)
next
  case (Cons r rs)
  have "\<exists>us. u = encode_rune r @ us \<and> us @ w = encode_runes rs @ 13 # later
      \<or> u @ us = encode_rune r \<and> w = us @ encode_runes rs @ 13 # later"
    using Cons.prems by (simp add: append_eq_append_conv2)
  then obtain us where "u = encode_rune r @ us \<and> us @ w = encode_runes rs @ 13 # later
      \<or> u @ us = encode_rune r \<and> w = us @ encode_runes rs @ 13 # later" ..
  then consider (long) u' where "u = encode_rune r @ u'" "u' @ w = encode_runes rs @ 13 # later"
    | (short) y where "encode_rune r = u @ y" "y \<noteq> []" "w = y @ encode_runes rs @ 13 # later"
    by (cases "us = []") (auto dest: sym [where s = "u @ us"])
  then show ?case
  proof cases
    case long
    from Cons.IH [OF long(2)] show ?thesis
    proof (elim disjE exE conjE)
      fix m assume "u' = encode_runes rs @ 13 # m" "later = m @ w"
      then show ?thesis using long(1) by auto
    next
      fix rs1 rs2 v x assume a: "rs = rs1 @ rs2" "u' = encode_runes rs1 @ v" "w = x @ 13 # later" "v @ x = encode_runes rs2"
        "cut_rune v rs2"
      then show ?thesis using long(1) by (intro disjI2 exI [of _ "r # rs1"] exI [of _ rs2] exI [of _ v] exI [of _ x]) auto
    qed
  next
    case short
    then show ?thesis by (intro disjI2 exI [of _ "[]"] exI [of _ "r # rs"] exI [of _ u] exI [of _ "y @ encode_runes rs"]) (auto simp: cut_rune_def)
  qed
qed

lemma typing_update [simp]: "typing (t\<lparr>t_remainder := r\<rparr>) rs = typing t rs" "typing (t\<lparr>outBuf := b\<rparr>) rs = typing t rs"
  by (simp_all add: typing_def wf_terminal_def wf_text_def editor_of_def)

lemma finish_line_done:
  assumes "wf_ring (t_history t)"
  shows "\<exists>t'. finish_line line False t io = ReadDone line None t' io \<and> (\<not> t_echo t \<longrightarrow> t_history t' = t_history t)"
  using ring_Add_list [OF assms, of line] by (auto simp: finish_line_def)

lemma encode_rune_length: "length (encode_rune r) \<le> 4"
  by (simp add: encode_rune_def Let_def)

lemma c_Write_chunks [simp]: "chunks (snd (c_Write b io)) = chunks io"
  by (simp add: c_Write_def Let_def split: list.splits)

lemma c_Write_written [simp]: "written (snd (c_Write b io)) = written io @ [b]"
  by (simp add: c_Write_def Let_def split: list.splits)

lemma read_loop_typed:
  assumes "typing t qs" and "list_all plain_rune rs" and "length qs + length rs \<le> maxLineLength"
    and "list_all (\<lambda>c. snd c = None) (chunks io)"
    and "t_remainder t @ concat (map fst (chunks io)) = encode_runes rs @ 13 # later"
  shows "\<exists>t' io'. read_loop t io False = ReadDone (encode_runes (qs @ rs)) None t' io' \<and>
    (\<not> t_echo t \<longrightarrow> t_history t' = t_history t \<and> concat (written io') = concat (written io) @ outBuf t @ [13, 10])"
  using assms
proof (induction "sum_list (map (\<lambda>(b, e). Suc (length b)) (chunks io))" arbitrary: t io qs rs rule: less_induct)
  case less
  from prefix_of_text [OF less.prems(5)] show ?case
  proof (elim disjE exE conjE)
    fix m assume r: "t_remainder t = encode_runes rs @ 13 # m"
    obtain t1 where t1: "typing t1 (qs @ rs)" "key_loop t (encode_runes rs @ 13 # m) False = key_loop t1 (13 # m) False"
      "term_settings t1 = term_settings t" "\<not> t_echo t \<longrightarrow> outBuf t1 = outBuf t" using key_loop_plain [OF less.prems(1-3)] by blast
    obtain t2 where t2: "key_loop t1 (13 # m) False = KeysDone t2 m False (Some (encode_runes (qs @ rs)))" "typing t2 []"
      "term_settings t2 = term_settings t1" "\<not> t_echo t1 \<longrightarrow> outBuf t2 = outBuf t1 @ [13, 10]" using key_loop_enter [OF t1(1)] by blast
    let ?t = "t2\<lparr>t_remainder := take inBuf_size m, outBuf := []\<rparr>"
    have "wf_ring (t_history ?t)" using t2(2) by (simp add: typing_def wf_terminal_def wf_text_def)
    from finish_line_done [OF this, of "encode_runes (qs @ rs)" "snd (c_Write (outBuf t2) io)"] show ?thesis
      using t1 t2 r by (subst read_loop.simps) (auto simp: Let_def flush_out_def term_settings_def)
  next
    fix rs1 rs2 v x
    assume a: "rs = rs1 @ rs2" "t_remainder t = encode_runes rs1 @ v" "concat (map fst (chunks io)) = x @ 13 # later"
      "v @ x = encode_runes rs2" "cut_rune v rs2"
    have p: "bytesToKey v False = (RuneError, v)" "length v < inBuf_size"
    proof -
      show "bytesToKey v False = (RuneError, v)"
        using a(5) a(1) less.prems(2) bytesToKey_partial [of "hd rs2" v] bytesToKey_nil by (auto simp: cut_rune_def)
      show "length v < inBuf_size"
        using a(5) encode_rune_length [of "hd rs2"] by (auto simp: inBuf_size_def cut_rune_def)
    qed
    obtain t1 where t1: "typing t1 (qs @ rs1)" "key_loop t (encode_runes rs1 @ v) False = key_loop t1 v False" "term_settings t1 = term_settings t"
      "\<not> t_echo t \<longrightarrow> outBuf t1 = outBuf t" using key_loop_plain [of t qs rs1 v] less.prems(1-3) a(1) by auto
    have k: "key_loop t (t_remainder t) False = KeysDone t1 v False None"
      using key_loop_partial [OF _ p(1), of t1] t1 a(2) typing_paste by simp
    obtain b cs where c: "chunks io = (b, None) # cs" using a(3) less.prems(4) by (cases "chunks io") auto
    let ?t2 = "t1\<lparr>t_remainder := v, outBuf := []\<rparr>" let ?io = "snd (c_Write (outBuf t1) io)" let ?n = "inBuf_size - length v"
    have e: "read_loop t io False = (if length b > ?n
      then read_loop (?t2\<lparr>t_remainder := v @ take ?n b\<rparr>) (?io\<lparr>chunks := (drop ?n b, None) # cs\<rparr>) False
      else read_loop (?t2\<lparr>t_remainder := v @ b\<rparr>) (?io\<lparr>chunks := cs\<rparr>) False)"
      using k c p(2) by (subst read_loop.simps) (simp add: Let_def flush_out_def)
    have rest: "v @ concat (map fst (chunks io)) = encode_runes rs2 @ 13 # later" using a(3,4) by (metis append.assoc)
    have ih: "\<exists>t' io'. read_loop (?t2\<lparr>t_remainder := v @ d\<rparr>) (?io\<lparr>chunks := ds\<rparr>) False = ReadDone (encode_runes ((qs @ rs1) @ rs2)) None t' io' \<and>
      (\<not> t_echo ?t2 \<longrightarrow> t_history t' = t_history ?t2 \<and> concat (written io') = concat (written ?io) @ [13, 10])"
      if "d @ concat (map fst ds) = concat (map fst (chunks io))" "list_all (\<lambda>c. snd c = None) ds"
        "sum_list (map (\<lambda>(b, e). Suc (length b)) ds) < sum_list (map (\<lambda>(b, e). Suc (length b)) (chunks io))" for d ds
      using less.hyps [of "?io\<lparr>chunks := ds\<rparr>" "?t2\<lparr>t_remainder := v @ d\<rparr>" "qs @ rs1" rs2] that t1(1) less.prems(2,3) a(1) rest
      by simp
    have s: "t_echo t1 = t_echo t" "t_history t1 = t_history t" using t1(3) by (simp_all add: term_settings_def)
    show ?thesis
    proof (cases "length b > ?n")
      case True
      have "take ?n b @ concat (map fst ((drop ?n b, None) # cs)) = concat (map fst (chunks io))" by (simp add: c flip: append.assoc)
      moreover have "sum_list (map (\<lambda>(b, e). Suc (length b)) ((drop ?n b, None) # cs)) < sum_list (map (\<lambda>(b, e). Suc (length b)) (chunks io))"
        using True p(2) by (simp add: c)
      ultimately show ?thesis
        using ih [of "take ?n b" "(drop ?n b, None) # cs"] e True c less.prems(4) a(1) s t1(4) by auto
    next
      case False
      then show ?thesis using ih [of b cs] e c less.prems(4) a(1) s t1(4) by auto
    qed
  qed
qed

text \<open>What is written for the prompt when a line begins.\<close>

definition prompt_output :: "terminal \<Rightarrow> int list" where
  "prompt_output t = (case writeLine (t_prompt t) t of None \<Rightarrow> [] | Some u \<Rightarrow> outBuf u)"

lemma readLine_start:
  assumes "typing t []" and "cursorX t = 0" and "cursorY t = 0"
  shows "\<exists>t' io'. readLine t io = read_loop t' io' False \<and> typing t' [] \<and> term_settings t' = term_settings t \<and> chunks io' = chunks io
    \<and> outBuf t' = [] \<and> written io' = written io @ [prompt_output t]"
proof -
  have "wf_cursor t" using assms(1) by (simp add: typing_def wf_terminal_def)
  from writeLine_yields [OF this, of "t_prompt t"] obtain u where u: "writeLine (t_prompt t) t = Some u" "wf_cursor u" "text_of u = text_of t"
    by (rule yieldsE)
  note sel = text_of_sel [OF u(3)]
  have "editor_of u = editor_of t" by (simp add: editor_of_def sel)
  then have "typing u []" using assms(1) u(2) by (simp add: typing_def wf_terminal_def wf_text_def sel del: editor_sel)
  then have "typing (u\<lparr>outBuf := []\<rparr>) []" "readLine t io = read_loop (u\<lparr>outBuf := []\<rparr>) (snd (c_Write (outBuf u) io)) False"
    using u(1) assms(2,3) typing_paste [OF assms(1)] sel(4) by (simp_all add: readLine_def flush_out_def)
  moreover have "term_settings (u\<lparr>outBuf := []\<rparr>) = term_settings t" by (simp add: term_settings_def sel)
  ultimately show ?thesis
    using u(1) by (intro exI [of _ "u\<lparr>outBuf := []\<rparr>"] exI conjI) (assumption | simp add: prompt_output_def)+
qed

lemma readLine_typed:
  assumes "typing t []" and "cursorX t = 0" and "cursorY t = 0" and "t_remainder t = []"
    and "list_all plain_rune rs" and "length rs \<le> maxLineLength"
    and "list_all (\<lambda>c. snd c = None) (chunks io)" and "concat (map fst (chunks io)) = encode_runes rs @ 13 # later"
  shows "\<exists>t' io'. readLine t io = ReadDone (encode_runes rs) None t' io' \<and>
    (\<not> t_echo t \<longrightarrow> t_history t' = t_history t \<and> concat (written io') = concat (written io) @ prompt_output t @ [13, 10])"
proof -
  obtain t1 io1 where s: "readLine t io = read_loop t1 io1 False" "typing t1 []" "term_settings t1 = term_settings t" "chunks io1 = chunks io"
    "outBuf t1 = []" "written io1 = written io @ [prompt_output t]"
    using readLine_start [OF assms(1-3), of io] by blast
  have e: "t_remainder t1 = []" "t_echo t1 = t_echo t" "t_history t1 = t_history t" using s(3) assms(4) by (simp_all add: term_settings_def)
  then show ?thesis using read_loop_typed [OF s(2) assms(5), of io1 later] s assms(6-8) by auto
qed

text \<open>
  C28. \<^verbatim>\<open>ReadLine\<close> returns the line that was typed. For any text of printable runes, at most 4096 of them, the bytes of the text and of
  \<^verbatim>\<open>Enter\<close> may arrive in chunks of any size, cut within a rune too, with anything after them:
  the reader gets exactly the bytes of the text.
\<close>

theorem ReadLine_typed:
  assumes "typing t []" and "cursorX t = 0" and "cursorY t = 0" and "t_remainder t = []"
    and "list_all plain_rune rs" and "length rs \<le> maxLineLength"
    and "list_all (\<lambda>c. snd c = None) (chunks io)" and "concat (map fst (chunks io)) = encode_runes rs @ 13 # later"
  shows "\<exists>t' io'. ReadLine t io = ReadDone (encode_runes rs) None t' io'"
  using readLine_typed [OF assms] by (auto simp: ReadLine_def)

lemma typing_NewTerminal: "typing (NewTerminal p) []" "cursorX (NewTerminal p) = 0" "cursorY (NewTerminal p) = 0"
  "t_remainder (NewTerminal p) = []" "t_prompt (NewTerminal p) = decode_bytes p"
  by (simp_all add: typing_def) (simp_all add: NewTerminal_def)

lemma encode_e_acute: "encode_runes [233, 97] = [195, 169, 97]"
  by (simp add: encode_rune_def valid_rune_def)

theorem ReadLine_typed_witness:
  "\<exists>t' io'. ReadLine (NewTerminal [62]) \<lparr>written = [], wanswers = [], chunks = [([195], None), ([169, 97, 13, 4], None)]\<rparr>
     = ReadDone [195, 169, 97] None t' io'"
  using ReadLine_typed [of "NewTerminal [62]" "[233, 97]" "\<lparr>written = [], wanswers = [], chunks = [([195], None), ([169, 97, 13, 4], None)]\<rparr>" "[4]"]
  unfolding encode_e_acute by (simp add: typing_NewTerminal plain_rune_def valid_rune_def RuneError_def maxLineLength_def)



section \<open>A change of the size\<close>

lemma clear_sel: "text_of (clear_down t) = text_of t" "text_of (move a b c d t) = text_of t"
  by (simp_all add: clear_down_def clearLineToRight_def text_of_update move_def)

lemma clear_down_text: "text_of ((clear_down ^^ n) t) = text_of t"
  by (induction n) (simp_all add: clear_sel)

text \<open>The state from which everything is painted again.\<close>

definition rows_cleared :: "int \<Rightarrow> terminal \<Rightarrow> terminal" where
  "rows_cleared n t =
     (let t2 = (clear_down ^^ nat n) (clearLineToRight ((move (cursorY t) 0 (cursorX t) 0 t)\<lparr>cursorX := 0, cursorY := 0\<rparr>))
      in (move (cursorY t2) 0 0 0 t2)\<lparr>cursorX := 0, cursorY := 0\<rparr>)"

lemma rows_cleared_props:
  "text_of (rows_cleared n t) = text_of t" "cursorX (rows_cleared n t) = 0" "cursorY (rows_cleared n t) = 0"
  by (simp_all add: rows_cleared_def Let_def text_of_update clear_sel clear_down_text clearLineToRight_def)

lemma clearAndRepaint_eq:
  "clearAndRepaintLinePlusNPrevious n t = (if cursorX t < 0 \<or> cursorY t < 0 then None
     else advanceCursor (visualLength (t_prompt (rows_cleared n t))) (queue (t_prompt (rows_cleared n t)) (rows_cleared n t)) \<bind>
       (\<lambda>t4. writeLine (t_line t4) t4 \<bind> (\<lambda>t5. moveCursorToPos (t_pos t5) t5)))"
  by (simp add: clearAndRepaintLinePlusNPrevious_def rows_cleared_def Let_def)

lemma clearAndRepaint_yields:
  assumes "0 < termWidth t" and "0 \<le> cursorX t" and "0 \<le> cursorY t" and "0 \<le> t_pos t"
  shows "yields (clearAndRepaintLinePlusNPrevious n t) t \<and> (\<forall>t'. clearAndRepaintLinePlusNPrevious n t = Some t' \<longrightarrow> cursor_right t')"
proof -
  let ?c = "rows_cleared n t"
  note sel = text_of_sel [OF rows_cleared_props(1) [of n t]]
  have c: "wf_cursor (queue (t_prompt ?c) ?c)" using assms(1) rows_cleared_props(2,3) sel(5) by (simp add: wf_cursor_def queue_def)
  obtain t4 where t4: "advanceCursor (visualLength (t_prompt ?c)) (queue (t_prompt ?c) ?c) = Some t4" "wf_cursor t4" "text_of t4 = text_of t"
    using advanceCursor_yields [OF c, of "visualLength (t_prompt ?c)"] rows_cleared_props(1) by (auto elim: yieldsE)
  obtain t5 where t5: "writeLine (t_line t4) t4 = Some t5" "wf_cursor t5" "text_of t5 = text_of t"
    using writeLine_yields [OF t4(2), of "t_line t4"] t4(3) by (auto elim: yieldsE)
  have p: "t_pos t5 = t_pos t" using text_of_sel(2) [OF t5(3)] .
  obtain t6 where t6: "moveCursorToPos (t_pos t5) t5 = Some t6" "wf_cursor t6" "text_of t6 = text_of t"
    using moveCursorToPos_yields [OF t5(2), of "t_pos t5"] p assms(4) t5(3) by (auto elim: yieldsE)
  have "cursor_right t6"
    using moveCursorToPos_at [OF t5(2) _ t6(1)] p assms(4) text_of_sel(2) [OF t6(3)] by (simp add: cursor_right_def)
  then show ?thesis using t4(1) t5(1) t6 assms(2,3) by (simp add: clearAndRepaint_eq)
qed

text \<open>
  A change of the size keeps the terminal well formed and its text as it is; whenever anything is painted again, the cursor is
  at its place for the new width.
\<close>

theorem SetSize_keeps_text:
  assumes "wf_terminal t" and "0 \<le> width"
  shows "\<exists>e t' io'. SetSize width height t io = Some (e, t', io') \<and> wf_terminal t' \<and> editor_of t' = editor_of t
    \<and> termWidth t' = (if width = 0 then 1 else width) \<and> termHeight t' = height \<and> (cursor_right t' \<or> t' = t\<lparr>termWidth := termWidth t', termHeight := height\<rparr>)"
proof -
  note wf = wf_terminalD [OF assms(1)]
  define w where "w = (if width = 0 then 1 else width)"
  let ?t1 = "t\<lparr>termWidth := w, termHeight := height\<rparr>"
  let ?t2 = "?t1\<lparr>cursorX := (if cursorX t \<ge> w then w - 1 else cursorX t), cursorY := cursorY t * 2\<rparr>"
  have w: "0 < w" using assms(2) by (simp add: w_def)
  have c: "0 \<le> cursorX t" "0 \<le> cursorY t" using wf(1) by (simp_all add: wf_cursor_def)
  have painted: "\<exists>e t' io'. finish_size io (clearAndRepaintLinePlusNPrevious n u) = Some (e, t', io') \<and> wf_terminal t' \<and> editor_of t' = editor_of t
      \<and> termWidth t' = w \<and> termHeight t' = height \<and> cursor_right t'"
    if u: "text_of u = text_of ?t1" "0 \<le> cursorX u" "0 \<le> cursorY u" for u n
  proof -
    note s = text_of_sel [OF u(1)]
    obtain v where v: "clearAndRepaintLinePlusNPrevious n u = Some v" "wf_cursor v" "text_of v = text_of u" "cursor_right v"
      using clearAndRepaint_yields [of u n] u(2,3) s w wf(2) by (auto elim: yieldsE)
    note sv = text_of_sel [OF v(3)]
    have "wf_terminal (v\<lparr>outBuf := []\<rparr>)" using v(2) sv s assms(1) by (simp add: wf_terminal_def wf_text_def)
    moreover have "editor_of (v\<lparr>outBuf := []\<rparr>) = editor_of t" using sv s by (simp add: editor_of_def)
    moreover have "cursor_right (v\<lparr>outBuf := []\<rparr>)" using v(4) by (simp add: cursor_right_def cursor_at_def)
    ultimately show ?thesis using v(1) sv s by (auto simp: finish_size_def)
  qed
  have t2: "text_of ?t2 = text_of ?t1" "0 \<le> cursorX ?t2" "0 \<le> cursorY ?t2" using c w by (auto simp: text_of_def)
  have e: "SetSize width height t io =
      (if w = termWidth t \<or> t_line t = [] \<and> cursorX t = 0 \<and> cursorY t = 0 then Some (None, ?t1, io)
       else if w < termWidth t then finish_size io (clearAndRepaintLinePlusNPrevious (maxLine t * 2) ?t2)
       else finish_size io (clearAndRepaintLinePlusNPrevious (maxLine t) ?t1))"
    unfolding SetSize_def Let_def w_def by simp
  consider (quiet) "SetSize width height t io = Some (None, ?t1, io)" "w = termWidth t \<or> cursorX t = 0 \<and> cursorY t = 0"
    | (paint) n u where "SetSize width height t io = finish_size io (clearAndRepaintLinePlusNPrevious n u)"
      "text_of u = text_of ?t1" "0 \<le> cursorX u" "0 \<le> cursorY u"
  proof (cases "w = termWidth t \<or> t_line t = [] \<and> cursorX t = 0 \<and> cursorY t = 0")
    case True
    then show ?thesis using quiet e by auto
  next
    case False
    then show ?thesis using paint [of "maxLine t * 2" ?t2] paint [of "maxLine t" ?t1] e t2 c by (cases "w < termWidth t") auto
  qed
  then show ?thesis
  proof cases
    case quiet
    then have "wf_terminal ?t1" using assms(1) w by (auto simp: wf_terminal_def wf_text_def wf_cursor_def)
    then show ?thesis using quiet(1) by (auto simp: editor_of_def w_def)
  next
    case paint
    then show ?thesis using painted [of u n] unfolding w_def by auto
  qed
qed

lemma writeLine_one_row:
  assumes "0 < termWidth t" and "int (length l) \<le> termWidth t - cursorX t" and "l \<noteq> []"
  shows "\<exists>t' b. writeLine l t = Some t' \<and> outBuf t' = outBuf t @ encode_runes l @ b"
  using assms by (subst writeLine.simps) (auto simp: Let_def advanceCursor_def queue_def writeLine.simps)

lemma moveCursorToPos_hidden: "\<not> t_echo t \<Longrightarrow> moveCursorToPos p t = Some t"
  by (simp add: moveCursorToPos_def)

lemma clearAndRepaint_shows:
  assumes "0 < termWidth t" and "0 \<le> cursorX t" and "0 \<le> cursorY t" and "\<not> t_echo t" and "t_line t \<noteq> []"
    and "visualLength (t_prompt t) + int (length (t_line t)) < termWidth t"
  shows "\<exists>t'. clearAndRepaintLinePlusNPrevious n t = Some t' \<and> sublist (encode_runes (t_line t)) (outBuf t')"
proof -
  let ?c = "rows_cleared n t"
  note sel = text_of_sel [OF rows_cleared_props(1) [of n t]]
  have vl: "visualLength (t_prompt t) < termWidth t" using assms(6) by simp
  obtain t4 where t4: "advanceCursor (visualLength (t_prompt ?c)) (queue (t_prompt ?c) ?c) = Some t4"
    "cursorX t4 = visualLength (t_prompt t)" "t_line t4 = t_line t" "termWidth t4 = termWidth t" "t_echo t4 = t_echo t"
    using assms(1) vl rows_cleared_props(2) [of n t] by (simp add: advanceCursor_def Let_def queue_def sel go_rem_pos)
  obtain t5 b where t5: "writeLine (t_line t4) t4 = Some t5" "outBuf t5 = outBuf t4 @ encode_runes (t_line t4) @ b"
    using writeLine_one_row [of t4 "t_line t4"] t4 assms(1,5,6) by auto
  have "wf_cursor (queue (t_prompt ?c) ?c)" using assms(1) rows_cleared_props(2,3) sel(5) by (simp add: wf_cursor_def queue_def)
  from yieldsD [OF advanceCursor_yields [OF this visualLength_nonneg] t4(1)] have w4: "wf_cursor t4" by simp
  have "t_echo t5 = t_echo t4" using text_of_sel(3) [OF yieldsD(2) [OF writeLine_yields [OF w4] t5(1)]] .
  then show ?thesis
    using t4 t5 assms(2-4) by (auto simp: clearAndRepaint_eq moveCursorToPos_hidden sublist_def)
qed

text \<open>
  C32. A change of the size while a password is read prints what was typed of it: the line is painted again without a look at the echo.
\<close>

theorem SetSize_shows_hidden_line:
  assumes "wf_terminal t" and "\<not> t_echo t" and "t_line t \<noteq> []" and "width \<noteq> termWidth t" and "0 < width"
    and "visualLength (t_prompt t) + int (length (t_line t)) < width"
  shows "\<exists>e t' io' out. SetSize width height t io = Some (e, t', io') \<and> written io' = written io @ [out] \<and> sublist (encode_runes (t_line t)) out"
proof -
  have c: "0 \<le> cursorX t" "0 \<le> cursorY t" using assms(1) by (simp_all add: wf_terminal_def wf_cursor_def)
  have r: "\<exists>t'. clearAndRepaintLinePlusNPrevious n u = Some t' \<and> sublist (encode_runes (t_line t)) (outBuf t')"
    if "termWidth u = width" "0 \<le> cursorX u" "0 \<le> cursorY u" "t_echo u = t_echo t" "t_line u = t_line t" "t_prompt u = t_prompt t" for n u
    using clearAndRepaint_shows [of u n] that assms(2,3,5,6) by simp
  show ?thesis
  proof (cases "width < termWidth t")
    case True
    with c assms(5) show ?thesis
      using r [of "t\<lparr>termWidth := width, termHeight := height, cursorX := (if cursorX t \<ge> width then width - 1 else cursorX t),
        cursorY := cursorY t * 2\<rparr>" "maxLine t * 2"] assms(3-5)
      by (auto simp: SetSize_def Let_def finish_size_def)
  next
    case False
    with c assms(5) show ?thesis
      using r [of "t\<lparr>termWidth := width, termHeight := height\<rparr>" "maxLine t"] assms(3-5) by (auto simp: SetSize_def Let_def finish_size_def)
  qed
qed

theorem SetSize_shows_hidden_line_witness:
  "\<exists>e t' io' out. SetSize 100 24 ((NewTerminal [])\<lparr>t_echo := False, t_line := [112, 119], t_pos := 2\<rparr>)
      \<lparr>written = [], wanswers = [], chunks = []\<rparr> = Some (e, t', io') \<and> written io' = [out] \<and> sublist [112, 119] out"
proof -
  let ?t = "(NewTerminal [])\<lparr>t_echo := False, t_line := [112, 119], t_pos := 2\<rparr>"
  have n: "decode_bytes [] = []" by (subst decode_bytes.simps) simp
  have "wf_terminal ?t" "\<not> t_echo ?t" "t_line ?t \<noteq> []" "100 \<noteq> termWidth ?t" "visualLength (t_prompt ?t) + int (length (t_line ?t)) < 100"
    by (simp_all add: NewTerminal_def wf_terminal_def wf_cursor_def wf_text_def empty_ring_def wf_ring_def visualLength_def n)
  moreover have "encode_runes (t_line ?t) = [112, 119]" by (simp add: encode_rune_def valid_rune_def)
  ultimately show ?thesis
    using SetSize_shows_hidden_line [of ?t 100 24 "\<lparr>written = [], wanswers = [], chunks = []\<rparr>"] by simp
qed

section \<open>Writing around the line\<close>

lemma clear_input_props:
  assumes "0 \<le> cursorY t"
  shows "text_of (clear_input t) = text_of t" "cursorX (clear_input t) = 0" "cursorY (clear_input t) = 0"
proof -
  have u: "text_of (clear_up v) = text_of v" "cursorX (clear_up v) = cursorX v" "cursorY (clear_up v) = cursorY v - 1" for v
    by (simp_all add: clear_up_def clearLineToRight_def text_of_update clear_sel) (simp_all add: queue_def)
  have f: "text_of ((clear_up ^^ n) v) = text_of v" "cursorX ((clear_up ^^ n) v) = cursorX v" "cursorY ((clear_up ^^ n) v) = cursorY v - int n" for n v
    by (induction n) (simp_all add: u)
  show "text_of (clear_input t) = text_of t" "cursorX (clear_input t) = 0" "cursorY (clear_input t) = 0"
    using assms by (simp_all add: clear_input_def Let_def f) (simp_all add: clearLineToRight_def text_of_update clear_sel queue_def)
qed

lemma repaint_yields:
  assumes "wf_cursor t" and "0 \<le> t_pos t"
  shows "yields (repaint t) t"
  unfolding repaint_def
proof (rule yields_bind [where t = t])
  show "yields (writeLine (t_prompt t) t) t" using assms(1) by (rule writeLine_yields)
next
  fix t1 assume t1: "wf_cursor t1" "text_of t1 = text_of t"
  show "yields ((if t_echo t1 then writeLine (t_line t1) t1 else Some t1) \<bind> (\<lambda>t2. moveCursorToPos (t_pos t2) t2)) t"
  proof (rule yields_bind [where t = t])
    show "yields (if t_echo t1 then writeLine (t_line t1) t1 else Some t1) t"
      using t1 yields_cong [OF t1(2) writeLine_yields [OF t1(1)]] by simp
  next
    fix t2 assume t2: "wf_cursor t2" "text_of t2 = text_of t"
    show "yields (moveCursorToPos (t_pos t2) t2) t"
      using t2(1) by (rule yields_cong [OF t2(2) moveCursorToPos_yields]) (simp add: text_of_sel(2) [OF t2(2)] assms(2))
  qed
qed

lemma text_of_wf:
  assumes "wf_terminal t" and "wf_cursor u" and "text_of u = text_of t"
  shows "wf_terminal u" "editor_of u = editor_of t" "term_settings u = term_settings t"
  using assms text_of_sel [OF assms(3)] by (simp_all add: wf_terminal_def wf_text_def editor_of_def term_settings_def)

text \<open>
  Output through the terminal while a line is being typed leaves the text alone: \<^verbatim>\<open>Write\<close> never panics, the terminal stays
  well formed, and if no write fails, all of the data is written, between the erasing of the line and its repainting.
\<close>

theorem Write_keeps_text:
  assumes "wf_terminal t"
  shows "\<exists>n e t' io'. term_Write buf t io = Written n e t' io' \<and> wf_terminal t' \<and> editor_of t' = editor_of t \<and> term_settings t' = term_settings t
    \<and> (wanswers io = [] \<longrightarrow> e = None \<and> n = int (length buf)
        \<and> (\<exists>pre post. written io' = written io @ pre @ buf # post \<and> (pre = [] \<longleftrightarrow> cursorX t = 0 \<and> cursorY t = 0)))"
proof (cases "cursorX t = 0 \<and> cursorY t = 0")
  case True
  then show ?thesis
    using assms by (cases "wanswers io") (auto simp: term_Write_def c_Write_def Let_def case_prod_beta)
next
  case False
  note wf = wf_terminalD [OF assms]
  let ?t1 = "clear_input t"
  have "0 \<le> cursorY t" using wf(1) by (simp add: wf_cursor_def)
  note ci = clear_input_props [OF this]
  have w1: "wf_cursor ?t1" using wf(1) ci text_of_sel(5) [OF ci(1)] by (simp add: wf_cursor_def)
  let ?t2 = "?t1\<lparr>outBuf := []\<rparr>"
  have t2: "text_of ?t2 = text_of t" using ci(1) by (simp add: text_of_update)
  obtain u where u: "repaint ?t2 = Some u" "wf_cursor u" "text_of u = text_of t"
    using repaint_yields [of ?t2] w1 wf(2) text_of_sel(2) [OF ci(1)] t2 by (auto elim: yieldsE)
  have "text_of (u\<lparr>outBuf := []\<rparr>) = text_of t" using u(3) by (simp add: text_of_update)
  then have k: "wf_terminal x \<and> editor_of x = editor_of t \<and> term_settings x = term_settings t" if "x \<in> {?t1, ?t2, u, u\<lparr>outBuf := []\<rparr>}" for x
    using that text_of_wf [OF assms] w1 ci(1) t2 u(2,3) by auto
  show ?thesis
    using k [of ?t1] k [of ?t2] k [of u] k [of "u\<lparr>outBuf := []\<rparr>"] False u(1)
    by (auto simp: term_Write_def Let_def c_Write_def intro: exI [of _ "[outBuf ?t1]"] split: list.splits prod.splits option.splits)
qed

section \<open>The end of the input\<close>

text \<open>
  After \<^verbatim>\<open>Ctrl-D\<close> on an empty line the reader gets the end of file, and so it does from every later call: the byte is
  never taken out of the remainder.
\<close>

theorem ReadLine_EOF_stays:
  assumes "typing t []" and "t_line t = []" and "t_remainder t = 4 # r" and "cursorX t \<noteq> 0 \<or> cursorY t \<noteq> 0"
  shows "ReadLine t io = ReadDone [] (Some TermEOF) t io"
proof -
  have "bytesToKey (4 # r) False = (keyCtrlD, r)"
    by (simp add: bytesToKey_def ctrl_key_def full_rune_def rune_size_def decode_rune_def key_defs)
  then have "key_loop t (4 # r) False = KeyEOF t"
    using typing_paste [OF assms(1)] assms(2) by (subst key_loop.simps) (simp add: key_defs)
  moreover have "ReadLine t io = read_loop t io False"
    using assms(4) typing_paste [OF assms(1)] by (auto simp: ReadLine_def readLine_def)
  ultimately show ?thesis using assms(3) by (simp add: read_loop.simps)
qed

end
