(* ===== verification/Spec2Isabelle.thy ===== *)
theory Spec2Isabelle
  imports Sesh_Main Ssh_Algorithms Ssh_Mux Ssh_Auth Dir_Cat Ssh_Keys_Wire Ssh_Handshake_Net Curve25519_Ladder Term_Session
begin

text \<open>
  A verification of \<^verbatim>\<open>sesh\<close>, a command line tool that runs a command on many hosts over SSH, one after
  the other or in parallel batches, shows the output live and prints it host by host. The Go
  sources are under \<^verbatim>\<open>src/\<close>; the tool is bundled with a terminal interface (\<^verbatim>\<open>src/gocui\<close>) and with the SSH
  library it speaks the protocol with (\<^verbatim>\<open>src/golang.org/x/crypto/ssh\<close>).

  \<^bold>\<open>Parts and theories.\<close> \<^verbatim>\<open>main\<close> parses its options, finds the hosts, the user, the key and
  the command, and hands batches of hosts to a runner; a runner makes one task per
  host; a task dials, opens a session and runs the command; below it the SSH connection is a
  multiplexer of channels over a packet transport. While a parallel run lasts, a live view shows
  the tails of the output files. Each theory models one of these parts, with the names of the source.

  \<^item> \<open>Go_Prelude\<close>, \<open>Go_Strings\<close>, \<open>Go_Utf8\<close>, \<open>Go_Scanner\<close>: what the program uses of the language and
    its standard library. Integers of a fixed width are words, strings are lists of bytes, runes
    are integers.
  \<^item> \<open>Host_Config\<close> (\<^verbatim>\<open>hlp.go\<close>): the parsers of host lists and template data. They agree with
    a reference tokenizer, and lists of hosts survive printing and parsing.
  \<^item> \<open>Command_Format\<close> (\<^verbatim>\<open>util/helper.go\<close>): the here-document a script is shipped in, and the command
    that installs a public key.
  \<^item> \<open>Batch_Task\<close> (\<^verbatim>\<open>batch/ssh.go\<close>): a task as the list of its effects, with the answers of
    network and remote host as an argument. Every way a task can end is determined.
  \<^item> \<open>Task_Runner\<close> (\<^verbatim>\<open>util/util.go\<close>): serial and parallel runs. A parallel run takes a schedule, the
    order in which the tasks get their turns; for every schedule that lets them finish the
    output is that of the serial run, printed in blocks in the order of the hosts.
  \<^item> \<open>Cowsay\<close> (\<^verbatim>\<open>cowsay/cowsay.go\<close>): wrapping a text into a box.
  \<^item> \<open>Sesh_Main\<close> (\<^verbatim>\<open>main.go\<close>, \<^verbatim>\<open>templ/templ.go\<close>): the program from its options to its end. The
    batches partition the hosts, and every host is served exactly once, in order.
  \<^item> \<open>Tail_File\<close> (\<^verbatim>\<open>dircat/file_tail.go\<close>): the last lines of a file, found by going back in steps of 50
    bytes; both loops are functions with a termination proof.
  \<^item> \<open>Gocui_View\<close> (\<^verbatim>\<open>gocui/view.go\<close>, \<^verbatim>\<open>gocui/edit.go\<close>), \<open>Gocui_Gui\<close> and \<open>Gocui_Flush\<close>
    (\<^verbatim>\<open>gocui/gui.go\<close>, \<^verbatim>\<open>gocui/keybinding.go\<close>): the terminal interface. Views are objects in a store, since the
    program keeps pointers to them; the terminal is a grid of cells. Drawing equals a
    reference picture, editing inserts and deletes, the views form a table by name, and drawing never fails.
  \<^item> \<open>Dir_Cat\<close> (\<^verbatim>\<open>dircat/dir_cat.go\<close>): the live view, a client of the interface: for which
    sizes its layout panics, that navigation keeps the selection in sight, and that stopping it does not get stuck.
  \<^item> \<open>Ssh_Wire\<close>, \<open>Ssh_Messages\<close> (\<^verbatim>\<open>ssh/messages.go\<close>): the wire format. Encoding never panics and
    decoding inverts it for every message.
  \<^item> \<open>Ssh_Buffer\<close> (\<^verbatim>\<open>ssh/buffer.go\<close>): the linked list of slices refines a queue of bytes.
  \<^item> \<open>Ssh_Window\<close> (\<^verbatim>\<open>ssh/common.go\<close>): flow control at 32 bits, with waiting writers as a step relation.
  \<^item> \<open>Ssh_Algorithms\<close> (\<^verbatim>\<open>ssh/common.go\<close>): negotiation of algorithms and the defaults of a configuration.
  \<^item> \<open>Ssh_Channel\<close>, \<open>Ssh_Channel_Flow\<close> (\<^verbatim>\<open>ssh/channel.go\<close>): the channel with all its methods; bounds of
    the receive window, the packets of a writer, silence after the close message.
  \<^item> \<open>Ssh_Session\<close> (\<^verbatim>\<open>ssh/session.go\<close>): a command over a channel; when exactly it counts as a success.
  \<^item> \<open>Ssh_Auth\<close> (\<^verbatim>\<open>ssh/client_auth.go\<close>): the authentication methods and the loop over them, which ends,
    tries each method once and believes only the server's message of success.
  \<^item> \<open>Ssh_Mux\<close> (\<^verbatim>\<open>ssh/mux.go\<close>): the multiplexer. Channels are objects in a heap; packets for one
    channel leave the others alone, no packet makes the loop panic, its end shuts all channels.
  \<^item> \<open>Ssh_Cipher\<close>, \<open>Ssh_Cipher_Link\<close> (\<^verbatim>\<open>ssh/cipher.go\<close>): the packet ciphers and what holds between
    their two ends.
  \<^item> \<open>Ssh_Transport\<close>, \<open>Ssh_Transport_Link\<close> (\<^verbatim>\<open>ssh/transport.go\<close>, \<^verbatim>\<open>ssh/mac.go\<close>): keys, both directions of a
    transport, changes of keys; a client and a server deliver all packets to each other.
  \<^item> \<open>Ssh_Keys\<close>, \<open>Ssh_Keys_Wire\<close> (\<^verbatim>\<open>ssh/keys.go\<close>, \<^verbatim>\<open>ssh/certs.go\<close>): public keys and certificates, their parsing, checking and issuing.
    Keys survive their encoding, and a signature binds every field of a certificate.
  \<^item> \<open>Ssh_Kex\<close>, \<open>Ssh_Kex_Agree\<close> (\<^verbatim>\<open>ssh/kex.go\<close>): the three key exchange methods on both sides; they end with the same secret.
  \<^item> \<open>Curve25519\<close>, \<open>Curve25519_Field\<close>, \<open>Curve25519_Bytes\<close>, \<open>Curve25519_Ladder\<close> (\<^verbatim>\<open>curve25519/curve25519.go\<close>): the multiplication of points that one of the
    key exchange methods rests on, with limbs of 26 and 25 bits in words of 32 and 64. The limbs refine the field of
    \<open>2\<^sup>2\<^sup>5\<^sup>5 - 19\<close> elements, nothing overflows, and the whole is Montgomery's ladder. On amd64 the package replaces this code by assembly, which is not modelled.
  \<^item> \<open>Ssh_Handshake\<close>, \<open>Ssh_Handshake_Safe\<close>, \<open>Ssh_Handshake_Agree\<close>, \<open>Ssh_Handshake_Net\<close> (\<^verbatim>\<open>ssh/handshake.go\<close>): the handshake, its goroutines as a
    step relation, and a client and a server against each other.
  \<^item> \<open>Term_Keys\<close>, \<open>Term_Editor\<close>, \<open>Term_Drawing\<close>, \<open>Term_Read\<close> (\<^verbatim>\<open>ssh/terminal/terminal.go\<close>): the line editor. \<open>Term_Refine\<close> shows that it refines
    two lists of runes around a cursor, \<open>Term_Cursor\<close> where the cursor of the screen is, \<open>Term_Session\<close> what is read and shown.

  \<^bold>\<open>Correspondence.\<close> A struct is a record, a method a function on the record that returns it
  updated. A pair of a value and an error is a sum or a pair with an optional error; a run-time panic is a value
  of its own (\<open>None\<close>, \<open>Panics\<close>, \<open>Panicked\<close>, \<open>RunPanic\<close>, or the name of the
  failure). An operation that blocks returns a value that says so (\<open>Blocked\<close>, \<open>Waiting\<close>,
  \<open>StillRunning\<close>), and the goroutine goes on when its condition holds. A method that holds a
  lock is one step; goroutines interleave between such steps, by a
  schedule or a step relation (\<open>Ssh_Window\<close>, \<open>Task_Runner\<close>, \<open>Dir_Cat\<close>). Network, file system,
  terminal, clock and the cryptographic primitives are arguments.

  \<^bold>\<open>Interfaces.\<close> \<open>byte_fifo\<close> (a queue of bytes, given by the buffer), \<open>id_table\<close> (objects by
  number, given by the channel list), \<open>name_table\<close> (objects by name, given by the views), \<open>packet_link\<close> (two
  ends of a cipher, given by the stream, GCM and CBC ciphers and by their union), \<open>kex_method\<close> (a key exchange of two
  messages, given by the Diffie-Hellman groups, the NIST curves and curve25519) and \<open>recorded_conn\<close> (a connection that
  remembers what was sent, given by the packet transport) are locales; their
  clients' lemmas are proved in them once and used through the interpretations.

  \<^bold>\<open>Bounds and fuel.\<close> \<open>WriteExtended\<close> has fuel, and its theorem gives enough of it: the length of the
  data and one. \<open>key_material\<close> is a partial function into options, \<open>None\<close> meaning that it does not return; it
  returns for every hash with digests that are not empty. All other loops are total functions. Lengths
  of packets are kept at 32 bits where the source does, and so are sequence numbers, which wrap around.

  \<^bold>\<open>What is assumed of code outside.\<close> Of the cryptographic primitives only that a block cipher is a
  permutation, that \<^verbatim>\<open>Open\<close> inverts \<^verbatim>\<open>Seal\<close> and that digests have their size (\<open>crypto_ok\<close>); of the elliptic curves
  that multiplications commute and points survive their encoding (\<open>kex_crypto_ok\<close>); of a signer that its signatures verify (\<open>host_ok\<close>). Of the
  terminal that writes outside of its grid have no effect. Of the remote hosts nothing.

  \<^bold>\<open>Not modelled.\<close> The option parser and the template engine (third-party packages, parameters of \<open>Sesh_Main\<close>);
  signals; the data race between the two goroutines of the live view inside one handler; private
  keys, which Go's standard library decodes, and the agent; the SSH server and port forwarding, which \<^verbatim>\<open>sesh\<close> does not use; the rest of
  \<^verbatim>\<open>golang.org/x/crypto\<close>, which is bundled and not reached.
\<close>

end
